(* ===== verification/Go_Prelude.thy ===== *)
theory Go_Prelude
  imports Main "HOL-Library.AList" "HOL-Library.Char_ord" "HOL-Library.List_Lexorder"
    "HOL-Library.Product_Lexorder" "HOL-Library.Sublist" "HOL-Library.Multiset"
begin

text \<open>
  Shared vocabulary of the development: the fragments of Go's language and standard
  library that the modelled code calls, as executable HOL functions, and the generic
  lemmas about them.

  \<^item> A Go \<open>string\<close> or \<open>[]byte\<close> is a \<^typ>\<open>string\<close>, a list of bytes (\<^typ>\<open>char\<close>).
    The order on strings (\<open>Char_ord\<close> and \<open>List_Lexorder\<close>) is Go's byte-wise order, so
    \<^const>\<open>sort\<close> is \<open>sort.Strings\<close>.
  \<^item> Case mapping and white space are those of ASCII: bytes from 128 on are left alone.
    The strings the program folds or trims (MAC addresses, hexadecimal fingerprints,
    Proxmox identifiers and tags, configuration lines) are ASCII.
  \<^item> A Go \<open>map\<close> is an association list with distinct keys, read with \<^const>\<open>map_of\<close> and
    changed with \<^const>\<open>AList.update\<close> and \<^const>\<open>AList.delete\<close>. Go leaves the order of a
    \<open>range\<close> over a map open; here it is the order of the list, and the theorems hold for
    every list, hence for every order.
  \<^item> A \<open>time.Time\<close> is the number of nanoseconds since some origin and a \<open>time.Duration\<close>
    a number of nanoseconds, both \<^typ>\<open>int\<close>.
\<close>

named_theorems go_simps \<open>unfolding rules of the modelled Go library\<close>

subsection \<open>Time\<close>

type_synonym time = int
type_synonym duration = int

definition nanosecond :: duration where
  "nanosecond = 1"

definition millisecond :: duration where
  "millisecond = 1000000"

definition second :: duration where
  "second = 1000000000"

definition minute :: duration where
  "minute = 60 * second"

definition hour :: duration where
  "hour = 60 * minute"

lemmas duration_simps = nanosecond_def millisecond_def second_def minute_def hour_def

subsection \<open>Characters\<close>

definition is_space :: "char \<Rightarrow> bool" where
  "is_space c \<longleftrightarrow> c = CHR 0x20 \<or> c = CHR 0x09 \<or> c = CHR 0x0A \<or> c = CHR 0x0B
     \<or> c = CHR 0x0C \<or> c = CHR 0x0D"

definition is_upper :: "char \<Rightarrow> bool" where
  "is_upper c \<longleftrightarrow> 65 \<le> (of_char c :: nat) \<and> (of_char c :: nat) \<le> 90"

definition is_lower :: "char \<Rightarrow> bool" where
  "is_lower c \<longleftrightarrow> 97 \<le> (of_char c :: nat) \<and> (of_char c :: nat) \<le> 122"

definition is_digit :: "char \<Rightarrow> bool" where
  "is_digit c \<longleftrightarrow> 48 \<le> (of_char c :: nat) \<and> (of_char c :: nat) \<le> 57"

definition is_hex_digit :: "char \<Rightarrow> bool" where
  "is_hex_digit c \<longleftrightarrow> is_digit c \<or> 97 \<le> (of_char c :: nat) \<and> (of_char c :: nat) \<le> 102
     \<or> 65 \<le> (of_char c :: nat) \<and> (of_char c :: nat) \<le> 70"

definition lower_char :: "char \<Rightarrow> char" where
  "lower_char c = (if is_upper c then char_of (of_char c + 32 :: nat) else c)"

subsection \<open>Package strings\<close>

definition TrimLeft :: "string \<Rightarrow> string" where
  "TrimLeft s = dropWhile is_space s"

definition TrimSpace :: "string \<Rightarrow> string" where
  "TrimSpace s = rev (dropWhile is_space (rev (dropWhile is_space s)))"

definition ToLower :: "string \<Rightarrow> string" where
  "ToLower s = map lower_char s"

definition EqualFold :: "string \<Rightarrow> string \<Rightarrow> bool" where
  "EqualFold a b \<longleftrightarrow> ToLower a = ToLower b"

definition HasPrefix :: "string \<Rightarrow> string \<Rightarrow> bool" where
  "HasPrefix s p \<longleftrightarrow> take (length p) s = p"

definition HasSuffix :: "string \<Rightarrow> string \<Rightarrow> bool" where
  "HasSuffix s p \<longleftrightarrow> length p \<le> length s \<and> drop (length s - length p) s = p"

definition TrimPrefix :: "string \<Rightarrow> string \<Rightarrow> string" where
  "TrimPrefix s p = (if HasPrefix s p then drop (length p) s else s)"

definition TrimSuffix :: "string \<Rightarrow> string \<Rightarrow> string" where
  "TrimSuffix s p = (if HasSuffix s p then take (length s - length p) s else s)"

fun Contains :: "string \<Rightarrow> string \<Rightarrow> bool" where
  "Contains [] sub \<longleftrightarrow> sub = []"
| "Contains (c # cs) sub \<longleftrightarrow> HasPrefix (c # cs) sub \<or> Contains cs sub"

text \<open>\<open>strings.Split\<close> at a one-byte separator: never an empty list.\<close>

fun split_at_char :: "char \<Rightarrow> string \<Rightarrow> string list" where
  "split_at_char sep [] = [[]]"
| "split_at_char sep (c # cs) =
     (if c = sep then [] # split_at_char sep cs
      else (case split_at_char sep cs of
              [] \<Rightarrow> [[c]]
            | w # ws \<Rightarrow> (c # w) # ws))"

text \<open>\<open>strings.Cut\<close> at a one-byte separator: before, after, found.\<close>

fun Cut :: "string \<Rightarrow> char \<Rightarrow> string \<times> string \<times> bool" where
  "Cut [] sep = ([], [], False)"
| "Cut (c # cs) sep =
     (if c = sep then ([], cs, True)
      else (case Cut cs sep of (b, a, f) \<Rightarrow> (c # b, a, f)))"

text \<open>\<open>strings.FieldsFunc\<close>: the maximal runs of bytes for which \<open>p\<close> does not hold.\<close>

fun fields_loop :: "(char \<Rightarrow> bool) \<Rightarrow> string \<Rightarrow> string \<Rightarrow> string list" where
  "fields_loop p acc [] = (if acc = [] then [] else [rev acc])"
| "fields_loop p acc (c # cs) =
     (if p c then (if acc = [] then [] else [rev acc]) @ fields_loop p [] cs
      else fields_loop p (c # acc) cs)"

definition FieldsFunc :: "(char \<Rightarrow> bool) \<Rightarrow> string \<Rightarrow> string list" where
  "FieldsFunc p s = fields_loop p [] s"

definition Fields :: "string \<Rightarrow> string list" where
  "Fields s = FieldsFunc is_space s"

fun Join :: "string list \<Rightarrow> string \<Rightarrow> string" where
  "Join [] sep = []"
| "Join [x] sep = x"
| "Join (x # y # zs) sep = x @ sep @ Join (y # zs) sep"

subsection \<open>Paths\<close>

text \<open>\<open>filepath.Clean\<close>, \<open>Join\<close> and \<open>Dir\<close> for slash-separated paths.\<close>

fun clean_elems :: "bool \<Rightarrow> string list \<Rightarrow> string list \<Rightarrow> string list" where
  "clean_elems rooted [] out = out"
| "clean_elems rooted (e # es) out =
     (if e = [] \<or> e = ''.'' then clean_elems rooted es out
      else if e = ''..''
      then if out \<noteq> [] \<and> last out \<noteq> ''..'' then clean_elems rooted es (butlast out)
           else if rooted then clean_elems rooted es out
           else clean_elems rooted es (out @ [e])
      else clean_elems rooted es (out @ [e]))"

definition filepath_Clean :: "string \<Rightarrow> string" where
  "filepath_Clean p =
     (let rooted = HasPrefix p ''/''; es = clean_elems rooted (split_at_char CHR ''/'' p) [] in
      if rooted then CHR ''/'' # Join es ''/'' else if es = [] then ''.'' else Join es ''/'')"

definition filepath_Join :: "string list \<Rightarrow> string" where
  "filepath_Join elems =
     (let es = filter (\<lambda>e. e \<noteq> []) elems in if es = [] then [] else filepath_Clean (Join es ''/''))"

definition filepath_Dir :: "string \<Rightarrow> string" where
  "filepath_Dir p = filepath_Clean (rev (dropWhile (\<lambda>c. c \<noteq> CHR ''/'') (rev p)))"

subsection \<open>Numbers as text\<close>

definition digit_char :: "nat \<Rightarrow> char" where
  "digit_char n = char_of (48 + n :: nat)"

fun itoa :: "nat \<Rightarrow> string" where
  "itoa n = (if n < 10 then [digit_char n] else itoa (n div 10) @ [digit_char (n mod 10)])"

declare itoa.simps [simp del]

definition digit_val :: "char \<Rightarrow> nat" where
  "digit_val c = of_char c - 48"

definition atoi :: "string \<Rightarrow> nat" where
  "atoi s = foldl (\<lambda>n c. 10 * n + digit_val c) 0 s"

subsection \<open>Lemmas\<close>

lemma HasPrefix_iff_prefix [go_simps]: "HasPrefix s p \<longleftrightarrow> prefix p s"
  by (metis HasPrefix_def append_eq_conv_conj prefixE prefixI append_take_drop_id)

lemma HasPrefix_append [simp]: "HasPrefix (p @ s) p"
  by (simp add: HasPrefix_def)

lemma HasPrefixE:
  assumes "HasPrefix s p"
  obtains r where "s = p @ r"
  using assms by (metis HasPrefix_def append_take_drop_id)

lemma EqualFold_refl [simp]: "EqualFold a a"
  by (simp add: EqualFold_def)

lemma EqualFold_sym: "EqualFold a b \<longleftrightarrow> EqualFold b a"
  by (auto simp: EqualFold_def)

lemma EqualFold_trans [trans]: "EqualFold a b \<Longrightarrow> EqualFold b c \<Longrightarrow> EqualFold a c"
  by (simp add: EqualFold_def)

lemma EqualFold_Nil [simp]: "EqualFold [] b \<longleftrightarrow> b = []" "EqualFold b [] \<longleftrightarrow> b = []"
  by (auto simp: EqualFold_def ToLower_def)

lemma of_char_lower_char:
  "(of_char (lower_char c) :: nat) = (if is_upper c then of_char c + 32 else of_char c)"
proof -
  have "is_upper c \<Longrightarrow> (of_char c :: nat) + 32 < 256"
    by (simp add: is_upper_def)
  then show ?thesis by (simp add: lower_char_def of_char_of)
qed

lemma is_upper_lower_char [simp]: "\<not> is_upper (lower_char c)"
  by (simp add: is_upper_def of_char_lower_char split: if_splits)

lemma lower_char_idem [simp]: "lower_char (lower_char c) = lower_char c"
  by (subst lower_char_def) simp

lemma ToLower_idem [simp]: "ToLower (ToLower s) = ToLower s"
  by (simp add: ToLower_def)

lemma length_ToLower [simp]: "length (ToLower s) = length s"
  by (simp add: ToLower_def)

lemma ToLower_eq_Nil [simp]: "ToLower s = [] \<longleftrightarrow> s = []"
  by (simp add: ToLower_def)

lemma EqualFold_ToLower [simp]:
  "EqualFold (ToLower a) b \<longleftrightarrow> EqualFold a b" "EqualFold a (ToLower b) \<longleftrightarrow> EqualFold a b"
  by (simp_all add: EqualFold_def)

lemma split_at_char_ne [simp]: "split_at_char sep s \<noteq> []"
  by (induction s) (auto split: list.splits)

lemma split_at_char_no_sep: "w \<in> set (split_at_char sep s) \<Longrightarrow> sep \<notin> set w"
proof (induction s arbitrary: w)
  case (Cons c cs)
  then show ?case
    by (cases "split_at_char sep cs") (auto split: if_splits)
qed simp

lemma split_at_char_id: "sep \<notin> set s \<Longrightarrow> split_at_char sep s = [s]"
  by (induction s) auto

lemma of_char_digit_char: "n < 10 \<Longrightarrow> (of_char (digit_char n) :: nat) = 48 + n"
  by (simp add: digit_char_def of_char_of)

lemma is_digit_digit_char: "n < 10 \<Longrightarrow> is_digit (digit_char n)"
  by (simp add: is_digit_def of_char_digit_char)

lemma digit_val_digit_char: "n < 10 \<Longrightarrow> digit_val (digit_char n) = n"
  by (simp add: digit_val_def of_char_digit_char)

lemma itoa_ne [simp]: "itoa n \<noteq> []"
  by (subst itoa.simps) simp

lemma itoa_digits: "c \<in> set (itoa n) \<Longrightarrow> is_digit c"
proof (induction n rule: itoa.induct)
  case (1 n)
  then show ?case
    by (subst (asm) (2) itoa.simps) (auto simp: is_digit_digit_char split: if_splits)
qed

lemma atoi_snoc: "atoi (s @ [c]) = 10 * atoi s + digit_val c"
  by (simp add: atoi_def)

lemma atoi_itoa [simp]: "atoi (itoa n) = n"
proof (induction n rule: itoa.induct)
  case (1 n)
  then show ?case
    by (subst itoa.simps)
       (simp add: atoi_snoc digit_val_digit_char, simp add: atoi_def digit_val_digit_char)
qed

lemma itoa_inj: "itoa m = itoa n \<longleftrightarrow> m = n"
  by (metis atoi_itoa)

lemma itoa_no_leading_zero: "0 < n \<Longrightarrow> hd (itoa n) \<noteq> CHR ''0''"
proof (induction n rule: itoa.induct)
  case (1 n)
  have "digit_char n \<noteq> CHR ''0''" if "0 < n" "n < 10"
    using that of_char_digit_char [of n] by auto
  with 1 show ?case
    by (subst itoa.simps) (auto simp: hd_append)
qed

lemma itoa_zero: "itoa 0 = ''0''"
  by code_simp

lemma not_digit: "\<not> is_digit CHR ''.''" "\<not> is_digit CHR '':''" "\<not> is_digit CHR 0x25"
  "\<not> is_digit CHR ''[''" "\<not> is_digit CHR '']''" "\<not> is_digit CHR ''-''"
  by (simp_all add: is_digit_def)

lemma split_at_char_append:
  "sep \<notin> set a \<Longrightarrow> split_at_char sep (a @ sep # b) = a # split_at_char sep b"
  by (induction a) auto

lemma split_Join:
  "xs \<noteq> [] \<Longrightarrow> \<forall>x \<in> set xs. sep \<notin> set x \<Longrightarrow> split_at_char sep (Join xs [sep]) = xs"
  by (induction xs "[sep]" rule: Join.induct) (auto simp: split_at_char_id split_at_char_append)

lemma append_sep_cancel:
  "sep \<notin> set a \<Longrightarrow> sep \<notin> set b \<Longrightarrow> a @ sep # r = b @ sep # s \<longleftrightarrow> a = b \<and> r = s"
proof (induction a arbitrary: b)
  case Nil
  then show ?case by (cases b) auto
next
  case (Cons x a)
  then show ?case by (cases b) auto
qed

lemma map_factor:
  assumes "map f xs = map f ys" "\<And>x y. f x = f y \<Longrightarrow> g x = g y"
  shows "map g xs = map g ys"
  using assms(1)
proof (induction xs arbitrary: ys)
  case (Cons x xs)
  then obtain y ys' where ys: "ys = y # ys'" "f x = f y" "map f xs = map f ys'" by (cases ys) simp_all
  show ?case using Cons.IH [OF ys(3)] assms(2) [OF ys(2)] ys(1) by simp
qed simp

lemma split_lines:
  "list_all (\<lambda>l. sep \<notin> set l) ls \<Longrightarrow>
     split_at_char sep (concat (map (\<lambda>l. l @ [sep]) ls) @ r) = ls @ split_at_char sep r"
  by (induction ls) (simp_all add: split_at_char_append)

text \<open>Looking up after an update or a deletion; \<^const>\<open>AList.update\<close> keeps the keys distinct.\<close>

lemma alist_lookup_update [simp]:
  "map_of (AList.update k v m) k' = (if k' = k then Some v else map_of m k')"
  by (simp add: update_conv')

lemma alist_lookup_delete [simp]:
  "map_of (AList.delete k m) k' = (if k' = k then None else map_of m k')"
  by (simp add: delete_conv')

lemma distinct_fst_update [simp]:
  "distinct (map fst m) \<Longrightarrow> distinct (map fst (AList.update k v m))"
  by (rule distinct_update)

lemma distinct_fst_delete [simp]:
  "distinct (map fst m) \<Longrightarrow> distinct (map fst (AList.delete k m))"
  by (rule distinct_delete)

lemma alist_set_update: "set (AList.update k v m) \<subseteq> insert (k, v) (set m)"
  by (induction m) auto

lemma alist_set_delete: "set (AList.delete k m) \<subseteq> set m"
  by (induction m) auto

lemma alist_keys_update [simp]: "fst ` set (AList.update k v m) = insert k (fst ` set m)"
  by (induction m) auto

lemma alist_key_iff: "k \<in> fst ` set m \<longleftrightarrow> map_of m k \<noteq> None"
  by (simp add: map_of_eq_None_iff)

lemma alist_update_fresh: "k \<notin> fst ` set m \<Longrightarrow> AList.update k v m = m @ [(k, v)]"
  by (induction m) auto

subsection \<open>Invariants of a component\<close>

text \<open>
  Every stateful component of the program is a set of start states and a step relation,
  one step per operation that runs under the component's lock. An invariant that holds at
  the start and is kept by every step holds in every reachable state.
\<close>

locale invariant_system =
  fixes init :: "'s \<Rightarrow> bool" and step :: "'s \<Rightarrow> 's \<Rightarrow> bool" and inv :: "'s \<Rightarrow> bool"
  assumes inv_init: "init s \<Longrightarrow> inv s"
    and inv_step: "step s t \<Longrightarrow> inv s \<Longrightarrow> inv t"
begin

lemma inv_steps: "step\<^sup>*\<^sup>* s t \<Longrightarrow> inv s \<Longrightarrow> inv t"
  by (induction rule: rtranclp_induct) (auto intro: inv_step)

lemma reachable_inv: "init s \<Longrightarrow> step\<^sup>*\<^sup>* s t \<Longrightarrow> inv t"
  using inv_steps inv_init by blast

end

subsection \<open>Once per fingerprint\<close>

text \<open>
  A component that loads its sources only when their fingerprint changed: \<open>noted\<close> is the
  fingerprint of the last load attempt, \<open>load\<close> an attempt, \<open>check\<close> what the component runs
  periodically, on the state \<open>e\<close> of its sources.
\<close>

fun changes :: "('e \<Rightarrow> 'f) \<Rightarrow> 'f option \<Rightarrow> 'e list \<Rightarrow> 'e list" where
  "changes fp prev [] = []"
| "changes fp prev (e # es) =
     (if prev = Some (fp e) then changes fp prev es else e # changes fp (Some (fp e)) es)"

locale once_per_fingerprint =
  fixes fp :: "'e \<Rightarrow> 'f" and noted :: "'s \<Rightarrow> 'f option"
    and load :: "'e \<Rightarrow> 's \<Rightarrow> 's" and check :: "'e \<Rightarrow> 's \<Rightarrow> 's"
  assumes skip: "noted s = Some (fp e) \<Longrightarrow> check e s = s"
    and act: "noted s \<noteq> Some (fp e) \<Longrightarrow> check e s = load e s"
    and notes_fp: "noted (load e s) = Some (fp e)"
begin

lemma noted_check: "noted (check e s) = Some (fp e)"
  by (cases "noted s = Some (fp e)") (simp_all add: skip act notes_fp)

lemma loads_are_changes: "fold check es s = fold load (changes fp (noted s) es) s"
proof (induction es arbitrary: s)
  case (Cons e es)
  then show ?case by (cases "noted s = Some (fp e)") (simp_all add: skip act notes_fp)
qed simp

lemma quiet: "list_all (\<lambda>e. fp e = fp e0) es \<Longrightarrow> fold check es (check e0 s) = check e0 s"
  by (induction es) (simp_all add: skip noted_check)

end

end
