(* ===== verification/Reconcile_Wanted.thy ===== *)
theory Reconcile_Wanted
  imports Go_Prelude
begin

text \<open>
  The node aliases wanted for a Proxmox cluster (\<open>internal/reconcile/wanted.go\<close>).

  \<open>Wanted\<close> maps the guest list of a cluster to SPIRE node aliases: one per guest, one per
  pool and one per recognised tag, each selected by the certificate authority of the cluster
  and the VM id. The theory models its maps as association lists, its accumulators as
  explicit state, and the duplicate removal at its end as the in-place update of the
  underlying array it is in the source.

  The theorems give the exact set of aliases without reference to the bookkeeping, show that
  a pool alias can never be held by guests of two different pools, and that the in-place
  duplicate removal is correct although it overwrites the slice it is reading.
\<close>

subsection \<open>Data\<close>

record Guest =
  g_VMID :: string
  g_Pool :: string
  g_Tags :: string
  g_Template :: bool

record Cluster =
  c_Name :: string
  c_Fingerprints :: "string list"

record Alias =
  a_SPIFFEID :: string
  a_Selectors :: "string list"

datatype Problem = Problem (p_VMID: string) (p_Reason: string) (p_Detail: string)

definition ReasonBadSegment :: string where
  "ReasonBadSegment = ''bad-segment''"

definition ReasonNestedPool :: string where
  "ReasonNestedPool = ''nested-pool''"

definition ReasonPoolCollision :: string where
  "ReasonPoolCollision = ''pool-collision''"

definition tagPrefix :: string where
  "tagPrefix = ''vtpm_mds.io.''"

text \<open>The comparison handed to \<open>sort.Slice\<close> for problems; it is a linear order.\<close>

definition problem_less :: "Problem \<Rightarrow> Problem \<Rightarrow> bool" where
  "problem_less a b =
     (if p_VMID a \<noteq> p_VMID b then p_VMID a < p_VMID b
      else if p_Reason a \<noteq> p_Reason b then p_Reason a < p_Reason b
      else p_Detail a < p_Detail b)"

instantiation Problem :: linorder
begin

definition less_Problem :: "Problem \<Rightarrow> Problem \<Rightarrow> bool" where
  "less_Problem = problem_less"

definition less_eq_Problem :: "Problem \<Rightarrow> Problem \<Rightarrow> bool" where
  "less_eq_Problem a b \<longleftrightarrow> problem_less a b \<or> a = b"

instance
proof
  fix a b c :: Problem
  show "a < b \<longleftrightarrow> a \<le> b \<and> \<not> b \<le> a"
    by (auto simp: less_Problem_def less_eq_Problem_def problem_less_def split: if_splits)
  show "a \<le> a"
    by (simp add: less_eq_Problem_def)
  show "a \<le> b \<Longrightarrow> b \<le> c \<Longrightarrow> a \<le> c"
    by (cases a; cases b; cases c)
       (auto simp: less_eq_Problem_def problem_less_def split: if_splits)
  show "a \<le> b \<Longrightarrow> b \<le> a \<Longrightarrow> a = b"
    by (cases a; cases b) (auto simp: less_eq_Problem_def problem_less_def split: if_splits)
  show "a \<le> b \<or> b \<le> a"
    by (cases a; cases b) (auto simp: less_eq_Problem_def problem_less_def)
qed

end

subsection \<open>Segments and tags\<close>

definition segment_char :: "char \<Rightarrow> bool" where
  "segment_char r \<longleftrightarrow> is_lower r \<or> is_digit r \<or> r = CHR ''.'' \<or> r = CHR ''-'' \<or> r = CHR ''_''"

definition validSegment :: "string \<Rightarrow> bool" where
  "validSegment s =
     (if s = [] \<or> s = ''.'' \<or> s = ''..'' then False else list_all segment_char s)"

definition splitTags :: "string \<Rightarrow> string list" where
  "splitTags s = FieldsFunc (\<lambda>r. r = CHR '';'' \<or> r = CHR '','' \<or> is_space r) s"

subsection \<open>Pools that collide once lowercased\<close>

text \<open>\<open>byLower\<close>: the lowercased pool to the set of its spellings, as a list without repetition.\<close>

definition byLower_step ::
  "Guest \<Rightarrow> (string \<times> string list) list \<Rightarrow> (string \<times> string list) list" where
  "byLower_step g m =
     (if g_Template g \<or> g_Pool g = [] \<or> Contains (g_Pool g) ''/'' then m
      else let l = ToLower (g_Pool g) in
        if \<not> validSegment l then m
        else AList.update l (List.insert (g_Pool g) (case map_of m l of None \<Rightarrow> [] | Some s \<Rightarrow> s)) m)"

definition byLower :: "Guest list \<Rightarrow> (string \<times> string list) list" where
  "byLower guests = fold byLower_step guests []"

definition collide_step ::
  "string \<times> string list \<Rightarrow> (string \<times> string) list \<Rightarrow> (string \<times> string) list" where
  "collide_step e collide =
     (if length (snd e) < 2 then collide
      else let ids = sort (snd e); detail = Join ids '','' in
        fold (\<lambda>i. AList.update i detail) ids collide)"

definition collisions :: "Guest list \<Rightarrow> (string \<times> string) list" where
  "collisions guests = fold collide_step (byLower guests) []"

subsection \<open>The main loop\<close>

type_synonym want = "string \<times> string"

text \<open>\<open>add\<close>: the map \<open>seen\<close> holds exactly the members of \<open>wants\<close>.\<close>

definition add_want :: "string \<Rightarrow> string \<Rightarrow> want list \<Rightarrow> want list" where
  "add_want i vmid wants = (if (i, vmid) \<in> set wants then wants else wants @ [(i, vmid)])"

definition tag_step ::
  "string \<Rightarrow> string \<Rightarrow> string \<Rightarrow> string \<Rightarrow> want list \<times> Problem list \<Rightarrow> want list \<times> Problem list" where
  "tag_step base pool vmid piece st =
     (if length piece < length tagPrefix
         \<or> \<not> EqualFold (take (length tagPrefix) piece) tagPrefix then st
      else let rest = drop (length tagPrefix) piece;
               (key0, value0, ok) = Cut rest CHR ''.'';
               key = ToLower key0; val = ToLower value0
           in if \<not> ok \<or> \<not> validSegment key \<or> \<not> validSegment val
              then (fst st, snd st @ [Problem vmid ReasonBadSegment piece])
              else (add_want (base @ ''/pool/'' @ pool @ ''/tag/'' @ key @ ''/'' @ val) vmid (fst st),
                    snd st))"

definition guest_step ::
  "string \<Rightarrow> (string \<times> string) list \<Rightarrow> Guest \<Rightarrow> want list \<times> Problem list \<Rightarrow> want list \<times> Problem list" where
  "guest_step base collide g st =
     (if g_Template g then st
      else let wants = add_want (base @ ''/vm/'' @ g_VMID g) (g_VMID g) (fst st);
               problems = snd st
           in if g_Pool g = [] then (wants, problems)
              else if Contains (g_Pool g) ''/''
              then (wants, problems @ [Problem (g_VMID g) ReasonNestedPool (g_Pool g)])
              else let pool = ToLower (g_Pool g) in
                if \<not> validSegment pool
                then (wants, problems @ [Problem (g_VMID g) ReasonBadSegment (g_Pool g)])
                else (case map_of collide (g_Pool g) of
                        Some d \<Rightarrow> (wants, problems @ [Problem (g_VMID g) ReasonPoolCollision d])
                      | None \<Rightarrow>
                          fold (tag_step base pool (g_VMID g)) (splitTags (g_Tags g))
                            (add_want (base @ ''/pool/'' @ pool) (g_VMID g) wants, problems)))"

definition alias_of :: "want \<Rightarrow> string \<Rightarrow> Alias" where
  "alias_of w fp =
     \<lparr>a_SPIFFEID = fst w,
      a_Selectors = sort [''tpm_devid:ca:fingerprint:'' @ fp, ''tpm_devid:subject:cn:'' @ snd w]\<rparr>"

definition aliases_of :: "string list \<Rightarrow> want list \<Rightarrow> Alias list" where
  "aliases_of fps wants = concat (map (\<lambda>w. map (alias_of w) fps) wants)"

definition alias_key :: "Alias \<Rightarrow> string \<times> string" where
  "alias_key a = (a_SPIFFEID a, Join (a_Selectors a) [CHR 0x00])"

text \<open>
  The removal of repeated problems. \<open>uniq := problems[:0]\<close> shares the array of \<open>problems\<close>,
  so every \<open>append\<close> overwrites an element of the slice the loop reads: \<open>arr\<close> is that array,
  \<open>i\<close> the loop index and \<open>j\<close> the length of \<open>uniq\<close>.
\<close>

function uniq_loop :: "'a list \<Rightarrow> nat \<Rightarrow> nat \<Rightarrow> 'a list" where
  "uniq_loop arr i j =
     (if i < length arr
      then if i = 0 \<or> arr ! i \<noteq> arr ! (i - 1)
           then uniq_loop (arr[j := arr ! i]) (Suc i) (Suc j)
           else uniq_loop arr (Suc i) j
      else take j arr)"
  by pat_completeness auto
termination
  by (relation "measure (\<lambda>(arr, i, j). length arr - i)") auto

declare uniq_loop.simps [simp del]

definition base_id :: "string \<Rightarrow> Cluster \<Rightarrow> string" where
  "base_id td c = ''spiffe://'' @ td @ ''/pve/'' @ c_Name c"

definition Wanted :: "string \<Rightarrow> Cluster \<Rightarrow> Guest list \<Rightarrow> Alias list \<times> Problem list" where
  "Wanted td c guests =
     (let collide = collisions guests;
          (wants, problems) = fold (guest_step (base_id td c) collide) guests ([], []);
          aliases = aliases_of (c_Fingerprints c) wants
      in (sort_key alias_key aliases, uniq_loop (sort problems) 0 0))"

subsection \<open>The in-place removal of repeated problems\<close>

lemma remdups_adj_snoc:
  "remdups_adj (xs @ [x]) = (if xs \<noteq> [] \<and> last xs = x then remdups_adj xs else remdups_adj xs @ [x])"
  by (induction xs rule: remdups_adj.induct) auto

lemma uniq_loop_inv:
  assumes "length arr = length orig" "i \<le> length orig"
    and "take j arr = remdups_adj (take i orig)" "j = length (remdups_adj (take i orig))"
    and "\<And>k. i \<le> Suc k \<Longrightarrow> k < length orig \<Longrightarrow> arr ! k = orig ! k"
  shows "uniq_loop arr i j = remdups_adj orig"
  using assms
proof (induction arr i j rule: uniq_loop.induct)
  case (1 arr i j)
  show ?case
  proof (cases "i < length arr")
    case True
    note len = "1.prems"(1) and same = "1.prems"(5)
    have tk: "take (Suc i) orig = take i orig @ [orig ! i]"
      using True len by (simp add: take_Suc_conv_app_nth)
    have cur: "arr ! i = orig ! i" using same [of i] True len by simp
    have lst: "last (take i orig) = arr ! (i - 1) \<and> take i orig \<noteq> []" if "i \<noteq> 0"
      using that same [of "i - 1"] True len
      by (cases i) (auto simp: take_Suc_conv_app_nth)
    have "length (remdups_adj (take i orig)) \<le> length (take i orig)"
      by (rule remdups_adj_length)
    then have ji: "j \<le> i" using "1.prems"(4) by simp
    show ?thesis
    proof (cases "i = 0 \<or> arr ! i \<noteq> arr ! (i - 1)")
      case new: True
      have adj: "remdups_adj (take (Suc i) orig) = remdups_adj (take i orig) @ [orig ! i]"
        using new cur lst unfolding tk remdups_adj_snoc by (cases "i = 0") auto
      have "uniq_loop (arr[j := arr ! i]) (Suc i) (Suc j) = remdups_adj orig"
      proof (rule "1.IH"(1) [OF True new])
        have "j < length arr" using ji True by simp
        then show "take (Suc j) (arr[j := arr ! i]) = remdups_adj (take (Suc i) orig)"
          by (simp add: adj take_Suc_conv_app_nth "1.prems"(3) cur)
        show "Suc j = length (remdups_adj (take (Suc i) orig))"
          using "1.prems"(4) by (simp add: adj)
        show "arr[j := arr ! i] ! k = orig ! k" if "Suc i \<le> Suc k" "k < length orig" for k
          using that same [of k] cur len by (cases "k = j") (use ji in auto)
      qed (use True len in auto)
      then show ?thesis using True new by (subst uniq_loop.simps) simp
    next
      case old: False
      have adj: "remdups_adj (take (Suc i) orig) = remdups_adj (take i orig)"
        using old cur lst by (auto simp: tk remdups_adj_snoc)
      have "uniq_loop arr (Suc i) j = remdups_adj orig"
        by (rule "1.IH"(2) [OF True old]) (use True adj "1.prems" in auto)
      then show ?thesis using True old by (subst uniq_loop.simps) simp
    qed
  next
    case False
    then show ?thesis using "1.prems" by (subst uniq_loop.simps) simp
  qed
qed

lemma uniq_loop_remdups: "uniq_loop xs 0 0 = remdups_adj xs"
  by (rule uniq_loop_inv) auto

lemma sorted_remdups_adj_strict:
  fixes xs :: "'a :: linorder list"
  shows "sorted xs \<Longrightarrow> sorted_wrt (<) (remdups_adj xs)"
  by (induction xs rule: remdups_adj.induct) force+

subsection \<open>Which pools collide\<close>

definition pool_usable :: "Guest \<Rightarrow> bool" where
  "pool_usable g \<longleftrightarrow> \<not> g_Template g \<and> g_Pool g \<noteq> [] \<and> \<not> Contains (g_Pool g) ''/''
     \<and> validSegment (ToLower (g_Pool g))"

definition spellings :: "(string \<times> string list) list \<Rightarrow> string \<Rightarrow> string list" where
  "spellings m l = (case map_of m l of None \<Rightarrow> [] | Some s \<Rightarrow> s)"

lemma byLower_step_usable:
  "byLower_step g m =
     (if pool_usable g
      then AList.update (ToLower (g_Pool g))
             (List.insert (g_Pool g) (spellings m (ToLower (g_Pool g)))) m
      else m)"
  by (simp add: byLower_step_def pool_usable_def spellings_def Let_def)

lemma spellings_update:
  "spellings (AList.update k v m) l = (if l = k then v else spellings m l)"
  by (simp add: spellings_def)

lemma byLower_snoc: "byLower (gs @ [g]) = byLower_step g (byLower gs)"
  by (simp add: byLower_def)

lemma byLower_Nil [simp]: "byLower [] = []" "spellings [] l = []"
  by (simp_all add: byLower_def spellings_def)

lemma set_spellings:
  "set (spellings (byLower gs) l) = {g_Pool g |g. g \<in> set gs \<and> pool_usable g \<and> ToLower (g_Pool g) = l}"
proof (induction gs rule: rev_induct)
  case (snoc g gs)
  then show ?case by (auto simp: byLower_snoc byLower_step_usable spellings_update)
qed simp

lemma distinct_spellings: "distinct (spellings (byLower gs) l)"
  by (induction gs arbitrary: l rule: rev_induct)
     (simp_all add: byLower_snoc byLower_step_usable spellings_update)

lemma distinct_byLower: "distinct (map fst (byLower gs))"
  by (induction gs rule: rev_induct) (simp_all add: byLower_snoc byLower_step_usable)

lemma byLower_entry: "(l, s) \<in> set (byLower gs) \<Longrightarrow> spellings (byLower gs) l = s"
  using distinct_byLower [of gs] by (simp add: spellings_def)

lemmas byLower_spellings = set_spellings distinct_spellings distinct_byLower

lemma collide_step_keys:
  "fst ` set (collide_step e c) = fst ` set c \<union> (if length (snd e) < 2 then {} else set (snd e))"
proof -
  have "fst ` set (fold (\<lambda>i. AList.update i d) xs c) = fst ` set c \<union> set xs"
    for d :: string and xs :: "string list"
    by (induction xs arbitrary: c) auto
  then show ?thesis by (simp add: collide_step_def Let_def)
qed

lemma collisions_keys:
  "fst ` set (collisions gs) = (\<Union>e \<in> set (byLower gs). if length (snd e) < 2 then {} else set (snd e))"
proof -
  have "fst ` set (fold collide_step es c)
      = fst ` set c \<union> (\<Union>e \<in> set es. if length (snd e) < 2 then {} else set (snd e))" for es c
  proof (induction es arbitrary: c)
    case (Cons e es)
    then show ?case using collide_step_keys [of e c] by (simp add: Un_assoc)
  qed simp
  then show ?thesis by (simp add: collisions_def)
qed

lemma two_distinct:
  assumes "distinct s" "x \<in> set s"
  shows "2 \<le> length s \<longleftrightarrow> (\<exists>y \<in> set s. y \<noteq> x)"
proof
  assume "2 \<le> length s"
  then have "card (set s) \<ge> 2" using assms(1) by (simp add: distinct_card)
  then have "card (set s - {x}) \<ge> 1" using assms(2) by simp
  then have "set s - {x} \<noteq> {}" by (metis card.empty not_one_le_zero)
  then show "\<exists>y \<in> set s. y \<noteq> x" by blast
next
  assume "\<exists>y \<in> set s. y \<noteq> x"
  then obtain y where "y \<in> set s" "y \<noteq> x" by blast
  then have "card {x, y} \<le> card (set s)" using assms(2) by (intro card_mono) auto
  then show "2 \<le> length s" using \<open>y \<noteq> x\<close> assms(1) by (simp add: distinct_card)
qed

text \<open>A pool is withheld exactly when another usable spelling of the same segment is listed.\<close>

lemma collides_iff:
  assumes "pool_usable g" "g \<in> set gs"
  shows "map_of (collisions gs) (g_Pool g) \<noteq> None \<longleftrightarrow>
    (\<exists>h \<in> set gs. pool_usable h \<and> ToLower (g_Pool h) = ToLower (g_Pool g) \<and> g_Pool h \<noteq> g_Pool g)"
    (is "?L \<longleftrightarrow> ?R")
proof -
  let ?l = "ToLower (g_Pool g)" and ?s = "spellings (byLower gs) (ToLower (g_Pool g))"
  have mem: "g_Pool g \<in> set ?s" using assms by (auto simp: byLower_spellings)
  have key: "(?l, ?s) \<in> set (byLower gs)"
    using mem by (auto simp: spellings_def split: option.splits dest: map_of_SomeD)
  have own: "l = ?l \<and> s = ?s" if e: "(l, s) \<in> set (byLower gs)" "g_Pool g \<in> set s" for l s
  proof -
    have "spellings (byLower gs) l = s"
      using e(1) by (rule byLower_entry)
    moreover from this have "ToLower (g_Pool g) = l"
      using e(2) byLower_spellings(1) [of gs l] by auto
    ultimately show ?thesis by simp
  qed
  have "?L \<longleftrightarrow> g_Pool g \<in> fst ` set (collisions gs)" by (simp add: map_of_eq_None_iff)
  also have "\<dots> \<longleftrightarrow> (\<exists>e \<in> set (byLower gs). \<not> length (snd e) < 2 \<and> g_Pool g \<in> set (snd e))"
    unfolding collisions_keys by auto
  also have "\<dots> \<longleftrightarrow> 2 \<le> length ?s"
  proof
    assume "\<exists>e \<in> set (byLower gs). \<not> length (snd e) < 2 \<and> g_Pool g \<in> set (snd e)"
    then obtain l s where "(l, s) \<in> set (byLower gs)" "\<not> length s < 2" "g_Pool g \<in> set s" by auto
    with own [of l s] show "2 \<le> length ?s" by simp
  next
    assume "2 \<le> length ?s"
    then show "\<exists>e \<in> set (byLower gs). \<not> length (snd e) < 2 \<and> g_Pool g \<in> set (snd e)"
      using key mem by (intro bexI [of _ "(?l, ?s)"]) simp_all
  qed
  also have "\<dots> \<longleftrightarrow> ?R" using two_distinct [OF byLower_spellings(2) mem] byLower_spellings(1) [of gs ?l] by auto
  finally show ?thesis .
qed

lemma collide_step_lookup:
  "map_of (collide_step e c) p =
     (if 2 \<le> length (snd e) \<and> p \<in> set (snd e) then Some (Join (sort (snd e)) '','') else map_of c p)"
proof -
  have "map_of (fold (\<lambda>i. AList.update i d) xs c) p = (if p \<in> set xs then Some d else map_of c p)"
    for d :: string and xs :: "string list"
    by (induction xs arbitrary: c) auto
  then show ?thesis by (auto simp: collide_step_def Let_def)
qed

text \<open>The detail logged for a withheld pool: all the spellings in use, sorted.\<close>

definition pool_spellings :: "Guest list \<Rightarrow> string \<Rightarrow> string set" where
  "pool_spellings gs l = {g_Pool g |g. g \<in> set gs \<and> pool_usable g \<and> ToLower (g_Pool g) = l}"

lemma collisions_detail:
  assumes "pool_usable g" "g \<in> set gs"
  shows "map_of (collisions gs) (g_Pool g) =
    (if \<exists>h \<in> set gs. pool_usable h \<and> ToLower (g_Pool h) = ToLower (g_Pool g) \<and> g_Pool h \<noteq> g_Pool g
     then Some (Join (sorted_list_of_set (pool_spellings gs (ToLower (g_Pool g)))) '','') else None)"
proof -
  let ?p = "g_Pool g" and ?s = "spellings (byLower gs) (ToLower (g_Pool g))"
  have own: "snd e = ?s" if "e \<in> set (byLower gs)" "?p \<in> set (snd e)" for e
  proof -
    have "spellings (byLower gs) (fst e) = snd e"
      using that(1) by (intro byLower_entry) simp
    with that(2) show ?thesis using byLower_spellings(1) [of gs "fst e"] by auto
  qed
  have fold_lookup: "map_of (fold collide_step es c) ?p \<in> {Some (Join (sort ?s) '',''), map_of c ?p}"
    if "set es \<subseteq> set (byLower gs)" for es c
    using that
  proof (induction es arbitrary: c)
    case (Cons e es)
    have "map_of (collide_step e c) ?p \<in> {Some (Join (sort ?s) '',''), map_of c ?p}"
      using own [of e] Cons.prems by (auto simp: collide_step_lookup)
    with Cons.IH [of "collide_step e c"] Cons.prems show ?case by auto
  qed simp
  have "sort ?s = sorted_list_of_set (pool_spellings gs (ToLower (g_Pool g)))"
    using byLower_spellings(1, 2) [of gs]
    by (metis pool_spellings_def sorted_list_of_set_sort_remdups distinct_remdups_id)
  with fold_lookup [of "byLower gs" "[]"] collides_iff [OF assms] show ?thesis
    by (auto simp: collisions_def)
qed

subsection \<open>The exact aliases and problems\<close>

text \<open>
  The reference reading of the inventory: the key and value of a tag, which identifiers a
  guest is entitled to, and what is reported for it.
\<close>

definition our_tag :: "string \<Rightarrow> bool" where
  "our_tag piece \<longleftrightarrow> length tagPrefix \<le> length piece \<and> EqualFold (take (length tagPrefix) piece) tagPrefix"

definition tag_of :: "string \<Rightarrow> (string \<times> string) option" where
  "tag_of piece =
     (case Cut (drop (length tagPrefix) piece) CHR ''.'' of (k, v, ok) \<Rightarrow>
        if our_tag piece \<and> ok \<and> validSegment (ToLower k) \<and> validSegment (ToLower v)
        then Some (ToLower k, ToLower v) else None)"

definition tag_id :: "string \<Rightarrow> string \<Rightarrow> string \<times> string \<Rightarrow> string" where
  "tag_id base pool kv = base @ ''/pool/'' @ pool @ ''/tag/'' @ fst kv @ ''/'' @ snd kv"

definition pool_clear :: "Guest list \<Rightarrow> Guest \<Rightarrow> bool" where
  "pool_clear gs g \<longleftrightarrow> pool_usable g \<and>
     (\<forall>h \<in> set gs. pool_usable h \<and> ToLower (g_Pool h) = ToLower (g_Pool g) \<longrightarrow> g_Pool h = g_Pool g)"

definition entitled :: "string \<Rightarrow> Guest list \<Rightarrow> Guest \<Rightarrow> string \<Rightarrow> bool" where
  "entitled base gs g i \<longleftrightarrow> \<not> g_Template g \<and>
     (i = base @ ''/vm/'' @ g_VMID g
      \<or> pool_clear gs g \<and> i = base @ ''/pool/'' @ ToLower (g_Pool g)
      \<or> pool_clear gs g \<and> (\<exists>piece \<in> set (splitTags (g_Tags g)). \<exists>kv. tag_of piece = Some kv
           \<and> i = tag_id base (ToLower (g_Pool g)) kv))"

definition reported :: "Guest list \<Rightarrow> Guest \<Rightarrow> Problem \<Rightarrow> bool" where
  "reported gs g pr \<longleftrightarrow> \<not> g_Template g \<and> g_Pool g \<noteq> [] \<and> p_VMID pr = g_VMID g \<and>
     (Contains (g_Pool g) ''/'' \<and> p_Reason pr = ReasonNestedPool \<and> p_Detail pr = g_Pool g
      \<or> \<not> Contains (g_Pool g) ''/'' \<and> \<not> validSegment (ToLower (g_Pool g))
          \<and> p_Reason pr = ReasonBadSegment \<and> p_Detail pr = g_Pool g
      \<or> pool_usable g \<and> \<not> pool_clear gs g \<and> p_Reason pr = ReasonPoolCollision
          \<and> p_Detail pr = Join (sorted_list_of_set (pool_spellings gs (ToLower (g_Pool g)))) '',''
      \<or> pool_clear gs g \<and> p_Reason pr = ReasonBadSegment
          \<and> p_Detail pr \<in> set (splitTags (g_Tags g)) \<and> our_tag (p_Detail pr) \<and> tag_of (p_Detail pr) = None)"

lemma set_add_want [simp]: "set (add_want i v w) = insert (i, v) (set w)"
  by (auto simp: add_want_def)

lemma distinct_add_want [simp]: "distinct w \<Longrightarrow> distinct (add_want i v w)"
  by (simp add: add_want_def)

lemma tag_step_eq:
  "tag_step base pool vmid piece st =
     (if \<not> our_tag piece then st
      else (case tag_of piece of
              None \<Rightarrow> (fst st, snd st @ [Problem vmid ReasonBadSegment piece])
            | Some kv \<Rightarrow> (add_want (tag_id base pool kv) vmid (fst st), snd st)))"
  by (auto simp: tag_step_def tag_id_def our_tag_def tag_of_def not_le Let_def split: prod.splits)

lemma tag_fold_wants:
  "set (fst (fold (tag_step base pool vmid) ps st)) = set (fst st) \<union>
     {(tag_id base pool kv, vmid) |kv. \<exists>piece \<in> set ps. tag_of piece = Some kv}"
proof (induction ps arbitrary: st)
  case (Cons p ps)
  have "set (fst (tag_step base pool vmid p st)) = set (fst st) \<union>
     {(tag_id base pool kv, vmid) |kv. tag_of p = Some kv}"
    by (auto simp: tag_step_eq tag_of_def split: option.splits if_splits)
  then show ?case using Cons.IH [of "tag_step base pool vmid p st"] by auto
qed simp

lemma tag_fold_distinct:
  "distinct (fst st) \<Longrightarrow> distinct (fst (fold (tag_step base pool vmid) ps st))"
  by (induction ps arbitrary: st) (auto simp: tag_step_eq split: option.splits)

lemma tag_fold_problems:
  "set (snd (fold (tag_step base pool vmid) ps st)) = set (snd st) \<union>
     {Problem vmid ReasonBadSegment p |p. p \<in> set ps \<and> our_tag p \<and> tag_of p = None}"
proof (induction ps arbitrary: st)
  case (Cons p ps)
  have "set (snd (tag_step base pool vmid p st)) = set (snd st) \<union>
     {Problem vmid ReasonBadSegment q |q. q = p \<and> our_tag p \<and> tag_of p = None}"
    by (auto simp: tag_step_eq split: option.splits)
  then show ?case using Cons.IH [of "tag_step base pool vmid p st"] by auto
qed simp

lemma guest_step_wants:
  assumes "g \<in> set gs"
  shows "set (fst (guest_step base (collisions gs) g st)) =
    set (fst st) \<union> {(i, g_VMID g) |i. entitled base gs g i}"
proof (cases "pool_usable g")
  case True
  have "map_of (collisions gs) (g_Pool g) = None \<longleftrightarrow> pool_clear gs g"
    using collides_iff [OF True assms] True by (auto simp: pool_clear_def)
  with True show ?thesis
    by (cases "pool_clear gs g")
       (auto simp: guest_step_def pool_usable_def entitled_def tag_fold_wants Let_def)
next
  case False
  then have "\<not> pool_clear gs g" by (simp add: pool_clear_def)
  with False show ?thesis
    by (auto simp: guest_step_def pool_usable_def entitled_def Let_def)
qed

lemma problem_eq_iff: "pr = Problem v r d \<longleftrightarrow> p_VMID pr = v \<and> p_Reason pr = r \<and> p_Detail pr = d"
  by (cases pr) auto

lemma guest_step_problems:
  assumes "g \<in> set gs"
  shows "set (snd (guest_step base (collisions gs) g st)) = set (snd st) \<union> {pr. reported gs g pr}"
proof (cases "pool_usable g")
  case True
  let ?d = "Join (sorted_list_of_set (pool_spellings gs (ToLower (g_Pool g)))) '',''"
  have look: "map_of (collisions gs) (g_Pool g) = (if pool_clear gs g then None else Some ?d)"
    using collisions_detail [OF True assms] True by (auto simp: pool_clear_def)
  show ?thesis
  proof (cases "pool_clear gs g")
    case clear: True
    have "{pr. reported gs g pr} = {Problem (g_VMID g) ReasonBadSegment p |p.
        p \<in> set (splitTags (g_Tags g)) \<and> our_tag p \<and> tag_of p = None}"
      using True clear by (auto simp: reported_def pool_usable_def problem_eq_iff)
    with True clear look show ?thesis
      by (simp add: guest_step_def pool_usable_def tag_fold_problems Let_def)
  next
    case taken: False
    have "{pr. reported gs g pr} = {Problem (g_VMID g) ReasonPoolCollision ?d}"
      using True taken by (auto simp: reported_def pool_usable_def problem_eq_iff)
    with True taken look show ?thesis
      by (simp add: guest_step_def pool_usable_def Let_def)
  qed
next
  case False
  then have "\<not> pool_clear gs g" by (simp add: pool_clear_def)
  with False show ?thesis
    by (auto simp: guest_step_def pool_usable_def reported_def Let_def problem_eq_iff)
qed

lemma guest_step_distinct:
  "distinct (fst st) \<Longrightarrow> distinct (fst (guest_step base collide g st))"
  by (auto simp: guest_step_def Let_def tag_fold_distinct split: option.splits)

lemma guest_fold_wants:
  "set hs \<subseteq> set gs \<Longrightarrow> set (fst (fold (guest_step base (collisions gs)) hs st)) =
    set (fst st) \<union> {(i, g_VMID g) |i g. g \<in> set hs \<and> entitled base gs g i}"
proof (induction hs arbitrary: st)
  case (Cons h hs)
  then have "h \<in> set gs" by simp
  with Cons show ?case by (auto simp: guest_step_wants)
qed simp

lemma guest_fold_problems:
  "set hs \<subseteq> set gs \<Longrightarrow> set (snd (fold (guest_step base (collisions gs)) hs st)) =
    set (snd st) \<union> {pr. \<exists>g \<in> set hs. reported gs g pr}"
proof (induction hs arbitrary: st)
  case (Cons h hs)
  then have "h \<in> set gs" by simp
  with Cons show ?case by (auto simp: guest_step_problems)
qed simp

lemma guest_fold_distinct:
  "distinct (fst st) \<Longrightarrow> distinct (fst (fold (guest_step base collide) hs st))"
  by (induction hs arbitrary: st) (simp_all add: guest_step_distinct)

lemma alias_of_eq:
  "alias_of w fp = \<lparr>a_SPIFFEID = fst w,
     a_Selectors = [''tpm_devid:ca:fingerprint:'' @ fp, ''tpm_devid:subject:cn:'' @ snd w]\<rparr>"
  by (simp add: alias_of_def less_char_def)

lemma selectors_sorted:
  "a_Selectors (alias_of w fp) = [''tpm_devid:ca:fingerprint:'' @ fp, ''tpm_devid:subject:cn:'' @ snd w]"
  by (simp add: alias_of_eq)

lemma alias_of_inj: "alias_of w fp = alias_of w' fp' \<longleftrightarrow> w = w' \<and> fp = fp'"
proof
  assume eq: "alias_of w fp = alias_of w' fp'"
  then have "a_Selectors (alias_of w fp) = a_Selectors (alias_of w' fp')" by simp
  then have "fp = fp'" "snd w = snd w'" by (simp_all add: selectors_sorted)
  moreover have "fst w = fst w'" using arg_cong [OF eq, of a_SPIFFEID] by (simp add: alias_of_def)
  ultimately show "w = w' \<and> fp = fp'" by (simp add: prod_eq_iff)
qed simp

lemma distinct_aliases_of:
  assumes "distinct wants" "distinct fps"
  shows "distinct (aliases_of fps wants)"
  using assms(1)
proof (induction wants)
  case (Cons w ws)
  have "distinct (map (alias_of w) fps)"
    using assms(2) by (simp add: distinct_map inj_on_def alias_of_inj)
  moreover have "set (map (alias_of w) fps) \<inter> set (aliases_of fps ws) = {}"
    using Cons.prems by (auto simp: aliases_of_def alias_of_inj)
  ultimately show ?case using Cons by (simp add: aliases_of_def)
qed (simp add: aliases_of_def)

definition wanted_wants :: "string \<Rightarrow> Cluster \<Rightarrow> Guest list \<Rightarrow> want list \<times> Problem list" where
  "wanted_wants td c gs = fold (guest_step (base_id td c) (collisions gs)) gs ([], [])"

lemma Wanted_eq:
  "Wanted td c gs =
     (sort_key alias_key (aliases_of (c_Fingerprints c) (fst (wanted_wants td c gs))),
      remdups_adj (sort (snd (wanted_wants td c gs))))"
  by (simp add: Wanted_def wanted_wants_def uniq_loop_remdups Let_def split_beta)

lemma set_wanted_wants:
  "set (fst (wanted_wants td c gs)) = {(i, g_VMID g) |i g. g \<in> set gs \<and> entitled (base_id td c) gs g i}"
  "set (snd (wanted_wants td c gs)) = {pr. \<exists>g \<in> set gs. reported gs g pr}"
  "distinct (fst (wanted_wants td c gs))"
  by (simp_all add: wanted_wants_def guest_fold_wants guest_fold_problems guest_fold_distinct)

lemma alias_of_iff:
  fixes a :: Alias
  shows "a = alias_of (i, v) fp \<longleftrightarrow> a_SPIFFEID a = i \<and>
    a_Selectors a = [''tpm_devid:ca:fingerprint:'' @ fp, ''tpm_devid:subject:cn:'' @ v]"
  by (cases a) (simp add: alias_of_eq)

lemma Wanted_aliases:
  fixes a :: Alias
  shows "a \<in> set (fst (Wanted td c gs)) \<longleftrightarrow>
    (\<exists>g \<in> set gs. \<exists>fp \<in> set (c_Fingerprints c). entitled (base_id td c) gs g (a_SPIFFEID a)
       \<and> a_Selectors a = [''tpm_devid:ca:fingerprint:'' @ fp, ''tpm_devid:subject:cn:'' @ g_VMID g])"
proof -
  have "a \<in> set (fst (Wanted td c gs)) \<longleftrightarrow>
    (\<exists>g \<in> set gs. \<exists>fp \<in> set (c_Fingerprints c). \<exists>i. entitled (base_id td c) gs g i
       \<and> a = alias_of (i, g_VMID g) fp)"
    by (auto simp: Wanted_eq aliases_of_def set_wanted_wants)
  also have "\<dots> \<longleftrightarrow> (\<exists>g \<in> set gs. \<exists>fp \<in> set (c_Fingerprints c). entitled (base_id td c) gs g (a_SPIFFEID a)
       \<and> a_Selectors a = [''tpm_devid:ca:fingerprint:'' @ fp, ''tpm_devid:subject:cn:'' @ g_VMID g])"
    unfolding alias_of_iff by blast
  finally show ?thesis .
qed

subsection \<open>Identifiers can be read back\<close>

lemma validSegment_no_slash: "validSegment s \<Longrightarrow> CHR ''/'' \<notin> set s"
  by (auto simp: validSegment_def list_all_iff segment_char_def is_lower_def is_digit_def split: if_splits)

lemma tag_of_segments: "tag_of piece = Some kv \<Longrightarrow> validSegment (fst kv) \<and> validSegment (snd kv)"
  by (auto simp: tag_of_def split: prod.splits if_splits)

lemma pool_clear_segment: "pool_clear gs g \<Longrightarrow> CHR ''/'' \<notin> set (ToLower (g_Pool g))"
  by (simp add: pool_clear_def pool_usable_def validSegment_no_slash)

lemma pool_clear_same:
  "pool_clear gs g \<Longrightarrow> pool_clear gs h \<Longrightarrow> h \<in> set gs \<Longrightarrow> ToLower (g_Pool g) = ToLower (g_Pool h)
    \<Longrightarrow> g_Pool g = g_Pool h"
  by (auto simp: pool_clear_def)

lemma vm_id_not_pool:
  "base @ ''/vm/'' @ v \<noteq> base @ ''/pool/'' @ p" "base @ ''/vm/'' @ v \<noteq> tag_id base q kv"
  by (simp_all add: tag_id_def)

lemma pool_id_not_tag: "CHR ''/'' \<notin> set p \<Longrightarrow> base @ ''/pool/'' @ p \<noteq> tag_id base q kv"
  by (auto simp: tag_id_def)

lemma tag_id_inj:
  assumes "CHR ''/'' \<notin> set p" "CHR ''/'' \<notin> set q"
    and "validSegment (fst kv)" "validSegment (fst lw)" "tag_id base p kv = tag_id base q lw"
  shows "p = q \<and> kv = lw"
proof -
  have "p @ CHR ''/'' # ''tag/'' @ fst kv @ CHR ''/'' # snd kv
      = q @ CHR ''/'' # ''tag/'' @ fst lw @ CHR ''/'' # snd lw"
    using assms(5) by (simp add: tag_id_def)
  then have "p = q" "fst kv @ CHR ''/'' # snd kv = fst lw @ CHR ''/'' # snd lw"
    by (simp_all only: append_sep_cancel [OF assms(1, 2)] append.simps list.inject)
  moreover from this(2) have "kv = lw"
    using assms(3, 4) by (auto simp: append_sep_cancel validSegment_no_slash prod_eq_iff)
  ultimately show ?thesis by simp
qed

definition has_tag :: "Guest \<Rightarrow> string \<times> string \<Rightarrow> bool" where
  "has_tag g kv \<longleftrightarrow> (\<exists>piece \<in> set (splitTags (g_Tags g)). tag_of piece = Some kv)"

text \<open>What two guests share when one identifier stands for both of them.\<close>

lemma entitled_shared:
  assumes "entitled base gs g i" "entitled base gs h i" "h \<in> set gs"
  shows "i = base @ ''/vm/'' @ g_VMID g \<and> g_VMID g = g_VMID h
    \<or> i = base @ ''/pool/'' @ ToLower (g_Pool g) \<and> g_Pool g \<noteq> [] \<and> g_Pool g = g_Pool h
    \<or> (\<exists>kv. i = tag_id base (ToLower (g_Pool g)) kv \<and> g_Pool g \<noteq> [] \<and> g_Pool g = g_Pool h
          \<and> has_tag g kv \<and> has_tag h kv)"
proof -
  consider (vm) "i = base @ ''/vm/'' @ g_VMID g"
    | (pool) "pool_clear gs g" "i = base @ ''/pool/'' @ ToLower (g_Pool g)"
    | (tag) kv where "pool_clear gs g" "has_tag g kv" "i = tag_id base (ToLower (g_Pool g)) kv"
    using assms(1) by (auto simp: entitled_def has_tag_def)
  then show ?thesis
  proof cases
    case vm
    then have "i = base @ ''/vm/'' @ g_VMID h"
      using assms(2) vm_id_not_pool [of base "g_VMID g"] by (auto simp: entitled_def)
    with vm show ?thesis by simp
  next
    case pool
    have "pool_clear gs h \<and> i = base @ ''/pool/'' @ ToLower (g_Pool h)"
      using assms(2) pool pool_id_not_tag [OF pool_clear_segment [OF pool(1)]]
      by (auto simp: entitled_def)
    then have "g_Pool g = g_Pool h" using pool pool_clear_same assms(3) by auto
    with pool show ?thesis by (simp add: pool_clear_def pool_usable_def)
  next
    case tag
    obtain lw where h: "pool_clear gs h" "has_tag h lw" "i = tag_id base (ToLower (g_Pool h)) lw"
      using assms(2) tag pool_id_not_tag pool_clear_segment vm_id_not_pool
      unfolding entitled_def has_tag_def by metis
    have "validSegment (fst kv)" "validSegment (fst lw)"
      using tag(2) h(2) tag_of_segments unfolding has_tag_def by blast+
    then have "ToLower (g_Pool g) = ToLower (g_Pool h) \<and> kv = lw"
      using tag h pool_clear_segment by (intro tag_id_inj [where base = base]) auto
    then have "g_Pool g = g_Pool h" "kv = lw" using tag h pool_clear_same assms(3) by blast+
    moreover have "g_Pool g \<noteq> []" using tag(1) by (simp add: pool_clear_def pool_usable_def)
    ultimately show ?thesis using tag(2, 3) h(2) by blast
  qed
qed

subsection \<open>Claims\<close>

text \<open>
  C17: \<open>Wanted\<close> returns exactly the aliases the inventory entitles to, and reports exactly what
  it withholds. A non-template guest gets its own identifier, and, when its pool is one valid
  path segment that no other listed spelling folds to, the identifier of the pool and one per
  well-formed tag; each is selected by a configured intermediate and by the id of the guest.
  Aliases come out in order and, for distinct fingerprints, without repetition; problems come
  out strictly ordered, which the removal of repetitions in the shared array must achieve.
\<close>

theorem Wanted_exact:
  fixes a :: Alias
  shows "(a \<in> set (fst (Wanted td c gs)) \<longleftrightarrow>
      (\<exists>g \<in> set gs. \<exists>fp \<in> set (c_Fingerprints c). entitled (base_id td c) gs g (a_SPIFFEID a)
         \<and> a_Selectors a = [''tpm_devid:ca:fingerprint:'' @ fp, ''tpm_devid:subject:cn:'' @ g_VMID g]))
    \<and> (pr \<in> set (snd (Wanted td c gs)) \<longleftrightarrow> (\<exists>g \<in> set gs. reported gs g pr))
    \<and> sorted (map alias_key (fst (Wanted td c gs)))
    \<and> sorted_wrt (<) (snd (Wanted td c gs))
    \<and> (distinct (c_Fingerprints c) \<longrightarrow> distinct (fst (Wanted td c gs)))"
proof (intro conjI impI)
  show "pr \<in> set (snd (Wanted td c gs)) \<longleftrightarrow> (\<exists>g \<in> set gs. reported gs g pr)"
    by (simp add: Wanted_eq set_wanted_wants)
  show "sorted (map alias_key (fst (Wanted td c gs)))"
    by (simp add: Wanted_eq)
  show "sorted_wrt (<) (snd (Wanted td c gs))"
    by (simp add: Wanted_eq sorted_remdups_adj_strict)
  show "distinct (c_Fingerprints c) \<Longrightarrow> distinct (fst (Wanted td c gs))"
    by (simp add: Wanted_eq distinct_aliases_of set_wanted_wants)
qed (rule Wanted_aliases)

definition sampleCluster :: Cluster where
  "sampleCluster = \<lparr>c_Name = ''c1'', c_Fingerprints = [''ab'']\<rparr>"

definition sampleGuests :: "Guest list" where
  "sampleGuests =
     [\<lparr>g_VMID = ''350'', g_Pool = ''Web'', g_Tags = ''vtpm_mds.io.role.FE;x'', g_Template = False\<rparr>,
      \<lparr>g_VMID = ''351'', g_Pool = ''Web'', g_Tags = ''VTPM_MDS.io.role.fe,vtpm_mds.io.bad'', g_Template = False\<rparr>,
      \<lparr>g_VMID = ''352'', g_Pool = ''db'', g_Tags = [], g_Template = False\<rparr>,
      \<lparr>g_VMID = ''353'', g_Pool = ''DB'', g_Tags = [], g_Template = False\<rparr>,
      \<lparr>g_VMID = ''900'', g_Pool = ''Web'', g_Tags = [], g_Template = True\<rparr>]"

lemma sample_Wanted:
  "Wanted ''td'' sampleCluster sampleGuests =
     ([alias_of (''spiffe://td/pve/c1/pool/web'', ''350'') ''ab'',
       alias_of (''spiffe://td/pve/c1/pool/web'', ''351'') ''ab'',
       alias_of (''spiffe://td/pve/c1/pool/web/tag/role/fe'', ''350'') ''ab'',
       alias_of (''spiffe://td/pve/c1/pool/web/tag/role/fe'', ''351'') ''ab'',
       alias_of (''spiffe://td/pve/c1/vm/350'', ''350'') ''ab'', alias_of (''spiffe://td/pve/c1/vm/351'', ''351'') ''ab'',
       alias_of (''spiffe://td/pve/c1/vm/352'', ''352'') ''ab'', alias_of (''spiffe://td/pve/c1/vm/353'', ''353'') ''ab''],
      [Problem ''351'' ReasonBadSegment ''vtpm_mds.io.bad'',
       Problem ''352'' ReasonPoolCollision ''DB,db'', Problem ''353'' ReasonPoolCollision ''DB,db''])"
  by code_simp

theorem Wanted_exact_witness:
  "distinct (c_Fingerprints sampleCluster) \<and> distinct (fst (Wanted ''td'' sampleCluster sampleGuests))
   \<and> length (fst (Wanted ''td'' sampleCluster sampleGuests)) = 8"
  using Wanted_exact [of undefined "''td''" sampleCluster sampleGuests]
  by (simp add: sampleCluster_def sample_Wanted [unfolded sampleCluster_def])

text \<open>
  C16: A node alias never joins guests of different pools. When two wanted aliases carry the
  same SPIFFE ID, one of three things holds of the guests they select: the ID is that of a VM and
  both are this VM; it is that of a pool, and Proxmox lists both under one and the same pool name,
  not merely under names that fold to it; or it names a pool, a key and a value, and both are
  listed under that one pool name and both carry the tag of that very key and value. The collision
  check and the segment check together make the ID an unambiguous encoding, so a VM cannot obtain
  another pool's identity by choosing names.
\<close>

theorem alias_joins_one_pool:
  assumes "a \<in> set (fst (Wanted td c gs))" "b \<in> set (fst (Wanted td c gs))"
    and "a_SPIFFEID a = a_SPIFFEID b"
  shows "\<exists>g \<in> set gs. \<exists>h \<in> set gs. \<not> g_Template g \<and> \<not> g_Template h
    \<and> ''tpm_devid:subject:cn:'' @ g_VMID g \<in> set (a_Selectors a)
    \<and> ''tpm_devid:subject:cn:'' @ g_VMID h \<in> set (a_Selectors b)
    \<and> (a_SPIFFEID a = base_id td c @ ''/vm/'' @ g_VMID g \<and> g_VMID g = g_VMID h
       \<or> a_SPIFFEID a = base_id td c @ ''/pool/'' @ ToLower (g_Pool g) \<and> g_Pool g \<noteq> [] \<and> g_Pool g = g_Pool h
       \<or> (\<exists>key val. a_SPIFFEID a = base_id td c @ ''/pool/'' @ ToLower (g_Pool g) @ ''/tag/'' @ key @ ''/'' @ val
            \<and> g_Pool g \<noteq> [] \<and> g_Pool g = g_Pool h \<and> has_tag g (key, val) \<and> has_tag h (key, val)))"
proof -
  obtain g where g: "g \<in> set gs" "entitled (base_id td c) gs g (a_SPIFFEID a)"
    "''tpm_devid:subject:cn:'' @ g_VMID g \<in> set (a_Selectors a)"
    using assms(1) by (auto simp: Wanted_aliases)
  obtain h where h: "h \<in> set gs" "entitled (base_id td c) gs h (a_SPIFFEID a)"
    "''tpm_devid:subject:cn:'' @ g_VMID h \<in> set (a_Selectors b)"
    using assms(2, 3) by (auto simp: Wanted_aliases)
  have "\<not> g_Template g" "\<not> g_Template h" using g h by (simp_all add: entitled_def)
  with g h entitled_shared [OF g(2) h(2) h(1), unfolded tag_id_def split_paired_Ex fst_conv snd_conv]
  show ?thesis by blast
qed

theorem alias_joins_one_pool_witness:
  "\<exists>g \<in> set sampleGuests. \<exists>h \<in> set sampleGuests. g_VMID g = ''350'' \<and> g_VMID h = ''351'' \<and> g_Pool g = g_Pool h
     \<and> (\<exists>key val. ''role/fe'' = key @ ''/'' @ val \<and> has_tag g (key, val) \<and> has_tag h (key, val))"
proof -
  let ?W = "fst (Wanted ''td'' sampleCluster sampleGuests)"
  let ?a = "alias_of (''spiffe://td/pve/c1/pool/web/tag/role/fe'', ''350'') ''ab''"
    and ?b = "alias_of (''spiffe://td/pve/c1/pool/web/tag/role/fe'', ''351'') ''ab''"
  have "?a \<in> set ?W" "?b \<in> set ?W" by (simp_all add: sample_Wanted)
  moreover have "a_SPIFFEID ?a = a_SPIFFEID ?b" by (simp add: alias_of_eq)
  moreover have "ToLower (g_Pool g) = ''web''" if "g \<in> set sampleGuests" "g_VMID g = ''350''" for g
  proof -
    have "ToLower ''Web'' = ''web''" by code_simp
    then show ?thesis using that by (auto simp: sampleGuests_def)
  qed
  moreover have "base_id ''td'' sampleCluster = ''spiffe://td/pve/c1''"
    by (simp add: base_id_def sampleCluster_def)
  ultimately show ?thesis
    using alias_joins_one_pool [of ?a "''td''" sampleCluster sampleGuests ?b]
    by (fastforce simp: selectors_sorted alias_of_eq)
qed

end
