(* ===== verification/Reconcile_Diff.thy ===== *)
theory Reconcile_Diff
  imports Reconcile_Wanted
begin

text \<open>
  What a pass changes at the SPIRE server (\<open>internal/reconcile/diff.go\<close>): \<open>Diff\<close> compares the
  listed entries with the wanted aliases, and \<open>BanTracker.Observe\<close> counts the reads that miss
  an agent's VM.

  The theorems: \<open>Diff\<close> deletes only entries of its own cluster, never one it wants to keep,
  and applying its answer reaches the wanted set exactly and leaves nothing to do; an agent is
  banned only after two consecutive reads of its cluster that both miss its VM.
\<close>

subsection \<open>Entries and aliases\<close>

record Entry =
  e_ID :: string
  e_ParentID :: string
  e_SPIFFEID :: string
  e_Selectors :: "string list"
  e_Default :: bool

type_synonym key = "string \<times> string"

definition selectorKey :: "string list \<Rightarrow> string" where
  "selectorKey sel = Join (sort sel) [CHR 0x00]"

definition entry_key :: "Entry \<Rightarrow> key" where
  "entry_key e = (e_SPIFFEID e, selectorKey (e_Selectors e))"

definition wanted_key :: "Alias \<Rightarrow> key" where
  "wanted_key a = (a_SPIFFEID a, selectorKey (a_Selectors a))"

definition server_id :: "string \<Rightarrow> string" where
  "server_id td = ''spiffe://'' @ td @ ''/spire/server''"

definition cluster_prefix :: "string \<Rightarrow> string \<Rightarrow> string" where
  "cluster_prefix td cluster = ''spiffe://'' @ td @ ''/pve/'' @ cluster @ ''/''"

subsection \<open>Diff\<close>

text \<open>The loop over \<open>existing\<close>: \<open>want\<close> and \<open>matched\<close> are sets of keys, \<open>del\<close> the ids to delete.\<close>

fun match_loop ::
  "string \<Rightarrow> string \<Rightarrow> key list \<Rightarrow> key list \<Rightarrow> string list \<Rightarrow> Entry list \<Rightarrow> key list \<times> string list" where
  "match_loop parent pre want matched del [] = (matched, del)"
| "match_loop parent pre want matched del (e # es) =
     (if e_ParentID e \<noteq> parent \<or> \<not> HasPrefix (e_SPIFFEID e) pre
      then match_loop parent pre want matched del es
      else let k = entry_key e in
        if e_Default e \<and> k \<in> set want \<and> k \<notin> set matched
        then match_loop parent pre want (k # matched) del es
        else match_loop parent pre want matched (del @ [e_ID e]) es)"

fun create_loop :: "key list \<Rightarrow> key list \<Rightarrow> Alias list \<Rightarrow> Alias list \<Rightarrow> Alias list" where
  "create_loop matched dn create [] = create"
| "create_loop matched dn create (a # as) =
     (let k = wanted_key a in
        if k \<in> set matched \<or> k \<in> set dn then create_loop matched dn create as
        else create_loop matched (k # dn) (create @ [a]) as)"

definition Diff :: "string \<Rightarrow> string \<Rightarrow> Entry list \<Rightarrow> Alias list \<Rightarrow> Alias list \<times> string list" where
  "Diff td cluster existing wanted =
     (let parent = server_id td; pre = cluster_prefix td cluster;
          want = map wanted_key wanted;
          (matched, del) = match_loop parent pre want [] [] existing
      in (create_loop matched [] [] wanted, del))"

subsection \<open>Agents and bans\<close>

record Agent =
  ag_ID :: string
  ag_Selectors :: "string list"
  ag_Banned :: bool

record Ban =
  ban_AgentID :: string
  ban_VMID :: string

record miss =
  miss_count :: nat
  miss_fps :: "string list"

type_synonym BanTracker = "(string \<times> miss) list"

definition fpPrefix :: string where
  "fpPrefix = ''tpm_devid:ca:fingerprint:''"

definition cnPrefix :: string where
  "cnPrefix = ''tpm_devid:subject:cn:''"

definition info_step :: "string \<Rightarrow> string list \<times> string \<times> nat \<Rightarrow> string list \<times> string \<times> nat" where
  "info_step s st = (case st of (fps, vmid, cns) \<Rightarrow>
     if HasPrefix s fpPrefix then (fps @ [drop (length fpPrefix) s], vmid, cns)
     else if HasPrefix s cnPrefix then (fps, drop (length cnPrefix) s, cns + 1)
     else (fps, vmid, cns))"

definition agentInfo :: "Agent \<Rightarrow> string list \<times> string \<times> bool" where
  "agentInfo a =
     (if ag_Banned a then ([], [], False)
      else case fold info_step (ag_Selectors a) ([], [], 0) of
             (fps, vmid, cns) \<Rightarrow> (fps, vmid, cns = 1))"

definition belongs :: "string list \<Rightarrow> string list \<Rightarrow> bool" where
  "belongs mine fps \<longleftrightarrow> list_ex (\<lambda>f. f \<in> set mine) fps"

text \<open>One turn of the loop over \<open>agents\<close>; the state is \<open>b.misses\<close>, \<open>seen\<close> and \<open>bans\<close>.\<close>

definition observe_step ::
  "string list \<Rightarrow> (string \<Rightarrow> bool) \<Rightarrow> Agent \<Rightarrow> BanTracker \<times> string list \<times> Ban list
    \<Rightarrow> BanTracker \<times> string list \<times> Ban list" where
  "observe_step mine listed a st =
     (case st of (misses, seen, bans) \<Rightarrow>
       case agentInfo a of (fps, vmid, ok) \<Rightarrow>
         if \<not> ok \<or> \<not> belongs mine fps then (misses, seen, bans)
         else let seen = ag_ID a # seen in
           if listed vmid then (AList.delete (ag_ID a) misses, seen, bans)
           else let count = (case map_of misses (ag_ID a) of None \<Rightarrow> 0 | Some m \<Rightarrow> miss_count m) + 1
                in if count \<ge> 2
                   then (AList.delete (ag_ID a) misses, seen,
                         bans @ [\<lparr>ban_AgentID = ag_ID a, ban_VMID = vmid\<rparr>])
                   else (AList.update (ag_ID a) \<lparr>miss_count = count, miss_fps = fps\<rparr> misses, seen, bans))"

definition Observe ::
  "string list \<Rightarrow> (string \<Rightarrow> bool) \<Rightarrow> Agent list \<Rightarrow> BanTracker \<Rightarrow> Ban list \<times> BanTracker" where
  "Observe fingerprints listed agents misses0 =
     (case fold (observe_step fingerprints listed) agents (misses0, [], []) of
        (misses, seen, bans) \<Rightarrow>
          (sort_key ban_AgentID bans,
           filter (\<lambda>(i, m). \<not> (i \<notin> set seen \<and> belongs fingerprints (miss_fps m))) misses))"

subsection \<open>What Diff answers\<close>

definition owned :: "string \<Rightarrow> string \<Rightarrow> Entry \<Rightarrow> bool" where
  "owned td cluster e \<longleftrightarrow> e_ParentID e = server_id td \<and> HasPrefix (e_SPIFFEID e) (cluster_prefix td cluster)"

text \<open>
  The entries \<open>Diff\<close> keeps: of the owned ones with every other field at its default, the first
  of each wanted key. \<open>keeps\<close> lists them, given the keys already kept.
\<close>

fun keeps :: "string \<Rightarrow> string \<Rightarrow> key set \<Rightarrow> key set \<Rightarrow> Entry list \<Rightarrow> Entry list" where
  "keeps td cluster want got [] = []"
| "keeps td cluster want got (e # es) =
     (if owned td cluster e \<and> e_Default e \<and> entry_key e \<in> want \<and> entry_key e \<notin> got
      then e # keeps td cluster want (insert (entry_key e) got) es
      else keeps td cluster want got es)"

fun drops :: "string \<Rightarrow> string \<Rightarrow> key set \<Rightarrow> key set \<Rightarrow> Entry list \<Rightarrow> Entry list" where
  "drops td cluster want got [] = []"
| "drops td cluster want got (e # es) =
     (if \<not> owned td cluster e then drops td cluster want got es
      else if e_Default e \<and> entry_key e \<in> want \<and> entry_key e \<notin> got
      then drops td cluster want (insert (entry_key e) got) es
      else e # drops td cluster want got es)"

lemma match_loop_eq:
  "match_loop (server_id td) (cluster_prefix td cluster) want matched del es = (m, d) \<Longrightarrow>
     set m = set matched \<union> entry_key ` set (keeps td cluster (set want) (set matched) es)
     \<and> d = del @ map e_ID (drops td cluster (set want) (set matched) es)"
proof (induction es arbitrary: matched del)
  case (Cons e es)
  show ?case
  proof (cases "owned td cluster e")
    case True
    then show ?thesis
      using Cons.prems Cons.IH [of "entry_key e # matched" del] Cons.IH [of matched "del @ [e_ID e]"]
      by (auto simp: owned_def Let_def split: if_splits)
  next
    case False
    with Cons.prems have "match_loop (server_id td) (cluster_prefix td cluster) want matched del es = (m, d)"
      by (simp add: owned_def split: if_splits)
    with Cons.IH False show ?thesis by simp
  qed
qed simp

definition unmet :: "key set \<Rightarrow> Alias list \<Rightarrow> Alias list" where
  "unmet met wanted = filter (\<lambda>a. wanted_key a \<notin> met) wanted"

lemma create_loop_eq:
  "create_loop matched dn create as = create @ create_loop matched dn [] as"
proof (induction as arbitrary: dn create)
  case (Cons a as)
  show ?case
    using Cons [of dn create] Cons [of "wanted_key a # dn" "create @ [a]"] Cons [of "wanted_key a # dn" "[a]"]
    by (simp add: Let_def)
qed simp

lemma create_loop_keys:
  "wanted_key ` set (create_loop matched dn [] as) = wanted_key ` set as - set matched - set dn
   \<and> set (create_loop matched dn [] as) \<subseteq> set as
   \<and> distinct (map wanted_key (create_loop matched dn [] as))"
proof (induction as arbitrary: dn)
  case (Cons a as)
  show ?case
  proof (cases "wanted_key a \<in> set matched \<or> wanted_key a \<in> set dn")
    case True
    with Cons [of dn] show ?thesis by (auto simp: Let_def)
  next
    case False
    then have step: "create_loop matched dn [] (a # as) = a # create_loop matched (wanted_key a # dn) [] as"
      using create_loop_eq [of matched "wanted_key a # dn" "[a]" as] by (simp add: Let_def)
    have "wanted_key a \<notin> wanted_key ` set (create_loop matched (wanted_key a # dn) [] as)"
      using Cons [of "wanted_key a # dn"] by simp
    then show ?thesis
      unfolding step using Cons [of "wanted_key a # dn"] False by auto
  qed
qed simp

lemma keeps_sound:
  "e \<in> set (keeps td cluster want got es) \<Longrightarrow>
     e \<in> set es \<and> owned td cluster e \<and> e_Default e \<and> entry_key e \<in> want \<and> entry_key e \<notin> got"
  by (induction es arbitrary: got) (auto split: if_splits)

lemma keeps_distinct: "distinct (map entry_key (keeps td cluster want got es))"
proof (induction es arbitrary: got)
  case (Cons e es)
  have "entry_key e \<notin> entry_key ` set (keeps td cluster want (insert (entry_key e) got) es)"
    using keeps_sound by fastforce
  with Cons show ?case by simp
qed simp

lemma keeps_or_drops:
  "{e \<in> set es. owned td cluster e} = set (keeps td cluster want got es) \<union> set (drops td cluster want got es)"
  by (induction es arbitrary: got) auto

lemma drops_owned: "e \<in> set (drops td cluster want got es) \<Longrightarrow> e \<in> set es \<and> owned td cluster e"
  by (induction es arbitrary: got) (auto split: if_splits)

lemma keeps_is_filter:
  assumes "distinct (map e_ID es)"
  shows "keeps td cluster want got es =
    filter (\<lambda>e. owned td cluster e \<and> e_ID e \<notin> e_ID ` set (drops td cluster want got es)) es"
  using assms
proof (induction es arbitrary: got)
  case (Cons e es)
  have fresh: "e_ID e \<notin> e_ID ` set (drops td cluster want g es)" for g
    using Cons.prems drops_owned by fastforce
  have cong: "filter (\<lambda>x. owned td cluster x \<and> e_ID x \<noteq> e_ID e \<and> e_ID x \<notin> A) es =
      filter (\<lambda>x. owned td cluster x \<and> e_ID x \<notin> A) es" for A
    using Cons.prems by (intro filter_cong) (auto simp: image_iff)
  show ?case
    using Cons.IH [of got] Cons.IH [of "insert (entry_key e) got"] Cons.prems fresh
    by (simp add: cong)
qed simp

text \<open>The pair \<open>Diff\<close> returns, in the terms of the specification.\<close>

definition kept :: "string \<Rightarrow> string \<Rightarrow> Entry list \<Rightarrow> Alias list \<Rightarrow> Entry list" where
  "kept td cluster existing wanted = keeps td cluster (wanted_key ` set wanted) {} existing"

definition dropped :: "string \<Rightarrow> string \<Rightarrow> Entry list \<Rightarrow> Alias list \<Rightarrow> Entry list" where
  "dropped td cluster existing wanted = drops td cluster (wanted_key ` set wanted) {} existing"

lemma Diff_facts:
  assumes "Diff td cluster existing wanted = (create, del)"
  shows "del = map e_ID (dropped td cluster existing wanted)"
    and "wanted_key ` set create = wanted_key ` set wanted - entry_key ` set (kept td cluster existing wanted)"
    and "set create \<subseteq> set wanted"
    and "distinct (map wanted_key create)"
proof -
  obtain m where run: "match_loop (server_id td) (cluster_prefix td cluster) (map wanted_key wanted) [] [] existing = (m, del)"
    and c: "create = create_loop m [] [] wanted"
    using assms by (auto simp: Diff_def Let_def split: prod.splits)
  have m: "set m = entry_key ` set (kept td cluster existing wanted)"
    and "del = map e_ID (dropped td cluster existing wanted)"
    using match_loop_eq [OF run] by (simp_all add: kept_def dropped_def)
  then show "del = map e_ID (dropped td cluster existing wanted)" by simp
  show "wanted_key ` set create = wanted_key ` set wanted - entry_key ` set (kept td cluster existing wanted)"
    "set create \<subseteq> set wanted" "distinct (map wanted_key create)"
    using create_loop_keys [of m "[]" wanted] by (simp_all add: c m)
qed

lemma kept_facts:
  "e \<in> set (kept td cluster existing wanted) \<Longrightarrow>
     e \<in> set existing \<and> owned td cluster e \<and> e_Default e \<and> entry_key e \<in> wanted_key ` set wanted"
  "distinct (map entry_key (kept td cluster existing wanted))"
  by (auto simp: kept_def keeps_distinct dest: keeps_sound)

lemma kept_is_filter:
  assumes "distinct (map e_ID existing)" "Diff td cluster existing wanted = (create, del)"
  shows "kept td cluster existing wanted = filter (\<lambda>e. owned td cluster e \<and> e_ID e \<notin> set del) existing"
  using keeps_is_filter [OF assms(1)] Diff_facts(1) [OF assms(2)] by (simp add: kept_def dropped_def)

subsection \<open>Convergence\<close>

text \<open>
  \<open>settled\<close>: the entries of the cluster are the wanted aliases, each once, with every other
  field at its default. \<open>fulfils\<close>: an entry the server made for a wanted alias.
\<close>

definition settled :: "string \<Rightarrow> string \<Rightarrow> Alias list \<Rightarrow> Entry list \<Rightarrow> bool" where
  "settled td cluster wanted es \<longleftrightarrow>
     distinct (map entry_key (filter (owned td cluster) es))
     \<and> entry_key ` set (filter (owned td cluster) es) = wanted_key ` set wanted
     \<and> list_all e_Default (filter (owned td cluster) es)"

definition fulfils :: "string \<Rightarrow> Alias \<Rightarrow> Entry \<Rightarrow> bool" where
  "fulfils td a e \<longleftrightarrow> e_ParentID e = server_id td \<and> entry_key e = wanted_key a \<and> e_Default e"

definition in_cluster :: "string \<Rightarrow> string \<Rightarrow> Alias list \<Rightarrow> bool" where
  "in_cluster td cluster wanted \<longleftrightarrow> list_all (\<lambda>a. HasPrefix (a_SPIFFEID a) (cluster_prefix td cluster)) wanted"

lemma settled_drops:
  assumes "distinct (map entry_key (filter (owned td cluster) es))"
    and "\<And>e. e \<in> set es \<Longrightarrow> owned td cluster e \<Longrightarrow> e_Default e \<and> entry_key e \<in> want \<and> entry_key e \<notin> got"
  shows "drops td cluster want got es = [] \<and> keeps td cluster want got es = filter (owned td cluster) es"
  using assms
proof (induction es arbitrary: got)
  case (Cons e es)
  show ?case
  proof (cases "owned td cluster e")
    case True
    have "drops td cluster want (insert (entry_key e) got) es = []
        \<and> keeps td cluster want (insert (entry_key e) got) es = filter (owned td cluster) es"
      using Cons.prems True by (intro Cons.IH) (auto simp: image_iff)
    with True Cons.prems(2) [of e] show ?thesis by simp
  next
    case False
    with Cons show ?thesis by simp
  qed
qed simp

lemma Diff_settled:
  assumes "settled td cluster wanted es"
  shows "Diff td cluster es wanted = ([], [])"
proof -
  obtain create del where d: "Diff td cluster es wanted = (create, del)" by fastforce
  have "drops td cluster (wanted_key ` set wanted) {} es = []
      \<and> keeps td cluster (wanted_key ` set wanted) {} es = filter (owned td cluster) es"
    using assms by (intro settled_drops) (auto simp: settled_def list_all_iff)
  then have "dropped td cluster es wanted = []" "kept td cluster es wanted = filter (owned td cluster) es"
    by (simp_all add: kept_def dropped_def)
  then have "del = []" "wanted_key ` set create = {}"
    using Diff_facts(1, 2) [OF d] assms by (simp_all add: settled_def)
  with d show ?thesis by simp
qed

lemma settled_mset:
  assumes "mset xs = mset ys"
  shows "settled td cluster w xs \<longleftrightarrow> settled td cluster w ys"
proof -
  let ?f = "filter (owned td cluster)"
  have m: "mset (?f xs) = mset (?f ys)" using assms by (simp add: mset_filter)
  then have s: "set (?f xs) = set (?f ys)" by (rule mset_eq_setD)
  have "mset (map entry_key (?f xs)) = mset (map entry_key (?f ys))"
    unfolding mset_map m ..
  then have d: "distinct (map entry_key (?f xs)) \<longleftrightarrow> distinct (map entry_key (?f ys))"
    by (rule mset_eq_imp_distinct_iff)
  show ?thesis
    unfolding settled_def list_all_iff s d ..
qed

lemma fulfils_owned:
  assumes "fulfils td a e" "HasPrefix (a_SPIFFEID a) (cluster_prefix td cluster)"
  shows "owned td cluster e"
  using assms by (simp add: fulfils_def owned_def entry_key_def wanted_key_def)

lemma made_facts:
  assumes "list_all2 (fulfils td) create made" "in_cluster td cluster create"
  shows "filter (owned td cluster) made = made" "map entry_key made = map wanted_key create"
    "list_all e_Default made"
  using assms
  by (induction rule: list_all2_induct) (auto simp: in_cluster_def fulfils_owned, auto simp: fulfils_def)

lemma Diff_apply_settled:
  assumes "Diff td cluster es wanted = (create, del)" "distinct (map e_ID es)"
    and "in_cluster td cluster wanted" "list_all2 (fulfils td) create made"
  shows "settled td cluster wanted (filter (\<lambda>e. e_ID e \<notin> set del) es @ made)"
proof -
  note D = Diff_facts [OF assms(1)]
  have create: "in_cluster td cluster create"
    using assms(3) D(3) by (auto simp: in_cluster_def list_all_iff)
  note M = made_facts [OF assms(4) create]
  have own: "filter (owned td cluster) (filter (\<lambda>e. e_ID e \<notin> set del) es @ made)
      = kept td cluster es wanted @ made"
    using kept_is_filter [OF assms(2, 1)] M(1) by (simp add: conj_commute)
  have "set made_keys = wanted_key ` set create" if "made_keys = map entry_key made" for made_keys
    using that M(2) by simp
  then have keys: "entry_key ` set made = wanted_key ` set create" by (metis list.set_map)
  have "entry_key ` set (kept td cluster es wanted) \<subseteq> wanted_key ` set wanted"
    using kept_facts(1) by blast
  then show ?thesis
    unfolding settled_def own using D kept_facts(2) [of td cluster es wanted] M keys
    by (auto simp: list_all_iff dest: kept_facts(1))
qed

lemma Diff_apply_others:
  assumes "Diff td cluster es wanted = (create, del)" "distinct (map e_ID es)"
    and "in_cluster td cluster wanted" "list_all2 (fulfils td) create made"
  shows "filter (\<lambda>e. \<not> owned td cluster e) (filter (\<lambda>e. e_ID e \<notin> set del) es @ made)
    = filter (\<lambda>e. \<not> owned td cluster e) es"
proof -
  note D = Diff_facts [OF assms(1)]
  have create: "in_cluster td cluster create"
    using assms(3) D(3) by (auto simp: in_cluster_def list_all_iff)
  have "filter (\<lambda>e. \<not> owned td cluster e) made = []"
    using made_facts(1) [OF assms(4) create] by (metis filter_False filter_id_conv)
  moreover have "e_ID e \<notin> set del" if e: "e \<in> set es" "\<not> owned td cluster e" for e
  proof
    assume "e_ID e \<in> set del"
    then obtain f where "f \<in> set es" "owned td cluster f" "e_ID f = e_ID e"
      using D(1) drops_owned by (fastforce simp: dropped_def)
    then show False using e assms(2) by (metis distinct_map inj_onD)
  qed
  ultimately show ?thesis by (auto intro: filter_cong)
qed

lemma cluster_prefix_apart:
  assumes "validSegment c" "validSegment c'" "HasPrefix s (cluster_prefix td c)" "HasPrefix s (cluster_prefix td c')"
  shows "c = c'"
proof -
  obtain r r' where "s = cluster_prefix td c @ r" "s = cluster_prefix td c' @ r'"
    using assms(3, 4) by (metis HasPrefixE)
  then have "c @ CHR ''/'' # r = c' @ CHR ''/'' # r'" by (simp add: cluster_prefix_def)
  then show ?thesis using assms(1, 2) by (simp add: append_sep_cancel validSegment_no_slash)
qed

lemma owned_apart: "validSegment c \<Longrightarrow> validSegment c' \<Longrightarrow> owned td c e \<Longrightarrow> owned td c' e \<Longrightarrow> c = c'"
  unfolding owned_def using cluster_prefix_apart by blast

subsection \<open>Claims about Diff\<close>

text \<open>
  \<open>Diff\<close> never deletes what it does not own. Every id to delete belongs to a listed entry
  parented on the server under the cluster's own \<open>/pve/\<close> prefix; entry ids being unique, no
  entry of another configured cluster and no entry outside \<open>/pve/\<close> is deleted, also when one
  cluster name is a prefix of the other. Every alias to create is a wanted one, and no key is
  created twice.
\<close>

lemma Diff_own_only:
  assumes "Diff td cluster existing wanted = (create, del)" "distinct (map e_ID existing)"
    and "validSegment cluster"
  shows "(\<forall>x \<in> set del. \<exists>e \<in> set existing. e_ID e = x \<and> owned td cluster e)
    \<and> (\<forall>e \<in> set existing. \<forall>other. e_ID e \<in> set del \<and> validSegment other
         \<and> HasPrefix (e_SPIFFEID e) (cluster_prefix td other) \<longrightarrow> other = cluster)
    \<and> set create \<subseteq> set wanted \<and> distinct (map wanted_key create)"
proof (intro conjI ballI allI impI)
  show "\<exists>e \<in> set existing. e_ID e = x \<and> owned td cluster e" if x: "x \<in> set del" for x
    using x Diff_facts(1) [OF assms(1)] drops_owned by (fastforce simp: dropped_def)
  then show "other = cluster"
    if e: "e \<in> set existing" "e_ID e \<in> set del \<and> validSegment other
      \<and> HasPrefix (e_SPIFFEID e) (cluster_prefix td other)" for e other
  proof -
    obtain f where "f \<in> set existing" "e_ID f = e_ID e" "owned td cluster f"
      using \<open>\<And>x. x \<in> set del \<Longrightarrow> \<exists>e \<in> set existing. e_ID e = x \<and> owned td cluster e\<close> e by blast
    then have "owned td cluster e" using e assms(2) by (metis distinct_map inj_onD)
    then show ?thesis using e assms(3) cluster_prefix_apart by (auto simp: owned_def)
  qed
qed (use Diff_facts(3, 4) [OF assms(1)] in auto)

definition sampleEntries :: "Entry list" where
  "sampleEntries =
     [\<lparr>e_ID = ''e1'', e_ParentID = ''spiffe://td/spire/server'', e_SPIFFEID = ''spiffe://td/pve/c1/vm/7'',
       e_Selectors = [''b'', ''a''], e_Default = True\<rparr>,
      \<lparr>e_ID = ''e2'', e_ParentID = ''spiffe://td/spire/server'', e_SPIFFEID = ''spiffe://td/pve/c1/vm/8'',
       e_Selectors = [''a''], e_Default = False\<rparr>,
      \<lparr>e_ID = ''e3'', e_ParentID = ''spiffe://td/spire/server'', e_SPIFFEID = ''spiffe://td/pve/c10/vm/9'',
       e_Selectors = [''a''], e_Default = True\<rparr>]"

definition sampleAliases :: "Alias list" where
  "sampleAliases =
     [\<lparr>a_SPIFFEID = ''spiffe://td/pve/c1/vm/7'', a_Selectors = [''a'', ''b'']\<rparr>,
      \<lparr>a_SPIFFEID = ''spiffe://td/pve/c1/vm/8'', a_Selectors = [''a'']\<rparr>]"

lemma sample_Diff:
  "Diff ''td'' ''c1'' sampleEntries sampleAliases =
     ([\<lparr>a_SPIFFEID = ''spiffe://td/pve/c1/vm/8'', a_Selectors = [''a'']\<rparr>], [''e2''])"
  by code_simp

lemma sample_c1: "validSegment ''c1''"
  by code_simp

lemma Diff_own_only_witness:
  "\<exists>e \<in> set sampleEntries. e_ID e = ''e2'' \<and> owned ''td'' ''c1'' e"
  using Diff_own_only [OF sample_Diff _ sample_c1] by (simp add: sampleEntries_def)

text \<open>
  One pass of \<open>Diff\<close> is enough. Take any server that deletes the entries named, makes one
  default entry per alias to create and lists its entries in any order: afterwards the entries
  of the cluster are exactly the wanted aliases, each once and with default fields, all other
  entries are as before, and \<open>Diff\<close> has nothing left to do.
\<close>

lemma Diff_converges:
  assumes "Diff td cluster existing wanted = (create, del)" "distinct (map e_ID existing)"
    and "in_cluster td cluster wanted" "list_all2 (fulfils td) create made"
    and "mset after = mset (filter (\<lambda>e. e_ID e \<notin> set del) existing @ made)"
  shows "settled td cluster wanted after
    \<and> mset (filter (\<lambda>e. \<not> owned td cluster e) after) = mset (filter (\<lambda>e. \<not> owned td cluster e) existing)
    \<and> Diff td cluster after wanted = ([], [])"
proof -
  have "settled td cluster wanted after"
    using Diff_apply_settled [OF assms(1-4)] settled_mset [OF assms(5)] by simp
  moreover have "mset (filter (\<lambda>e. \<not> owned td cluster e) after)
      = mset (filter (\<lambda>e. \<not> owned td cluster e) existing)"
    unfolding Diff_apply_others [OF assms(1-4), symmetric] using assms(5) by (simp only: mset_filter)
  ultimately show ?thesis by (simp add: Diff_settled)
qed

definition sampleMade :: Entry where
  "sampleMade = \<lparr>e_ID = ''e4'', e_ParentID = ''spiffe://td/spire/server'',
     e_SPIFFEID = ''spiffe://td/pve/c1/vm/8'', e_Selectors = [''a''], e_Default = True\<rparr>"

lemma Diff_converges_witness:
  "settled ''td'' ''c1'' sampleAliases (sampleMade # filter (\<lambda>e. e_ID e \<notin> set [''e2'']) sampleEntries)"
proof -
  have "distinct (map e_ID sampleEntries)" by (simp add: sampleEntries_def)
  moreover have "in_cluster ''td'' ''c1'' sampleAliases" by code_simp
  moreover have "list_all2 (fulfils ''td'') [\<lparr>a_SPIFFEID = ''spiffe://td/pve/c1/vm/8'', a_Selectors = [''a'']\<rparr>] [sampleMade]"
    by (simp add: fulfils_def sampleMade_def server_id_def entry_key_def wanted_key_def)
  moreover have "mset (sampleMade # filter (\<lambda>e. e_ID e \<notin> set [''e2'']) sampleEntries)
      = mset (filter (\<lambda>e. e_ID e \<notin> set [''e2'']) sampleEntries @ [sampleMade])"
    by simp
  ultimately show ?thesis by (rule Diff_converges [OF sample_Diff, THEN conjunct1])
qed

subsection \<open>Two consecutive misses\<close>

text \<open>
  One read of one cluster, as \<open>Observe\<close> is told of it, and what it says of an agent: present
  (attested, not banned, with one VM id and an authority of the cluster), and missed (present,
  its VM not listed).
\<close>

record cluster_read =
  r_fps :: "string list"
  r_listed :: "string \<Rightarrow> bool"
  r_agents :: "Agent list"

definition concerned :: "cluster_read \<Rightarrow> Agent \<Rightarrow> bool" where
  "concerned r a \<longleftrightarrow> (case agentInfo a of (fps, vmid, ok) \<Rightarrow> ok \<and> belongs (r_fps r) fps)"

definition present :: "cluster_read \<Rightarrow> string \<Rightarrow> bool" where
  "present r i \<longleftrightarrow> (\<exists>a \<in> set (r_agents r). ag_ID a = i \<and> concerned r a)"

definition missed :: "cluster_read \<Rightarrow> string \<Rightarrow> string list \<Rightarrow> bool" where
  "missed r i fps \<longleftrightarrow> (\<exists>a \<in> set (r_agents r). \<exists>vmid. ag_ID a = i \<and> agentInfo a = (fps, vmid, True)
     \<and> belongs (r_fps r) fps \<and> \<not> r_listed r vmid)"

definition observe_read :: "cluster_read \<Rightarrow> BanTracker \<Rightarrow> Ban list \<times> BanTracker" where
  "observe_read r b = Observe (r_fps r) (r_listed r) (r_agents r) b"

definition observe_all :: "cluster_read list \<Rightarrow> BanTracker" where
  "observe_all rs = fold (\<lambda>r b. snd (observe_read r b)) rs []"

lemma observe_step_other:
  assumes "ag_ID a \<noteq> i" "observe_step mine listed a (m, s, bs) = (m', s', bs')"
  shows "map_of m' i = map_of m i \<and> (i \<in> set s' \<longleftrightarrow> i \<in> set s)
    \<and> (i \<in> ban_AgentID ` set bs' \<longleftrightarrow> i \<in> ban_AgentID ` set bs)"
  using assms by (auto simp: observe_step_def Let_def split: prod.splits if_splits)

lemma observe_fold_other:
  assumes "i \<notin> ag_ID ` set as" "fold (observe_step mine listed) as (m, s, bs) = (m', s', bs')"
  shows "map_of m' i = map_of m i \<and> (i \<in> set s' \<longleftrightarrow> i \<in> set s)
    \<and> (i \<in> ban_AgentID ` set bs' \<longleftrightarrow> i \<in> ban_AgentID ` set bs)"
  using assms
proof (induction as arbitrary: m s bs)
  case (Cons a as)
  obtain m1 s1 bs1 where st: "observe_step mine listed a (m, s, bs) = (m1, s1, bs1)"
    by (cases "observe_step mine listed a (m, s, bs)")
  then have "fold (observe_step mine listed) as (m1, s1, bs1) = (m', s', bs')"
    using Cons.prems by simp
  with Cons.IH Cons.prems observe_step_other [OF _ st, of i] show ?case by auto
qed simp

lemma observe_step_tracker_keys:
  "observe_step mine listed a (m, s, bs) = (m', s', bs') \<Longrightarrow> distinct (map fst m) \<Longrightarrow> distinct (map fst m')"
  by (auto simp: observe_step_def Let_def split: prod.splits if_splits)

lemma observe_fold_tracker_keys:
  "fold (observe_step mine listed) as (m, s, bs) = (m', s', bs') \<Longrightarrow> distinct (map fst m)
    \<Longrightarrow> distinct (map fst m')"
proof (induction as arbitrary: m s bs)
  case (Cons a as)
  then show ?case
    by (cases "observe_step mine listed a (m, s, bs)") (auto dest: observe_step_tracker_keys)
qed simp

lemma map_of_filter_distinct:
  "distinct (map fst m) \<Longrightarrow> map_of (filter P m) k =
     (case map_of m k of None \<Rightarrow> None | Some v \<Rightarrow> if P (k, v) then Some v else None)"
proof (induction m)
  case (Cons x m)
  then show ?case by (cases x) (force split: option.splits dest: map_of_SomeD)
qed simp

lemma distinct_fst_filter: "distinct (map fst m) \<Longrightarrow> distinct (map fst (filter P m))"
  by (simp add: distinct_map_filter)

lemma observe_fold_tracker:
  assumes "Observe fps listed as b = (bans, b')"
  obtains m s bs where "fold (observe_step fps listed) as (b, [], []) = (m, s, bs)"
    "ban_AgentID ` set bans = ban_AgentID ` set bs"
    "b' = filter (\<lambda>(i, x). \<not> (i \<notin> set s \<and> belongs fps (miss_fps x))) m"
  using assms by (auto simp: Observe_def split: prod.splits)

lemma Observe_keys:
  assumes "Observe fps listed as b = (bans, b')" "distinct (map fst b)"
  shows "distinct (map fst b')"
  using assms by (elim observe_fold_tracker) (simp add: distinct_fst_filter observe_fold_tracker_keys)

lemma observe_step_unconcerned:
  "\<not> (case agentInfo a of (fps, vmid, ok) \<Rightarrow> ok \<and> belongs mine fps) \<Longrightarrow> observe_step mine listed a st = st"
  by (cases st) (auto simp: observe_step_def split: prod.splits)

text \<open>A read in which the agent is not present: it is not banned, and a miss of this cluster is forgotten.\<close>

lemma observe_absent:
  assumes "observe_read r b = (bans, b')" "distinct (map fst b)" "\<not> present r i"
  shows "i \<notin> ban_AgentID ` set bans
    \<and> map_of b' i = (case map_of b i of None \<Rightarrow> None
                     | Some m \<Rightarrow> if belongs (r_fps r) (miss_fps m) then None else Some m)"
proof -
  let ?step = "observe_step (r_fps r) (r_listed r)"
  obtain m s bs where f: "fold ?step (r_agents r) (b, [], []) = (m, s, bs)"
    and bans: "ban_AgentID ` set bans = ban_AgentID ` set bs"
    and b': "b' = filter (\<lambda>(i, x). \<not> (i \<notin> set s \<and> belongs (r_fps r) (miss_fps x))) m"
    using assms(1) unfolding observe_read_def by (rule observe_fold_tracker)
  have drop: "fold ?step as st = fold ?step (filter (\<lambda>a. ag_ID a \<noteq> i) as) st"
    if "\<forall>a \<in> set as. ag_ID a = i \<longrightarrow> \<not> concerned r a" for as st
    using that by (induction as arbitrary: st) (auto simp: observe_step_unconcerned concerned_def)
  have "fold ?step (filter (\<lambda>a. ag_ID a \<noteq> i) (r_agents r)) (b, [], []) = (m, s, bs)"
    using f drop [of "r_agents r"] assms(3) by (auto simp: present_def)
  then have "map_of m i = map_of b i \<and> i \<notin> set s \<and> i \<notin> ban_AgentID ` set bs"
    using observe_fold_other [of i "filter (\<lambda>a. ag_ID a \<noteq> i) (r_agents r)"] by fastforce
  moreover have "distinct (map fst m)" using f assms(2) by (rule observe_fold_tracker_keys)
  ultimately show ?thesis by (auto simp: b' bans map_of_filter_distinct split: option.splits)
qed

text \<open>A read in which it is present: the miss count decides.\<close>

lemma observe_present:
  assumes "observe_read r b = (bans, b')" "distinct (map fst b)" "distinct (map ag_ID (r_agents r))"
    and "a \<in> set (r_agents r)" "agentInfo a = (fps, vmid, True)" "belongs (r_fps r) fps"
  defines "i \<equiv> ag_ID a"
  defines "n \<equiv> (case map_of b i of None \<Rightarrow> 0 | Some m \<Rightarrow> miss_count m) + 1"
  shows "(i \<in> ban_AgentID ` set bans \<longleftrightarrow> \<not> r_listed r vmid \<and> 2 \<le> n)
    \<and> map_of b' i = (if r_listed r vmid \<or> 2 \<le> n then None else Some \<lparr>miss_count = n, miss_fps = fps\<rparr>)"
proof -
  let ?step = "observe_step (r_fps r) (r_listed r)"
  obtain m s bs where f: "fold ?step (r_agents r) (b, [], []) = (m, s, bs)"
    and bans: "ban_AgentID ` set bans = ban_AgentID ` set bs"
    and b': "b' = filter (\<lambda>(i, x). \<not> (i \<notin> set s \<and> belongs (r_fps r) (miss_fps x))) m"
    using assms(1) unfolding observe_read_def by (rule observe_fold_tracker)
  obtain xs ys where split: "r_agents r = xs @ a # ys" using assms(4) by (meson split_list)
  have notin: "i \<notin> ag_ID ` set xs" "i \<notin> ag_ID ` set ys"
    using assms(3) by (auto simp: split i_def image_iff)
  obtain m1 s1 bs1 where f1: "fold ?step xs (b, [], []) = (m1, s1, bs1)" by (metis prod_cases3)
  obtain m2 s2 bs2 where f2: "?step a (m1, s1, bs1) = (m2, s2, bs2)" by (metis prod_cases3)
  have f3: "fold ?step ys (m2, s2, bs2) = (m, s, bs)" using f by (simp add: split f1 f2)
  have one: "map_of m1 i = map_of b i" "i \<notin> set s1" "i \<notin> ban_AgentID ` set bs1"
    using observe_fold_other [OF notin(1) f1] by auto
  have two: "map_of m2 i = (if r_listed r vmid \<or> 2 \<le> n then None else Some \<lparr>miss_count = n, miss_fps = fps\<rparr>)"
    "i \<in> set s2" "i \<in> ban_AgentID ` set bs2 \<longleftrightarrow> \<not> r_listed r vmid \<and> 2 \<le> n"
    using f2 assms(5, 6) one
    by (auto simp: observe_step_def i_def n_def Let_def split: if_splits)
  have "map_of m i = map_of m2 i" "i \<in> set s" "i \<in> ban_AgentID ` set bs \<longleftrightarrow> i \<in> ban_AgentID ` set bs2"
    using observe_fold_other [OF notin(2) f3] two(2) by auto
  moreover have "distinct (map fst m)" using f assms(2) by (rule observe_fold_tracker_keys)
  ultimately show ?thesis
    using two by (simp add: b' bans map_of_filter_distinct split: option.splits)
qed

definition well_listed :: "cluster_read list \<Rightarrow> bool" where
  "well_listed rs \<longleftrightarrow> list_all (\<lambda>r. distinct (map ag_ID (r_agents r))) rs"

lemma observe_all_snoc: "observe_all (rs @ [r]) = snd (observe_read r (observe_all rs))"
  by (simp add: observe_all_def)

lemma observe_all_keys: "distinct (map fst (observe_all rs))"
proof (induction rs rule: rev_induct)
  case (snoc r rs)
  then show ?case
    using Observe_keys by (metis observe_all_snoc observe_read_def prod.collapse)
qed (simp add: observe_all_def)

lemma presentE:
  assumes "present r i" obtains a fps vmid where "a \<in> set (r_agents r)" "ag_ID a = i"
    "agentInfo a = (fps, vmid, True)" "belongs (r_fps r) fps"
proof -
  obtain a where a: "a \<in> set (r_agents r)" "ag_ID a = i" "concerned r a"
    using assms by (auto simp: present_def)
  obtain fps vmid ok where "agentInfo a = (fps, vmid, ok)" by (metis prod_cases3)
  with a show thesis by (intro that [of a fps vmid]) (simp_all add: concerned_def)
qed

lemma missed_present:
  assumes "missed r i fps" obtains a vmid where "a \<in> set (r_agents r)" "ag_ID a = i"
    "agentInfo a = (fps, vmid, True)" "belongs (r_fps r) fps" "\<not> r_listed r vmid"
  using assms by (auto simp: missed_def)

text \<open>\<open>pending hist i fps\<close>: the last read of its cluster missed the agent \<open>i\<close>, which carried \<open>fps\<close>.\<close>

definition pending :: "cluster_read list \<Rightarrow> string \<Rightarrow> string list \<Rightarrow> bool" where
  "pending hist i fps \<longleftrightarrow> (\<exists>h1 r h2. hist = h1 @ r # h2 \<and> missed r i fps
     \<and> (\<forall>x \<in> set h2. \<not> present x i \<and> \<not> belongs (r_fps x) fps))"

lemma pending_now: "missed r i fps \<Longrightarrow> pending (hist @ [r]) i fps"
  unfolding pending_def by (intro exI [of _ hist] exI [of _ r] exI [of _ "[]"]) simp

lemma pending_later:
  assumes "pending hist i fps" "\<not> present r i" "\<not> belongs (r_fps r) fps"
  shows "pending (hist @ [r]) i fps"
proof -
  obtain h1 r1 h2 where h: "hist = h1 @ r1 # h2" "missed r1 i fps"
    "\<forall>x \<in> set h2. \<not> present x i \<and> \<not> belongs (r_fps x) fps"
    using assms(1) by (auto simp: pending_def)
  then have "hist @ [r] = h1 @ r1 # (h2 @ [r])" by simp
  with h assms(2, 3) show ?thesis unfolding pending_def
    by (metis (no_types, lifting) rotate1.simps(2) set_ConsD set_rotate1)
qed

lemma tracker_pending:
  "well_listed hist \<Longrightarrow> map_of (observe_all hist) i = Some m
    \<Longrightarrow> miss_count m = 1 \<and> pending hist i (miss_fps m)"
proof (induction hist arbitrary: m rule: rev_induct)
  case Nil
  then show ?case by (simp add: observe_all_def)
next
  case (snoc r hist)
  let ?b = "observe_all hist"
  obtain bans b' where o: "observe_read r ?b = (bans, b')" by fastforce
  have now: "map_of b' i = Some m" using snoc.prems(2) o by (simp add: observe_all_snoc)
  show ?case
  proof (cases "present r i")
    case False
    then have "map_of ?b i = Some m \<and> \<not> belongs (r_fps r) (miss_fps m)"
      using observe_absent [OF o observe_all_keys] now by (auto split: option.splits if_splits)
    with snoc False pending_later show ?thesis by (auto simp: well_listed_def)
  next
    case True
    then obtain a fps vmid where a: "a \<in> set (r_agents r)" "ag_ID a = i"
      "agentInfo a = (fps, vmid, True)" "belongs (r_fps r) fps"
      by (rule presentE)
    have d: "distinct (map ag_ID (r_agents r))" using snoc.prems(1) by (simp add: well_listed_def)
    have "\<not> r_listed r vmid \<and> m = \<lparr>miss_count = 1, miss_fps = fps\<rparr>"
      using observe_present [OF o observe_all_keys d a(1, 3, 4)] now a(2)
      by (auto split: option.splits if_splits)
    then have "miss_count m = 1" "miss_fps m = fps" "missed r i fps"
      using a unfolding missed_def by auto
    then show ?thesis by (simp add: pending_now)
  qed
qed

text \<open>Within a history, the next read of the cluster bans exactly the agents with a pending miss.\<close>

lemma banned_iff:
  assumes "well_listed (hist @ [r])" "missed r i fps"
  shows "i \<in> ban_AgentID ` set (fst (observe_read r (observe_all hist)))
      \<longleftrightarrow> map_of (observe_all hist) i \<noteq> None"
    and "i \<notin> ban_AgentID ` set (fst (observe_read r (observe_all hist)))
      \<Longrightarrow> map_of (observe_all (hist @ [r])) i = Some \<lparr>miss_count = 1, miss_fps = fps\<rparr>"
proof -
  obtain a vmid where a: "a \<in> set (r_agents r)" "ag_ID a = i" "agentInfo a = (fps, vmid, True)"
    "belongs (r_fps r) fps" "\<not> r_listed r vmid"
    using assms(2) by (rule missed_present)
  obtain bans b' where o: "observe_read r (observe_all hist) = (bans, b')" by fastforce
  have d: "distinct (map ag_ID (r_agents r))" "well_listed hist"
    using assms(1) by (simp_all add: well_listed_def)
  note P = observe_present [OF o observe_all_keys d(1) a(1, 3, 4)]
  show "i \<in> ban_AgentID ` set (fst (observe_read r (observe_all hist)))
      \<longleftrightarrow> map_of (observe_all hist) i \<noteq> None"
    using P a tracker_pending [OF d(2), of i] by (cases "map_of (observe_all hist) i") (auto simp: o)
  then show "i \<notin> ban_AgentID ` set (fst (observe_read r (observe_all hist)))
      \<Longrightarrow> map_of (observe_all (hist @ [r])) i = Some \<lparr>miss_count = 1, miss_fps = fps\<rparr>"
    using P a by (auto simp: o observe_all_snoc)
qed

lemma banned_missed:
  assumes "well_listed (hist @ [r])" "i \<in> ban_AgentID ` set (fst (observe_read r (observe_all hist)))"
  shows "\<exists>fps. missed r i fps"
proof -
  obtain bans b' where o: "observe_read r (observe_all hist) = (bans, b')" by fastforce
  have d: "distinct (map ag_ID (r_agents r))" using assms(1) by (simp add: well_listed_def)
  have "present r i" using observe_absent [OF o observe_all_keys] assms(2) o by auto
  then obtain a fps vmid where a: "a \<in> set (r_agents r)" "ag_ID a = i"
    "agentInfo a = (fps, vmid, True)" "belongs (r_fps r) fps"
    by (rule presentE)
  then show ?thesis
    using observe_present [OF o observe_all_keys d a(1, 3, 4)] assms(2) o by (auto simp: missed_def)
qed

subsection \<open>Claims about bans\<close>

text \<open>
  C15: An agent is banned only after two consecutive reads of its cluster miss its VM. Over any
  history of reads of any clusters, when \<open>Observe\<close> returns an agent, this read missed its VM,
  an earlier read missed it too, and in between neither was the agent present in a read nor was
  its own cluster read. So one doubtful or partial read never bans, and a VM seen again in
  between starts the count afresh.
\<close>

theorem ban_needs_two_misses:
  assumes "well_listed (hist @ [r])" "b \<in> set (fst (observe_read r (observe_all hist)))"
  shows "\<exists>h1 r' h2 fps fps'. hist = h1 @ r' # h2
    \<and> missed r' (ban_AgentID b) fps \<and> missed r (ban_AgentID b) fps'
    \<and> (\<forall>x \<in> set h2. \<not> present x (ban_AgentID b) \<and> \<not> belongs (r_fps x) fps)"
proof -
  have in_bans: "ban_AgentID b \<in> ban_AgentID ` set (fst (observe_read r (observe_all hist)))"
    using assms(2) by simp
  obtain fps' where now: "missed r (ban_AgentID b) fps'"
    using banned_missed [OF assms(1) in_bans] by blast
  then obtain m where "map_of (observe_all hist) (ban_AgentID b) = Some m"
    using banned_iff(1) [OF assms(1) now] in_bans by auto
  then have "pending hist (ban_AgentID b) (miss_fps m)"
    using tracker_pending assms(1) by (simp add: well_listed_def)
  with now show ?thesis unfolding pending_def by blast
qed

definition sampleAgent :: Agent where
  "sampleAgent = \<lparr>ag_ID = ''A'', ag_Selectors = [''tpm_devid:ca:fingerprint:ab'', ''tpm_devid:subject:cn:350''],
     ag_Banned = False\<rparr>"

definition sampleRead :: cluster_read where
  "sampleRead = \<lparr>r_fps = [''ab''], r_listed = (\<lambda>v. v = ''351''), r_agents = [sampleAgent]\<rparr>"

lemma sample_info: "agentInfo sampleAgent = ([''ab''], ''350'', True)"
  by code_simp

lemma sample_missed: "missed sampleRead ''A'' [''ab'']"
  using sample_info by (simp add: missed_def sampleRead_def belongs_def) (simp add: sampleAgent_def)

lemma sample_well_listed: "well_listed [sampleRead, sampleRead]"
  by (simp add: well_listed_def sampleRead_def)

lemma sample_bans:
  "fst (observe_read sampleRead (observe_all [sampleRead])) = [\<lparr>ban_AgentID = ''A'', ban_VMID = ''350''\<rparr>]"
  by (simp add: observe_all_def observe_read_def Observe_def sampleRead_def observe_step_def sample_info
      belongs_def) (simp add: sampleAgent_def)

theorem ban_needs_two_misses_witness:
  "\<exists>h1 r' h2 fps fps'. [sampleRead] = h1 @ r' # h2 \<and> missed r' ''A'' fps \<and> missed sampleRead ''A'' fps'
    \<and> (\<forall>x \<in> set h2. \<not> present x ''A'' \<and> \<not> belongs (r_fps x) fps)"
  using ban_needs_two_misses [of "[sampleRead]" sampleRead "\<lparr>ban_AgentID = ''A'', ban_VMID = ''350''\<rparr>"]
    sample_well_listed by (simp add: sample_bans)

text \<open>
  C21: Two consecutive misses do ban. When two reads of an agent's cluster miss its VM and the
  reads between them are of other clusters, \<open>Observe\<close> returns the agent at the first (when a
  miss was already pending) or at the second.
\<close>

theorem two_misses_ban:
  assumes "well_listed (hist @ r1 # mid @ [r2])" "missed r1 i fps" "missed r2 i fps'"
    and "\<forall>x \<in> set mid. \<not> present x i \<and> \<not> belongs (r_fps x) fps"
  shows "i \<in> ban_AgentID ` set (fst (observe_read r1 (observe_all hist)))
    \<or> i \<in> ban_AgentID ` set (fst (observe_read r2 (observe_all (hist @ r1 # mid))))"
proof (cases "i \<in> ban_AgentID ` set (fst (observe_read r1 (observe_all hist)))")
  case False
  have wl: "well_listed (hist @ [r1])" "well_listed ((hist @ r1 # mid) @ [r2])"
    using assms(1) by (simp_all add: well_listed_def)
  have "map_of (observe_all (hist @ r1 # mid)) i = Some \<lparr>miss_count = 1, miss_fps = fps\<rparr>"
    using assms(4)
  proof (induction mid rule: rev_induct)
    case Nil
    then show ?case using banned_iff(2) [OF wl(1) assms(2) False] by simp
  next
    case (snoc x mid)
    obtain bans b' where o: "observe_read x (observe_all (hist @ r1 # mid)) = (bans, b')" by fastforce
    have "map_of b' i = Some \<lparr>miss_count = 1, miss_fps = fps\<rparr>"
      using observe_absent [OF o observe_all_keys] snoc by simp
    then show ?case using observe_all_snoc [of "hist @ r1 # mid" x] by (simp add: o)
  qed
  then show ?thesis using banned_iff(1) [OF wl(2) assms(3)] by simp
qed simp

theorem two_misses_ban_witness:
  "''A'' \<in> ban_AgentID ` set (fst (observe_read sampleRead (observe_all [])))
    \<or> ''A'' \<in> ban_AgentID ` set (fst (observe_read sampleRead (observe_all [sampleRead])))"
  using two_misses_ban [of "[]" sampleRead "[]" sampleRead "''A''"] sample_missed sample_well_listed
  by fastforce

end
