(* ===== verification/Reconcile_Spire.thy ===== *)
theory Reconcile_Spire
  imports Reconcile_Diff
begin

text \<open>
  The SPIRE client (\<open>internal/reconcile/spire.go\<close>): the calls a pass makes, on top of the gRPC
  service of a SPIRE server.

  The service is not part of this program. It is the parameter \<open>spire_rpc\<close>, five calls on a
  server state of any type; its documented behaviour is stated where a theorem needs it. A
  listing is read page by page until the server sends no token, which a faulty server could do
  forever: the loop is a partial function, and \<open>None\<close> is the call that does not return.

  The theorems: a listing whose tokens reach an end is returned whole and in order; what
  \<open>Create\<close> sends for an alias is read back by \<open>Entries\<close> as a default entry with that identifier
  and the same selectors.
\<close>

subsection \<open>Messages of the API\<close>

record SPIFFEID =
  id_TrustDomain :: string
  id_Path :: string

record Selector =
  sel_Type :: string
  sel_Value :: string

record EntryMsg =
  em_Id :: string
  em_SpiffeId :: "SPIFFEID option"
  em_ParentId :: "SPIFFEID option"
  em_Selectors :: "Selector list"
  em_X509SvidTtl :: int
  em_JwtSvidTtl :: int
  em_FederatesWith :: "string list"
  em_Admin :: bool
  em_Downstream :: bool
  em_ExpiresAt :: int
  em_DnsNames :: "string list"
  em_StoreSvid :: bool
  em_Hint :: string

record AgentMsg =
  am_Id :: "SPIFFEID option"
  am_Selectors :: "Selector list"
  am_Banned :: bool

datatype code = OK | NotFound | OtherCode nat

type_synonym rpc_error = string

text \<open>One page of a listing: its items and the token of the next page, empty at the end.\<close>

type_synonym 'a page = "rpc_error + 'a list \<times> string"

record 's spire_rpc =
  ListEntries :: "'s \<Rightarrow> SPIFFEID \<Rightarrow> nat \<Rightarrow> string \<Rightarrow> EntryMsg page"
  BatchCreateEntry :: "'s \<Rightarrow> EntryMsg list \<Rightarrow> (rpc_error + (code \<times> string) list) \<times> 's"
  BatchDeleteEntry :: "'s \<Rightarrow> string list \<Rightarrow> (rpc_error + (string \<times> code \<times> string) list) \<times> 's"
  ListAgents :: "'s \<Rightarrow> string \<Rightarrow> nat \<Rightarrow> string \<Rightarrow> AgentMsg page"
  BanAgent :: "'s \<Rightarrow> SPIFFEID \<Rightarrow> rpc_error option \<times> 's"

text \<open>The errors a call of the client returns; \<open>IndexPanic\<close> is a run-time panic.\<close>

datatype spire_error =
    RpcError rpc_error
  | OutsideTrustDomain string
  | Refused "(string \<times> code \<times> string) list"
  | IndexPanic

subsection \<open>Conversions\<close>

definition pageSize :: nat where
  "pageSize = 500"

definition spire_id :: "string \<Rightarrow> string \<Rightarrow> SPIFFEID" where
  "spire_id td path = \<lparr>id_TrustDomain = td, id_Path = path\<rparr>"

definition idString :: "SPIFFEID option \<Rightarrow> string" where
  "idString i = (case i of None \<Rightarrow> [] | Some x \<Rightarrow> ''spiffe://'' @ id_TrustDomain x @ id_Path x)"

definition selectorStrings :: "Selector list \<Rightarrow> string list" where
  "selectorStrings sel = map (\<lambda>x. sel_Type x @ '':'' @ sel_Value x) sel"

definition entryFromProto :: "EntryMsg \<Rightarrow> Entry" where
  "entryFromProto e =
     \<lparr>e_ID = em_Id e, e_ParentID = idString (em_ParentId e), e_SPIFFEID = idString (em_SpiffeId e),
      e_Selectors = selectorStrings (em_Selectors e),
      e_Default = (\<not> em_Admin e \<and> \<not> em_Downstream e \<and> length (em_DnsNames e) = 0
        \<and> length (em_FederatesWith e) = 0 \<and> em_X509SvidTtl e = 0 \<and> em_JwtSvidTtl e = 0
        \<and> em_Hint e = [] \<and> em_ExpiresAt e = 0 \<and> \<not> em_StoreSvid e)\<rparr>"

definition agentFromProto :: "AgentMsg \<Rightarrow> Agent" where
  "agentFromProto a =
     \<lparr>ag_ID = idString (am_Id a), ag_Selectors = selectorStrings (am_Selectors a), ag_Banned = am_Banned a\<rparr>"

subsection \<open>Listings\<close>

text \<open>The loop of \<open>Entries\<close> and of \<open>Agents\<close>: \<open>fetch\<close> is the call for one page, \<open>conv\<close> the conversion.\<close>

partial_function (option) page_loop ::
  "(string \<Rightarrow> 'a page) \<Rightarrow> ('a \<Rightarrow> 'b) \<Rightarrow> 'b list \<Rightarrow> string \<Rightarrow> (spire_error + 'b list) option" where
  "page_loop fetch conv out token =
     (case fetch token of
        Inl err \<Rightarrow> Some (Inl (RpcError err))
      | Inr (items, nxt) \<Rightarrow>
          if nxt = [] then Some (Inr (out @ map conv items))
          else page_loop fetch conv (out @ map conv items) nxt)"

declare page_loop.simps [code]

definition Entries :: "'s spire_rpc \<Rightarrow> string \<Rightarrow> 's \<Rightarrow> (spire_error + Entry list) option" where
  "Entries rpc td s =
     page_loop (ListEntries rpc s (spire_id td ''/spire/server'') pageSize) entryFromProto [] []"

definition Agents :: "'s spire_rpc \<Rightarrow> 's \<Rightarrow> (spire_error + Agent list) option" where
  "Agents rpc s = page_loop (ListAgents rpc s ''tpm_devid'' pageSize) agentFromProto [] []"

subsection \<open>Changes\<close>

definition CutPrefix :: "string \<Rightarrow> string \<Rightarrow> string \<times> bool" where
  "CutPrefix s p = (if HasPrefix s p then (drop (length p) s, True) else (s, False))"

definition msg_selector :: "string \<Rightarrow> Selector" where
  "msg_selector sel = (case Cut sel CHR '':'' of (typ, val, _) \<Rightarrow> \<lparr>sel_Type = typ, sel_Value = val\<rparr>)"

definition alias_msg :: "string \<Rightarrow> string \<Rightarrow> Alias \<Rightarrow> EntryMsg" where
  "alias_msg td path a =
     \<lparr>em_Id = [], em_SpiffeId = Some (spire_id td path), em_ParentId = Some (spire_id td ''/spire/server''),
      em_Selectors = map msg_selector (a_Selectors a), em_X509SvidTtl = 0, em_JwtSvidTtl = 0,
      em_FederatesWith = [], em_Admin = False, em_Downstream = False, em_ExpiresAt = 0,
      em_DnsNames = [], em_StoreSvid = False, em_Hint = []\<rparr>"

text \<open>The loop that builds the request: it stops at the first alias outside the trust domain.\<close>

fun create_request :: "string \<Rightarrow> Alias list \<Rightarrow> EntryMsg list \<Rightarrow> string + EntryMsg list" where
  "create_request td [] req = Inr req"
| "create_request td (a # as) req =
     (case CutPrefix (a_SPIFFEID a) (''spiffe://'' @ td) of
        (path, ok) \<Rightarrow> if \<not> ok then Inl (a_SPIFFEID a)
                      else create_request td as (req @ [alias_msg td path a]))"

text \<open>
  The loop over the results of \<open>BatchCreateEntry\<close>, which names the alias by the position of
  the result: a result past the last alias that is not \<open>OK\<close> would be an index out of range.
\<close>

fun create_errors ::
  "Alias list \<Rightarrow> nat \<Rightarrow> (code \<times> string) list \<Rightarrow> (string \<times> code \<times> string) list
    \<Rightarrow> (string \<times> code \<times> string) list option" where
  "create_errors aliases i [] errs = Some errs"
| "create_errors aliases i ((c, msg) # rs) errs =
     (if c \<noteq> OK
      then if i < length aliases
           then create_errors aliases (Suc i) rs (errs @ [(a_SPIFFEID (aliases ! i), c, msg)])
           else None
      else create_errors aliases (Suc i) rs errs)"

definition Create :: "'s spire_rpc \<Rightarrow> string \<Rightarrow> 's \<Rightarrow> Alias list \<Rightarrow> spire_error option \<times> 's" where
  "Create rpc td s aliases =
     (if length aliases = 0 then (None, s)
      else case create_request td aliases [] of
        Inl i \<Rightarrow> (Some (OutsideTrustDomain i), s)
      | Inr req \<Rightarrow>
          (case BatchCreateEntry rpc s req of
             (Inl err, s') \<Rightarrow> (Some (RpcError err), s')
           | (Inr results, s') \<Rightarrow>
               (case create_errors aliases 0 results [] of
                  None \<Rightarrow> (Some IndexPanic, s')
                | Some errs \<Rightarrow> (if errs = [] then None else Some (Refused errs), s'))))"

definition Delete :: "'s spire_rpc \<Rightarrow> 's \<Rightarrow> string list \<Rightarrow> spire_error option \<times> 's" where
  "Delete rpc s ids =
     (if length ids = 0 then (None, s)
      else case BatchDeleteEntry rpc s ids of
        (Inl err, s') \<Rightarrow> (Some (RpcError err), s')
      | (Inr results, s') \<Rightarrow>
          (let errs = filter (\<lambda>(i, c, msg). c \<noteq> OK \<and> c \<noteq> NotFound) results
           in (if errs = [] then None else Some (Refused errs), s')))"

definition SpireBan :: "'s spire_rpc \<Rightarrow> string \<Rightarrow> 's \<Rightarrow> string \<Rightarrow> spire_error option \<times> 's" where
  "SpireBan rpc td s agentID =
     (case CutPrefix agentID (''spiffe://'' @ td) of
        (path, ok) \<Rightarrow>
          if \<not> ok then (Some (OutsideTrustDomain agentID), s)
          else (case BanAgent rpc s (spire_id td path) of
                  (Some err, s') \<Rightarrow> (Some (RpcError err), s')
                | (None, s') \<Rightarrow> (None, s')))"

subsection \<open>Listings come out whole\<close>

text \<open>\<open>paged fetch token ps\<close>: from \<open>token\<close> on, the server sends the pages \<open>ps\<close> and then no token.\<close>

fun paged :: "(string \<Rightarrow> 'a page) \<Rightarrow> string \<Rightarrow> 'a list list \<Rightarrow> bool" where
  "paged fetch token [] \<longleftrightarrow> False"
| "paged fetch token [p] \<longleftrightarrow> fetch token = Inr (p, [])"
| "paged fetch token (p # q # ps) \<longleftrightarrow>
     (\<exists>nxt. fetch token = Inr (p, nxt) \<and> nxt \<noteq> [] \<and> paged fetch nxt (q # ps))"

lemma page_loop_end: "fetch token = Inr (p, []) \<Longrightarrow> page_loop fetch conv out token = Some (Inr (out @ map conv p))"
  by (subst page_loop.simps) simp

lemma page_loop_next:
  "fetch token = Inr (p, nxt) \<Longrightarrow> nxt \<noteq> [] \<Longrightarrow>
     page_loop fetch conv out token = page_loop fetch conv (out @ map conv p) nxt"
  by (subst page_loop.simps) simp

lemma page_loop_whole:
  "paged fetch token ps \<Longrightarrow> page_loop fetch conv out token = Some (Inr (out @ map conv (concat ps)))"
  by (induction fetch token ps arbitrary: out rule: paged.induct)
     (auto simp: page_loop_end page_loop_next)

text \<open>\<open>broken fetch token ps e\<close>: from \<open>token\<close> on, the server sends the pages \<open>ps\<close>, none or more, and then the error \<open>e\<close>.\<close>

fun broken :: "(string \<Rightarrow> 'a page) \<Rightarrow> string \<Rightarrow> 'a list list \<Rightarrow> rpc_error \<Rightarrow> bool" where
  "broken fetch token [] e \<longleftrightarrow> fetch token = Inl e"
| "broken fetch token (p # ps) e \<longleftrightarrow> (\<exists>nxt. fetch token = Inr (p, nxt) \<and> nxt \<noteq> [] \<and> broken fetch nxt ps e)"

lemma page_loop_error: "fetch token = Inl e \<Longrightarrow> page_loop fetch conv out token = Some (Inl (RpcError e))"
  by (subst page_loop.simps) simp

lemma page_loop_broken: "broken fetch token ps e \<Longrightarrow> page_loop fetch conv out token = Some (Inl (RpcError e))"
  by (induction fetch token ps e arbitrary: out rule: broken.induct) (auto simp: page_loop_error page_loop_next)

lemma paged_Cons: "paged fetch nxt ps \<Longrightarrow> fetch token = Inr (p, nxt) \<Longrightarrow> nxt \<noteq> [] \<Longrightarrow> paged fetch token (p # ps)"
  by (cases ps) auto

text \<open>A loop that returns has read pages up to the last, or up to an error.\<close>

lemma page_loop_returns:
  "page_loop fetch conv out token = Some r \<Longrightarrow>
     (\<exists>ps. paged fetch token ps \<and> r = Inr (out @ map conv (concat ps))) \<or>
     (\<exists>ps e. broken fetch token ps e \<and> r = Inl (RpcError e))"
proof (induction rule: page_loop.raw_induct [rotated 1, consumes 1])
  case (1 loop fetch conv out token r)
  show ?case
  proof (cases "fetch token")
    case (Inl e)
    then have "broken fetch token [] e" "r = Inl (RpcError e)" using 1(2) by simp_all
    then show ?thesis by blast
  next
    case (Inr page)
    obtain p nxt where p: "fetch token = Inr (p, nxt)" using Inr by (cases page) simp
    show ?thesis
    proof (cases "nxt = []")
      case True
      then have "paged fetch token [p]" "r = Inr (out @ map conv (concat [p]))" using p 1(2) by simp_all
      then show ?thesis by blast
    next
      case False
      then have "loop fetch conv (out @ map conv p) nxt = Some r" using p 1(2) by simp
      from 1(1) [OF this] consider
          ps where "paged fetch nxt ps" "r = Inr (out @ map conv p @ map conv (concat ps))"
        | ps e where "broken fetch nxt ps e" "r = Inl (RpcError e)"
        by auto
      then show ?thesis
      proof cases
        case 1
        from paged_Cons [OF this(1) p False] 1(2) show ?thesis by (intro disjI1 exI [of _ "p # ps"]) simp
      next
        case 2
        with p False have "broken fetch token (p # ps) e" by simp
        with 2 show ?thesis by blast
      qed
    qed
  qed
qed

lemma page_loop_exact:
  "page_loop fetch conv [] token = Some (Inr xs) \<longleftrightarrow> (\<exists>ps. paged fetch token ps \<and> xs = map conv (concat ps))"
  "page_loop fetch conv [] token = Some (Inl err) \<longleftrightarrow> (\<exists>ps e. broken fetch token ps e \<and> err = RpcError e)"
  using page_loop_returns [of fetch conv "[]" token "Inr xs"] page_loop_whole [of fetch token _ conv "[]"]
    page_loop_returns [of fetch conv "[]" token "Inl err"] page_loop_broken [of fetch token _ _ conv "[]"]
  by auto

lemma Cut_colon: "CHR '':'' \<notin> set t \<Longrightarrow> Cut (t @ CHR '':'' # v) CHR '':'' = (t, v, True)"
  by (induction t) auto

lemma Cut_found: "Cut s sep = (b, a, True) \<Longrightarrow> s = b @ sep # a"
  by (induction s arbitrary: b) (auto split: if_splits prod.splits)

lemma Cut_found_iff: "snd (snd (Cut s sep)) \<longleftrightarrow> sep \<in> set s"
  by (induction s) (auto split: prod.splits)

lemma selector_roundtrip:
  assumes "CHR '':'' \<in> set s"
  shows "selectorStrings [msg_selector s] = [s]"
proof -
  obtain b a where c: "Cut s CHR '':'' = (b, a, True)"
    using assms Cut_found_iff [of s] by (metis prod.collapse)
  then show ?thesis using Cut_found [OF c] by (simp add: selectorStrings_def msg_selector_def)
qed

lemma selectors_roundtrip:
  "\<forall>s \<in> set sel. CHR '':'' \<in> set s \<Longrightarrow> selectorStrings (map msg_selector sel) = sel"
proof (induction sel)
  case (Cons s sel)
  then show ?case using selector_roundtrip [of s] by (simp add: selectorStrings_def)
qed (simp add: selectorStrings_def)

lemma HasPrefix_drop: "HasPrefix s p \<Longrightarrow> p @ drop (length p) s = s"
  by (metis HasPrefixE append_eq_conv_conj)

lemma alias_msg_entry:
  assumes "HasPrefix (a_SPIFFEID a) (''spiffe://'' @ td)" "\<forall>s \<in> set (a_Selectors a). CHR '':'' \<in> set s"
  shows "fulfils td a (entryFromProto
    (alias_msg td (drop (length (''spiffe://'' @ td)) (a_SPIFFEID a)) a \<lparr>em_Id := i\<rparr>))"
proof -
  have "''spiffe://'' @ td @ drop (length (''spiffe://'' @ td)) (a_SPIFFEID a) = a_SPIFFEID a"
    using HasPrefix_drop [OF assms(1)] by simp
  then show ?thesis
    using selectors_roundtrip [OF assms(2)]
    by (simp add: fulfils_def entryFromProto_def alias_msg_def entry_key_def wanted_key_def
        idString_def spire_id_def server_id_def)
qed

subsection \<open>Claim\<close>

text \<open>
  C22: A listing is returned whole or not at all. \<open>Entries\<close> returns a list exactly when the pages
  the server sends, from the empty token on, come to one without a next token, and then the list
  is the items of all these pages in order; it returns an error exactly when one of the pages, the
  first or any later one, fails, and then that page's error, whatever was read before. So only a
  server that sends tokens for ever keeps it from returning. The same holds of \<open>Agents\<close>.
\<close>

theorem listings_whole:
  "(Entries rpc td s = Some (Inr es) \<longleftrightarrow>
      (\<exists>ps. paged (ListEntries rpc s (spire_id td ''/spire/server'') pageSize) [] ps \<and> es = map entryFromProto (concat ps)))
   \<and> (Entries rpc td s = Some (Inl err) \<longleftrightarrow>
      (\<exists>ps e. broken (ListEntries rpc s (spire_id td ''/spire/server'') pageSize) [] ps e \<and> err = RpcError e))
   \<and> (Agents rpc s = Some (Inr as) \<longleftrightarrow>
      (\<exists>ps. paged (ListAgents rpc s ''tpm_devid'' pageSize) [] ps \<and> as = map agentFromProto (concat ps)))
   \<and> (Agents rpc s = Some (Inl err) \<longleftrightarrow>
      (\<exists>ps e. broken (ListAgents rpc s ''tpm_devid'' pageSize) [] ps e \<and> err = RpcError e))"
  by (simp add: Entries_def Agents_def page_loop_exact)

subsection \<open>The interface of a pass\<close>

text \<open>
  \<open>spireAPI\<close> of \<open>run.go\<close> as a record of operations on a server state, and its implementation by
  the client above. A pass relies on the contract \<open>alias_server\<close>: \<open>es\<close> is the set of node
  aliases the server holds. A failing call may have done part of its work, never anything else.
\<close>

record 's spireAPI =
  api_Entries :: "'s \<Rightarrow> (spire_error + Entry list) option"
  api_Create :: "'s \<Rightarrow> Alias list \<Rightarrow> spire_error option \<times> 's"
  api_Delete :: "'s \<Rightarrow> string list \<Rightarrow> spire_error option \<times> 's"
  api_Agents :: "'s \<Rightarrow> (spire_error + Agent list) option"
  api_Ban :: "'s \<Rightarrow> string \<Rightarrow> spire_error option \<times> 's"

definition SPIRE :: "'s spire_rpc \<Rightarrow> string \<Rightarrow> 's spireAPI" where
  "SPIRE rpc td =
     \<lparr>api_Entries = Entries rpc td, api_Create = Create rpc td, api_Delete = Delete rpc,
      api_Agents = Agents rpc, api_Ban = SpireBan rpc td\<rparr>"

definition sendable :: "string \<Rightarrow> Alias \<Rightarrow> bool" where
  "sendable td a \<longleftrightarrow> HasPrefix (a_SPIFFEID a) (''spiffe://'' @ td)
     \<and> list_all (\<lambda>s. CHR '':'' \<in> set s) (a_Selectors a)"

locale alias_server =
  fixes api :: "'s spireAPI" and td :: string and es :: "'s \<Rightarrow> Entry list" and ok :: "'s \<Rightarrow> bool"
  assumes listed: "ok s \<Longrightarrow> api_Entries api s = Some (Inr xs) \<Longrightarrow> mset xs = mset (es s)"
    and ids: "ok s \<Longrightarrow> distinct (map e_ID (es s))"
    and created: "ok s \<Longrightarrow> list_all (sendable td) as \<Longrightarrow> api_Create api s as = (r, s') \<Longrightarrow>
      ok s' \<and> (\<exists>made. mset (es s') = mset (es s) + mset made
        \<and> (\<forall>e \<in> set made. \<exists>a \<in> set as. fulfils td a e) \<and> (r = None \<longrightarrow> list_all2 (fulfils td) as made))"
    and deleted: "ok s \<Longrightarrow> api_Delete api s xs' = (r, s') \<Longrightarrow>
      ok s' \<and> (\<exists>gone \<subseteq> set xs'. mset (es s') = filter_mset (\<lambda>e. e_ID e \<notin> gone) (mset (es s))
        \<and> (r = None \<longrightarrow> gone = set xs'))"
    and banned: "ok s \<Longrightarrow> api_Ban api s i = (r, s') \<Longrightarrow> ok s' \<and> mset (es s') = mset (es s)"

subsection \<open>A server in memory\<close>

text \<open>
  A SPIRE server reduced to its documented behaviour on node aliases: listings in pages of the
  requested size, ids given by the server, duplicates refused (\<open>AlreadyExists\<close>, code 6), unknown
  ids reported as \<open>NotFound\<close>. The client run against it meets the contract \<open>alias_server\<close>.
\<close>

record mem =
  m_entries :: "EntryMsg list"
  m_agents :: "AgentMsg list"
  m_next :: nat

definition page_of :: "'a list \<Rightarrow> nat \<Rightarrow> string \<Rightarrow> 'a page" where
  "page_of xs n token =
     (let off = (if token = [] then 0 else atoi token); rest = drop off xs
      in Inr (take n rest, if length rest \<le> n then [] else itoa (off + n)))"

definition same_alias :: "EntryMsg \<Rightarrow> EntryMsg \<Rightarrow> bool" where
  "same_alias e f \<longleftrightarrow> em_SpiffeId e = em_SpiffeId f \<and> em_ParentId e = em_ParentId f
     \<and> em_Selectors e = em_Selectors f"

fun mem_create :: "mem \<Rightarrow> EntryMsg list \<Rightarrow> (code \<times> string) list \<times> mem" where
  "mem_create s [] = ([], s)"
| "mem_create s (e # es) =
     (if list_ex (same_alias e) (m_entries s)
      then case mem_create s es of (rs, s') \<Rightarrow> ((OtherCode 6, ''exists'') # rs, s')
      else case mem_create (s\<lparr>m_entries := m_entries s @ [e\<lparr>em_Id := itoa (m_next s)\<rparr>],
                              m_next := Suc (m_next s)\<rparr>) es of
             (rs, s') \<Rightarrow> ((OK, []) # rs, s'))"

definition memServer :: "mem spire_rpc" where
  "memServer =
     \<lparr>ListEntries = (\<lambda>s parent n token. page_of (filter (\<lambda>e. em_ParentId e = Some parent) (m_entries s)) n token),
      BatchCreateEntry = (\<lambda>s req. case mem_create s req of (rs, s') \<Rightarrow> (Inr rs, s')),
      BatchDeleteEntry = (\<lambda>s xs.
        (Inr (map (\<lambda>i. (i, if list_ex (\<lambda>e. em_Id e = i) (m_entries s) then OK else NotFound, [])) xs),
         s\<lparr>m_entries := filter (\<lambda>e. em_Id e \<notin> set xs) (m_entries s)\<rparr>)),
      ListAgents = (\<lambda>s kind n token. page_of (m_agents s) n token),
      BanAgent = (\<lambda>s i. (None, s\<lparr>m_agents :=
        map (\<lambda>a. if am_Id a = Some i then a\<lparr>am_Banned := True\<rparr> else a) (m_agents s)\<rparr>))\<rparr>"

definition mem_aliases :: "string \<Rightarrow> mem \<Rightarrow> Entry list" where
  "mem_aliases td s =
     map entryFromProto (filter (\<lambda>e. em_ParentId e = Some (spire_id td ''/spire/server'')) (m_entries s))"

definition mem_ok :: "mem \<Rightarrow> bool" where
  "mem_ok s \<longleftrightarrow> distinct (map em_Id (m_entries s))
     \<and> list_all (\<lambda>e. \<exists>k < m_next s. em_Id e = itoa k) (m_entries s)"

lemma page_of_paged:
  assumes "0 < n" "off = (if token = [] then 0 else atoi token)"
  shows "\<exists>ps. paged (page_of xs n) token ps \<and> concat ps = drop off xs"
  using assms(2)
proof (induction "length xs - off" arbitrary: off token rule: less_induct)
  case less
  show ?case
  proof (cases "length xs - off \<le> n")
    case True
    then have "paged (page_of xs n) token [drop off xs]" using less.prems by (simp add: page_of_def Let_def)
    then show ?thesis by (intro exI [of _ "[drop off xs]"]) simp
  next
    case False
    then have "length xs - (off + n) < length xs - off" using assms(1) by simp
    then obtain ps where ps: "paged (page_of xs n) (itoa (off + n)) ps" "concat ps = drop (off + n) xs"
      using less.hyps [of "off + n" "itoa (off + n)"] by auto
    obtain q qs where q: "ps = q # qs" using ps(1) by (cases ps) auto
    have "page_of xs n token = Inr (take n (drop off xs), itoa (off + n))"
      using False less.prems by (simp add: page_of_def Let_def)
    then have "paged (page_of xs n) token (take n (drop off xs) # ps)" using ps(1) by (simp add: q)
    moreover have "concat (take n (drop off xs) # ps) = drop off xs"
      using ps(2) by (simp add: add.commute flip: drop_drop)
    ultimately show ?thesis by blast
  qed
qed

lemma pageSize_pos: "0 < pageSize"
  by (simp add: pageSize_def)

lemma mem_Entries: "Entries memServer td s = Some (Inr (mem_aliases td s))"
proof -
  let ?xs = "filter (\<lambda>e. em_ParentId e = Some (spire_id td ''/spire/server'')) (m_entries s)"
  obtain ps where "paged (page_of ?xs pageSize) [] ps" "concat ps = ?xs"
    using page_of_paged [OF pageSize_pos, of 0 "[]" ?xs] by auto
  then show ?thesis
    using page_loop_whole [of "page_of ?xs pageSize" "[]" ps entryFromProto "[]"]
    by (simp add: Entries_def memServer_def mem_aliases_def)
qed

lemma mem_Agents: "Agents memServer s = Some (Inr (map agentFromProto (m_agents s)))"
proof -
  obtain ps where "paged (page_of (m_agents s) pageSize) [] ps" "concat ps = m_agents s"
    using page_of_paged [OF pageSize_pos, of 0 "[]" "m_agents s"] by auto
  then show ?thesis
    using page_loop_whole [of "page_of (m_agents s) pageSize" "[]" ps agentFromProto "[]"]
    by (simp add: Agents_def memServer_def)
qed

lemma mem_ok_ids: "mem_ok s \<Longrightarrow> distinct (map e_ID (mem_aliases td s))"
  by (simp add: mem_ok_def mem_aliases_def entryFromProto_def comp_def distinct_map_filter)

text \<open>The request for a sendable alias, and what the server makes of it.\<close>

definition alias_request :: "string \<Rightarrow> Alias \<Rightarrow> EntryMsg" where
  "alias_request td a = alias_msg td (drop (length (''spiffe://'' @ td)) (a_SPIFFEID a)) a"

lemma create_request_all:
  "list_all (sendable td) as \<Longrightarrow> create_request td as req = Inr (req @ map (alias_request td) as)"
  by (induction as arbitrary: req) (auto simp: sendable_def CutPrefix_def alias_request_def)

lemma alias_request_fulfils:
  "sendable td a \<Longrightarrow> fulfils td a (entryFromProto (alias_request td a \<lparr>em_Id := i\<rparr>))"
  unfolding alias_request_def sendable_def by (intro alias_msg_entry) (auto simp: list_all_iff)

lemma mem_create_facts:
  assumes "mem_ok s" "list_all (sendable td) as" "mem_create s (map (alias_request td) as) = (rs, s')"
  shows "mem_ok s' \<and> length rs = length as \<and> (\<exists>made. mem_aliases td s' = mem_aliases td s @ made
    \<and> (\<forall>e \<in> set made. \<exists>a \<in> set as. fulfils td a e)
    \<and> (list_all (\<lambda>r. fst r = OK) rs \<longrightarrow> list_all2 (fulfils td) as made))"
  using assms
proof (induction as arbitrary: s rs)
  case (Cons a as)
  let ?e = "alias_request td a \<lparr>em_Id := itoa (m_next s)\<rparr>"
  let ?t = "s\<lparr>m_entries := m_entries s @ [?e], m_next := Suc (m_next s)\<rparr>"
  show ?case
  proof (cases "list_ex (same_alias (alias_request td a)) (m_entries s)")
    case True
    then obtain rs' where rs: "mem_create s (map (alias_request td) as) = (rs', s')"
      "rs = (OtherCode 6, ''exists'') # rs'"
      using Cons.prems(3) by (auto split: prod.splits)
    then obtain made where "mem_ok s'" "length rs' = length as" "mem_aliases td s' = mem_aliases td s @ made"
      "\<forall>e \<in> set made. \<exists>a \<in> set as. fulfils td a e"
      using Cons.IH [OF Cons.prems(1) _ rs(1)] Cons.prems(2) by auto
    then show ?thesis using rs(2) by auto
  next
    case False
    then obtain rs' where rs: "mem_create ?t (map (alias_request td) as) = (rs', s')" "rs = (OK, []) # rs'"
      using Cons.prems(3) by (auto split: prod.splits)
    have "mem_ok ?t"
      using Cons.prems(1) by (auto simp: mem_ok_def list_all_iff itoa_inj image_iff less_Suc_eq)
    then obtain made where m: "mem_ok s'" "length rs' = length as" "mem_aliases td s' = mem_aliases td ?t @ made"
      "\<forall>e \<in> set made. \<exists>a \<in> set as. fulfils td a e"
      "list_all (\<lambda>r. fst r = OK) rs' \<longrightarrow> list_all2 (fulfils td) as made"
      using Cons.IH [OF _ _ rs(1)] Cons.prems(2) by auto
    have "mem_aliases td ?t = mem_aliases td s @ [entryFromProto ?e]"
      by (simp add: mem_aliases_def alias_request_def alias_msg_def)
    moreover have "fulfils td a (entryFromProto ?e)"
      using Cons.prems(2) by (simp add: alias_request_fulfils)
    ultimately show ?thesis
      using m rs(2) by (intro conjI exI [of _ "entryFromProto ?e # made"]) auto
  qed
qed simp

lemma create_errors_none:
  "create_errors aliases i rs errs = Some [] \<Longrightarrow> errs = [] \<and> list_all (\<lambda>r. fst r = OK) rs"
  by (induction aliases i rs errs rule: create_errors.induct) (auto split: if_splits)

lemma create_errors_total:
  "i + length rs \<le> length aliases \<Longrightarrow> create_errors aliases i rs errs \<noteq> None"
  by (induction aliases i rs errs rule: create_errors.induct) (auto split: if_splits)

lemma mem_Create:
  assumes "mem_ok s" "list_all (sendable td) as" "Create memServer td s as = (r, s')"
  shows "mem_ok s' \<and> (\<exists>made. mset (mem_aliases td s') = mset (mem_aliases td s) + mset made
    \<and> (\<forall>e \<in> set made. \<exists>a \<in> set as. fulfils td a e) \<and> (r = None \<longrightarrow> list_all2 (fulfils td) as made))"
proof (cases "as = []")
  case True
  with assms show ?thesis by (auto simp: Create_def)
next
  case False
  obtain rs t where c: "mem_create s (map (alias_request td) as) = (rs, t)" by fastforce
  then obtain made where m: "mem_ok t" "length rs = length as" "mem_aliases td t = mem_aliases td s @ made"
    "\<forall>e \<in> set made. \<exists>a \<in> set as. fulfils td a e"
    "list_all (\<lambda>r. fst r = OK) rs \<longrightarrow> list_all2 (fulfils td) as made"
    using mem_create_facts [OF assms(1, 2)] by blast
  obtain errs where e: "create_errors as 0 rs [] = Some errs"
    using create_errors_total [of 0 rs as "[]"] m(2) by auto
  have "s' = t" "r = (if errs = [] then None else Some (Refused errs))"
    using assms(3) False c e
    by (auto simp: Create_def create_request_all [OF assms(2)] memServer_def)
  then show ?thesis
    using m e create_errors_none [of as 0 rs "[]"] by (intro conjI exI [of _ made]) auto
qed

lemma mem_Delete:
  assumes "mem_ok s" "Delete memServer s xs = (r, s')"
  shows "mem_ok s' \<and> (\<exists>gone \<subseteq> set xs.
    mset (mem_aliases td s') = filter_mset (\<lambda>e. e_ID e \<notin> gone) (mset (mem_aliases td s))
    \<and> (r = None \<longrightarrow> gone = set xs))"
proof -
  have s': "m_entries s' = filter (\<lambda>e. em_Id e \<notin> set xs) (m_entries s)" "m_next s' = m_next s"
    using assms(2) by (auto simp: Delete_def memServer_def Let_def split: if_splits)
  have "mem_ok s'" using assms(1) by (auto simp: mem_ok_def s' list_all_iff distinct_map_filter)
  moreover have "mem_aliases td s' = filter (\<lambda>e. e_ID e \<notin> set xs) (mem_aliases td s)"
    by (simp add: mem_aliases_def s' filter_map comp_def entryFromProto_def conj_commute)
  ultimately show ?thesis by (intro conjI exI [of _ "set xs"]) (simp_all add: mset_filter)
qed

lemma mem_Ban:
  assumes "mem_ok s" "SpireBan memServer td s i = (r, s')"
  shows "mem_ok s' \<and> mset (mem_aliases td s') = mset (mem_aliases td s)"
proof -
  have "m_entries s' = m_entries s" "m_next s' = m_next s"
    using assms(2) by (auto simp: SpireBan_def memServer_def split: prod.splits if_splits)
  with assms(1) show ?thesis by (simp add: mem_ok_def mem_aliases_def)
qed

interpretation mem: alias_server "SPIRE memServer td" td "mem_aliases td" mem_ok for td
proof unfold_locales
  show "mem_ok s \<Longrightarrow> api_Entries (SPIRE memServer td) s = Some (Inr xs) \<Longrightarrow> mset xs = mset (mem_aliases td s)" for s xs
    by (simp add: SPIRE_def mem_Entries)
  show "mem_ok s \<Longrightarrow> distinct (map e_ID (mem_aliases td s))" for s
    by (rule mem_ok_ids)
  show "mem_ok s' \<and> (\<exists>made. mset (mem_aliases td s') = mset (mem_aliases td s) + mset made
      \<and> (\<forall>e \<in> set made. \<exists>a \<in> set as. fulfils td a e) \<and> (r = None \<longrightarrow> list_all2 (fulfils td) as made))"
    if "mem_ok s" "list_all (sendable td) as" "api_Create (SPIRE memServer td) s as = (r, s')" for s as r s'
    using that(3) by (intro mem_Create [OF that(1, 2)]) (simp add: SPIRE_def)
  show "mem_ok s' \<and> (\<exists>gone \<subseteq> set xs.
      mset (mem_aliases td s') = filter_mset (\<lambda>e. e_ID e \<notin> gone) (mset (mem_aliases td s))
      \<and> (r = None \<longrightarrow> gone = set xs))"
    if "mem_ok s" "api_Delete (SPIRE memServer td) s xs = (r, s')" for s xs r s'
    using that(2) by (intro mem_Delete [OF that(1)]) (simp add: SPIRE_def)
  show "mem_ok s' \<and> mset (mem_aliases td s') = mset (mem_aliases td s)"
    if "mem_ok s" "api_Ban (SPIRE memServer td) s i = (r, s')" for s i r s'
    using that(2) by (intro mem_Ban [OF that(1)]) (simp add: SPIRE_def)
qed

definition sampleMem :: mem where
  "sampleMem = \<lparr>m_entries = [alias_msg ''td'' ''/pve/c1/vm/7'' \<lparr>a_SPIFFEID = ''x'', a_Selectors = [''t:v'']\<rparr> \<lparr>em_Id := ''0''\<rparr>],
     m_agents = [\<lparr>am_Id = Some (spire_id ''td'' ''/spire/agent/a''), am_Selectors = [], am_Banned = False\<rparr>],
     m_next = 1\<rparr>"

theorem listings_whole_witness:
  "Entries memServer ''td'' sampleMem = Some (Inr (map entryFromProto (m_entries sampleMem)))"
proof -
  have "paged (ListEntries memServer sampleMem (spire_id ''td'' ''/spire/server'') pageSize) [] [m_entries sampleMem]"
    by (simp add: memServer_def page_of_def sampleMem_def alias_msg_def pageSize_def)
  then show ?thesis by (simp only: listings_whole) (metis concat.simps append_Nil2)
qed

end
