(* ===== verification/Reconcile_Run.thy ===== *)
theory Reconcile_Run
  imports Reconcile_Spire Complex_Main
begin

text \<open>
  Reading a cluster (\<open>internal/reconcile/proxmox.go\<close>) and one pass over all clusters
  (\<open>internal/reconcile/run.go\<close>).

  The HTTP transport and the JSON decoder are parameters: \<open>api_get\<close> gives the outcome of one
  request for a path. A pass is a loop over the targets with the state of the SPIRE server, the
  ban tracker and the two listings it fetches once and keeps; \<open>None\<close> is a pass that hangs in a
  listing that never ends.

  The theorems: a doubtful read is never acted on; whatever happens in a pass, entries outside
  the clusters that were read are untouched; a pass that reports no error leaves every cluster
  it read exactly as wanted, although all but the first work from a listing that earlier
  clusters have changed; and a failed create never costs an existing alias.
\<close>

subsection \<open>Reading a cluster\<close>

datatype doubt = BuildRequest string | DoRequest string string | BadStatus string nat | BadJSON string
  | UnexpectedData string | MissingPrivileges "string list" | BadVMID | NoGuest

text \<open>\<open>strings.ReplaceAll\<close> for a non-empty \<open>old\<close>, which keeps the API token out of error texts.\<close>

function ReplaceAll :: "string \<Rightarrow> string \<Rightarrow> string \<Rightarrow> string" where
  "ReplaceAll s old new =
     (if s = [] \<or> old = [] then s
      else if HasPrefix s old then new @ ReplaceAll (drop (length old) s) old new
      else hd s # ReplaceAll (tl s) old new)"
  by pat_completeness auto
termination
  by (relation "measure (\<lambda>(s, old, new). length s)") auto

declare ReplaceAll.simps [simp del]

text \<open>
  One request. \<open>build\<close> tells whether the URL of the path can be built; \<open>dohttp\<close> is the transport,
  which fails with the text of the cause or gives a status and a body; \<open>decode\<close> reads the body
  as JSON with a member \<open>data\<close>, and \<open>unmarshal\<close> that member as the type the caller asked for.
\<close>

definition get ::
  "string \<Rightarrow> (string \<Rightarrow> bool) \<Rightarrow> (string \<Rightarrow> string + nat \<times> 'body) \<Rightarrow> ('body \<Rightarrow> 'json option)
    \<Rightarrow> ('json \<Rightarrow> 'a option) \<Rightarrow> string \<Rightarrow> doubt + 'a" where
  "get token build dohttp decode unmarshal path =
     (if \<not> build path then Inl (BuildRequest path)
      else case dohttp path of
        Inl msg \<Rightarrow> Inl (DoRequest path (if token \<noteq> [] then ReplaceAll msg token ''[token]'' else msg))
      | Inr (status, body) \<Rightarrow>
          if status \<noteq> 200 then Inl (BadStatus path status)
          else (case decode body of
                  None \<Rightarrow> Inl (BadJSON path)
                | Some data \<Rightarrow> (case unmarshal data of None \<Rightarrow> Inl (UnexpectedData path) | Some x \<Rightarrow> Inr x)))"

type_synonym perms = "(string \<times> (string \<times> rat) list) list"

record resource =
  res_VMID :: string
  res_Type :: string
  res_Pool :: string
  res_Tags :: string
  res_Template :: rat

record ('body, 'json) proxmox =
  px_token :: string
  px_build :: "string \<Rightarrow> bool"
  px_do :: "string \<Rightarrow> string + nat \<times> 'body"
  px_decode :: "'body \<Rightarrow> 'json option"
  px_perms :: "'json \<Rightarrow> perms option"
  px_list :: "'json \<Rightarrow> resource list option"

text \<open>\<open>perms[path][priv]\<close>: a missing key reads as 0.\<close>

definition perm_value :: "perms \<Rightarrow> string \<Rightarrow> string \<Rightarrow> rat" where
  "perm_value ps path priv =
     (case map_of ps path of
        None \<Rightarrow> 0
      | Some m \<Rightarrow> (case map_of m priv of None \<Rightarrow> 0 | Some v \<Rightarrow> v))"

definition missing_privileges :: "perms \<Rightarrow> string list" where
  "missing_privileges ps =
     concat (map (\<lambda>(priv, path). if perm_value ps path priv \<noteq> 1
                                  then [''missing '' @ priv @ '' on '' @ path] else [])
       [(''VM.Audit'', ''/vms''), (''Pool.Audit'', ''/pool'')])"

definition CheckPrivileges :: "('body, 'json) proxmox \<Rightarrow> doubt option" where
  "CheckPrivileges px =
     (case get (px_token px) (px_build px) (px_do px) (px_decode px) (px_perms px) ''/api2/json/access/permissions'' of
        Inl e \<Rightarrow> Some e
      | Inr ps \<Rightarrow> (let missing = missing_privileges ps in
          if length missing > 0 then Some (MissingPrivileges (sort missing)) else None))"

text \<open>\<open>strconv.ParseInt(s, 10, 64)\<close> and \<open>strconv.FormatInt(n, 10)\<close>.\<close>

definition ParseInt :: "string \<Rightarrow> int option" where
  "ParseInt s =
     (let neg = HasPrefix s ''-''; ds = (if neg \<or> HasPrefix s ''+'' then drop 1 s else s);
          n = (if neg then - int (atoi ds) else int (atoi ds))
      in if ds = [] \<or> \<not> list_all is_digit ds \<or> n < - (2 ^ 63) \<or> 2 ^ 63 \<le> n then None else Some n)"

definition FormatInt :: "int \<Rightarrow> string" where
  "FormatInt n = (if n < 0 then CHR ''-'' # itoa (nat (- n)) else itoa (nat n))"

fun guests_loop :: "resource list \<Rightarrow> Guest list \<Rightarrow> doubt + Guest list" where
  "guests_loop [] guests = Inr guests"
| "guests_loop (e # es) guests =
     (if res_Type e \<noteq> ''qemu'' then guests_loop es guests
      else case ParseInt (res_VMID e) of
        None \<Rightarrow> Inl BadVMID
      | Some n \<Rightarrow> guests_loop es (guests @
          [\<lparr>g_VMID = FormatInt n, g_Pool = res_Pool e, g_Tags = res_Tags e, g_Template = (res_Template e \<noteq> 0)\<rparr>]))"

definition Guests :: "('body, 'json) proxmox \<Rightarrow> doubt + Guest list" where
  "Guests px =
     (case get (px_token px) (px_build px) (px_do px) (px_decode px) (px_list px) ''/api2/json/cluster/resources?type=vm'' of
        Inl e \<Rightarrow> Inl e
      | Inr xs \<Rightarrow> guests_loop xs [])"

definition Read :: "('body, 'json) proxmox \<Rightarrow> doubt + Guest list" where
  "Read px =
     (case CheckPrivileges px of
        Some e \<Rightarrow> Inl e
      | None \<Rightarrow> (case Guests px of
                   Inl e \<Rightarrow> Inl e
                 | Inr guests \<Rightarrow> if length guests = 0 then Inl NoGuest else Inr guests))"

subsection \<open>A pass\<close>

text \<open>A target: the cluster, and what its reader returns in this pass (it is called once).\<close>

record Target =
  t_Cluster :: Cluster
  t_Read :: "doubt + Guest list"

datatype pass_error =
    ListEntriesFailed string spire_error
  | CreateFailed string spire_error
  | DeleteFailed string spire_error
  | CreateReplacedFailed string spire_error
  | ListAgentsFailed string spire_error
  | BanFailed string string spire_error

record 's pass_state =
  ps_server :: 's
  ps_bans :: BanTracker
  ps_skipped :: nat
  ps_entries :: "Entry list option"
  ps_agents :: "Agent list option"

definition replaced_keys :: "string list \<Rightarrow> Entry list \<Rightarrow> key list" where
  "replaced_keys del entries = map entry_key (filter (\<lambda>e. e_ID e \<in> set del) entries)"

definition colliding :: "string list \<Rightarrow> Entry list \<Rightarrow> Alias list \<Rightarrow> Alias list" where
  "colliding del entries create = filter (\<lambda>a. wanted_key a \<in> set (replaced_keys del entries)) create"

definition safe :: "string list \<Rightarrow> Entry list \<Rightarrow> Alias list \<Rightarrow> Alias list" where
  "safe del entries create = filter (\<lambda>a. wanted_key a \<notin> set (replaced_keys del entries)) create"

text \<open>The three writes of a cluster, in the order of the source.\<close>

definition apply_diff ::
  "'s spireAPI \<Rightarrow> string \<Rightarrow> Entry list \<Rightarrow> Alias list \<Rightarrow> string list \<Rightarrow> 's \<Rightarrow> pass_error option \<times> 's" where
  "apply_diff api name entries create del s =
     (let s1 = (if length (safe del entries create) > 0
                then api_Create api s (safe del entries create) else (None, s))
      in case s1 of
        (Some e, s) \<Rightarrow> (Some (CreateFailed name e), s)
      | (None, s) \<Rightarrow>
          (case (if length del > 0 then api_Delete api s del else (None, s)) of
             (Some e, s) \<Rightarrow> (Some (DeleteFailed name e), s)
           | (None, s) \<Rightarrow>
               (case (if length (colliding del entries create) > 0
                      then api_Create api s (colliding del entries create) else (None, s)) of
                  (Some e, s) \<Rightarrow> (Some (CreateReplacedFailed name e), s)
                | (None, s) \<Rightarrow> (None, s))))"

fun ban_loop :: "'s spireAPI \<Rightarrow> string \<Rightarrow> Ban list \<Rightarrow> 's \<Rightarrow> pass_error option \<times> 's" where
  "ban_loop api name [] s = (None, s)"
| "ban_loop api name (b # bs) s =
     (case api_Ban api s (ban_AgentID b) of
        (Some e, s') \<Rightarrow> (Some (BanFailed name (ban_AgentID b) e), s')
      | (None, s') \<Rightarrow> ban_loop api name bs s')"

definition bans_step ::
  "'s spireAPI \<Rightarrow> Cluster \<Rightarrow> Guest list \<Rightarrow> 's pass_state \<Rightarrow> (pass_error option \<times> 's pass_state) option" where
  "bans_step api c guests st =
     (case (case ps_agents st of Some as \<Rightarrow> Some (Inr as) | None \<Rightarrow> api_Agents api (ps_server st)) of
        None \<Rightarrow> None
      | Some (Inl e) \<Rightarrow> Some (Some (ListAgentsFailed (c_Name c) e), st)
      | Some (Inr as) \<Rightarrow>
          (let (bans, b') = Observe (c_Fingerprints c) (\<lambda>v. v \<in> g_VMID ` set guests) as (ps_bans st);
               (r, s') = ban_loop api (c_Name c) bans (ps_server st)
           in Some (r, st\<lparr>ps_agents := Some as, ps_bans := b', ps_server := s'\<rparr>)))"

definition target_step ::
  "'s spireAPI \<Rightarrow> string \<Rightarrow> bool \<Rightarrow> Target \<Rightarrow> 's pass_state \<Rightarrow> (pass_error option \<times> 's pass_state) option" where
  "target_step api td allowBans t st =
     (let name = c_Name (t_Cluster t) in
      case t_Read t of
        Inl err \<Rightarrow> Some (None, st\<lparr>ps_skipped := ps_skipped st + 1\<rparr>)
      | Inr guests \<Rightarrow>
          (case (case ps_entries st of Some es \<Rightarrow> Some (Inr es) | None \<Rightarrow> api_Entries api (ps_server st)) of
             None \<Rightarrow> None
           | Some (Inl e) \<Rightarrow> Some (Some (ListEntriesFailed name e), st)
           | Some (Inr entries) \<Rightarrow>
               (let (aliases, problems) = Wanted td (t_Cluster t) guests;
                    (create, del) = Diff td name entries aliases;
                    (r, s') = apply_diff api name entries create del (ps_server st);
                    st' = st\<lparr>ps_entries := Some entries, ps_server := s'\<rparr>
                in case r of
                     Some e \<Rightarrow> Some (Some e, st')
                   | None \<Rightarrow> if \<not> allowBans then Some (None, st') else bans_step api (t_Cluster t) guests st')))"

fun pass_loop ::
  "'s spireAPI \<Rightarrow> string \<Rightarrow> bool \<Rightarrow> Target list \<Rightarrow> 's pass_state \<Rightarrow> (pass_error option \<times> 's pass_state) option" where
  "pass_loop api td allowBans [] st = Some (None, st)"
| "pass_loop api td allowBans (t # ts) st =
     (case target_step api td allowBans t st of
        None \<Rightarrow> None
      | Some (Some e, st') \<Rightarrow> Some (Some e, st')
      | Some (None, st') \<Rightarrow> pass_loop api td allowBans ts st')"

text \<open>\<open>Pass\<close>: the error, the number of clusters skipped, the server and the ban tracker after it.\<close>

definition Pass ::
  "'s spireAPI \<Rightarrow> string \<Rightarrow> Target list \<Rightarrow> bool \<Rightarrow> 's \<Rightarrow> BanTracker
    \<Rightarrow> (pass_error option \<times> nat \<times> 's \<times> BanTracker) option" where
  "Pass api td targets allowBans s bans =
     map_option (\<lambda>(r, st). (r, ps_skipped st, ps_server st, ps_bans st))
       (pass_loop api td allowBans targets
         \<lparr>ps_server = s, ps_bans = bans, ps_skipped = 0, ps_entries = None, ps_agents = None\<rparr>)"

subsection \<open>Lists of entries up to order\<close>

lemma settled_owned:
  assumes "mset (filter (owned td c) xs) = mset (filter (owned td c) ys)"
  shows "settled td c w xs \<longleftrightarrow> settled td c w ys"
proof -
  have "settled td c w zs \<longleftrightarrow> settled td c w (filter (owned td c) zs)" for zs
    by (simp add: settled_def)
  with settled_mset [OF assms] show ?thesis by blast
qed

lemma filter_weaker:
  assumes "filter_mset Q M = filter_mset Q N" "\<And>x. P x \<Longrightarrow> Q x"
  shows "filter_mset P M = filter_mset P N"
proof -
  have "filter_mset P A = filter_mset P (filter_mset Q A)" for A
    using assms(2) by (simp add: filter_filter_mset) (metis (mono_tags, lifting) filter_mset_cong)
  with assms(1) show ?thesis by metis
qed

lemma in_filter_mset: "filter_mset P (mset xs) = filter_mset P (mset ys) \<Longrightarrow> x \<in> set xs \<Longrightarrow> P x \<Longrightarrow> x \<in> set ys"
  by (metis (no_types, lifting) in_multiset_in_set set_mset_filter mem_Collect_eq)

lemma filter_mset_swap: "filter_mset P (filter_mset Q M) = filter_mset Q (filter_mset P M)"
  by (simp add: filter_filter_mset conj_commute)

lemma filter_mset_idle: "(\<And>x. x \<in># M \<Longrightarrow> P x) \<Longrightarrow> filter_mset P M = M"
  by (metis filter_mset_True filter_mset_cong)

lemma filter_mset_none: "(\<And>x. x \<in># M \<Longrightarrow> \<not> P x) \<Longrightarrow> filter_mset P M = {#}"
  by (metis filter_mset_False filter_mset_cong)

text \<open>Entries deleted by id: only owned ones, when the ids are those of owned entries that are still there.\<close>

lemma delete_frame:
  assumes "distinct (map e_ID es1)" "gone \<subseteq> e_ID ` {e \<in> set es1. own e}"
  shows "filter_mset (\<lambda>e. \<not> own e) (filter_mset (\<lambda>e. e_ID e \<notin> gone) (mset es1))
    = filter_mset (\<lambda>e. \<not> own e) (mset es1)"
proof -
  have "e_ID e \<notin> gone" if "e \<in> set es1" "\<not> own e" for e
    using that assms by (auto simp: distinct_map inj_on_def)
  then show ?thesis
    by (simp add: filter_filter_mset) (metis (mono_tags, lifting) filter_mset_cong in_multiset_in_set)
qed

lemma Wanted_in_cluster: "in_cluster td (c_Name c) (fst (Wanted td c gs))"
proof -
  have "HasPrefix i (cluster_prefix td (c_Name c))" if "entitled (base_id td c) gs g i" for g i
    using that by (auto simp: entitled_def base_id_def cluster_prefix_def tag_id_def HasPrefix_iff_prefix)
  then show ?thesis by (auto simp: in_cluster_def list_all_iff Wanted_aliases)
qed

lemma Wanted_sendable: "list_all (sendable td) (fst (Wanted td c gs))"
proof -
  have "HasPrefix i (''spiffe://'' @ td)" if "HasPrefix i (cluster_prefix td n)" for i n
    using that by (auto simp: HasPrefix_iff_prefix cluster_prefix_def prefix_def)
  moreover have "CHR '':'' \<in> set s" if "a \<in> set (fst (Wanted td c gs))" "s \<in> set (a_Selectors a)" for a s
    using that by (auto simp: Wanted_aliases)
  ultimately show ?thesis
    using Wanted_in_cluster [of td c gs] by (auto simp: sendable_def list_all_iff in_cluster_def)
qed

subsection \<open>One cluster\<close>

text \<open>
  \<open>stale_view\<close>: the kept listing agrees with the server on the entries of the cluster, though
  perhaps not on others; that is all \<open>Diff\<close> looks at.
\<close>

definition stale_view :: "string \<Rightarrow> string \<Rightarrow> Entry list \<Rightarrow> Entry list \<Rightarrow> bool" where
  "stale_view td c cache now \<longleftrightarrow> distinct (map e_ID cache)
     \<and> filter_mset (owned td c) (mset cache) = filter_mset (owned td c) (mset now)"

lemma del_ids:
  assumes "Diff td c cache w = (create, del)" "stale_view td c cache now"
  shows "set del \<subseteq> e_ID ` {e \<in> set now. owned td c e}"
proof
  fix i assume "i \<in> set del"
  then obtain e where e: "e \<in> set cache" "owned td c e" "e_ID e = i"
    using Diff_facts(1) [OF assms(1)] drops_owned by (fastforce simp: dropped_def)
  have "filter_mset (owned td c) (mset cache) = filter_mset (owned td c) (mset now)"
    using assms(2) by (simp add: stale_view_def)
  then have "e \<in> set now" using e(1, 2) by (rule in_filter_mset)
  with e show "i \<in> e_ID ` {e \<in> set now. owned td c e}" by auto
qed

lemma safe_colliding: "mset (safe del es create @ colliding del es create) = mset create"
  unfolding safe_def colliding_def by simp

lemma safe_sub: "set (safe del es create) \<subseteq> set create" "set (colliding del es create) \<subseteq> set create"
  by (auto simp: safe_def colliding_def)

context alias_server
begin

text \<open>A create, also a failing one, adds entries of the cluster and nothing else.\<close>

lemma create_frame:
  assumes "ok s" "list_all (sendable td) as" "in_cluster td c as" "api_Create api s as = (r, s')"
  obtains made where "ok s'" "mset (es s') = mset (es s) + mset made" "filter (owned td c) made = made"
    "r = None \<longrightarrow> list_all2 (fulfils td) as made"
proof -
  obtain made where m: "ok s'" "mset (es s') = mset (es s) + mset made"
    "\<forall>e \<in> set made. \<exists>a \<in> set as. fulfils td a e" "r = None \<longrightarrow> list_all2 (fulfils td) as made"
    using created [OF assms(1, 2, 4)] by blast
  then have "\<forall>e \<in> set made. owned td c e"
    using assms(3) fulfils_owned by (auto simp: in_cluster_def list_all_iff)
  then show thesis using m that by (simp add: filter_id_conv)
qed

lemma maybe_create_frame:
  assumes "ok s" "list_all (sendable td) as" "in_cluster td c as"
    and "(if length as > 0 then api_Create api s as else (None, s)) = (r, s')"
  obtains made where "ok s'" "mset (es s') = mset (es s) + mset made" "filter (owned td c) made = made"
    "r = None \<longrightarrow> list_all2 (fulfils td) as made"
proof (cases "as = []")
  case True
  then show ?thesis using assms that [of "[]"] by simp
next
  case False
  with assms(4) have "api_Create api s as = (r, s')" by simp
  from create_frame [OF assms(1-3) this] that show ?thesis by blast
qed

lemma maybe_delete:
  assumes "ok s" "(if length xs > 0 then api_Delete api s xs else (None, s)) = (r, s')"
  obtains gone where "ok s'" "gone \<subseteq> set xs"
    "mset (es s') = filter_mset (\<lambda>e. e_ID e \<notin> gone) (mset (es s))" "r = None \<longrightarrow> gone = set xs"
proof (cases "xs = []")
  case True
  then show ?thesis using assms that [of "{}"] by simp
next
  case False
  then show ?thesis using assms deleted that by (metis length_greater_0_conv)
qed

end

context alias_server
begin

text \<open>
  The three writes of a cluster, in every outcome: what is not of the cluster stays; entries
  that \<open>Diff\<close> does not delete stay; before the deletion nothing is lost at all.
\<close>

lemma apply_diff_facts:
  assumes diff: "Diff td c cache w = (create, del)" and view: "stale_view td c cache (es s)"
    and ok: "ok s" and w: "in_cluster td c w" "list_all (sendable td) w"
    and run: "apply_diff api n cache create del s = (r, s')"
  obtains made gone where "ok s'" "gone \<subseteq> set del"
    "mset (es s') = filter_mset (\<lambda>e. e_ID e \<notin> gone) (mset (es s)) + mset made"
    "filter (owned td c) made = made"
    "(\<exists>e. r = Some (CreateFailed n e)) \<longrightarrow> gone = {}"
    "r = None \<longrightarrow> gone = set del \<and> (\<exists>as. mset as = mset create \<and> list_all2 (fulfils td) as made)"
proof -
  have sub: "list_all (sendable td) xs" "in_cluster td c xs" if "set xs \<subseteq> set create" for xs
    using w that Diff_facts(3) [OF diff] by (auto simp: in_cluster_def list_all_iff)
  let ?safe = "safe del cache create" and ?coll = "colliding del cache create"
  obtain r1 s1 where c1: "(if length ?safe > 0 then api_Create api s ?safe else (None, s)) = (r1, s1)" by fastforce
  obtain made1 where m1: "ok s1" "mset (es s1) = mset (es s) + mset made1" "filter (owned td c) made1 = made1"
    "r1 = None \<longrightarrow> list_all2 (fulfils td) ?safe made1"
    using maybe_create_frame [OF ok sub [OF safe_sub(1)] c1] by blast
  show thesis
  proof (cases r1)
    case (Some e)
    then have "r = Some (CreateFailed n e)" "s' = s1" using run c1 by (auto simp: apply_diff_def Let_def)
    then show thesis using that [of "{}" made1] m1 by simp
  next
    case None
    obtain r2 s2 where c2: "(if length del > 0 then api_Delete api s1 del else (None, s1)) = (r2, s2)" by fastforce
    obtain gone where m2: "ok s2" "gone \<subseteq> set del"
      "mset (es s2) = filter_mset (\<lambda>e. e_ID e \<notin> gone) (mset (es s1))" "r2 = None \<longrightarrow> gone = set del"
      using maybe_delete [OF m1(1) c2] by blast
    have fresh: "e_ID e \<notin> set del" if "e \<in> set made1" for e
    proof
      assume "e_ID e \<in> set del"
      then obtain f where "f \<in> set (es s)" "e_ID f = e_ID e" using del_ids [OF diff view] by auto
      moreover have "distinct (map e_ID (es s @ made1))"
        using ids [OF m1(1)] m1(2) by (metis mset_append mset_map mset_eq_imp_distinct_iff)
      ultimately show False using that by force
    qed
    then have es2: "mset (es s2) = filter_mset (\<lambda>e. e_ID e \<notin> gone) (mset (es s)) + mset made1"
      using m1(2) m2(2, 3) by (auto intro!: filter_mset_idle)
    show thesis
    proof (cases r2)
      case (Some e)
      then have "r = Some (DeleteFailed n e)" "s' = s2"
        using run c1 c2 None by (auto simp: apply_diff_def Let_def)
      then show thesis using that [of gone made1] m1 m2 es2 by simp
    next
      case deleted_ok: None
      obtain r3 s3 where c3: "(if length ?coll > 0 then api_Create api s2 ?coll else (None, s2)) = (r3, s3)" by fastforce
      obtain made3 where m3: "ok s3" "mset (es s3) = mset (es s2) + mset made3"
        "filter (owned td c) made3 = made3" "r3 = None \<longrightarrow> list_all2 (fulfils td) ?coll made3"
        using maybe_create_frame [OF m2(1) sub [OF safe_sub(2)] c3] by blast
      have r: "s' = s3" "r = (case r3 of None \<Rightarrow> None | Some e \<Rightarrow> Some (CreateReplacedFailed n e))"
        using run c1 c2 c3 None deleted_ok by (auto simp: apply_diff_def Let_def split: option.splits)
      have "list_all2 (fulfils td) (?safe @ ?coll) (made1 @ made3)" if "r = None"
        using that r(2) m1(4) m3(4) None by (intro list_all2_appendI) (auto split: option.splits)
      then have "r = None \<longrightarrow> (\<exists>as. mset as = mset create \<and> list_all2 (fulfils td) as (made1 @ made3))"
        using safe_colliding [of del cache create] by blast
      moreover have "mset (es s3) = filter_mset (\<lambda>e. e_ID e \<notin> gone) (mset (es s)) + mset (made1 @ made3)"
        using m3(2) es2 by simp
      moreover have "\<nexists>e. r = Some (CreateFailed n e)" using r(2) by (auto split: option.splits)
      moreover have "gone = set del" using m2(4) deleted_ok by simp
      ultimately show thesis using that [of gone "made1 @ made3"] m1(3) m2(2) m3(1, 3) r(1) by simp
    qed
  qed
qed

lemma apply_diff_frame:
  assumes diff: "Diff td c cache w = (create, del)" and view: "stale_view td c cache (es s)"
    and ok: "ok s" and w: "in_cluster td c w" "list_all (sendable td) w"
    and run: "apply_diff api n cache create del s = (r, s')"
  shows "ok s'"
    "filter_mset (\<lambda>e. \<not> owned td c e) (mset (es s')) = filter_mset (\<lambda>e. \<not> owned td c e) (mset (es s))"
    "r = None \<Longrightarrow> settled td c w (es s')"
proof -
  obtain made gone where m: "ok s'" "gone \<subseteq> set del"
    "mset (es s') = filter_mset (\<lambda>e. e_ID e \<notin> gone) (mset (es s)) + mset made"
    "filter (owned td c) made = made" "(\<exists>e. r = Some (CreateFailed n e)) \<longrightarrow> gone = {}"
    "r = None \<longrightarrow> gone = set del \<and> (\<exists>as. mset as = mset create \<and> list_all2 (fulfils td) as made)"
    by (rule apply_diff_facts [OF assms])
  show "ok s'" by (rule m(1))
  have made: "owned td c e" if "e \<in> set made" for e using that m(4) by (metis filter_id_conv)
  have "gone \<subseteq> e_ID ` {e \<in> set (es s). owned td c e}" using m(2) del_ids [OF diff view] by blast
  from delete_frame [OF ids [OF ok] this]
  show "filter_mset (\<lambda>e. \<not> owned td c e) (mset (es s')) = filter_mset (\<lambda>e. \<not> owned td c e) (mset (es s))"
    using made by (simp add: m(3) filter_mset_none)
  show "settled td c w (es s')" if r: "r = None"
  proof -
    obtain as where gone: "gone = set del" "mset as = mset create" "list_all2 (fulfils td) as made"
      using m(6) r by blast
    obtain made' where m': "list_all2 (fulfils td) create made'" "mset made' = mset made"
      using list_all2_reorder_left_invariance [OF gone(3), of create] gone(2) by auto
    have view': "distinct (map e_ID cache)"
      "filter_mset (owned td c) (mset cache) = filter_mset (owned td c) (mset (es s))"
      using view by (simp_all add: stale_view_def)
    have "filter_mset (owned td c) (filter_mset (\<lambda>e. e_ID e \<notin> set del) (mset (es s)))
        = filter_mset (owned td c) (filter_mset (\<lambda>e. e_ID e \<notin> set del) (mset cache))"
      unfolding filter_mset_swap [of "owned td c" "\<lambda>e. e_ID e \<notin> set del"] view'(2) ..
    then have "mset (filter (owned td c) (es s'))
        = mset (filter (owned td c) (filter (\<lambda>e. e_ID e \<notin> set del) cache @ made'))"
      by (simp only: mset_filter mset_append m(3) gone(1) filter_union_mset m'(2))
    from settled_owned [OF this] Diff_apply_settled [OF diff view'(1) w(1) m'(1)]
    show ?thesis by blast
  qed
qed

end

subsection \<open>All clusters\<close>

abbreviation t_Name :: "Target \<Rightarrow> string" where
  "t_Name t \<equiv> c_Name (t_Cluster t)"

definition targets_ok :: "Target list \<Rightarrow> bool" where
  "targets_ok ts \<longleftrightarrow> distinct (map t_Name ts) \<and> list_all (\<lambda>t. validSegment (t_Name t)) ts"

definition touched :: "string \<Rightarrow> Target \<Rightarrow> Entry \<Rightarrow> bool" where
  "touched td t e \<longleftrightarrow> (\<exists>guests. t_Read t = Inr guests) \<and> owned td (t_Name t) e"

definition as_wanted :: "string \<Rightarrow> Target \<Rightarrow> Entry list \<Rightarrow> bool" where
  "as_wanted td t es \<longleftrightarrow> (case t_Read t of Inl _ \<Rightarrow> True
     | Inr guests \<Rightarrow> settled td (t_Name t) (fst (Wanted td (t_Cluster t) guests)) es)"

definition views_ok :: "string \<Rightarrow> Target list \<Rightarrow> Entry list option \<Rightarrow> Entry list \<Rightarrow> bool" where
  "views_ok td ts cache now \<longleftrightarrow>
     (case cache of None \<Rightarrow> True | Some xs \<Rightarrow> list_all (\<lambda>t. stale_view td (t_Name t) xs now) ts)"

lemma targets_ok_Cons:
  assumes "targets_ok (t # ts)"
  shows "targets_ok ts" "u \<in> set ts \<Longrightarrow> owned td (t_Name u) e \<Longrightarrow> \<not> owned td (t_Name t) e"
proof -
  show "targets_ok ts" using assms by (simp add: targets_ok_def)
  assume u: "u \<in> set ts" "owned td (t_Name u) e"
  then have "t_Name u \<noteq> t_Name t" "validSegment (t_Name u)" "validSegment (t_Name t)"
    using assms by (auto simp: targets_ok_def list_all_iff rev_image_eqI)
  then show "\<not> owned td (t_Name t) e" using owned_apart u(2) by blast
qed

lemma stale_view_frame:
  assumes "stale_view td c cache now" "filter_mset (\<lambda>e. \<not> own e) (mset now') = filter_mset (\<lambda>e. \<not> own e) (mset now)"
    and "\<And>e. owned td c e \<Longrightarrow> \<not> own e"
  shows "stale_view td c cache now'"
  using assms(1) filter_weaker [OF assms(2), of "owned td c"] assms(3) by (simp add: stale_view_def)

context alias_server
begin

lemma ban_loop_frame:
  "ok s \<Longrightarrow> ban_loop api n bs s = (r, s') \<Longrightarrow> ok s' \<and> mset (es s') = mset (es s)"
proof (induction bs arbitrary: s)
  case (Cons b bs)
  obtain r1 s1 where b: "api_Ban api s (ban_AgentID b) = (r1, s1)" by fastforce
  have "ok s1 \<and> mset (es s1) = mset (es s)" using Cons.prems(1) b by (rule banned)
  with Cons b show ?case by (cases r1) auto
qed simp

lemma bans_step_frame:
  assumes "ok (ps_server st)" "bans_step api c guests st = Some (r, st')"
  shows "ok (ps_server st')" "mset (es (ps_server st')) = mset (es (ps_server st))"
    "ps_entries st' = ps_entries st" "ps_skipped st' = ps_skipped st"
  using assms ban_loop_frame [OF assms(1)]
  by (auto simp: bans_step_def Let_def split: option.splits sum.splits prod.splits)

lemma fresh_listing:
  assumes "ok s" "api_Entries api s = Some (Inr xs)"
  shows "stale_view td c xs (es s)"
proof -
  have m: "mset xs = mset (es s)" using assms by (rule listed)
  have "mset (map e_ID xs) = mset (map e_ID (es s))" unfolding mset_map m ..
  then have "distinct (map e_ID xs)" using ids [OF assms(1)] mset_eq_imp_distinct_iff by blast
  then show ?thesis by (simp add: stale_view_def m)
qed

lemma target_step_read:
  assumes ok: "ok (ps_server st)" and g: "t_Read t = Inr guests"
    and v: "views_ok td [t] (ps_entries st) (es (ps_server st))"
    and run: "target_step api td allow t st = Some (r, st')"
  shows "ok (ps_server st')"
    "filter_mset (\<lambda>e. \<not> owned td (t_Name t) e) (mset (es (ps_server st')))
       = filter_mset (\<lambda>e. \<not> owned td (t_Name t) e) (mset (es (ps_server st)))"
    "r = None \<Longrightarrow> as_wanted td t (es (ps_server st'))"
    "ps_skipped st' = ps_skipped st"
    "ps_entries st' = ps_entries st
       \<or> ps_entries st = None \<and> (\<exists>xs. api_Entries api (ps_server st) = Some (Inr xs) \<and> ps_entries st' = Some xs)"
proof -
  let ?fetch = "case ps_entries st of Some es \<Rightarrow> Some (Inr es) | None \<Rightarrow> api_Entries api (ps_server st)"
  let ?w = "fst (Wanted td (t_Cluster t) guests)" and ?n = "t_Name t"
  have "(\<exists>e. ?fetch = Some (Inl e)) \<or> (\<exists>xs. ?fetch = Some (Inr xs))"
    using run g by (auto simp: target_step_def Let_def split: option.splits sum.splits)
  then have all: "ok (ps_server st') \<and>
    filter_mset (\<lambda>e. \<not> owned td ?n e) (mset (es (ps_server st'))) = filter_mset (\<lambda>e. \<not> owned td ?n e) (mset (es (ps_server st)))
    \<and> (r = None \<longrightarrow> settled td ?n ?w (es (ps_server st'))) \<and> ps_skipped st' = ps_skipped st
    \<and> (ps_entries st' = ps_entries st \<or> ps_entries st = None
        \<and> (\<exists>xs. api_Entries api (ps_server st) = Some (Inr xs) \<and> ps_entries st' = Some xs))"
  proof (elim disjE exE)
    fix e assume "?fetch = Some (Inl e)"
    then have "st' = st" "r = Some (ListEntriesFailed ?n e)"
      using run g by (auto simp: target_step_def Let_def split: option.splits)
    then show ?thesis using ok by simp
  next
    fix xs assume f: "?fetch = Some (Inr xs)"
    then have view: "stale_view td ?n xs (es (ps_server st))"
      using v ok fresh_listing by (auto simp: views_ok_def split: option.splits)
    obtain create del where d: "Diff td ?n xs ?w = (create, del)" by fastforce
    obtain r1 s1 where a: "apply_diff api ?n xs create del (ps_server st) = (r1, s1)" by fastforce
    note A = apply_diff_frame [OF d view ok Wanted_in_cluster Wanted_sendable a]
    let ?st = "st\<lparr>ps_entries := Some xs, ps_server := s1\<rparr>"
    have step: "target_step api td allow t st = (case r1 of Some e \<Rightarrow> Some (Some e, ?st)
        | None \<Rightarrow> if \<not> allow then Some (None, ?st) else bans_step api (t_Cluster t) guests ?st)"
      using g f d a by (cases r1) (simp_all add: target_step_def Let_def split_beta)
    have fetched: "ps_entries st = Some xs \<or> ps_entries st = None \<and> api_Entries api (ps_server st) = Some (Inr xs)"
      using f by (auto split: option.splits)
    show ?thesis
    proof (cases "r1 = None \<and> allow")
      case True
      then have "bans_step api (t_Cluster t) guests ?st = Some (r, st')" using run step by simp
      note B = bans_step_frame [OF _ this]
      have "mset (es (ps_server st')) = mset (es s1)" "ok (ps_server st')" using B A(1) by simp_all
      then show ?thesis
        using A True B settled_mset [of "es (ps_server st')" "es s1"] fetched by auto
    next
      case False
      then have "st' = ?st" "r = r1" using run step by (auto split: option.splits if_splits)
      then show ?thesis using A fetched by auto
    qed
  qed
  then show "ok (ps_server st')" "filter_mset (\<lambda>e. \<not> owned td (t_Name t) e) (mset (es (ps_server st')))
       = filter_mset (\<lambda>e. \<not> owned td (t_Name t) e) (mset (es (ps_server st)))"
    "r = None \<Longrightarrow> as_wanted td t (es (ps_server st'))" "ps_skipped st' = ps_skipped st"
    "ps_entries st' = ps_entries st \<or> ps_entries st = None
       \<and> (\<exists>xs. api_Entries api (ps_server st) = Some (Inr xs) \<and> ps_entries st' = Some xs)"
    using g by (simp_all add: as_wanted_def)
qed

end

context alias_server
begin

lemma target_step_skip:
  assumes "t_Read t = Inl e" "target_step api td allow t st = Some (r, st')"
  shows "r = None" "st' = st\<lparr>ps_skipped := ps_skipped st + 1\<rparr>"
  using assms by (auto simp: target_step_def)

text \<open>What one target leaves for the next ones: their entries, and the kept listing still good for them.\<close>

lemma target_step_next:
  assumes ok: "ok (ps_server st)" and ts: "targets_ok (t # ts)"
    and v: "views_ok td (t # ts) (ps_entries st) (es (ps_server st))"
    and run: "target_step api td allow t st = Some (r, st')"
  shows "ok (ps_server st')" "views_ok td ts (ps_entries st') (es (ps_server st'))"
    "\<And>P. (\<And>e. P e \<Longrightarrow> \<not> touched td t e) \<Longrightarrow>
       filter_mset P (mset (es (ps_server st'))) = filter_mset P (mset (es (ps_server st)))"
    "r = None \<Longrightarrow> as_wanted td t (es (ps_server st'))"
    "ps_skipped st' = ps_skipped st + (if isl (t_Read t) then 1 else 0)"
proof -
  have "ok (ps_server st') \<and> views_ok td ts (ps_entries st') (es (ps_server st'))
    \<and> (\<forall>P. (\<forall>e. P e \<longrightarrow> \<not> touched td t e) \<longrightarrow>
       filter_mset P (mset (es (ps_server st'))) = filter_mset P (mset (es (ps_server st))))
    \<and> (r = None \<longrightarrow> as_wanted td t (es (ps_server st')))
    \<and> ps_skipped st' = ps_skipped st + (if isl (t_Read t) then 1 else 0)"
  proof (cases "t_Read t")
    case (Inl e)
    with target_step_skip [OF Inl run] ok v show ?thesis
      by (auto simp: as_wanted_def views_ok_def split: option.splits)
  next
    case (Inr guests)
    have v1: "views_ok td [t] (ps_entries st) (es (ps_server st))"
      using v by (simp add: views_ok_def split: option.splits)
    note S = target_step_read [OF ok Inr v1 run]
    have "stale_view td (t_Name u) xs (es (ps_server st))" if "u \<in> set ts" "ps_entries st' = Some xs" for u xs
      using that S(5) v ok fresh_listing by (auto simp: views_ok_def list_all_iff split: option.splits)
    then have "stale_view td (t_Name u) xs (es (ps_server st'))" if "u \<in> set ts" "ps_entries st' = Some xs" for u xs
      using that S(2) targets_ok_Cons(2) [OF ts] by (metis stale_view_frame)
    then have "views_ok td ts (ps_entries st') (es (ps_server st'))"
      by (simp add: views_ok_def list_all_iff split: option.splits)
    moreover have "filter_mset P (mset (es (ps_server st'))) = filter_mset P (mset (es (ps_server st)))"
      if "\<forall>e. P e \<longrightarrow> \<not> touched td t e" for P
      using S(2) that Inr by (intro filter_weaker [OF S(2)]) (auto simp: touched_def)
    ultimately show ?thesis using S(1, 3, 4) Inr by auto
  qed
  then show "ok (ps_server st')" "views_ok td ts (ps_entries st') (es (ps_server st'))"
    "\<And>P. (\<And>e. P e \<Longrightarrow> \<not> touched td t e) \<Longrightarrow>
       filter_mset P (mset (es (ps_server st'))) = filter_mset P (mset (es (ps_server st)))"
    "r = None \<Longrightarrow> as_wanted td t (es (ps_server st'))"
    "ps_skipped st' = ps_skipped st + (if isl (t_Read t) then 1 else 0)"
    by auto
qed

lemma as_wanted_frame:
  assumes "as_wanted td t xs"
    and "filter_mset (owned td (t_Name t)) (mset ys) = filter_mset (owned td (t_Name t)) (mset xs)"
  shows "as_wanted td t ys"
proof -
  have "mset (filter (owned td (t_Name t)) ys) = mset (filter (owned td (t_Name t)) xs)"
    using assms(2) by (simp only: mset_filter)
  from settled_owned [OF this] assms(1) show ?thesis by (auto simp: as_wanted_def split: sum.splits)
qed

lemma pass_loop_facts:
  assumes "ok (ps_server st)" "targets_ok ts" "views_ok td ts (ps_entries st) (es (ps_server st))"
    and "pass_loop api td allow ts st = Some (r, st')"
  shows "ok (ps_server st')
    \<and> (\<forall>P. (\<forall>e. P e \<longrightarrow> (\<forall>t \<in> set ts. \<not> touched td t e)) \<longrightarrow>
         filter_mset P (mset (es (ps_server st'))) = filter_mset P (mset (es (ps_server st))))
    \<and> (r = None \<longrightarrow> (\<forall>t \<in> set ts. as_wanted td t (es (ps_server st')))
         \<and> ps_skipped st' = ps_skipped st + length (filter (\<lambda>t. isl (t_Read t)) ts))"
  using assms
proof (induction ts arbitrary: st)
  case (Cons t ts)
  obtain r1 st1 where step: "target_step api td allow t st = Some (r1, st1)"
    using Cons.prems(4) by (auto split: option.splits)
  note T = target_step_next [OF Cons.prems(1-3) step]
  show ?case
  proof (cases r1)
    case (Some e)
    then have "r = Some e" "st' = st1" using Cons.prems(4) step by auto
    then show ?thesis using T(1, 3) by auto
  next
    case None
    then have "pass_loop api td allow ts st1 = Some (r, st')" using Cons.prems(4) step by simp
    note I = Cons.IH [OF T(1) targets_ok_Cons(1) [OF Cons.prems(2)] T(2) this]
    have rest: "filter_mset P (mset (es (ps_server st'))) = filter_mset P (mset (es (ps_server st1)))"
      if "\<forall>e. P e \<longrightarrow> (\<forall>u \<in> set ts. \<not> touched td u e)" for P
      using I that by blast
    have frame: "filter_mset P (mset (es (ps_server st'))) = filter_mset P (mset (es (ps_server st)))"
      if "\<forall>e. P e \<longrightarrow> (\<forall>u \<in> set (t # ts). \<not> touched td u e)" for P
      using rest [of P] T(3) [of P] that by simp
    have "filter_mset (owned td (t_Name t)) (mset (es (ps_server st')))
        = filter_mset (owned td (t_Name t)) (mset (es (ps_server st1)))"
    proof (rule rest)
      show "\<forall>e. owned td (t_Name t) e \<longrightarrow> (\<forall>u \<in> set ts. \<not> touched td u e)"
        using targets_ok_Cons(2) [OF Cons.prems(2)] unfolding touched_def by blast
    qed
    then have "as_wanted td t (es (ps_server st'))" by (rule as_wanted_frame [OF T(4) [OF None]])
    with I T(5) frame show ?thesis by (intro conjI allI impI) simp_all
  qed
qed simp

lemma Pass_facts:
  assumes "ok s" "targets_ok ts" "Pass api td ts allow s b = Some (r, sk, s', b')"
  shows "ok s'"
    "\<And>P. (\<And>e t. P e \<Longrightarrow> t \<in> set ts \<Longrightarrow> \<not> touched td t e) \<Longrightarrow>
       filter_mset P (mset (es s')) = filter_mset P (mset (es s))"
    "r = None \<Longrightarrow> t \<in> set ts \<Longrightarrow> as_wanted td t (es s')"
    "r = None \<Longrightarrow> sk = length (filter (\<lambda>t. isl (t_Read t)) ts)"
proof -
  let ?st = "\<lparr>ps_server = s, ps_bans = b, ps_skipped = 0, ps_entries = None, ps_agents = None\<rparr>"
  obtain st' where run: "pass_loop api td allow ts ?st = Some (r, st')" "sk = ps_skipped st'" "s' = ps_server st'"
    using assms(3) by (auto simp: Pass_def)
  have "views_ok td ts (ps_entries ?st) (es (ps_server ?st))" by (simp add: views_ok_def)
  from pass_loop_facts [OF _ assms(2) this run(1)] assms(1) run(2, 3)
  show "ok s'"
    "\<And>P. (\<And>e t. P e \<Longrightarrow> t \<in> set ts \<Longrightarrow> \<not> touched td t e) \<Longrightarrow>
       filter_mset P (mset (es s')) = filter_mset P (mset (es s))"
    "r = None \<Longrightarrow> t \<in> set ts \<Longrightarrow> as_wanted td t (es s')"
    "r = None \<Longrightarrow> sk = length (filter (\<lambda>t. isl (t_Read t)) ts)"
    by auto
qed

end

subsection \<open>Claims\<close>

text \<open>
  C4: A pass that reports no error has done its work. For any SPIRE server that keeps the
  contract, and clusters with distinct valid names, every cluster whose read was good then has
  exactly the wanted aliases, each once and with default fields; every other entry, those of
  skipped clusters included, is as it was; and the number returned is the number of clusters
  skipped. The later clusters are reconciled from a listing taken before the earlier ones were
  changed; the theorem shows that this listing is still good enough.
\<close>

theorem Pass_converges:
  assumes "alias_server api td es ok" "ok s" "targets_ok ts"
    and "Pass api td ts allow s b = Some (None, sk, s', b')"
  shows "(\<forall>t \<in> set ts. \<forall>guests. t_Read t = Inr guests
      \<longrightarrow> settled td (t_Name t) (fst (Wanted td (t_Cluster t) guests)) (es s'))
    \<and> filter_mset (\<lambda>e. \<forall>t \<in> set ts. \<not> touched td t e) (mset (es s'))
      = filter_mset (\<lambda>e. \<forall>t \<in> set ts. \<not> touched td t e) (mset (es s))
    \<and> sk = length (filter (\<lambda>t. isl (t_Read t)) ts)"
proof (intro conjI ballI allI impI)
  note F = alias_server.Pass_facts [OF assms]
  show "settled td (t_Name t) (fst (Wanted td (t_Cluster t) guests)) (es s')"
    if "t \<in> set ts" "t_Read t = Inr guests" for t guests
    using F(3) [of t] that by (simp add: as_wanted_def)
  show "filter_mset (\<lambda>e. \<forall>t \<in> set ts. \<not> touched td t e) (mset (es s'))
      = filter_mset (\<lambda>e. \<forall>t \<in> set ts. \<not> touched td t e) (mset (es s))"
    by (rule F(2)) blast
  show "sk = length (filter (\<lambda>t. isl (t_Read t)) ts)"
    by (rule F(4)) simp
qed

definition sampleTargets :: "Target list" where
  "sampleTargets =
     [\<lparr>t_Cluster = \<lparr>c_Name = ''c1'', c_Fingerprints = [''ab'']\<rparr>,
       t_Read = Inr [\<lparr>g_VMID = ''8'', g_Pool = [], g_Tags = [], g_Template = False\<rparr>]\<rparr>,
      \<lparr>t_Cluster = \<lparr>c_Name = ''c2'', c_Fingerprints = [''cd'']\<rparr>, t_Read = Inl NoGuest\<rparr>]"

definition sampleAfter :: mem where
  "sampleAfter = (case Pass (SPIRE memServer ''td'') ''td'' sampleTargets True sampleMem [] of
     Some (r, sk, s', b) \<Rightarrow> s' | None \<Rightarrow> sampleMem)"

lemma sample_targets_ok: "targets_ok sampleTargets"
  by code_simp

lemma sample_mem_ok: "mem_ok sampleMem"
  by (simp add: mem_ok_def sampleMem_def itoa_zero)

lemma sample_entries:
  "mem_aliases ''td'' sampleMem =
     [\<lparr>e_ID = ''0'', e_ParentID = ''spiffe://td/spire/server'', e_SPIFFEID = ''spiffe://td/pve/c1/vm/7'',
       e_Selectors = [''t:v''], e_Default = True\<rparr>]"
  by code_simp

lemma sample_pass:
  "map_option (\<lambda>(r, sk, s', b). (r, sk, map e_SPIFFEID (mem_aliases ''td'' s'), b))
     (Pass (SPIRE memServer ''td'') ''td'' sampleTargets True sampleMem [])
   = Some (None, 1, [''spiffe://td/pve/c1/vm/8''], [])"
  by code_simp

lemma sample_pass_run:
  obtains sk s' b' where
    "Pass (SPIRE memServer ''td'') ''td'' sampleTargets True sampleMem [] = Some (None, sk, s', b')" "sampleAfter = s'"
  using sample_pass by (auto simp: sampleAfter_def)

theorem Pass_converges_witness:
  "\<exists>t \<in> set sampleTargets. \<exists>guests. t_Read t = Inr guests
    \<and> settled ''td'' (t_Name t) (fst (Wanted ''td'' (t_Cluster t) guests)) (mem_aliases ''td'' sampleAfter)"
proof -
  obtain sk s' b' where run:
    "Pass (SPIRE memServer ''td'') ''td'' sampleTargets True sampleMem [] = Some (None, sk, s', b')" "sampleAfter = s'"
    by (rule sample_pass_run)
  from Pass_converges [OF mem.alias_server_axioms sample_mem_ok sample_targets_ok run(1)]
  show ?thesis by (simp add: run(2) sampleTargets_def)
qed

text \<open>
  C5: Whatever goes wrong, a pass stays within the clusters it read. For every outcome, an
  error in the middle included, the entries that belong to no cluster with a good read are
  exactly as before: those of a cluster whose read was doubtful, of clusters not configured
  here, and everything outside \<open>/pve/\<close>.
\<close>

theorem Pass_frame:
  assumes "alias_server api td es ok" "ok s" "targets_ok ts"
    and "Pass api td ts allow s b = Some (r, sk, s', b')"
  shows "filter_mset (\<lambda>e. \<forall>t \<in> set ts. \<not> touched td t e) (mset (es s'))
      = filter_mset (\<lambda>e. \<forall>t \<in> set ts. \<not> touched td t e) (mset (es s))
    \<and> (\<forall>t \<in> set ts. \<forall>doubt. t_Read t = Inl doubt
        \<longrightarrow> filter_mset (owned td (t_Name t)) (mset (es s')) = filter_mset (owned td (t_Name t)) (mset (es s)))"
proof (intro conjI ballI allI impI)
  note F = alias_server.Pass_facts(2) [OF assms]
  show "filter_mset (\<lambda>e. \<forall>t \<in> set ts. \<not> touched td t e) (mset (es s'))
      = filter_mset (\<lambda>e. \<forall>t \<in> set ts. \<not> touched td t e) (mset (es s))"
    by (rule F) blast
  show "filter_mset (owned td (t_Name t)) (mset (es s')) = filter_mset (owned td (t_Name t)) (mset (es s))"
    if t: "t \<in> set ts" "t_Read t = Inl doubt" for t doubt
  proof (rule F)
    fix e u assume u: "owned td (t_Name t) e" "u \<in> set ts"
    show "\<not> touched td u e"
    proof
      assume touched: "touched td u e"
      have "validSegment (t_Name t)" "validSegment (t_Name u)"
        using assms(3) t(1) u(2) by (simp_all add: targets_ok_def list_all_iff)
      then have "t_Name t = t_Name u"
        using owned_apart u(1) touched by (auto simp: touched_def)
      moreover have "inj_on t_Name (set ts)" using assms(3) by (simp add: targets_ok_def distinct_map)
      ultimately have "t = u" using t(1) u(2) by (simp add: inj_on_def)
      then show False using touched t(2) by (simp add: touched_def)
    qed
  qed
qed

theorem Pass_frame_witness:
  "filter_mset (owned ''td'' ''c2'') (mset (mem_aliases ''td'' sampleAfter))
     = filter_mset (owned ''td'' ''c2'') (mset (mem_aliases ''td'' sampleMem))"
proof -
  obtain sk s' b' where run:
    "Pass (SPIRE memServer ''td'') ''td'' sampleTargets True sampleMem [] = Some (None, sk, s', b')" "sampleAfter = s'"
    by (rule sample_pass_run)
  from Pass_frame [OF mem.alias_server_axioms sample_mem_ok sample_targets_ok run(1)]
  show ?thesis by (simp add: run(2) sampleTargets_def)
qed

text \<open>
  C20: Aliases are added before others are taken away. Applying the answer of \<open>Diff\<close> to any
  server that keeps the contract, in every outcome: only entries that \<open>Diff\<close> named are removed,
  so a wanted alias that is in place is never interrupted; and when the first create fails,
  nothing is removed at all.
\<close>

theorem failed_create_keeps_aliases:
  assumes "alias_server api td es ok" "ok s" "Diff td c cache w = (create, del)"
    and "stale_view td c cache (es s)" "in_cluster td c w" "list_all (sendable td) w"
    and "apply_diff api n cache create del s = (r, s')"
  shows "filter_mset (\<lambda>e. e_ID e \<notin> set del) (mset (es s)) \<subseteq># mset (es s')
    \<and> ((\<exists>e. r = Some (CreateFailed n e)) \<longrightarrow> mset (es s) \<subseteq># mset (es s'))"
proof -
  obtain made gone where m: "ok s'" "gone \<subseteq> set del"
    "mset (es s') = filter_mset (\<lambda>e. e_ID e \<notin> gone) (mset (es s)) + mset made"
    "filter (owned td c) made = made" "(\<exists>e. r = Some (CreateFailed n e)) \<longrightarrow> gone = {}"
    "r = None \<longrightarrow> gone = set del \<and> (\<exists>as. mset as = mset create \<and> list_all2 (fulfils td) as made)"
    by (rule alias_server.apply_diff_facts [OF assms(1, 3, 4, 2, 5, 6, 7)])
  have "filter_mset (\<lambda>e. e_ID e \<notin> set del) (mset (es s)) \<subseteq># filter_mset (\<lambda>e. e_ID e \<notin> gone) (mset (es s))"
    using m(2) by (intro filter_mset_mono_strong) auto
  then show ?thesis using m(3, 5) by (auto intro: subset_mset.order_trans)
qed

lemma sample_view: "stale_view ''td'' ''c1'' (mem_aliases ''td'' sampleMem) (mem_aliases ''td'' sampleMem)"
  using mem_ok_ids [OF sample_mem_ok] by (simp add: stale_view_def)

text \<open>An alias that replaces the one in \<^const>\<open>sampleMem\<close>.\<close>

definition sampleWanted :: "Alias list" where
  "sampleWanted = [\<lparr>a_SPIFFEID = ''spiffe://td/pve/c1/vm/8'', a_Selectors = [''t:v'']\<rparr>]"

definition sampleApplied :: "pass_error option \<times> mem" where
  "sampleApplied = apply_diff (SPIRE memServer ''td'') ''c1'' (mem_aliases ''td'' sampleMem) sampleWanted [''0''] sampleMem"

theorem failed_create_keeps_aliases_witness:
  "filter_mset (\<lambda>e. e_ID e \<notin> set [''0'']) (mset (mem_aliases ''td'' sampleMem))
     \<subseteq># mset (mem_aliases ''td'' (snd sampleApplied))"
proof -
  have d: "Diff ''td'' ''c1'' (mem_aliases ''td'' sampleMem) sampleWanted = (sampleWanted, [''0''])"
    by code_simp
  have w: "in_cluster ''td'' ''c1'' sampleWanted" "list_all (sendable ''td'') sampleWanted"
    by code_simp+
  have a: "apply_diff (SPIRE memServer ''td'') ''c1'' (mem_aliases ''td'' sampleMem) sampleWanted [''0''] sampleMem
      = (fst sampleApplied, snd sampleApplied)"
    by (simp add: sampleApplied_def)
  from failed_create_keeps_aliases [OF mem.alias_server_axioms sample_mem_ok d sample_view w a]
  show ?thesis by blast
qed

end
