(* ===== verification/Go_Net.thy ===== *)
theory Go_Net
  imports Go_Prelude
begin

text \<open>
  The parts of Go's package \<open>net\<close> (and of \<open>net/netip\<close> under it) that decide who a caller is:
  \<open>net.SplitHostPort\<close>, \<open>net.ParseIP\<close>, \<open>IP.To4\<close> and \<open>IP.String\<close>. An address is its 16 bytes,
  an IPv4 address in the mapped form \<open>::ffff:a.b.c.d\<close>, as \<open>net.ParseIP\<close> returns it.

  The lemmas show that the text of an IPv4 address parses back to it.
\<close>

type_synonym IP = "nat list"

subsection \<open>IPv4\<close>

definition octet_ok :: "string \<Rightarrow> bool" where
  "octet_ok f \<longleftrightarrow> f \<noteq> [] \<and> list_all is_digit f \<and> (length f > 1 \<longrightarrow> hd f \<noteq> CHR ''0'')
     \<and> atoi f \<le> 255"

definition parseIPv4Fields :: "string \<Rightarrow> nat list option" where
  "parseIPv4Fields s =
     (let fs = split_at_char CHR ''.'' s in
      if length fs = 4 \<and> list_all octet_ok fs then Some (map atoi fs) else None)"

definition v4InV6Prefix :: "nat list" where
  "v4InV6Prefix = [0, 0, 0, 0, 0, 0, 0, 0, 0, 0, 255, 255]"

definition IPv4 :: "nat \<Rightarrow> nat \<Rightarrow> nat \<Rightarrow> nat \<Rightarrow> IP" where
  "IPv4 a b c d = v4InV6Prefix @ [a, b, c, d]"

definition To4 :: "IP \<Rightarrow> nat list option" where
  "To4 ip = (if length ip = 16 \<and> take 12 ip = v4InV6Prefix then Some (drop 12 ip) else None)"

subsection \<open>IPv6\<close>

definition hex_val :: "char \<Rightarrow> nat" where
  "hex_val c = (if is_digit c then of_char c - 48
                else if (97 :: nat) \<le> of_char c then of_char c - 87 else of_char c - 55)"

definition hex_atoi :: "string \<Rightarrow> nat" where
  "hex_atoi s = foldl (\<lambda>n c. 16 * n + hex_val c) 0 s"

text \<open>
  The group loop of \<open>parseIPv6\<close>: \<open>n\<close> groups of two bytes are still free (\<open>i < 16\<close> is
  \<open>0 < n\<close>), \<open>ip\<close> holds the bytes so far, \<open>e\<close> the position of the ellipsis. The result is
  the bytes, the ellipsis and the text that is left.
\<close>

fun v6_loop :: "nat \<Rightarrow> nat list \<Rightarrow> nat option \<Rightarrow> string
    \<Rightarrow> (nat list \<times> nat option \<times> string) option" where
  "v6_loop 0 ip e s = Some (ip, e, s)"
| "v6_loop (Suc n) ip e s =
     (let g = takeWhile is_hex_digit s; r = drop (length g) s in
      if g = [] \<or> length g > 4 then None
      else if r \<noteq> [] \<and> hd r = CHR ''.'' then
        (if e = None \<and> length ip \<noteq> 12 \<or> length ip + 4 > 16 then None
         else map_option (\<lambda>b. (ip @ b, e, [])) (parseIPv4Fields s))
      else
        (let ip' = ip @ [hex_atoi g div 256, hex_atoi g mod 256] in
         case r of
           [] \<Rightarrow> Some (ip', e, [])
         | c # r1 \<Rightarrow>
             (if c \<noteq> CHR '':'' then None
              else (case r1 of
                [] \<Rightarrow> None
              | c1 # r2 \<Rightarrow>
                  (if c1 = CHR '':'' then
                     (if e \<noteq> None then None
                      else if r2 = [] then Some (ip', Some (length ip'), [])
                      else v6_loop n ip' (Some (length ip')) r2)
                   else v6_loop n ip' e r1)))))"

definition v6_finish :: "nat list \<times> nat option \<times> string \<Rightarrow> IP option" where
  "v6_finish res =
     (case res of (ip, e, s) \<Rightarrow>
        if s \<noteq> [] then None
        else if length ip < 16 then
          (case e of
             None \<Rightarrow> None
           | Some k \<Rightarrow> Some (take k ip @ replicate (16 - length ip) 0 @ drop k ip))
        else if e \<noteq> None then None else Some ip)"

definition parseIPv6 :: "string \<Rightarrow> IP option" where
  "parseIPv6 s =
     (if take 2 s = ''::'' then
        (if drop 2 s = [] then Some (replicate 16 0)
         else Option.bind (v6_loop 8 [] (Some 0) (drop 2 s)) v6_finish)
      else Option.bind (v6_loop 8 [] None s) v6_finish)"

text \<open>
  \<open>netip.ParseAddr\<close> dispatches on the first of \<open>.\<close>, \<open>:\<close> and \<open>%\<close>. \<open>net.ParseIP\<close> refuses
  every zone, so a text with a \<open>%\<close> never parses.
\<close>

fun ParseAddr_kind :: "string \<Rightarrow> char option" where
  "ParseAddr_kind [] = None"
| "ParseAddr_kind (c # cs) =
     (if c = CHR ''.'' \<or> c = CHR '':'' \<or> c = CHR 0x25 then Some c else ParseAddr_kind cs)"

definition ParseIP :: "string \<Rightarrow> IP option" where
  "ParseIP s =
     (if CHR 0x25 \<in> set s then None
      else if ParseAddr_kind s = Some CHR ''.'' then
        map_option (\<lambda>f. v4InV6Prefix @ f) (parseIPv4Fields s)
      else if ParseAddr_kind s = Some CHR '':'' then parseIPv6 s
      else None)"

subsection \<open>IP.String\<close>

definition dotted :: "nat list \<Rightarrow> string" where
  "dotted b = Join (map itoa b) ''.''"

fun v6_groups :: "nat list \<Rightarrow> nat list" where
  "v6_groups (h # l # r) = (256 * h + l) # v6_groups r"
| "v6_groups _ = []"

definition hex_digit_char :: "nat \<Rightarrow> char" where
  "hex_digit_char n = (if n < 10 then char_of (48 + n) else char_of (87 + n))"

fun hex_itoa :: "nat \<Rightarrow> string" where
  "hex_itoa n = (if n < 16 then [hex_digit_char n] else hex_itoa (n div 16) @ [hex_digit_char (n mod 16)])"

declare hex_itoa.simps [simp del]

definition zero_run :: "nat list \<Rightarrow> nat" where
  "zero_run gs = length (takeWhile (\<lambda>g. g = 0) gs)"

text \<open>The first of the longest runs of two or more zero groups, as (start, end).\<close>

fun best_run :: "nat \<Rightarrow> nat \<times> nat \<Rightarrow> nat list \<Rightarrow> nat \<times> nat" where
  "best_run i best [] = best"
| "best_run i best (g # gs) =
     (let l = zero_run (g # gs) in
      best_run (Suc i)
        (if l \<ge> 2 \<and> l > snd best - fst best then (i, i + l) else best) gs)"

definition string6 :: "nat list \<Rightarrow> string" where
  "string6 ip =
     (let gs = v6_groups ip; (zs, ze) = best_run 0 (255, 255) gs in
      if zs = 255 then Join (map hex_itoa gs) '':''
      else Join (map hex_itoa (take zs gs)) '':'' @ ''::'' @ Join (map hex_itoa (drop ze gs)) '':'')"

definition IP_String :: "IP \<Rightarrow> string" where
  "IP_String ip = (case To4 ip of Some b \<Rightarrow> dotted b | None \<Rightarrow> string6 ip)"

subsection \<open>net.SplitHostPort\<close>

fun index_of :: "char \<Rightarrow> string \<Rightarrow> nat option" where
  "index_of c [] = None"
| "index_of c (x # xs) = (if x = c then Some 0 else map_option Suc (index_of c xs))"

definition last_index_of :: "char \<Rightarrow> string \<Rightarrow> nat option" where
  "last_index_of c s = map_option (\<lambda>k. length s - 1 - k) (index_of c (rev s))"

text \<open>The host, or \<open>None\<close> for the error; no caller here uses the port.\<close>

definition SplitHostPort :: "string \<Rightarrow> string option" where
  "SplitHostPort hostport =
     (case last_index_of CHR '':'' hostport of
        None \<Rightarrow> None
      | Some i \<Rightarrow>
          if hd hostport = CHR ''['' then
            (case index_of CHR '']'' hostport of
               None \<Rightarrow> None
             | Some e \<Rightarrow>
                 if e + 1 \<noteq> i then None
                 else if CHR ''['' \<in> set (drop 1 hostport) then None
                 else if CHR '']'' \<in> set (drop (e + 1) hostport) then None
                 else Some (take (e - 1) (drop 1 hostport)))
          else
            (if CHR '':'' \<in> set (take i hostport) then None
             else if CHR ''['' \<in> set hostport then None
             else if CHR '']'' \<in> set hostport then None
             else Some (take i hostport)))"

subsection \<open>The text of an IPv4 address\<close>

lemma octet_ok_itoa: "n \<le> 255 \<Longrightarrow> octet_ok (itoa n)"
  using itoa_no_leading_zero [of n]
  by (cases "n = 0") (auto simp: octet_ok_def list_all_iff itoa_digits, simp add: itoa_zero)

lemma dotted_chars: "c \<in> set (dotted b) \<Longrightarrow> is_digit c \<or> c = CHR ''.''"
proof -
  have "c \<in> set (Join xs sep) \<Longrightarrow> (\<exists>x \<in> set xs. c \<in> set x) \<or> c \<in> set sep" for xs sep
    by (induction xs sep rule: Join.induct) auto
  then show "c \<in> set (dotted b) \<Longrightarrow> is_digit c \<or> c = CHR ''.''"
    by (fastforce simp: dotted_def dest: itoa_digits)
qed

lemma parseIPv4Fields_dotted:
  assumes "length b = 4" "\<forall>n \<in> set b. n \<le> 255"
  shows "parseIPv4Fields (dotted b) = Some b"
proof -
  have "CHR ''.'' \<notin> set (itoa n)" for n
    using itoa_digits [of "CHR ''.''" n] not_digit(1) by blast
  then have "split_at_char CHR ''.'' (dotted b) = map itoa b"
    using assms(1) unfolding dotted_def by (intro split_Join) auto
  then show ?thesis
    using assms by (simp add: parseIPv4Fields_def list_all_iff octet_ok_itoa comp_def)
qed

lemma ParseAddr_kind_dotted:
  "(\<forall>c \<in> set s. is_digit c \<or> c = CHR ''.'') \<Longrightarrow> CHR ''.'' \<in> set s \<Longrightarrow>
     ParseAddr_kind s = Some CHR ''.''"
  by (induction s) (auto simp: is_digit_def)

lemma map_Join:
  "\<forall>x \<in> set xs. \<forall>c \<in> set x. f c = c \<Longrightarrow> map f (Join xs sep) = Join xs (map f sep)"
  by (induction xs sep rule: Join.induct) (auto simp: map_idI)

lemma dotted_dash:
  "map (\<lambda>c. if c = CHR ''.'' then CHR ''-'' else c) (dotted b) = Join (map itoa b) ''-''"
  unfolding dotted_def by (subst map_Join) (auto dest: itoa_digits simp: not_digit)

lemma dot_in_dotted: "length b = 4 \<Longrightarrow> CHR ''.'' \<in> set (dotted b)"
  by (auto simp: dotted_def numeral_eq_Suc length_Suc_conv)

lemma ParseIP_dotted:
  assumes "length b = 4" "\<forall>n \<in> set b. n \<le> 255"
  shows "ParseIP (dotted b) = Some (v4InV6Prefix @ b)"
proof -
  have "CHR 0x25 \<notin> set (dotted b)"
    using dotted_chars [of "CHR 0x25" b] not_digit(3) by auto
  moreover have "ParseAddr_kind (dotted b) = Some CHR ''.''"
    using dotted_chars dot_in_dotted [OF assms(1)] by (intro ParseAddr_kind_dotted) blast+
  ultimately show ?thesis
    by (simp add: ParseIP_def parseIPv4Fields_dotted [OF assms])
qed

lemma To4_IPv4 [simp]: "To4 (v4InV6Prefix @ b) = (if length b = 4 then Some b else None)"
  by (simp add: To4_def v4InV6Prefix_def)

lemma IP_String_v4 [simp]: "length b = 4 \<Longrightarrow> IP_String (v4InV6Prefix @ b) = dotted b"
  by (simp add: IP_String_def)

lemma index_of_append: "c \<notin> set a \<Longrightarrow> index_of c (a @ c # b) = Some (length a)"
  by (induction a) auto

lemma SplitHostPort_v4:
  assumes "h \<noteq> []" "\<forall>c \<in> set h. is_digit c \<or> c = CHR ''.''" "\<forall>c \<in> set port. is_digit c"
  shows "SplitHostPort (h @ CHR '':'' # port) = Some h"
proof -
  have colon: "CHR '':'' \<notin> set port" "CHR '':'' \<notin> set h"
    using assms not_digit(2) by auto
  have br: "c \<notin> set h \<and> c \<notin> set port" if "c = CHR ''['' \<or> c = CHR '']''" for c
    using that assms not_digit(4,5) by auto
  have "index_of CHR '':'' (rev (h @ CHR '':'' # port)) = Some (length port)"
    using index_of_append [of "CHR '':''" "rev port" "rev h"] colon by simp
  then have "last_index_of CHR '':'' (h @ CHR '':'' # port) = Some (length h)"
    by (simp add: last_index_of_def)
  moreover have "hd (h @ CHR '':'' # port) \<noteq> CHR ''[''"
    using assms(1) br [of "CHR ''[''"] hd_in_set [OF assms(1)] by (metis hd_append2)
  ultimately show ?thesis
    using colon br [of "CHR ''[''"] br [of "CHR '']''"] by (simp add: SplitHostPort_def)
qed

end
