(* ===== verification/Inventory.thy ===== *)
theory Inventory
  imports Go_Net
begin

text \<open>
  The VM inventory, \<open>internal/inventory\<close>: the VM record, what may be served as a tag or a
  topology value (\<open>tags.go\<close>, \<open>placement.go\<close>), the YAML loader and the lookup of a caller by
  its MAC (\<open>inventory.go\<close>), and the digest of an inventory's sources (\<open>fingerprint.go\<close>).

  The YAML decoder (\<open>gopkg.in/yaml.v3\<close>) is an argument of \<open>LoadYAML\<close>: it turns the bytes of
  the file into the decoded entries or fails. SHA-256 is applied to the byte stream that
  \<open>FingerprintBuilder\<close> writes; the stream itself is what is modelled.
\<close>

subsection \<open>Records\<close>

record VMConfig =
  VMID :: string
  Name :: string
  RawConfig :: "(string \<times> string) list"
  Tags :: "(string \<times> string) list"
  MACs :: "string list"
  EKSHA256 :: string

type_synonym VMConfigMap = "(string \<times> VMConfig) list"

text \<open>One entry of the decoded YAML file.\<close>

record fileVM =
  f_ID :: string
  f_Name :: string
  f_MACs :: "string list"
  f_EKSHA256 :: string
  f_PublicIPv4 :: string
  f_Zone :: string
  f_Region :: string
  f_Tags :: "(string \<times> string) list"

datatype inventory_error =
  ReadInventory | ParseInventory | NotAnIPv4Address string string

subsection \<open>Tags and topology\<close>

definition is_alnum :: "char \<Rightarrow> bool" where
  "is_alnum c \<longleftrightarrow> is_upper c \<or> is_lower c \<or> is_digit c"

text \<open>The regular expression \<open>^[A-Za-z0-9_+-]{1,63}$\<close>.\<close>

definition ValidTagKey :: "string \<Rightarrow> bool" where
  "ValidTagKey s \<longleftrightarrow> 1 \<le> length s \<and> length s \<le> 63 \<and>
     list_all (\<lambda>c. is_alnum c \<or> c = CHR ''_'' \<or> c = CHR ''+'' \<or> c = CHR ''-'') s"

text \<open>The regular expression \<open>^[A-Za-z0-9_.+-]{1,255}$\<close>.\<close>

definition ValidTagValue :: "string \<Rightarrow> bool" where
  "ValidTagValue s \<longleftrightarrow> 1 \<le> length s \<and> length s \<le> 255 \<and>
     list_all (\<lambda>c. is_alnum c \<or> c = CHR ''_'' \<or> c = CHR ''.'' \<or> c = CHR ''+'' \<or> c = CHR ''-'') s"

type_synonym Topology = "(string \<times> string) list"

definition DefaultTopology :: Topology where
  "DefaultTopology = [(''availability-zone'', ''proxmox''), (''region'', ''local'')]"

text \<open>The regular expression \<open>^[A-Za-z0-9][A-Za-z0-9_.+-]{0,62}$\<close>.\<close>

fun ValidPlacementName :: "string \<Rightarrow> bool" where
  "ValidPlacementName [] = False"
| "ValidPlacementName (c # cs) \<longleftrightarrow> is_alnum c \<and> length cs \<le> 62 \<and>
     list_all (\<lambda>c. is_alnum c \<or> c = CHR ''_'' \<or> c = CHR ''.'' \<or> c = CHR ''+'' \<or> c = CHR ''-'') cs"

definition ValidTopologyKey :: "string \<Rightarrow> bool" where
  "ValidTopologyKey s = ValidTagKey s"

subsection \<open>The YAML loader\<close>

definition loadMACs :: "string list \<Rightarrow> string list" where
  "loadMACs ms = filter (\<lambda>m. m \<noteq> []) (map (\<lambda>m. ToLower (TrimSpace m)) ms)"

fun loadTags :: "(string \<times> string) list \<Rightarrow> (string \<times> string) list \<Rightarrow> (string \<times> string) list" where
  "loadTags tags [] = tags"
| "loadTags tags ((k, v) # rest) =
     (let key = TrimSpace k; value = TrimSpace v in
      if \<not> ValidTagKey key \<or> \<not> ValidTagValue value then loadTags tags rest
      else loadTags (AList.update key value tags) rest)"

definition loadPublicIPv4 :: "fileVM \<Rightarrow> inventory_error + (string \<times> string) list" where
  "loadPublicIPv4 vm =
     (let raw = [(''name'', f_Name vm)]; declared = TrimSpace (f_PublicIPv4 vm) in
      if declared = [] then Inr raw
      else case Option.bind (ParseIP declared) To4 of
        None \<Rightarrow> Inl (NotAnIPv4Address (f_ID vm) declared)
      | Some b \<Rightarrow> Inr (AList.update ''public-ipv4'' (dotted b) raw))"

definition loadVM :: "fileVM \<Rightarrow> inventory_error + VMConfig" where
  "loadVM vm =
     (case loadPublicIPv4 vm of
        Inl e \<Rightarrow> Inl e
      | Inr raw \<Rightarrow> Inr \<lparr>VMID = f_ID vm, Name = f_Name vm, RawConfig = raw,
                         Tags = loadTags [] (f_Tags vm), MACs = loadMACs (f_MACs vm),
                         EKSHA256 = ToLower (TrimSpace (f_EKSHA256 vm))\<rparr>)"

fun load_loop :: "VMConfigMap \<Rightarrow> fileVM list \<Rightarrow> inventory_error + VMConfigMap" where
  "load_loop out [] = Inr out"
| "load_loop out (vm # rest) =
     (if f_ID vm = [] then load_loop out rest
      else case loadVM vm of
        Inl e \<Rightarrow> Inl e
      | Inr c \<Rightarrow> load_loop (AList.update (f_ID vm) c out) rest)"

text \<open>\<open>data\<close> is what \<open>os.ReadFile\<close> gave, \<open>decode\<close> the YAML decoder.\<close>

definition LoadYAML ::
  "(string \<Rightarrow> fileVM list option) \<Rightarrow> string option \<Rightarrow> inventory_error + VMConfigMap" where
  "LoadYAML decode data =
     (case data of
        None \<Rightarrow> Inl ReadInventory
      | Some d \<Rightarrow> (case decode d of
          None \<Rightarrow> Inl ParseInventory
        | Some vms \<Rightarrow> load_loop [] vms))"

subsection \<open>Looking a caller up\<close>

definition GetVMIDByMAC :: "VMConfigMap \<Rightarrow> string \<Rightarrow> string" where
  "GetVMIDByMAC m mac0 =
     (let mac = ToLower (TrimSpace mac0) in
      case find (\<lambda>(vmid, vm). \<exists>vmMac \<in> set (MACs vm). ToLower vmMac = mac) m of
        None \<Rightarrow> []
      | Some (vmid, vm) \<Rightarrow> vmid)"

definition IsBound :: "VMConfig option \<Rightarrow> bool" where
  "IsBound vm = (case vm of None \<Rightarrow> False | Some c \<Rightarrow> VMID c \<noteq> [])"

text \<open>\<open>ctx\<close> is the record that \<open>GetVMConfigFromRequest\<close> finds in the request's context.\<close>

definition BoundVMFromRequest :: "VMConfig option \<Rightarrow> VMConfig option" where
  "BoundVMFromRequest ctx = (if \<not> IsBound ctx then None else ctx)"

subsection \<open>The fingerprint of the sources\<close>

text \<open>What \<open>os.ReadFile\<close> can answer, as \<open>AddFile\<close> tells it apart.\<close>

datatype file_read = Content string | NotExist | ReadError string

text \<open>The eight bytes \<open>binary.BigEndian.PutUint64\<close> writes.\<close>

definition be64 :: "nat \<Rightarrow> string" where
  "be64 n = map (\<lambda>i. char_of (n div 256 ^ (7 - i))) [0 ..< 8]"

definition fp_field :: "char \<Rightarrow> string \<Rightarrow> string" where
  "fp_field kind data = kind # be64 (length data mod 2 ^ 64) @ data"

datatype fp_input = AddString string | AddFile string file_read

definition fp_read :: "file_read \<Rightarrow> string" where
  "fp_read r =
     (case r of
        Content data \<Rightarrow> fp_field CHR ''c'' data
      | NotExist \<Rightarrow> fp_field CHR ''m'' []
      | ReadError msg \<Rightarrow> fp_field CHR ''e'' msg)"

fun fp_add :: "fp_input \<Rightarrow> string" where
  "fp_add (AddString s) = fp_field CHR ''s'' s"
| "fp_add (AddFile path r) = fp_field CHR ''p'' path @ fp_read r"

text \<open>Everything written to the hash by a sequence of additions.\<close>

definition fp_stream :: "fp_input list \<Rightarrow> string" where
  "fp_stream xs = concat (map fp_add xs)"

definition YAMLFingerprint :: "(string \<Rightarrow> 'd) \<Rightarrow> string \<Rightarrow> file_read \<Rightarrow> 'd" where
  "YAMLFingerprint sha256 path r = sha256 (fp_stream [AddFile path r])"

subsection \<open>Well-formed inventories\<close>

definition tags_ok :: "(string \<times> string) list \<Rightarrow> bool" where
  "tags_ok t \<longleftrightarrow> distinct (map fst t) \<and> (\<forall>(k, v) \<in> set t. ValidTagKey k \<and> ValidTagValue v)"

definition vm_ok :: "string \<Rightarrow> VMConfig \<Rightarrow> bool" where
  "vm_ok vmid c \<longleftrightarrow> VMID c = vmid \<and> vmid \<noteq> [] \<and>
     (\<forall>m \<in> set (MACs c). m \<noteq> [] \<and> ToLower m = m) \<and>
     tags_ok (Tags c) \<and>
     ToLower (EKSHA256 c) = EKSHA256 c \<and>
     (\<forall>a. map_of (RawConfig c) ''public-ipv4'' = Some a \<longrightarrow>
        (\<exists>b. length b = 4 \<and> a = dotted b))"

definition inventory_ok :: "VMConfigMap \<Rightarrow> bool" where
  "inventory_ok m \<longleftrightarrow> distinct (map fst m) \<and> (\<forall>(vmid, c) \<in> set m. vm_ok vmid c)"

lemma loadMACs_ok: "m \<in> set (loadMACs ms) \<Longrightarrow> m \<noteq> [] \<and> ToLower m = m"
  by (auto simp: loadMACs_def)

lemma tags_ok_update:
  "tags_ok t \<Longrightarrow> ValidTagKey k \<Longrightarrow> ValidTagValue v \<Longrightarrow> tags_ok (AList.update k v t)"
  using alist_set_update [of k v t] unfolding tags_ok_def by (auto simp del: alist_keys_update)

lemma loadTags_ok: "tags_ok t \<Longrightarrow> tags_ok (loadTags t xs)"
  by (induction t xs rule: loadTags.induct) (simp_all add: Let_def tags_ok_update)

lemma To4_length: "To4 ip = Some b \<Longrightarrow> length b = 4"
  by (auto simp: To4_def split: if_splits)

lemma loadVM_ok: "loadVM vm = Inr c \<Longrightarrow> f_ID vm \<noteq> [] \<Longrightarrow> vm_ok (f_ID vm) c"
  using loadTags_ok [of "[]" "f_Tags vm"]
  by (auto simp: tags_ok_def [of "[]"] loadVM_def vm_ok_def loadPublicIPv4_def Let_def bind_eq_Some_conv
      dest: loadMACs_ok To4_length split: sum.splits if_splits option.splits)

lemma inventory_ok_update:
  assumes "inventory_ok m" "vm_ok k c"
  shows "inventory_ok (AList.update k c m)"
  using assms alist_set_update [of k c m] by (auto simp: inventory_ok_def)

lemma load_loop_ok:
  "inventory_ok out \<Longrightarrow> load_loop out vms = Inr m \<Longrightarrow> inventory_ok m"
  by (induction out vms rule: load_loop.induct)
     (auto split: if_splits sum.splits dest: loadVM_ok intro: inventory_ok_update)

lemma load_loop_keys:
  "load_loop out vms = Inr m \<Longrightarrow>
   fst ` set m = fst ` set out \<union> {i \<in> f_ID ` set vms. i \<noteq> []}"
proof (induction out vms rule: load_loop.induct)
  case (2 out vm rest)
  show ?case
  proof (cases "f_ID vm = []")
    case False
    with 2 show ?thesis by (cases "loadVM vm") auto
  qed (use 2 in auto)
qed simp

definition public_ok :: "fileVM \<Rightarrow> bool" where
  "public_ok vm \<longleftrightarrow> TrimSpace (f_PublicIPv4 vm) = [] \<or>
     (\<exists>ip. ParseIP (TrimSpace (f_PublicIPv4 vm)) = Some ip \<and> To4 ip \<noteq> None)"

lemma loadVM_succeeds: "(\<exists>c. loadVM vm = Inr c) \<longleftrightarrow> public_ok vm"
  by (auto simp: loadVM_def loadPublicIPv4_def public_ok_def Let_def
      split: sum.splits if_splits option.splits bind_splits)

lemma load_loop_succeeds:
  "(\<exists>m. load_loop out vms = Inr m) \<longleftrightarrow> (\<forall>vm \<in> set vms. f_ID vm \<noteq> [] \<longrightarrow> public_ok vm)"
proof (induction out vms rule: load_loop.induct)
  case (2 out vm rest)
  then show ?case
    using loadVM_succeeds [of vm] by (cases "loadVM vm") auto
qed simp

text \<open>
  C30: Loading the inventory file fails exactly when the file cannot be read, cannot be decoded, or
  has an entry with an id whose \<open>public_ipv4\<close> is neither blank nor an IPv4 address. What
  loads is well formed: its keys are exactly the declared non-empty ids, each key is the
  VMID of its record, MACs are lower-case and not empty, only valid instance tags remain
  (each key once), the EK pin is lower-case and a public address is a dotted quad.
\<close>

theorem LoadYAML_ok:
  assumes "data = Some d" "decode d = Some vms"
  shows "((\<exists>m. LoadYAML decode data = Inr m) \<longleftrightarrow>
      (\<forall>vm \<in> set vms. f_ID vm \<noteq> [] \<longrightarrow> public_ok vm)) \<and>
    (\<forall>m. LoadYAML decode data = Inr m \<longrightarrow>
      inventory_ok m \<and> fst ` set m = {i \<in> f_ID ` set vms. i \<noteq> []})"
  using assms load_loop_succeeds [of "[]" vms] load_loop_ok [of "[]" vms] load_loop_keys [of "[]" vms]
  by (auto simp: LoadYAML_def inventory_ok_def [of "[]"])

definition sampleFile :: "fileVM list" where
  "sampleFile =
     [\<lparr>f_ID = ''101'', f_Name = ''web'', f_MACs = ['' BC:24:11:00:00:01'', ''''],
       f_EKSHA256 = '''', f_PublicIPv4 = '' 203.0.113.7 '', f_Zone = '''', f_Region = '''',
       f_Tags = [(''env'', ''prod''), (''a/b'', ''x'')]\<rparr>,
      \<lparr>f_ID = '''', f_Name = ''skipped'', f_MACs = [], f_EKSHA256 = '''',
       f_PublicIPv4 = ''nonsense'', f_Zone = '''', f_Region = '''', f_Tags = []\<rparr>]"

theorem LoadYAML_ok_witness:
  "\<exists>m. LoadYAML (\<lambda>d. Some sampleFile) (Some ''vms:'') = Inr m \<and> inventory_ok m
     \<and> fst ` set m = {''101''}"
proof -
  have "LoadYAML (\<lambda>d. Some sampleFile) (Some ''vms:'') = Inr
      [(''101'', \<lparr>VMID = ''101'', Name = ''web'',
         RawConfig = [(''name'', ''web''), (''public-ipv4'', ''203.0.113.7'')],
         Tags = [(''env'', ''prod'')], MACs = [''bc:24:11:00:00:01''], EKSHA256 = ''''\<rparr>)]"
    unfolding sampleFile_def by code_simp
  with LoadYAML_ok [of "Some ''vms:''" "''vms:''" "\<lambda>d. Some sampleFile" sampleFile] show ?thesis
    by simp
qed

subsection \<open>The lookup by MAC\<close>

definition has_mac :: "string \<Rightarrow> VMConfig \<Rightarrow> bool" where
  "has_mac mac c \<longleftrightarrow> (\<exists>m \<in> set (MACs c). ToLower m = ToLower (TrimSpace mac))"

lemma GetVMIDByMAC_find:
  "GetVMIDByMAC m mac =
     (case find (\<lambda>(vmid, vm). has_mac mac vm) m of None \<Rightarrow> [] | Some (vmid, vm) \<Rightarrow> vmid)"
  by (simp add: GetVMIDByMAC_def has_mac_def Let_def)

text \<open>
  The caller is identified by its MAC exactly: a VM id that the lookup returns is a VM of the
  inventory that has the address (blanks around it and letter case aside), the lookup
  returns nothing only when no VM has it, and when one VM alone has it, that VM is returned
  whatever order the map is ranged over.
\<close>

lemma GetVMIDByMAC_exact:
  assumes "inventory_ok m"
  shows "(GetVMIDByMAC m mac = [] \<longleftrightarrow> (\<forall>(vmid, c) \<in> set m. \<not> has_mac mac c)) \<and>
    (\<forall>vmid. vmid \<noteq> [] \<and> GetVMIDByMAC m mac = vmid \<longrightarrow>
       (\<exists>c. map_of m vmid = Some c \<and> VMID c = vmid \<and> has_mac mac c)) \<and>
    (\<forall>vmid c. map_of m vmid = Some c \<and> has_mac mac c \<and>
       (\<forall>(v, c') \<in> set m. has_mac mac c' \<longrightarrow> v = vmid) \<longrightarrow> GetVMIDByMAC m mac = vmid)"
proof (cases "find (\<lambda>(vmid, vm). has_mac mac vm) m")
  case None
  then have "GetVMIDByMAC m mac = []" "\<forall>(vmid, c) \<in> set m. \<not> has_mac mac c"
    by (simp add: GetVMIDByMAC_find) (use None in \<open>auto simp: find_None_iff\<close>)
  then show ?thesis by (auto dest!: map_of_SomeD)
next
  case (Some p)
  obtain v c where p: "p = (v, c)" by (cases p)
  have vc: "GetVMIDByMAC m mac = v" "(v, c) \<in> set m" "has_mac mac c"
    using Some p by (simp add: GetVMIDByMAC_find)
      (use Some p in \<open>auto simp: find_Some_iff set_conv_nth intro: sym\<close>)
  moreover have "vm_ok v c" "map_of m v = Some c"
    using vc assms by (auto simp: inventory_ok_def)
  ultimately show ?thesis
    by (auto simp: vm_ok_def)
qed

definition sampleMap :: VMConfigMap where
  "sampleMap = [(''101'', \<lparr>VMID = ''101'', Name = ''web'', RawConfig = [], Tags = [],
     MACs = [''bc:24:11:00:00:01''], EKSHA256 = ''''\<rparr>)]"

lemma GetVMIDByMAC_exact_witness:
  "GetVMIDByMAC sampleMap '' BC:24:11:00:00:01'' = ''101'' \<and> GetVMIDByMAC sampleMap ''aa'' = []"
proof -
  have "ToLower ''bc:24:11:00:00:01'' = ''bc:24:11:00:00:01''"
    by code_simp
  then have ok: "inventory_ok sampleMap"
    by (simp add: sampleMap_def inventory_ok_def vm_ok_def tags_ok_def)
  have "\<forall>(vmid, c) \<in> set sampleMap. \<not> has_mac ''aa'' c"
    unfolding sampleMap_def has_mac_def by code_simp
  moreover have "map_of sampleMap ''101'' = Some (snd (hd sampleMap))"
    "\<forall>(v, c') \<in> set sampleMap. v = ''101''"
    by (simp_all add: sampleMap_def)
  moreover have "has_mac '' BC:24:11:00:00:01'' (snd (hd sampleMap))"
    unfolding sampleMap_def has_mac_def by code_simp
  ultimately show ?thesis
    using GetVMIDByMAC_exact [OF ok, of "''aa''", THEN conjunct1]
      GetVMIDByMAC_exact [OF ok, of "'' BC:24:11:00:00:01''", THEN conjunct2, THEN conjunct2,
        THEN spec, of "''101''", THEN spec, of "snd (hd sampleMap)"]
    by (simp add: case_prod_beta)
qed

subsection \<open>The fingerprint\<close>

definition be_val :: "string \<Rightarrow> nat" where
  "be_val s = foldl (\<lambda>n c. 256 * n + of_char c) 0 s"

lemma be_step: "256 * (n div 256 ^ Suc i) + n div 256 ^ i mod 256 = n div (256 ^ i :: nat)"
  by (metis div_mult2_eq mult_div_mod_eq power_Suc2)

lemma be_val_be64:
  assumes "n < 2 ^ 64"
  shows "be_val (be64 n) = n"
proof -
  have "n div 256 ^ 7 < 256" using assms by (simp add: less_mult_imp_div_less)
  then have top: "n div 256 ^ 7 mod 256 = n div 256 ^ 7" by simp
  have "be_val (be64 n) = 256 * (256 * (256 * (256 * (256 * (256 * (256 * (n div 256 ^ 7 mod 256)
      + n div 256 ^ 6 mod 256) + n div 256 ^ 5 mod 256) + n div 256 ^ 4 mod 256)
      + n div 256 ^ 3 mod 256) + n div 256 ^ 2 mod 256) + n div 256 ^ 1 mod 256) + n div 256 ^ 0 mod 256"
    by (simp add: be_val_def be64_def upt_rec of_char_of)
  also have "\<dots> = n"
    unfolding top using be_step [of n 0] be_step [of n 1] be_step [of n 2] be_step [of n 3]
      be_step [of n 4] be_step [of n 5] be_step [of n 6]
    by (simp only: numeral_eq_Suc) simp
  finally show ?thesis .
qed

lemma length_be64 [simp]: "length (be64 n) = 8"
  by (simp add: be64_def)

lemma be64_inj: "m < 2 ^ 64 \<Longrightarrow> n < 2 ^ 64 \<Longrightarrow> be64 m = be64 n \<longleftrightarrow> m = n"
  by (metis be_val_be64)

fun fp_ok :: "fp_input \<Rightarrow> bool" where
  "fp_ok (AddString s) \<longleftrightarrow> length s < 2 ^ 64"
| "fp_ok (AddFile p (Content d)) \<longleftrightarrow> length p < 2 ^ 64 \<and> length d < 2 ^ 64"
| "fp_ok (AddFile p NotExist) \<longleftrightarrow> length p < 2 ^ 64"
| "fp_ok (AddFile p (ReadError e)) \<longleftrightarrow> length p < 2 ^ 64 \<and> length e < 2 ^ 64"

lemma fp_field_cancel:
  assumes "length a < 2 ^ 64" "length b < 2 ^ 64"
  shows "fp_field k a @ r = fp_field l b @ t \<longleftrightarrow> k = l \<and> a = b \<and> r = t"
  using assms by (auto simp: fp_field_def be64_inj)

lemma fp_field_ne: "fp_field k a @ r \<noteq> []"
  by (simp add: fp_field_def)

lemma fp_field_cancel_end:
  assumes "length a < 2 ^ 64" "length b < 2 ^ 64"
  shows "fp_field k a = fp_field l b \<longleftrightarrow> k = l \<and> a = b"
  using fp_field_cancel [OF assms, of k "[]" l "[]"] by simp

lemma fp_add_cancel:
  "fp_ok x \<Longrightarrow> fp_ok y \<Longrightarrow> fp_add x @ r = fp_add y @ t \<Longrightarrow> x = y \<and> r = t"
  by (cases x rule: fp_ok.cases; cases y rule: fp_ok.cases)
     (simp_all add: fp_read_def fp_field_cancel)

lemma fp_add_ne: "fp_add x @ r \<noteq> []"
  by (cases x) (auto simp: fp_field_ne fp_field_def)

text \<open>
  No two different sequences of inputs are written to the hash as the same bytes: the stream
  that is digested determines the sequence of strings, paths, contents and markers that
  were added (lengths fit 64 bits, as every Go length does).
\<close>

lemma fp_stream_injective:
  assumes "list_all fp_ok xs" "list_all fp_ok ys" "fp_stream xs = fp_stream ys"
  shows "xs = ys"
  using assms
proof (induction xs arbitrary: ys)
  case Nil
  then show ?case using fp_add_ne by (cases ys) (auto simp: fp_stream_def)
next
  case (Cons x xs)
  show ?case
  proof (cases ys)
    case Nil
    with Cons show ?thesis using fp_add_ne [of x] by (auto simp: fp_stream_def)
  next
    case ys: (Cons y ys')
    with Cons.prems have "fp_add x @ fp_stream xs = fp_add y @ fp_stream ys'"
      by (simp add: fp_stream_def)
    then have "x = y \<and> fp_stream xs = fp_stream ys'"
      using Cons.prems ys by (intro fp_add_cancel) auto
    with Cons ys show ?thesis by simp
  qed
qed

end
