(* ===== verification/Go_Encoding.thy ===== *)
theory Go_Encoding
  imports Go_Prelude
begin

text \<open>
  The text encodings of Go's standard library that the service uses: \<open>base64.StdEncoding\<close>
  (tokens, the EK certificate header, the enrolment messages) and \<open>hex.EncodeToString\<close>
  (fingerprints, session identifiers), with the round trip of base64 and the shape of hex.
\<close>

subsection \<open>base64.StdEncoding\<close>

definition b64_char :: "nat \<Rightarrow> char" where
  "b64_char n =
     (if n < 26 then char_of (65 + n) else if n < 52 then char_of (71 + n)
      else if n < 62 then char_of (n - 4) else if n = 62 then CHR ''+'' else CHR ''/'')"

definition b64_val :: "char \<Rightarrow> nat option" where
  "b64_val c =
     (let k = (of_char c :: nat) in
      if 65 \<le> k \<and> k \<le> 90 then Some (k - 65)
      else if 97 \<le> k \<and> k \<le> 122 then Some (k - 71)
      else if 48 \<le> k \<and> k \<le> 57 then Some (k + 4)
      else if c = CHR ''+'' then Some 62
      else if c = CHR ''/'' then Some 63 else None)"

fun b64_quanta :: "nat list \<Rightarrow> string" where
  "b64_quanta [] = []"
| "b64_quanta [a] = [b64_char (a div 4), b64_char (a mod 4 * 16), CHR ''='', CHR ''='']"
| "b64_quanta [a, b] =
     [b64_char (a div 4), b64_char (a mod 4 * 16 + b div 16), b64_char (b mod 16 * 4), CHR ''='']"
| "b64_quanta (a # b # c # r) =
     b64_char (a div 4) # b64_char (a mod 4 * 16 + b div 16)
     # b64_char (b mod 16 * 4 + c div 64) # b64_char (c mod 64) # b64_quanta r"

definition EncodeToString :: "string \<Rightarrow> string" where
  "EncodeToString s = b64_quanta (map of_char s)"

text \<open>
  \<open>DecodeString\<close>: carriage returns and line feeds are skipped wherever they stand, bytes after
  the padding are an error, and the unused bits before the padding are not checked (the
  decoder is not strict). \<open>None\<close> is \<open>CorruptInputError\<close>.
\<close>

fun b64_dequanta :: "string \<Rightarrow> nat list option" where
  "b64_dequanta [] = Some []"
| "b64_dequanta (a # b # c # d # r) =
     (case (b64_val a, b64_val b) of
        (Some x, Some y) \<Rightarrow>
          (if c = CHR ''='' then
             (if d = CHR ''='' \<and> r = [] then Some [x * 4 + y div 16] else None)
           else case b64_val c of
             None \<Rightarrow> None
           | Some z \<Rightarrow>
               (if d = CHR ''='' then
                  (if r = [] then Some [x * 4 + y div 16, y mod 16 * 16 + z div 4] else None)
                else case b64_val d of
                  None \<Rightarrow> None
                | Some w \<Rightarrow>
                    map_option (\<lambda>t. (x * 4 + y div 16) # (y mod 16 * 16 + z div 4)
                                    # (z mod 4 * 64 + w) # t) (b64_dequanta r)))
      | _ \<Rightarrow> None)"
| "b64_dequanta _ = None"

definition DecodeString :: "string \<Rightarrow> string option" where
  "DecodeString s =
     map_option (map char_of) (b64_dequanta (filter (\<lambda>c. c \<noteq> CHR 0x0A \<and> c \<noteq> CHR 0x0D) s))"

subsection \<open>hex.EncodeToString\<close>

definition hex_char :: "nat \<Rightarrow> char" where
  "hex_char n = (if n < 10 then char_of (48 + n) else char_of (87 + n))"

definition hex_encode :: "string \<Rightarrow> string" where
  "hex_encode s = concat (map (\<lambda>c. [hex_char (of_char c div 16), hex_char (of_char c mod 16)]) s)"

subsection \<open>Round trip\<close>

lemma of_char_lt [simp]: "(of_char c :: nat) < 256"
  by (rule nat_of_char_less_256)

lemma of_char_b64_char:
  "n < 64 \<Longrightarrow> (of_char (b64_char n) :: nat) =
     (if n < 26 then 65 + n else if n < 52 then 71 + n else if n < 62 then n - 4
      else if n = 62 then 43 else 47)"
  by (simp add: b64_char_def of_char_of)

lemma b64_char_not:
  assumes "n < 64"
  shows "b64_char n \<noteq> CHR ''=''" "b64_char n \<noteq> CHR 0x0A" "b64_char n \<noteq> CHR 0x0D"
proof -
  have "\<And>c. b64_char n = c \<Longrightarrow> (of_char c :: nat) =
     (if n < 26 then 65 + n else if n < 52 then 71 + n else if n < 62 then n - 4
      else if n = 62 then 43 else 47)"
    using of_char_b64_char [OF assms] by blast
  from this [of "CHR ''=''"] this [of "CHR 0x0A"] this [of "CHR 0x0D"]
  show "b64_char n \<noteq> CHR ''=''" "b64_char n \<noteq> CHR 0x0A" "b64_char n \<noteq> CHR 0x0D"
    using assms by (auto split: if_splits)
qed

lemma b64_val_char [simp]: "n < 64 \<Longrightarrow> b64_val (b64_char n) = Some n"
proof -
  assume n: "n < 64"
  consider "n < 62" | "n = 62" | "n = 63" using n by linarith
  then show ?thesis
  proof cases
    case 1
    then show ?thesis
      using n by (auto simp: b64_val_def Let_def of_char_b64_char)
  qed (simp_all add: b64_val_def b64_char_def)
qed

lemma b64_sextets:
  fixes a b c :: nat
  shows "a < 256 \<Longrightarrow> a div 4 < 64" and "a mod 4 * 16 < 64"
    and "b < 256 \<Longrightarrow> a mod 4 * 16 + b div 16 < 64" and "b mod 16 * 4 < 64"
    and "c < 256 \<Longrightarrow> b mod 16 * 4 + c div 64 < 64" and "c mod 64 < 64"
  by linarith+

lemma b64_dequanta_quanta:
  "\<forall>x \<in> set ns. x < 256 \<Longrightarrow> b64_dequanta (b64_quanta ns) = Some ns"
proof (induction ns rule: b64_quanta.induct)
  case (2 a)
  then show ?case by (simp add: b64_sextets)
next
  case (3 a b)
  then have "b div 16 < 16" by auto
  with 3 show ?case by (simp add: b64_sextets b64_char_not)
next
  case (4 a b c r)
  then have "b div 16 < 16" "c div 64 < 4" by auto
  with 4 show ?case by (simp add: b64_sextets b64_char_not)
qed simp

lemma b64_quanta_no_newline:
  "\<forall>x \<in> set ns. x < 256 \<Longrightarrow> c \<in> set (b64_quanta ns) \<Longrightarrow> c \<noteq> CHR 0x0A \<and> c \<noteq> CHR 0x0D"
proof (induction ns rule: b64_quanta.induct)
  case (4 a b d r)
  then show ?case by (auto simp: b64_sextets b64_char_not)
qed (auto simp: b64_sextets b64_char_not)

lemma b64_char_ascii: "n < 64 \<Longrightarrow> (of_char (b64_char n) :: nat) < 128"
  by (auto simp: of_char_b64_char)

lemma b64_quanta_ascii: "\<forall>x \<in> set ns. x < 256 \<Longrightarrow> c \<in> set (b64_quanta ns) \<Longrightarrow> (of_char c :: nat) < 128"
proof (induction ns rule: b64_quanta.induct)
  case (4 a b c' r)
  then show ?case by (auto simp: b64_sextets b64_char_ascii)
qed (auto simp: b64_sextets b64_char_ascii)

lemma EncodeToString_ascii: "list_all (\<lambda>c. (of_char c :: nat) < 128) (EncodeToString s)"
proof -
  have "\<forall>x \<in> set (map of_char s). x < (256 :: nat)" by auto
  then show ?thesis using b64_quanta_ascii unfolding EncodeToString_def list_all_iff by blast
qed

lemma DecodeString_EncodeToString [simp]: "DecodeString (EncodeToString s) = Some s"
proof -
  have "\<forall>x \<in> set (map of_char s). x < (256 :: nat)" by auto
  then show ?thesis
    using b64_quanta_no_newline [of "map of_char s"] b64_dequanta_quanta [of "map of_char s"]
    by (auto simp: DecodeString_def EncodeToString_def comp_def filter_id_conv [THEN iffD2])
qed

lemma EncodeToString_inj: "EncodeToString s = EncodeToString t \<longleftrightarrow> s = t"
  by (metis DecodeString_EncodeToString option.inject)

lemma EncodeToString_eq_Nil [simp]: "EncodeToString s = [] \<longleftrightarrow> s = []"
  by (cases s rule: remdups_adj.cases; simp add: EncodeToString_def)
     (metis b64_quanta.simps(3,4) list.distinct(1) list.exhaust)

lemma length_hex_encode [simp]: "length (hex_encode s) = 2 * length s"
  by (induction s) (simp_all add: hex_encode_def)

lemma of_char_hex_char:
  "n < 16 \<Longrightarrow> (of_char (hex_char n) :: nat) = (if n < 10 then 48 + n else 87 + n)"
  by (simp add: hex_char_def of_char_of)

lemma hex_char_lower: "n < 16 \<Longrightarrow> lower_char (hex_char n) = hex_char n"
  by (simp add: lower_char_def is_upper_def of_char_hex_char)

lemma ToLower_hex_encode [simp]: "ToLower (hex_encode s) = hex_encode s"
  by (induction s)
     (simp_all add: hex_encode_def ToLower_def hex_char_lower less_mult_imp_div_less)

lemma b64_char_range: "n < 64 \<Longrightarrow> \<not> is_space (b64_char n)"
  using of_char_b64_char [of n] by (auto simp: is_space_def split: if_splits)

lemma equals_sign_no_space: "\<not> is_space CHR ''=''"
  by (simp add: is_space_def)

lemma b64_no_space:
  "\<forall>x \<in> set ns. x < 256 \<Longrightarrow> c \<in> set (b64_quanta ns) \<Longrightarrow> \<not> is_space c"
proof (induction ns rule: b64_quanta.induct)
  case (2 a)
  then show ?case by (auto simp: b64_char_range equals_sign_no_space)
next
  case (3 a b)
  then show ?case by (auto simp: b64_char_range equals_sign_no_space)
next
  case (4 a b c r)
  then show ?case by (auto simp: b64_char_range)
qed simp

lemma TrimSpace_id: "(\<And>c. c \<in> set s \<Longrightarrow> \<not> is_space c) \<Longrightarrow> TrimSpace s = s"
proof -
  assume h: "\<And>c. c \<in> set s \<Longrightarrow> \<not> is_space c"
  have "dropWhile is_space s = s" using h by (cases s) auto
  moreover have "dropWhile is_space (rev s) = rev s" using h by (cases s rule: rev_cases) auto
  ultimately show ?thesis by (simp add: TrimSpace_def)
qed

lemma TrimSpace_EncodeToString [simp]: "TrimSpace (EncodeToString s) = EncodeToString s"
  by (rule TrimSpace_id) (auto simp: EncodeToString_def dest!: b64_no_space [rotated])

lemma hex_encode_no_space: "c \<in> set (hex_encode s) \<Longrightarrow> \<not> is_space c"
proof -
  have "n < 16 \<Longrightarrow> \<not> is_space (hex_char n)" for n
    using of_char_hex_char [of n] by (auto simp: is_space_def split: if_splits)
  moreover have "of_char x div 16 < (16 :: nat)" for x :: char
    using of_char_lt [of x] by linarith
  ultimately show "c \<in> set (hex_encode s) \<Longrightarrow> ?thesis" by (auto simp: hex_encode_def)
qed

lemma hex_encode_eq_Nil [simp]: "hex_encode s = [] \<longleftrightarrow> s = []" "[] = hex_encode s \<longleftrightarrow> s = []"
  by (cases s; auto simp: hex_encode_def)+

end
