(* ===== verification/Devid_Keys.thy ===== *)
theory Devid_Keys
  imports Inventory Go_Encoding "HOL-Library.Word"
begin

unbundle bit_operations_syntax

text \<open>
  The cryptographic side of DevID enrolment: the signing request and its encoding
  (\<open>internal/devid/csr.go\<close>), the checks on it (\<open>verify.go\<close>, \<open>sign.go\<close>), the EK certificate
  header (\<open>auth.go\<close>), the challenge (\<open>challenge.go\<close>) and the issue of a certificate
  (\<open>ca.go\<close>, \<open>san.go\<close>).

  What these call outside the repository is the record \<open>lib\<close>: the TPM library
  (\<open>go-tpm\<close>), \<open>crypto\<close>, \<open>x509\<close>, \<open>asn1\<close>, \<open>pem\<close> and \<open>json\<close>. Nothing is assumed of
  it except where a theorem says so. Times are counted from Go's zero time, so
  \<open>IsZero\<close> is \<open>t = 0\<close> and \<open>Truncate d\<close> is \<open>t - t mod d\<close>.
\<close>

subsection \<open>Keys, certificates, requests\<close>

datatype PublicKey = RSAKey string | OtherKey string

record Certificate =
  Raw :: string
  UnhandledCriticalExtensions :: "nat list list"
  CertPublicKey :: "PublicKey option"
  NotBefore :: time
  NotAfter :: time
  SubjectCN :: string

record SigScheme =
  SchemeAlg :: nat
  SchemeHash :: nat

record RSAParams =
  RSASign :: "SigScheme option"
  SymmetricKeyBits :: "nat option"

record ECCParams =
  ECCSign :: "SigScheme option"

record Public =
  PubType :: nat
  NameAlg :: nat
  Attributes :: "32 word"
  RSAParameters :: "RSAParams option"
  ECCParameters :: "ECCParams option"
  PubUnique :: string

record SigningRequest =
  PlatformIdentity :: "string list"
  EndorsementCertificate :: "Certificate option"
  EndorsementKey :: "Public option"
  AttestationKey :: "Public option"
  DevIDKey :: "Public option"
  CertifyData :: string
  CertifySignature :: string

record signingRequestWire =
  PlatformIdentityB64 :: string
  EndorsementCertificateB64 :: string
  EndorsementKeyB64 :: string
  AttestationKeyB64 :: string
  DevIDKeyB64 :: string
  CertifyDataB64 :: string
  CertifySignatureB64 :: string

datatype otherNameValue =
  HardwareModuleName "nat list" string
| PermanentIdentifier string "nat list"

record Extension =
  ExtId :: "nat list"
  Critical :: bool
  ExtValue :: string

record Template =
  T_PublicKey :: PublicKey
  T_SubjectCN :: string
  T_NotBefore :: time
  T_NotAfter :: time
  T_DigitalSignature :: bool
  T_BasicConstraintsValid :: bool
  T_IsCA :: bool
  T_UnknownExtKeyUsage :: "nat list list"
  T_ExtraExtensions :: "Extension list"
  T_SerialNumber :: "nat option"

subsection \<open>The libraries\<close>

record lib =
  FlagDecrypt :: "32 word"
  FlagRestricted :: "32 word"
  FlagSign :: "32 word"
  FlagFixedTPM :: "32 word"
  FlagFixedParent :: "32 word"
  FlagSensitiveDataOrigin :: "32 word"
  FlagUserWithAuth :: "32 word"
  AlgRSA :: nat
  AlgECC :: nat
  AlgRSASSA :: nat
  AlgSHA256 :: nat
  pub_Key :: "Public \<Rightarrow> PublicKey option"
  pub_Name :: "Public \<Rightarrow> string option"
  pub_Encode :: "Public \<Rightarrow> string option"
  DecodePublic :: "string \<Rightarrow> Public option"
  hash_size :: "nat \<Rightarrow> nat option"
  hash_sum :: "nat \<Rightarrow> string \<Rightarrow> string"
  VerifyPKCS1v15 :: "string \<Rightarrow> nat \<Rightarrow> string \<Rightarrow> string \<Rightarrow> bool"
  DecodeAttestationData :: "string \<Rightarrow> string option option"
  MatchesPublic :: "string \<Rightarrow> Public \<Rightarrow> bool option"
  credactivation_Generate :: "string \<Rightarrow> string \<Rightarrow> nat \<Rightarrow> string \<Rightarrow> (string \<times> string) option"
  sha256 :: "string \<Rightarrow> string"
  sha1 :: "string \<Rightarrow> string"
  x509_Verify :: "string \<Rightarrow> Certificate \<Rightarrow> bool"
  x509_ParseCertificate :: "string \<Rightarrow> Certificate option"
  x509_CreateCertificate :: "Template \<Rightarrow> Certificate \<Rightarrow> string option"
  MarshalPKIXPublicKey :: "PublicKey \<Rightarrow> string option"
  asn1_FullBytes :: "string \<Rightarrow> string option"
  asn1_MarshalRDN :: "string list \<Rightarrow> string option"
  asn1_UnmarshalRDN :: "string \<Rightarrow> (string list \<times> string) option"
  asn1_MarshalNames :: "(nat list \<times> otherNameValue) list \<Rightarrow> string option"
  asn1_MarshalSubject :: "string \<Rightarrow> string option"
  pem_Decode :: "string \<Rightarrow> (string \<times> string) option"
  json_MarshalWire :: "signingRequestWire \<Rightarrow> string"
  json_UnmarshalWire :: "string \<Rightarrow> signingRequestWire option"
  RFC3339 :: "time \<Rightarrow> string"

subsection \<open>The EK certificate header\<close>

definition EKFingerprint :: "lib \<Rightarrow> Certificate option \<Rightarrow> string" where
  "EKFingerprint L cert = (case cert of None \<Rightarrow> [] | Some c \<Rightarrow> hex_encode (sha256 L (Raw c)))"

definition parseCertificateLoose :: "lib \<Rightarrow> string \<Rightarrow> Certificate option" where
  "parseCertificateLoose L d =
     (case asn1_FullBytes L d of
        None \<Rightarrow> x509_ParseCertificate L d
      | Some full \<Rightarrow> x509_ParseCertificate L full)"

definition ParseEKCertHeader :: "lib \<Rightarrow> string \<Rightarrow> Certificate option" where
  "ParseEKCertHeader L v0 =
     (let v = TrimSpace v0 in
      if v = [] then None
      else case DecodeString v of
        None \<Rightarrow> None
      | Some raw \<Rightarrow>
          parseCertificateLoose L
            (case pem_Decode L raw of
               Some (typ, block) \<Rightarrow> if typ = ''CERTIFICATE'' then block else raw
             | None \<Rightarrow> raw))"

definition EncodeEKCertHeader :: "Certificate option \<Rightarrow> string" where
  "EncodeEKCertHeader cert = (case cert of None \<Rightarrow> [] | Some c \<Rightarrow> EncodeToString (Raw c))"

definition certsDEREqual :: "Certificate option \<Rightarrow> Certificate option \<Rightarrow> bool" where
  "certsDEREqual a b =
     (case (a, b) of
        (Some x, Some y) \<Rightarrow> Raw x = Raw y
      | (None, None) \<Rightarrow> True
      | _ \<Rightarrow> False)"

subsection \<open>The signing request on the wire\<close>

definition encode_pub :: "lib \<Rightarrow> Public option \<Rightarrow> string option" where
  "encode_pub L p =
     (case p of None \<Rightarrow> Some []
      | Some k \<Rightarrow> (case pub_Encode L k of None \<Rightarrow> None | Some b \<Rightarrow> Some (EncodeToString b)))"

text \<open>An empty byte slice is left out; the base64 text of one is the empty string, too.\<close>

definition MarshalBinary :: "lib \<Rightarrow> SigningRequest \<Rightarrow> string option" where
  "MarshalBinary L sr =
     (case (if PlatformIdentity sr = [] then Some []
            else case asn1_MarshalRDN L (PlatformIdentity sr) of None \<Rightarrow> None | Some b \<Rightarrow> Some (EncodeToString b)) of
        None \<Rightarrow> None
      | Some pid \<Rightarrow>
      (case encode_pub L (EndorsementKey sr) of None \<Rightarrow> None
      | Some ek \<Rightarrow>
      (case encode_pub L (AttestationKey sr) of None \<Rightarrow> None
      | Some ak \<Rightarrow>
      (case encode_pub L (DevIDKey sr) of None \<Rightarrow> None
      | Some dk \<Rightarrow>
          Some (json_MarshalWire L
            \<lparr>PlatformIdentityB64 = pid,
             EndorsementCertificateB64 = EncodeEKCertHeader (EndorsementCertificate sr),
             EndorsementKeyB64 = ek, AttestationKeyB64 = ak, DevIDKeyB64 = dk,
             CertifyDataB64 = EncodeToString (CertifyData sr),
             CertifySignatureB64 = EncodeToString (CertifySignature sr)\<rparr>)))))"

text \<open>The steps of \<open>UnmarshalBinary\<close>; the outer \<open>None\<close> is its error.\<close>

definition decode_identity :: "lib \<Rightarrow> string \<Rightarrow> string list option" where
  "decode_identity L s =
     (if s = [] then Some []
      else case DecodeString s of None \<Rightarrow> None
      | Some b \<Rightarrow> (case asn1_UnmarshalRDN L b of None \<Rightarrow> None
         | Some (rdn, rest) \<Rightarrow> if rest \<noteq> [] then None else Some rdn))"

definition decode_cert :: "lib \<Rightarrow> string \<Rightarrow> Certificate option option" where
  "decode_cert L s =
     (if s = [] then Some None
      else case DecodeString s of None \<Rightarrow> None
      | Some b \<Rightarrow> (case parseCertificateLoose L b of None \<Rightarrow> None | Some c \<Rightarrow> Some (Some c)))"

definition decode_pub :: "lib \<Rightarrow> string \<Rightarrow> Public option option" where
  "decode_pub L s =
     (if s = [] then Some None
      else case DecodeString s of None \<Rightarrow> None
      | Some b \<Rightarrow> (case DecodePublic L b of None \<Rightarrow> None | Some p \<Rightarrow> Some (Some p)))"

definition decode_bytes :: "string \<Rightarrow> string option" where
  "decode_bytes s = (if s = [] then Some [] else DecodeString s)"

definition UnmarshalBinary :: "lib \<Rightarrow> string \<Rightarrow> SigningRequest option" where
  "UnmarshalBinary L data =
     Option.bind (json_UnmarshalWire L data) (\<lambda>w.
     Option.bind (decode_identity L (PlatformIdentityB64 w)) (\<lambda>pid.
     Option.bind (decode_cert L (EndorsementCertificateB64 w)) (\<lambda>cert.
     Option.bind (decode_pub L (EndorsementKeyB64 w)) (\<lambda>ek.
     Option.bind (decode_pub L (AttestationKeyB64 w)) (\<lambda>ak.
     Option.bind (decode_pub L (DevIDKeyB64 w)) (\<lambda>dk.
     Option.bind (decode_bytes (CertifyDataB64 w)) (\<lambda>cd.
     Option.bind (decode_bytes (CertifySignatureB64 w)) (\<lambda>cs.
       Some \<lparr>PlatformIdentity = pid, EndorsementCertificate = cert, EndorsementKey = ek,
             AttestationKey = ak, DevIDKey = dk, CertifyData = cd, CertifySignature = cs\<rparr>))))))))"

subsection \<open>Key templates\<close>

text \<open>\<open>templates.go\<close>: what the guest asks its TPM to create.\<close>

definition AKAttributes :: "lib \<Rightarrow> 32 word" where
  "AKAttributes L = FlagSign L OR FlagRestricted L OR FlagFixedTPM L OR FlagFixedParent L
     OR FlagSensitiveDataOrigin L OR FlagUserWithAuth L"

definition DevIDAttributes :: "lib \<Rightarrow> 32 word" where
  "DevIDAttributes L = FlagSign L OR FlagFixedTPM L OR FlagFixedParent L
     OR FlagSensitiveDataOrigin L OR FlagUserWithAuth L"

definition templateRSA :: "lib \<Rightarrow> 32 word \<Rightarrow> Public" where
  "templateRSA L attrs =
     \<lparr>PubType = AlgRSA L, NameAlg = AlgSHA256 L, Attributes = attrs,
      RSAParameters = Some \<lparr>RSASign = Some \<lparr>SchemeAlg = AlgRSASSA L, SchemeHash = AlgSHA256 L\<rparr>,
                            SymmetricKeyBits = None\<rparr>,
      ECCParameters = None, PubUnique = replicate 256 CHR 0x00\<rparr>"

definition DefaultAKTemplateRSA :: "lib \<Rightarrow> Public" where
  "DefaultAKTemplateRSA L = templateRSA L (AKAttributes L)"

definition DefaultDevIDTemplateRSA :: "lib \<Rightarrow> Public" where
  "DefaultDevIDTemplateRSA L = templateRSA L (DevIDAttributes L)"

subsection \<open>Checks\<close>

datatype key_error = KeyAttributeError string

definition CheckDevIDProp :: "lib \<Rightarrow> 32 word \<Rightarrow> key_error option" where
  "CheckDevIDProp L prop =
     (if prop AND FlagDecrypt L \<noteq> 0 then Some (KeyAttributeError ''DevID should not be a decryption key'')
      else if prop AND FlagRestricted L \<noteq> 0 then Some (KeyAttributeError ''DevID should not be a restricted key'')
      else if prop AND FlagSign L = 0 then Some (KeyAttributeError ''DevID should be a signing key'')
      else if prop AND FlagFixedTPM L = 0 then Some (KeyAttributeError ''DevID should be fixedTPM'')
      else None)"

definition CheckAKProp :: "lib \<Rightarrow> 32 word \<Rightarrow> key_error option" where
  "CheckAKProp L prop =
     (if prop AND FlagDecrypt L \<noteq> 0 then Some (KeyAttributeError ''AK should not be a decryption key'')
      else if prop AND FlagRestricted L = 0 then Some (KeyAttributeError ''AK should be a restricted key'')
      else if prop AND FlagSign L = 0 then Some (KeyAttributeError ''AK should be a signing key'')
      else if prop AND FlagFixedTPM L = 0 then Some (KeyAttributeError ''AK should be fixedTPM'')
      else None)"

text \<open>\<open>SignatureScheme\<close>: the outer \<open>None\<close> is its error, the inner one the nil scheme.\<close>

definition SignatureScheme :: "lib \<Rightarrow> Public \<Rightarrow> SigScheme option option" where
  "SignatureScheme L pub =
     (if Attributes pub AND FlagSign L = 0 then None
      else if PubType pub = AlgRSA L then
        (case RSAParameters pub of None \<Rightarrow> None | Some p \<Rightarrow> Some (RSASign p))
      else if PubType pub = AlgECC L then
        (case ECCParameters pub of None \<Rightarrow> None | Some p \<Rightarrow> Some (ECCSign p))
      else None)"

definition CheckSignature :: "lib \<Rightarrow> Public option \<Rightarrow> string \<Rightarrow> string \<Rightarrow> bool" where
  "CheckSignature L pub data sig =
     (case pub of
        None \<Rightarrow> False
      | Some p \<Rightarrow>
          (case pub_Key L p of
             Some (RSAKey k) \<Rightarrow>
               (case SignatureScheme L p of
                  Some (Some scheme) \<Rightarrow>
                    (case hash_size L (SchemeHash scheme) of
                       None \<Rightarrow> False
                     | Some n \<Rightarrow> VerifyPKCS1v15 L k (SchemeHash scheme) (hash_sum L (SchemeHash scheme) data) sig)
                | _ \<Rightarrow> False)
           | _ \<Rightarrow> False))"

text \<open>
  \<open>pubDevID\<close> is dereferenced without a check; its only caller has verified a signature with it,
  so it is not nil there.
\<close>

definition VerifyDevIDResidency :: "lib \<Rightarrow> Public option \<Rightarrow> Public option \<Rightarrow> string \<Rightarrow> string \<Rightarrow> bool" where
  "VerifyDevIDResidency L pubAK pubDevID attestData attestSig =
     (if \<not> CheckSignature L pubAK attestData attestSig then False
      else case DecodeAttestationData L attestData of
        Some (Some name) \<Rightarrow>
          (case pubDevID of None \<Rightarrow> False | Some p \<Rightarrow> MatchesPublic L name p = Some True)
      | _ \<Rightarrow> False)"

definition oidSubjectAltName :: "nat list" where
  "oidSubjectAltName = [2, 5, 29, 17]"

text \<open>The filter mutates the certificate before it is verified.\<close>

definition VerifyEKCertificateChain :: "lib \<Rightarrow> string option \<Rightarrow> Certificate option \<Rightarrow> bool" where
  "VerifyEKCertificateChain L roots cert =
     (case (cert, roots) of
        (Some c, Some pool) \<Rightarrow>
          x509_Verify L pool
            (if length (UnhandledCriticalExtensions c) > 0
             then c\<lparr>UnhandledCriticalExtensions := filter (\<lambda>oid. oid \<noteq> oidSubjectAltName) (UnhandledCriticalExtensions c)\<rparr>
             else c)
      | _ \<Rightarrow> False)"

definition ekCertificateMatchesKey :: "lib \<Rightarrow> Certificate option \<Rightarrow> Public option \<Rightarrow> bool" where
  "ekCertificateMatchesKey L cert pub =
     (case (cert, pub) of
        (Some c, Some p) \<Rightarrow>
          (case pub_Key L p of
             None \<Rightarrow> False
           | Some key \<Rightarrow> (case CertPublicKey c of None \<Rightarrow> False | Some ck \<Rightarrow> ck = key))
      | _ \<Rightarrow> False)"

datatype bound_result = BoundOK | NotTrusted | KeyMismatch

definition VerifyEKCertificateBound :: "lib \<Rightarrow> string option \<Rightarrow> Public option \<Rightarrow> Certificate option \<Rightarrow> bound_result" where
  "VerifyEKCertificateBound L roots pub cert =
     (if \<not> VerifyEKCertificateChain L roots cert then NotTrusted
      else if \<not> ekCertificateMatchesKey L cert pub then KeyMismatch
      else BoundOK)"

subsection \<open>The challenge\<close>

text \<open>
  \<open>rnd\<close> gives the random bytes for a size. The result is the credential blob, the secret (both
  without their two-byte size) and the nonce.
\<close>

definition CreateChallenge ::
  "lib \<Rightarrow> (nat \<Rightarrow> string option) \<Rightarrow> Public option \<Rightarrow> string \<Rightarrow> (string \<times> string \<times> string) option" where
  "CreateChallenge L rnd ekPub akDigest =
     (case ekPub of
        None \<Rightarrow> None
      | Some ek \<Rightarrow>
        Option.bind (hash_size L (NameAlg ek)) (\<lambda>n.
        Option.bind (rnd n) (\<lambda>nonce.
        (case pub_Key L ek of
           Some (RSAKey k) \<Rightarrow>
             Option.bind (RSAParameters ek) (\<lambda>p.
             Option.bind (SymmetricKeyBits p) (\<lambda>bits.
             Option.bind (credactivation_Generate L akDigest k (bits div 8) nonce) (\<lambda>(cred, sec).
               if length cred < 2 \<or> length sec < 2 then None
               else Some (drop 2 cred, drop 2 sec, nonce))))
         | _ \<Rightarrow> None))))"

subsection \<open>Issuing a certificate\<close>

record CA =
  ca_cert :: Certificate
  Lifetime :: duration

definition DefaultDevIDLifetime :: duration where
  "DefaultDevIDLifetime = 2160 * hour"

definition OIDVerifiedTPMFixed :: "nat list" where
  "OIDVerifiedTPMFixed = [2, 23, 133, 11, 1, 2]"

definition oidOnHardwareModuleName :: "nat list" where
  "oidOnHardwareModuleName = [1, 3, 6, 1, 5, 5, 7, 8, 4]"

definition oidOnPermanentIdentifier :: "nat list" where
  "oidOnPermanentIdentifier = [1, 3, 6, 1, 5, 5, 7, 8, 3]"

definition oidTCGHardwareTypeTPM2 :: "nat list" where
  "oidTCGHardwareTypeTPM2 = [2, 23, 133, 1, 2]"

definition oidTCGOnEKPermIDSha256 :: "nat list" where
  "oidTCGOnEKPermIDSha256 = [2, 23, 133, 12, 1]"

text \<open>\<open>fmt.Sprintf("%X", b)\<close>.\<close>

definition hex_upper :: "string \<Rightarrow> string" where
  "hex_upper b = map (\<lambda>c. if is_lower c then char_of (of_char c - 32 :: nat) else c) (hex_encode b)"

definition buildSAN :: "lib \<Rightarrow> bool \<Rightarrow> string \<Rightarrow> string \<Rightarrow> Extension option" where
  "buildSAN L subjectIsEmpty hwSerialNum permanentID =
     (case asn1_MarshalNames L
        [(oidOnHardwareModuleName, HardwareModuleName oidTCGHardwareTypeTPM2 hwSerialNum),
         (oidOnPermanentIdentifier, PermanentIdentifier permanentID oidTCGOnEKPermIDSha256)] of
        None \<Rightarrow> None
      | Some data \<Rightarrow> Some \<lparr>ExtId = oidSubjectAltName, Critical = subjectIsEmpty, ExtValue = data\<rparr>)"

definition DevIDSANFromEKPublicKey :: "lib \<Rightarrow> bool \<Rightarrow> PublicKey \<Rightarrow> Extension option" where
  "DevIDSANFromEKPublicKey L subjectIsEmpty pub =
     (case MarshalPKIXPublicKey L pub of
        None \<Rightarrow> None
      | Some keyBytes \<Rightarrow>
          buildSAN L subjectIsEmpty (sha256 L keyBytes) (hex_upper (sha256 L (''EkPubkey'' @ keyBytes))))"

definition DevIDSANFromEKCertificate :: "lib \<Rightarrow> bool \<Rightarrow> Certificate option \<Rightarrow> Extension option" where
  "DevIDSANFromEKCertificate L subjectIsEmpty cert =
     (case cert of
        None \<Rightarrow> None
      | Some c \<Rightarrow> buildSAN L subjectIsEmpty (sha256 L (Raw c)) (hex_upper (sha256 L (Raw c))))"

definition buildDevIDSAN :: "lib \<Rightarrow> bool \<Rightarrow> SigningRequest \<Rightarrow> Extension option" where
  "buildDevIDSAN L subjectIsEmpty sr =
     (case Option.bind (Option.bind (EndorsementKey sr) (pub_Key L)) (DevIDSANFromEKPublicKey L subjectIsEmpty) of
        Some ext \<Rightarrow> Some ext
      | None \<Rightarrow>
          (case EndorsementCertificate sr of
             Some c \<Rightarrow> DevIDSANFromEKCertificate L subjectIsEmpty (Some c)
           | None \<Rightarrow> None))"

text \<open>\<open>big.Int.Bytes\<close>: big-endian, without leading zeros.\<close>

fun be_bytes :: "nat \<Rightarrow> string" where
  "be_bytes n = (if n = 0 then [] else be_bytes (n div 256) @ [char_of n])"

declare be_bytes.simps [simp del]

definition uniqueSerial :: "lib \<Rightarrow> CA \<Rightarrow> Template \<Rightarrow> nat option" where
  "uniqueSerial L ca t =
     Option.bind (MarshalPKIXPublicKey L (T_PublicKey t)) (\<lambda>pubBytes.
     Option.bind (asn1_MarshalSubject L (T_SubjectCN t)) (\<lambda>subjData.
       Some (foldl (\<lambda>n c. 256 * n + of_char c) 0
         (sha1 L (Raw (ca_cert ca) @ subjData @ pubBytes @ RFC3339 L (T_NotBefore t) @ RFC3339 L (T_NotAfter t)
            @ (case T_SerialNumber t of None \<Rightarrow> [] | Some n \<Rightarrow> be_bytes n))))))"

definition Sign :: "lib \<Rightarrow> CA \<Rightarrow> Template \<Rightarrow> string option" where
  "Sign L ca t =
     Option.bind (uniqueSerial L ca t) (\<lambda>sn.
       x509_CreateCertificate L (t\<lparr>T_SerialNumber := Some sn\<rparr>) (ca_cert ca))"

definition devIDTemplate :: "CA \<Rightarrow> PublicKey \<Rightarrow> string \<Rightarrow> Extension \<Rightarrow> time \<Rightarrow> Template" where
  "devIDTemplate ca pub subjectCN sanExt nb0 =
     (let notBefore = nb0 - nb0 mod second;
          lifetime = (if Lifetime ca \<le> 0 then DefaultDevIDLifetime else Lifetime ca) in
      \<lparr>T_PublicKey = pub, T_SubjectCN = subjectCN, T_NotBefore = notBefore,
       T_NotAfter = notBefore + lifetime, T_DigitalSignature = True, T_BasicConstraintsValid = True,
       T_IsCA = False, T_UnknownExtKeyUsage = [OIDVerifiedTPMFixed], T_ExtraExtensions = [sanExt],
       T_SerialNumber = None\<rparr>)"

text \<open>\<open>now\<close> is the clock that is read when \<open>notBefore\<close> is the zero time.\<close>

definition IssueDevID ::
  "lib \<Rightarrow> CA \<Rightarrow> SigningRequest \<Rightarrow> string \<Rightarrow> time \<Rightarrow> time \<Rightarrow> Certificate option" where
  "IssueDevID L ca sr subjectCN notBefore now =
     Option.bind (DevIDKey sr) (\<lambda>dk.
     Option.bind (pub_Key L dk) (\<lambda>pub.
     Option.bind (buildDevIDSAN L (subjectCN = []) sr) (\<lambda>sanExt.
     Option.bind (Sign L ca (devIDTemplate ca pub subjectCN sanExt (if notBefore = 0 then now else notBefore)))
       (x509_ParseCertificate L))))"

subsection \<open>Round trips\<close>

lemma parse_encoded_header:
  assumes "Raw c \<noteq> []" "pem_Decode L (Raw c) = None" "parseCertificateLoose L (Raw c) = Some c"
  shows "ParseEKCertHeader L (EncodeEKCertHeader (Some c)) = Some c"
  using assms by (simp add: ParseEKCertHeader_def EncodeEKCertHeader_def Let_def)

text \<open>
  The EK certificate header survives the trip: what the guest puts into the header is parsed by
  the service back into the same certificate, for every certificate that parses from its own
  DER bytes and whose DER is not itself a PEM text.
\<close>

lemma EK_header_roundtrip:
  assumes "Raw c \<noteq> []" "pem_Decode L (Raw c) = None" "parseCertificateLoose L (Raw c) = Some c"
  shows "ParseEKCertHeader L (EncodeEKCertHeader (Some c)) = Some c"
  using assms by (rule parse_encoded_header)

definition wireFields :: "signingRequestWire \<Rightarrow> string list" where
  "wireFields w = [PlatformIdentityB64 w, EndorsementCertificateB64 w, EndorsementKeyB64 w,
     AttestationKeyB64 w, DevIDKeyB64 w, CertifyDataB64 w, CertifySignatureB64 w]"

definition is_ascii :: "string \<Rightarrow> bool" where
  "is_ascii s \<longleftrightarrow> list_all (\<lambda>c. (of_char c :: nat) < 128) s"

text \<open>
  What one signing request needs of the libraries to be read back. \<open>json\<close> returns a record of ASCII
  texts as it was; it would not do so for bytes that are no UTF-8. Of the TPM's and the ASN.1 encoding
  only this request's own keys and platform identity are asked to come back, from encodings that are
  not empty, and its certificate parses from its own bytes.
\<close>

definition codecs_ok :: "lib \<Rightarrow> SigningRequest \<Rightarrow> bool" where
  "codecs_ok L sr \<longleftrightarrow>
     (\<forall>w. list_all is_ascii (wireFields w) \<longrightarrow> json_UnmarshalWire L (json_MarshalWire L w) = Some w) \<and>
     (\<forall>p b. Some p \<in> {EndorsementKey sr, AttestationKey sr, DevIDKey sr} \<and> pub_Encode L p = Some b
        \<longrightarrow> b \<noteq> [] \<and> DecodePublic L b = Some p) \<and>
     (\<forall>b. asn1_MarshalRDN L (PlatformIdentity sr) = Some b
        \<longrightarrow> b \<noteq> [] \<and> asn1_UnmarshalRDN L b = Some (PlatformIdentity sr, [])) \<and>
     (\<forall>c. EndorsementCertificate sr = Some c \<longrightarrow> Raw c \<noteq> [] \<and> parseCertificateLoose L (Raw c) = Some c)"

lemma decode_bytes_Encode: "decode_bytes (EncodeToString b) = Some b"
  by (simp add: decode_bytes_def)

lemma decode_encode_pub:
  assumes "codecs_ok L sr" "p \<in> {EndorsementKey sr, AttestationKey sr, DevIDKey sr}" "encode_pub L p = Some s"
  shows "decode_pub L s = Some p" "is_ascii s"
proof -
  have "decode_pub L s = Some p \<and> is_ascii s"
  proof (cases p)
    case None
    with assms(3) show ?thesis by (simp add: encode_pub_def decode_pub_def is_ascii_def)
  next
    case (Some k)
    then obtain b where b: "pub_Encode L k = Some b" "s = EncodeToString b"
      using assms(3) by (auto simp: encode_pub_def split: option.splits)
    then have "b \<noteq> []" "DecodePublic L b = Some k" using assms(1, 2) Some by (simp_all add: codecs_ok_def)
    with b Some show ?thesis by (simp add: decode_pub_def is_ascii_def EncodeToString_ascii)
  qed
  then show "decode_pub L s = Some p" "is_ascii s" by simp_all
qed

lemma unmarshal_marshal:
  assumes ok: "codecs_ok L sr" and enc: "MarshalBinary L sr = Some data"
  shows "UnmarshalBinary L data = Some sr"
proof -
  let ?pid = "if PlatformIdentity sr = [] then Some []
            else case asn1_MarshalRDN L (PlatformIdentity sr) of None \<Rightarrow> None | Some b \<Rightarrow> Some (EncodeToString b)"
  obtain pid ek ak dk where p: "?pid = Some pid"
    and k: "encode_pub L (EndorsementKey sr) = Some ek" "encode_pub L (AttestationKey sr) = Some ak"
      "encode_pub L (DevIDKey sr) = Some dk"
    and d: "data = json_MarshalWire L
            \<lparr>PlatformIdentityB64 = pid,
             EndorsementCertificateB64 = EncodeEKCertHeader (EndorsementCertificate sr),
             EndorsementKeyB64 = ek, AttestationKeyB64 = ak, DevIDKeyB64 = dk,
             CertifyDataB64 = EncodeToString (CertifyData sr),
             CertifySignatureB64 = EncodeToString (CertifySignature sr)\<rparr>"
    using enc unfolding MarshalBinary_def by (auto split: option.splits)
  have "decode_identity L pid = Some (PlatformIdentity sr)"
    using p ok by (auto simp: decode_identity_def codecs_ok_def split: if_splits option.splits)
  moreover have "decode_cert L (EncodeEKCertHeader (EndorsementCertificate sr)) = Some (EndorsementCertificate sr)"
    using ok by (auto simp: decode_cert_def EncodeEKCertHeader_def codecs_ok_def split: option.splits)
  moreover note keys = decode_encode_pub [OF ok _ k(1)] decode_encode_pub [OF ok _ k(2)] decode_encode_pub [OF ok _ k(3)]
  moreover have "is_ascii pid" "is_ascii (EncodeEKCertHeader (EndorsementCertificate sr))"
    using p by (auto simp: is_ascii_def EncodeToString_ascii EncodeEKCertHeader_def split: if_splits option.splits)
  with keys have "json_UnmarshalWire L data = Some
      \<lparr>PlatformIdentityB64 = pid, EndorsementCertificateB64 = EncodeEKCertHeader (EndorsementCertificate sr),
       EndorsementKeyB64 = ek, AttestationKeyB64 = ak, DevIDKeyB64 = dk, CertifyDataB64 = EncodeToString (CertifyData sr),
       CertifySignatureB64 = EncodeToString (CertifySignature sr)\<rparr>"
    using ok by (simp add: codecs_ok_def d wireFields_def) (simp add: is_ascii_def EncodeToString_ascii)
  ultimately show ?thesis by (simp add: UnmarshalBinary_def decode_bytes_Encode)
qed

text \<open>
  C31: A signing request that the guest can encode is decoded by the service into the same request:
  every field, the empty ones and the missing keys included, survives the two layers of base64 text
  and JSON. What is assumed of the libraries is only that they read back this request's own parts
  and JSON records of ASCII text; that the fields are such text is part of the claim.
\<close>

theorem signing_request_roundtrip:
  assumes ok: "codecs_ok L sr" and enc: "MarshalBinary L sr = Some data"
  shows "UnmarshalBinary L data = Some sr"
  using assms by (rule unmarshal_marshal)

subsection \<open>Key attributes\<close>

text \<open>The attribute flags are distinct bits.\<close>

definition flags_ok :: "lib \<Rightarrow> bool" where
  "flags_ok L \<longleftrightarrow>
     (\<exists>d r s t p o' u. distinct [d, r, s, t, p, o', u] \<and> list_all (\<lambda>n. n < 32) [d, r, s, t, p, o', u] \<and>
        FlagDecrypt L = 2 ^ d \<and> FlagRestricted L = 2 ^ r \<and> FlagSign L = 2 ^ s \<and>
        FlagFixedTPM L = 2 ^ t \<and> FlagFixedParent L = 2 ^ p \<and>
        FlagSensitiveDataOrigin L = 2 ^ o' \<and> FlagUserWithAuth L = 2 ^ u)"

lemma and_single_bit: "(w :: 32 word) AND 2 ^ n = 0 \<longleftrightarrow> \<not> bit w n"
  by (simp add: bit_iff_and_push_bit_not_eq_0)

lemma bit_one_flag: "bit (2 ^ m :: 32 word) n \<longleftrightarrow> n < 32 \<and> n = m"
  by (auto simp: bit_exp_iff)

text \<open>
  The checks on key attributes. A DevID key passes exactly when it signs and never leaves the
  TPM, and neither decrypts nor is restricted; an attestation key exactly when it signs, is
  restricted and never leaves the TPM, and does not decrypt. So one key can never pass as
  both, and the templates the guest creates its keys from pass.
\<close>

lemma key_attribute_checks:
  assumes "flags_ok L"
  shows "(CheckDevIDProp L prop = None \<longleftrightarrow> prop AND FlagSign L \<noteq> 0 \<and> prop AND FlagFixedTPM L \<noteq> 0 \<and>
       prop AND FlagDecrypt L = 0 \<and> prop AND FlagRestricted L = 0) \<and>
    (CheckAKProp L prop = None \<longleftrightarrow> prop AND FlagSign L \<noteq> 0 \<and> prop AND FlagFixedTPM L \<noteq> 0 \<and>
       prop AND FlagDecrypt L = 0 \<and> prop AND FlagRestricted L \<noteq> 0) \<and>
    \<not> (CheckDevIDProp L prop = None \<and> CheckAKProp L prop = None) \<and>
    CheckDevIDProp L (Attributes (DefaultDevIDTemplateRSA L)) = None \<and>
    CheckAKProp L (Attributes (DefaultAKTemplateRSA L)) = None"
proof -
  obtain d r s t p o' u where dist: "distinct [d, r, s, t, p, o', u :: nat]"
    and lt: "list_all (\<lambda>n. n < 32) [d, r, s, t, p, o', u]"
    and fl: "FlagDecrypt L = 2 ^ d" "FlagRestricted L = 2 ^ r" "FlagSign L = 2 ^ s"
    "FlagFixedTPM L = 2 ^ t" "FlagFixedParent L = 2 ^ p"
    "FlagSensitiveDataOrigin L = 2 ^ o'" "FlagUserWithAuth L = 2 ^ u"
    using assms unfolding flags_ok_def by blast
  have dk: "bit (DevIDAttributes L) n \<longleftrightarrow> n < 32 \<and> n \<in> {s, t, p, o', u}" for n
    by (auto simp: DevIDAttributes_def fl bit_or_iff bit_one_flag)
  have ak: "bit (AKAttributes L) n \<longleftrightarrow> n < 32 \<and> n \<in> {s, r, t, p, o', u}" for n
    by (auto simp: AKAttributes_def fl bit_or_iff bit_one_flag)
  have "CheckDevIDProp L (Attributes (DefaultDevIDTemplateRSA L)) = None"
    using dist lt by (auto simp: CheckDevIDProp_def DefaultDevIDTemplateRSA_def templateRSA_def fl and_single_bit dk)
  moreover have "CheckAKProp L (Attributes (DefaultAKTemplateRSA L)) = None"
    using dist lt by (auto simp: CheckAKProp_def DefaultAKTemplateRSA_def templateRSA_def fl and_single_bit ak)
  ultimately show ?thesis by (auto simp: CheckDevIDProp_def CheckAKProp_def)
qed

subsection \<open>Issued certificates\<close>

lemma buildSAN_shape: "buildSAN L b h p = Some ext \<Longrightarrow> ExtId ext = oidSubjectAltName \<and> (Critical ext \<longleftrightarrow> b)"
  by (auto simp: buildSAN_def split: option.splits)

lemma buildDevIDSAN_shape:
  assumes "buildDevIDSAN L b sr = Some ext"
  shows "ExtId ext = oidSubjectAltName \<and> (Critical ext \<longleftrightarrow> b)"
proof -
  have "DevIDSANFromEKPublicKey L b k = Some ext \<Longrightarrow> ?thesis" for k
    by (auto simp: DevIDSANFromEKPublicKey_def dest: buildSAN_shape split: option.splits)
  moreover have "DevIDSANFromEKCertificate L b c = Some ext \<Longrightarrow> ?thesis" for c
    by (auto simp: DevIDSANFromEKCertificate_def dest: buildSAN_shape split: option.splits)
  ultimately show ?thesis
    using assms unfolding buildDevIDSAN_def by (auto simp: bind_eq_Some_conv split: option.splits)
qed

text \<open>
  C33: What is signed. An issued certificate is the parse of what the CA signed over a template whose
  subject is exactly the given name, whose key is the request's DevID key, which is not a CA,
  which is valid for exactly the configured lifetime (ninety days when none is set) from the
  second in which it was issued, and whose alternative name is critical exactly when the
  subject is empty. Nothing of the platform identity of the request reaches it.
\<close>

theorem issued_template:
  assumes "IssueDevID L ca sr cn nb now = Some cert" "0 < nb"
  shows "\<exists>t der. x509_CreateCertificate L t (ca_cert ca) = Some der \<and> x509_ParseCertificate L der = Some cert \<and>
    T_SubjectCN t = cn \<and> Option.bind (DevIDKey sr) (pub_Key L) = Some (T_PublicKey t) \<and>
    \<not> T_IsCA t \<and> T_UnknownExtKeyUsage t = [OIDVerifiedTPMFixed] \<and>
    T_NotAfter t - T_NotBefore t = (if Lifetime ca \<le> 0 then 90 * 24 * hour else Lifetime ca) \<and>
    T_NotBefore t \<le> nb \<and> nb < T_NotBefore t + second \<and> T_NotBefore t mod second = 0 \<and>
    (\<exists>san. T_ExtraExtensions t = [san] \<and> ExtId san = oidSubjectAltName \<and> (Critical san \<longleftrightarrow> cn = [])) \<and>
    IssueDevID L ca (sr\<lparr>PlatformIdentity := x\<rparr>) cn nb now = Some cert"
proof -
  obtain dk pub san der where d: "DevIDKey sr = Some dk" "pub_Key L dk = Some pub"
    "buildDevIDSAN L (cn = []) sr = Some san"
    "Sign L ca (devIDTemplate ca pub cn san nb) = Some der" "x509_ParseCertificate L der = Some cert"
    using assms by (auto simp: IssueDevID_def bind_eq_Some_conv)
  obtain sn where sn: "x509_CreateCertificate L ((devIDTemplate ca pub cn san nb)\<lparr>T_SerialNumber := Some sn\<rparr>) (ca_cert ca) = Some der"
    using d(4) by (auto simp: Sign_def bind_eq_Some_conv)
  have "ExtId san = oidSubjectAltName \<and> (Critical san \<longleftrightarrow> cn = [])"
    by (rule buildDevIDSAN_shape [OF d(3)])
  moreover have "buildDevIDSAN L b (sr\<lparr>PlatformIdentity := x\<rparr>) = buildDevIDSAN L b sr" for b
    by (simp add: buildDevIDSAN_def split: option.splits)
  then have "IssueDevID L ca (sr\<lparr>PlatformIdentity := x\<rparr>) cn nb now = Some cert"
    using assms(1) by (simp add: IssueDevID_def)
  moreover have "nb - nb mod second \<le> nb" "nb < nb - nb mod second + second" "(nb - nb mod second) mod second = 0"
    using pos_mod_bound [of second nb] by (simp_all add: second_def minus_mod_eq_mult_div)
  ultimately show ?thesis
    using d sn
    by (intro exI [of _ "(devIDTemplate ca pub cn san nb)\<lparr>T_SerialNumber := Some sn\<rparr>"] exI [of _ der])
       (simp add: devIDTemplate_def Let_def DefaultDevIDLifetime_def hour_def)
qed

subsection \<open>A library to compute with\<close>

text \<open>
  A concrete instance of \<open>lib\<close>, for the witnesses: keys, digests and signatures are the bytes
  themselves, and a request is encoded field by field.
\<close>

definition sampleAttributes :: "string \<Rightarrow> 32 word" where
  "sampleAttributes u =
     (if take 1 u = ''a'' then 0x00050072 else if take 1 u = ''d'' then 0x00040072 else 0x000300b2)"

definition samplePub :: "string \<Rightarrow> Public" where
  "samplePub u = \<lparr>PubType = 1, NameAlg = 11, Attributes = sampleAttributes u,
     RSAParameters = Some \<lparr>RSASign = Some \<lparr>SchemeAlg = 20, SchemeHash = 11\<rparr>, SymmetricKeyBits = Some 128\<rparr>,
     ECCParameters = None, PubUnique = u\<rparr>"

definition sampleCert :: "string \<Rightarrow> Certificate" where
  "sampleCert d = \<lparr>Raw = d, UnhandledCriticalExtensions = [], CertPublicKey = Some (RSAKey d),
     NotBefore = 0, NotAfter = 0, SubjectCN = ''''\<rparr>"

fun wireOf :: "string option list \<Rightarrow> signingRequestWire option" where
  "wireOf [Some a, Some b, Some c, Some d, Some e, Some f, Some g] =
     Some \<lparr>PlatformIdentityB64 = a, EndorsementCertificateB64 = b, EndorsementKeyB64 = c,
       AttestationKeyB64 = d, DevIDKeyB64 = e, CertifyDataB64 = f, CertifySignatureB64 = g\<rparr>"
| "wireOf _ = None"

definition sampleLib :: lib where
  "sampleLib =
     \<lparr>FlagDecrypt = push_bit 17 1, FlagRestricted = push_bit 16 1, FlagSign = push_bit 18 1,
      FlagFixedTPM = push_bit 1 1, FlagFixedParent = push_bit 4 1, FlagSensitiveDataOrigin = push_bit 5 1,
      FlagUserWithAuth = push_bit 6 1, AlgRSA = 1, AlgECC = 35, AlgRSASSA = 20, AlgSHA256 = 11,
      pub_Key = (\<lambda>p. Some (RSAKey (PubUnique p))), pub_Name = (\<lambda>p. Some (PubUnique p)),
      pub_Encode = (\<lambda>p. if PubUnique p \<noteq> [] \<and> p = samplePub (PubUnique p) then Some (PubUnique p) else None),
      DecodePublic = (\<lambda>b. Some (samplePub b)),
      hash_size = (\<lambda>a. Some 4), hash_sum = (\<lambda>a s. s), VerifyPKCS1v15 = (\<lambda>k h d sig. sig = k @ d),
      DecodeAttestationData = (\<lambda>d. Some (Some d)), MatchesPublic = (\<lambda>n p. Some (n = PubUnique p)),
      credactivation_Generate = (\<lambda>dg k n nonce. Some (''..'' @ nonce, ''..'' @ k)),
      sha256 = (\<lambda>s. CHR ''h'' # s), sha1 = (\<lambda>s. s), x509_Verify = (\<lambda>pool c. pool = ''roots''),
      x509_ParseCertificate = (\<lambda>d. Some (sampleCert d)),
      x509_CreateCertificate = (\<lambda>t ca. Some (T_SubjectCN t)),
      MarshalPKIXPublicKey = (\<lambda>k. case k of RSAKey b \<Rightarrow> Some b | OtherKey b \<Rightarrow> None),
      asn1_FullBytes = (\<lambda>d. None), asn1_MarshalRDN = (\<lambda>n. None), asn1_UnmarshalRDN = (\<lambda>b. None),
      asn1_MarshalNames = (\<lambda>n. Some ''san''), asn1_MarshalSubject = (\<lambda>s. Some s),
      pem_Decode = (\<lambda>b. None),
      json_MarshalWire = (\<lambda>w. Join (map EncodeToString (wireFields w)) '',''),
      json_UnmarshalWire = (\<lambda>s. wireOf (map DecodeString (split_at_char CHR '','' s))),
      RFC3339 = (\<lambda>t. ''t'')\<rparr>"

lemma sampleLib_flags: "flags_ok sampleLib"
  unfolding flags_ok_def
  by (rule exI [of _ 17], rule exI [of _ 16], rule exI [of _ 18], rule exI [of _ 1], rule exI [of _ 4],
      rule exI [of _ 5], rule exI [of _ 6]) (simp add: sampleLib_def)

lemma key_attribute_checks_witness:
  "CheckAKProp sampleLib (Attributes (DefaultAKTemplateRSA sampleLib)) = None \<and>
   CheckDevIDProp sampleLib (Attributes (DefaultAKTemplateRSA sampleLib)) \<noteq> None"
  using key_attribute_checks [OF sampleLib_flags, of "Attributes (DefaultAKTemplateRSA sampleLib)"] by auto

lemma EK_header_roundtrip_witness:
  "ParseEKCertHeader sampleLib (EncodeEKCertHeader (Some (sampleCert ''DER''))) = Some (sampleCert ''DER'')"
  by (rule EK_header_roundtrip) (simp_all add: sampleLib_def sampleCert_def parseCertificateLoose_def)

lemma b64_chars_no_comma: "n < 64 \<Longrightarrow> b64_char n \<noteq> CHR '',''"
  using of_char_b64_char [of n] by (auto split: if_splits)

lemma b64_no_comma: "CHR '','' \<notin> set (EncodeToString s)"
proof -
  have "\<forall>x \<in> set ns. x < 256 \<Longrightarrow> CHR '','' \<notin> set (b64_quanta ns)" for ns
    by (induction ns rule: b64_quanta.induct) (auto simp: b64_chars_no_comma [symmetric] dest: b64_chars_no_comma)
  then show ?thesis by (simp add: EncodeToString_def)
qed

definition sampleSR :: SigningRequest where
  "sampleSR = \<lparr>PlatformIdentity = [], EndorsementCertificate = Some (sampleCert ''e1''),
     EndorsementKey = Some (samplePub ''e1''), AttestationKey = Some (samplePub ''a1''),
     DevIDKey = Some (samplePub ''d1''), CertifyData = ''d1'', CertifySignature = ''a1d1''\<rparr>"

lemma sampleLib_codecs: "codecs_ok sampleLib sampleSR"
proof -
  have "json_UnmarshalWire sampleLib (json_MarshalWire sampleLib w) = Some w" for w
  proof -
    have "split_at_char CHR '','' (Join (map EncodeToString (wireFields w)) '','') = map EncodeToString (wireFields w)"
      by (rule split_Join) (auto simp: wireFields_def b64_no_comma)
    then show ?thesis by (simp add: sampleLib_def comp_def) (simp add: wireFields_def)
  qed
  then show ?thesis
    by (auto simp: codecs_ok_def sampleSR_def) (auto simp: sampleLib_def sampleCert_def parseCertificateLoose_def split: if_splits)
qed

lemma sampleLib_encode: "u \<noteq> [] \<Longrightarrow> encode_pub sampleLib (Some (samplePub u)) = Some (EncodeToString u)"
  by (simp add: encode_pub_def sampleLib_def samplePub_def)

theorem signing_request_roundtrip_witness:
  "\<exists>data. MarshalBinary sampleLib sampleSR = Some data \<and> UnmarshalBinary sampleLib data = Some sampleSR"
proof -
  obtain data where "MarshalBinary sampleLib sampleSR = Some data"
    by (simp add: MarshalBinary_def sampleSR_def sampleLib_encode)
  then show ?thesis using signing_request_roundtrip [OF sampleLib_codecs] by blast
qed

theorem issued_template_witness:
  "\<exists>cert t der. IssueDevID sampleLib \<lparr>ca_cert = sampleCert ''ca'', Lifetime = hour\<rparr> sampleSR ''101'' 5 0 = Some cert \<and>
     x509_CreateCertificate sampleLib t (sampleCert ''ca'') = Some der \<and> T_SubjectCN t = ''101'' \<and>
     T_NotAfter t - T_NotBefore t = hour"
proof -
  let ?ca = "\<lparr>ca_cert = sampleCert ''ca'', Lifetime = hour\<rparr>"
  obtain cert where c: "IssueDevID sampleLib ?ca sampleSR ''101'' 5 0 = Some cert"
    by (simp add: IssueDevID_def sampleSR_def buildDevIDSAN_def DevIDSANFromEKPublicKey_def buildSAN_def
        Sign_def uniqueSerial_def sampleLib_def devIDTemplate_def Let_def)
  show ?thesis
    using issued_template [OF c, of "[]"] c by (auto simp: duration_simps)
qed

end
