(* ===== verification/Reconcile_Config.thy ===== *)
theory Reconcile_Config
  imports Reconcile_Run Devid_Keys
begin

text \<open>
  The reconciler's configuration (\<open>internal/reconcile/config.go\<close>) and how the program
  \<open>vtpm-mds-reconcile\<close> starts from it (\<open>cmd/vtpm-mds-reconcile/main.go\<close>).

  The YAML decoder, the reading of files, PEM and X.509 are parameters, and so is the HTTP transport of
  the Proxmox client. \<open>rc_blocks\<close> are the type and the bytes of the blocks that repeated
  \<open>pem.Decode\<close> finds.

  The theorems: a configuration that loads names its clusters apart and gives no intermediate to two
  of them, so that no agent can match an alias of another cluster than its own, and the passes of the
  started program stay within the configured clusters.
\<close>

subsection \<open>The configuration\<close>

definition DefaultInterval :: duration where
  "DefaultInterval = 60 * second"

definition MinInterval :: duration where
  "MinInterval = 10 * second"

text \<open>What the decoder fills in, and the field it leaves alone.\<close>

record ClusterYAML =
  cc_Name :: string
  cc_APIURL :: string
  cc_CAFile :: string
  cc_TokenFile :: string
  cc_Intermediates :: "string list"

record ClusterConfig = ClusterYAML +
  cc_Fingerprints :: "string list"

record 'c rc_config =
  rc_TrustDomain :: string
  rc_SPIRESocket :: string
  rc_Interval :: duration
  rc_Clusters :: "'c list"

record rc_lib =
  rc_ReadFile :: "string \<Rightarrow> string option"
  rc_Decode :: "string \<Rightarrow> ClusterYAML rc_config option"
  rc_blocks :: "string \<Rightarrow> (string \<times> string) list"
  rc_ParseCertificate :: "string \<Rightarrow> Certificate option"
  RawSubject :: "Certificate \<Rightarrow> string"
  RawIssuer :: "Certificate \<Rightarrow> string"
  CheckSignatureFrom :: "Certificate \<Rightarrow> Certificate \<Rightarrow> bool"
  rc_sha1 :: "string \<Rightarrow> string"
  rc_AppendCertsFromPEM :: "string \<Rightarrow> bool"

datatype intermediate_error =
    IntermediateUnread
  | NoCertificate
  | BadCertificate
  | SelfSigned

datatype rc_error =
    ConfigUnread
  | ConfigUnparsed
  | BadTrustDomain string
  | EmptySocket
  | RelativeSocket string
  | ShortInterval duration
  | NoClusters
  | BadClusterName string
  | DuplicateCluster string
  | BadAPIURL string
  | NoTokenFile string
  | NoIntermediates string
  | BadIntermediate string string intermediate_error
  | SharedFingerprint string string string string
  | TokenUnread string
  | EmptyToken string
  | CAUnread string
  | EmptyCA string

subsection \<open>Loading\<close>

fun fingerprint_loop :: "rc_lib \<Rightarrow> (string \<times> string) list \<Rightarrow> intermediate_error + string" where
  "fingerprint_loop P [] = Inl NoCertificate"
| "fingerprint_loop P ((type, bytes) # blocks) =
     (if type \<noteq> ''CERTIFICATE'' then fingerprint_loop P blocks
      else case rc_ParseCertificate P bytes of
        None \<Rightarrow> Inl BadCertificate
      | Some cert \<Rightarrow>
          if RawSubject P cert = RawIssuer P cert \<and> CheckSignatureFrom P cert cert then Inl SelfSigned
          else Inr (hex_encode (rc_sha1 P (Raw cert))))"

definition intermediateFingerprint :: "rc_lib \<Rightarrow> string \<Rightarrow> intermediate_error + string" where
  "intermediateFingerprint P f =
     (case rc_ReadFile P f of None \<Rightarrow> Inl IntermediateUnread | Some data \<Rightarrow> fingerprint_loop P (rc_blocks P data))"

text \<open>The intermediates of one cluster: files and fingerprints seen, files kept, and who owns which fingerprint.\<close>

record inter_state =
  is_seenFile :: "string set"
  is_seenFP :: "string set"
  is_files :: "string list"
  is_fps :: "string list"
  is_owner :: "string \<rightharpoonup> string"

fun inter_loop :: "rc_lib \<Rightarrow> string \<Rightarrow> string list \<Rightarrow> inter_state \<Rightarrow> rc_error + inter_state" where
  "inter_loop P name [] s = Inr s"
| "inter_loop P name (f # fs) s =
     (if f \<in> is_seenFile s then inter_loop P name fs s
      else let s1 = s\<lparr>is_seenFile := insert f (is_seenFile s)\<rparr> in
        case intermediateFingerprint P f of
          Inl err \<Rightarrow> Inl (BadIntermediate name f err)
        | Inr fp \<Rightarrow>
            if fp \<in> is_seenFP s1 then inter_loop P name fs s1
            else let s2 = s1\<lparr>is_seenFP := insert fp (is_seenFP s1), is_files := is_files s1 @ [f]\<rparr> in
              (case is_owner s2 fp of
                 Some other \<Rightarrow>
                   if other \<noteq> name then Inl (SharedFingerprint fp f other name)
                   else inter_loop P name fs (s2\<lparr>is_owner := (is_owner s2)(fp \<mapsto> name), is_fps := is_fps s2 @ [fp]\<rparr>)
               | None \<Rightarrow> inter_loop P name fs (s2\<lparr>is_owner := (is_owner s2)(fp \<mapsto> name), is_fps := is_fps s2 @ [fp]\<rparr>)))"

fun cluster_loop ::
  "rc_lib \<Rightarrow> string set \<Rightarrow> (string \<rightharpoonup> string) \<Rightarrow> ClusterConfig list \<Rightarrow> rc_error + ClusterConfig list" where
  "cluster_loop P names fpOwner [] = Inr []"
| "cluster_loop P names fpOwner (c # cs) =
     (if \<not> validSegment (cc_Name c) then Inl (BadClusterName (cc_Name c))
      else if cc_Name c \<in> names then Inl (DuplicateCluster (cc_Name c))
      else if \<not> HasPrefix (cc_APIURL c) ''https://'' then Inl (BadAPIURL (cc_Name c))
      else if cc_TokenFile c = [] then Inl (NoTokenFile (cc_Name c))
      else if length (cc_Intermediates c) = 0 then Inl (NoIntermediates (cc_Name c))
      else case inter_loop P (cc_Name c) (cc_Intermediates c)
          \<lparr>is_seenFile = {}, is_seenFP = {}, is_files = [], is_fps = cc_Fingerprints c, is_owner = fpOwner\<rparr> of
        Inl err \<Rightarrow> Inl err
      | Inr s \<Rightarrow>
          (case cluster_loop P (insert (cc_Name c) names) (is_owner s) cs of
             Inl err \<Rightarrow> Inl err
           | Inr cs' \<Rightarrow> Inr (c\<lparr>cc_Intermediates := is_files s, cc_Fingerprints := is_fps s\<rparr> # cs')))"

definition IsAbs :: "string \<Rightarrow> bool" where
  "IsAbs p \<longleftrightarrow> HasPrefix p ''/''"

definition decoded_cluster :: "ClusterYAML \<Rightarrow> ClusterConfig" where
  "decoded_cluster c = ClusterYAML.extend c \<lparr>cc_Fingerprints = []\<rparr>"

definition LoadConfig :: "rc_lib \<Rightarrow> string \<Rightarrow> rc_error + ClusterConfig rc_config" where
  "LoadConfig P path =
     (case rc_ReadFile P path of
        None \<Rightarrow> Inl ConfigUnread
      | Some data \<Rightarrow>
        (case rc_Decode P data of
           None \<Rightarrow> Inl ConfigUnparsed
         | Some cfg \<Rightarrow>
           (let interval = (if rc_Interval cfg = 0 then DefaultInterval else rc_Interval cfg) in
            if rc_TrustDomain cfg = [] \<or> \<not> validSegment (rc_TrustDomain cfg) then Inl (BadTrustDomain (rc_TrustDomain cfg))
            else if rc_SPIRESocket cfg = [] then Inl EmptySocket
            else if \<not> IsAbs (rc_SPIRESocket cfg) then Inl (RelativeSocket (rc_SPIRESocket cfg))
            else if interval < MinInterval then Inl (ShortInterval interval)
            else if length (rc_Clusters cfg) = 0 then Inl NoClusters
            else (case cluster_loop P {} Map.empty (map decoded_cluster (rc_Clusters cfg)) of
                    Inl err \<Rightarrow> Inl err
                  | Inr cs \<Rightarrow>
                      Inr \<lparr>rc_TrustDomain = rc_TrustDomain cfg, rc_SPIRESocket = rc_SPIRESocket cfg, rc_Interval = interval,
                        rc_Clusters = cs\<rparr>))))"

subsection \<open>Starting\<close>

text \<open>The client of a cluster; \<open>None\<close> trusts the system's roots.\<close>

record ProxmoxClient =
  pc_BaseURL :: string
  pc_Token :: string
  pc_RootCAs :: "string option"

definition Client :: "rc_lib \<Rightarrow> ClusterConfig \<Rightarrow> rc_error + ProxmoxClient" where
  "Client P c =
     (case rc_ReadFile P (cc_TokenFile c) of
        None \<Rightarrow> Inl (TokenUnread (cc_Name c))
      | Some raw \<Rightarrow>
          (let token = TrimSpace raw in
           if token = [] then Inl (EmptyToken (cc_Name c))
           else if cc_CAFile c \<noteq> [] then
             (case rc_ReadFile P (cc_CAFile c) of
                None \<Rightarrow> Inl (CAUnread (cc_Name c))
              | Some pemData \<Rightarrow>
                  if \<not> rc_AppendCertsFromPEM P pemData then Inl (EmptyCA (cc_Name c))
                  else Inr \<lparr>pc_BaseURL = cc_APIURL c, pc_Token = token, pc_RootCAs = Some pemData\<rparr>)
           else Inr \<lparr>pc_BaseURL = cc_APIURL c, pc_Token = token, pc_RootCAs = None\<rparr>))"

datatype start_error =
    ConfigError rc_error
  | PrivilegeError string doubt
  | DialFailed
  | SpireUnreachable spire_error

text \<open>\<open>dial\<close> is what the transport makes of a client.\<close>

fun build_targets ::
  "rc_lib \<Rightarrow> (ProxmoxClient \<Rightarrow> ('body, 'json) proxmox) \<Rightarrow> ClusterConfig list \<Rightarrow> start_error + (Cluster \<times> ProxmoxClient) list" where
  "build_targets P dial [] = Inr []"
| "build_targets P dial (c # cs) =
     (case Client P c of
        Inl err \<Rightarrow> Inl (ConfigError err)
      | Inr client \<Rightarrow>
          (case CheckPrivileges (dial client) of
             Some e \<Rightarrow> Inl (PrivilegeError (cc_Name c) e)
           | None \<Rightarrow>
               (case build_targets P dial cs of
                  Inl err \<Rightarrow> Inl err
                | Inr ts \<Rightarrow> Inr ((\<lparr>c_Name = cc_Name c, c_Fingerprints = cc_Fingerprints c\<rparr>, client) # ts))))"

text \<open>
  \<open>main\<close> up to the passes: the configuration, a client with its privileges for every cluster, the
  connection to SPIRE and one listing. \<open>dialSpire\<close> is the connection of \<open>DialSPIRE\<close>; the result is
  \<open>None\<close> when the listing never ends.
\<close>

definition start :: "rc_lib \<Rightarrow> (ProxmoxClient \<Rightarrow> ('body, 'json) proxmox) \<Rightarrow> (string \<Rightarrow> 's spire_rpc option) \<Rightarrow> string \<Rightarrow> 's
    \<Rightarrow> (start_error + string \<times> 's spire_rpc \<times> (Cluster \<times> ProxmoxClient) list) option" where
  "start P dial dialSpire path s =
     (case LoadConfig P path of
        Inl err \<Rightarrow> Some (Inl (ConfigError err))
      | Inr cfg \<Rightarrow>
          (case build_targets P dial (rc_Clusters cfg) of
             Inl err \<Rightarrow> Some (Inl err)
           | Inr ts \<Rightarrow>
               (case dialSpire (rc_SPIRESocket cfg) of
                  None \<Rightarrow> Some (Inl DialFailed)
                | Some rpc \<Rightarrow>
                    (case Entries rpc (rc_TrustDomain cfg) s of
                       None \<Rightarrow> None
                     | Some (Inl err) \<Rightarrow> Some (Inl (SpireUnreachable err))
                     | Some (Inr es) \<Rightarrow> Some (Inr (rc_TrustDomain cfg, rpc, ts))))))"

text \<open>What the readers return in one pass; the API may answer differently in each.\<close>

definition pass_targets :: "(ProxmoxClient \<Rightarrow> ('body, 'json) proxmox) \<Rightarrow> (Cluster \<times> ProxmoxClient) list \<Rightarrow> Target list" where
  "pass_targets dial ts = map (\<lambda>(c, client). \<lparr>t_Cluster = c, t_Read = Read (dial client)\<rparr>) ts"

text \<open>The passes of the running program: an error is logged, the next tick starts the next pass.\<close>

fun passes :: "'s spireAPI \<Rightarrow> string \<Rightarrow> (Cluster \<times> ProxmoxClient) list \<Rightarrow> (ProxmoxClient \<Rightarrow> ('body, 'json) proxmox) list
    \<Rightarrow> 's \<Rightarrow> BanTracker \<Rightarrow> ('s \<times> BanTracker) option" where
  "passes api td ts [] s b = Some (s, b)"
| "passes api td ts (dial # dials) s b =
     (case Pass api td (pass_targets dial ts) True s b of
        None \<Rightarrow> None
      | Some (err, skipped, s', b') \<Rightarrow> passes api td ts dials s' b')"

text \<open>With \<open>-once\<close>: one pass without bans, and the exit status.\<close>

definition once_exit :: "'s spireAPI \<Rightarrow> string \<Rightarrow> (Cluster \<times> ProxmoxClient) list \<Rightarrow> (ProxmoxClient \<Rightarrow> ('body, 'json) proxmox) \<Rightarrow> 's
    \<Rightarrow> (nat \<times> 's) option" where
  "once_exit api td ts dial s =
     (case Pass api td (pass_targets dial ts) False s [] of
        None \<Rightarrow> None
      | Some (err, skipped, s', b') \<Rightarrow> Some (if err \<noteq> None \<or> skipped > 0 then 1 else 0, s'))"

subsection \<open>What loads\<close>

definition inter_ok :: "rc_lib \<Rightarrow> string \<Rightarrow> (string \<rightharpoonup> string) \<Rightarrow> inter_state \<Rightarrow> bool" where
  "inter_ok P name own s \<longleftrightarrow> distinct (is_fps s) \<and> set (is_fps s) = is_seenFP s \<and>
     map (intermediateFingerprint P) (is_files s) = map Inr (is_fps s) \<and> set (is_files s) \<subseteq> is_seenFile s \<and>
     (\<forall>f \<in> is_seenFile s. \<exists>fp \<in> set (is_fps s). intermediateFingerprint P f = Inr fp) \<and>
     is_owner s = (\<lambda>fp. if fp \<in> set (is_fps s) then Some name else own fp) \<and>
     (\<forall>fp \<in> set (is_fps s). own fp = None \<or> own fp = Some name)"

lemma inter_loop_ok:
  assumes "inter_loop P name fs s = Inr s'" "inter_ok P name own s"
  shows "inter_ok P name own s' \<and> is_seenFile s' = is_seenFile s \<union> set fs"
  using assms
proof (induction P name fs s rule: inter_loop.induct)
  case (2 P name f fs s)
  note prems = 2(5, 6)
  show ?case
  proof (cases "f \<in> is_seenFile s")
    case True
    with 2(1) [OF True] prems show ?thesis by auto
  next
    case new: False
    let ?s1 = "s\<lparr>is_seenFile := insert f (is_seenFile s)\<rparr>"
    from new prems(1) obtain fp where fp: "intermediateFingerprint P f = Inr fp"
      by (auto simp: Let_def split: sum.splits)
    show ?thesis
    proof (cases "fp \<in> is_seenFP s")
      case True
      have "inter_ok P name own ?s1" using prems(2) True fp by (auto simp: inter_ok_def)
      moreover have "inter_loop P name fs ?s1 = Inr s'" using prems(1) new fp True by (simp add: Let_def)
      ultimately show ?thesis using 2(2) [OF new refl fp] True by auto
    next
      case False
      let ?s3 = "?s1\<lparr>is_seenFP := insert fp (is_seenFP s), is_files := is_files s @ [f], is_owner := (is_owner s)(fp \<mapsto> name), is_fps := is_fps s @ [fp]\<rparr>"
      have own: "own fp = None \<or> own fp = Some name" "inter_loop P name fs ?s3 = Inr s'"
        using prems new fp False by (auto simp: Let_def inter_ok_def split: option.splits if_splits)
      have "inter_ok P name own ?s3" using prems(2) False fp own(1) by (auto simp: inter_ok_def fun_eq_iff)
      moreover have "inter_ok P name own ?s3 \<Longrightarrow> inter_ok P name own s' \<and> is_seenFile s' = is_seenFile ?s3 \<union> set fs"
        using 2(3, 4) prems(1) new fp False own(2) by (cases "is_owner s fp") (auto simp: Let_def split: if_splits)
      ultimately show ?thesis by simp
    qed
  qed
qed simp

definition cluster_ok :: "rc_lib \<Rightarrow> ClusterConfig \<Rightarrow> bool" where
  "cluster_ok P c \<longleftrightarrow> validSegment (cc_Name c) \<and> HasPrefix (cc_APIURL c) ''https://'' \<and> cc_TokenFile c \<noteq> [] \<and>
     cc_Fingerprints c \<noteq> [] \<and> distinct (cc_Fingerprints c) \<and>
     map (intermediateFingerprint P) (cc_Intermediates c) = map Inr (cc_Fingerprints c)"

lemma cluster_loop_ok:
  assumes "cluster_loop P names own cs = Inr cs'" "\<And>c. c \<in> set cs \<Longrightarrow> cc_Fingerprints c = []"
  shows "map cc_Name cs' = map cc_Name cs \<and> list_all (cluster_ok P) cs' \<and> distinct (map cc_Name cs') \<and> set (map cc_Name cs') \<inter> names = {} \<and>
    (\<forall>c \<in> set cs'. \<forall>fp \<in> set (cc_Fingerprints c). own fp = None \<or> own fp = Some (cc_Name c)) \<and>
    (\<forall>c \<in> set cs'. \<forall>d \<in> set cs'. set (cc_Fingerprints c) \<inter> set (cc_Fingerprints d) \<noteq> {} \<longrightarrow> cc_Name c = cc_Name d)"
  using assms
proof (induction cs arbitrary: names own cs')
  case (Cons c cs)
  let ?s0 = "\<lparr>is_seenFile = {}, is_seenFP = {}, is_files = [], is_fps = cc_Fingerprints c, is_owner = own\<rparr>"
  from Cons.prems(1) obtain s ds where s: "inter_loop P (cc_Name c) (cc_Intermediates c) ?s0 = Inr s"
    and ds: "cluster_loop P (insert (cc_Name c) names) (is_owner s) cs = Inr ds"
    and cs': "cs' = c\<lparr>cc_Intermediates := is_files s, cc_Fingerprints := is_fps s\<rparr> # ds"
    and g: "validSegment (cc_Name c)" "cc_Name c \<notin> names" "HasPrefix (cc_APIURL c) ''https://''" "cc_TokenFile c \<noteq> []" "cc_Intermediates c \<noteq> []"
    by (auto split: if_splits sum.splits)
  have "inter_ok P (cc_Name c) own ?s0" using Cons.prems(2) by (simp add: inter_ok_def)
  from inter_loop_ok [OF s this] have I: "inter_ok P (cc_Name c) own s" "is_seenFile s = set (cc_Intermediates c)" by simp_all
  have "\<And>d. d \<in> set cs \<Longrightarrow> cc_Fingerprints d = []" using Cons.prems(2) by simp
  from Cons.IH [OF ds this] have IH: "map cc_Name ds = map cc_Name cs" "list_all (cluster_ok P) ds" "distinct (map cc_Name ds)"
    "set (map cc_Name ds) \<inter> insert (cc_Name c) names = {}"
    "\<And>d fp. d \<in> set ds \<Longrightarrow> fp \<in> set (cc_Fingerprints d) \<Longrightarrow> is_owner s fp = None \<or> is_owner s fp = Some (cc_Name d)"
    "\<forall>c \<in> set ds. \<forall>d \<in> set ds. set (cc_Fingerprints c) \<inter> set (cc_Fingerprints d) \<noteq> {} \<longrightarrow> cc_Name c = cc_Name d"
    by blast+
  have ne: "is_fps s \<noteq> []" using I g(5) by (cases "cc_Intermediates c") (auto simp: inter_ok_def)
  have ok: "cluster_ok P (c\<lparr>cc_Intermediates := is_files s, cc_Fingerprints := is_fps s\<rparr>)"
    using I(1) g ne by (simp add: cluster_ok_def inter_ok_def)
  have apart: "fp \<notin> set (is_fps s)" if "d \<in> set ds" "fp \<in> set (cc_Fingerprints d)" for d fp
  proof
    assume "fp \<in> set (is_fps s)"
    then have "is_owner s fp = Some (cc_Name c)" using I(1) by (simp add: inter_ok_def)
    with IH(5) [OF that] have "cc_Name d = cc_Name c" by simp
    moreover have "cc_Name d \<in> set (map cc_Name ds)" using that(1) by simp
    ultimately show False using IH(4) by simp
  qed
  have later: "own fp = None \<or> own fp = Some (cc_Name d)" if "d \<in> set ds" "fp \<in> set (cc_Fingerprints d)" for d fp
  proof -
    have "is_owner s fp = own fp" using I(1) apart [OF that] unfolding inter_ok_def by presburger
    with IH(5) [OF that] show ?thesis by simp
  qed
  have first: "\<forall>fp \<in> set (is_fps s). own fp = None \<or> own fp = Some (cc_Name c)"
    using I(1) unfolding inter_ok_def by blast
  show ?case
  proof (intro conjI)
    show "map cc_Name cs' = map cc_Name (c # cs)" using IH(1) by (simp add: cs')
    show "list_all (cluster_ok P) cs'" using ok IH(2) by (simp add: cs')
    show "distinct (map cc_Name cs')" "set (map cc_Name cs') \<inter> names = {}" using IH(3, 4) g(2) by (auto simp: cs')
    show "\<forall>c \<in> set cs'. \<forall>fp \<in> set (cc_Fingerprints c). own fp = None \<or> own fp = Some (cc_Name c)"
      using first later by (simp add: cs')
    show "\<forall>c \<in> set cs'. \<forall>d \<in> set cs'. set (cc_Fingerprints c) \<inter> set (cc_Fingerprints d) \<noteq> {} \<longrightarrow> cc_Name c = cc_Name d"
      unfolding cs' using IH(6) apart by (simp add: disjoint_iff) blast
  qed
qed simp

definition config_sound :: "rc_lib \<Rightarrow> ClusterConfig rc_config \<Rightarrow> bool" where
  "config_sound P cfg \<longleftrightarrow> validSegment (rc_TrustDomain cfg) \<and> IsAbs (rc_SPIRESocket cfg) \<and> MinInterval \<le> rc_Interval cfg \<and>
     rc_Clusters cfg \<noteq> [] \<and> distinct (map cc_Name (rc_Clusters cfg)) \<and> list_all (cluster_ok P) (rc_Clusters cfg) \<and>
     (\<forall>c \<in> set (rc_Clusters cfg). \<forall>d \<in> set (rc_Clusters cfg).
        set (cc_Fingerprints c) \<inter> set (cc_Fingerprints d) \<noteq> {} \<longrightarrow> cc_Name c = cc_Name d)"

lemma LoadConfig_sound:
  assumes "LoadConfig P path = Inr cfg"
  shows "config_sound P cfg"
proof -
  from assms obtain d :: "ClusterYAML rc_config" and cs where d: "cluster_loop P {} Map.empty (map decoded_cluster (rc_Clusters d)) = Inr cs" "rc_Clusters cfg = cs"
    "rc_Clusters d \<noteq> []" "validSegment (rc_TrustDomain cfg)" "IsAbs (rc_SPIRESocket cfg)" "MinInterval \<le> rc_Interval cfg"
    by (auto simp: LoadConfig_def Let_def split: option.splits if_splits sum.splits)
  have "cc_Fingerprints c = []" if "c \<in> set (map decoded_cluster (rc_Clusters d))" for c
    using that by (auto simp: decoded_cluster_def ClusterYAML.defs)
  note L = cluster_loop_ok [OF d(1) this]
  then have "map cc_Name cs = map cc_Name (map decoded_cluster (rc_Clusters d))" by blast
  with d(3) have "cs \<noteq> []" by auto
  with L d(2-) show ?thesis unfolding config_sound_def by blast
qed

lemma loaded:
  assumes "LoadConfig P path = Inr cfg"
  shows "validSegment (rc_TrustDomain cfg)" "MinInterval \<le> rc_Interval cfg" "distinct (map cc_Name (rc_Clusters cfg))"
    "list_all (cluster_ok P) (rc_Clusters cfg)"
    "c \<in> set (rc_Clusters cfg) \<Longrightarrow> validSegment (cc_Name c)"
    "c \<in> set (rc_Clusters cfg) \<Longrightarrow> d \<in> set (rc_Clusters cfg) \<Longrightarrow> cc_Name c \<noteq> cc_Name d \<Longrightarrow>
       set (cc_Fingerprints c) \<inter> set (cc_Fingerprints d) = {}"
proof -
  note S = LoadConfig_sound [OF assms, unfolded config_sound_def]
  then show "validSegment (rc_TrustDomain cfg)" "MinInterval \<le> rc_Interval cfg" "distinct (map cc_Name (rc_Clusters cfg))"
    and ok: "list_all (cluster_ok P) (rc_Clusters cfg)" by blast+
  from ok show "c \<in> set (rc_Clusters cfg) \<Longrightarrow> validSegment (cc_Name c)" unfolding list_all_iff cluster_ok_def by blast
  show "c \<in> set (rc_Clusters cfg) \<Longrightarrow> d \<in> set (rc_Clusters cfg) \<Longrightarrow> cc_Name c \<noteq> cc_Name d \<Longrightarrow>
      set (cc_Fingerprints c) \<inter> set (cc_Fingerprints d) = {}"
    using S by blast
qed

lemma same_name: "distinct (map cc_Name cs) \<Longrightarrow> c \<in> set cs \<Longrightarrow> d \<in> set cs \<Longrightarrow> cc_Name c = cc_Name d \<Longrightarrow> c = d"
  by (auto simp: distinct_map inj_on_def)

subsection \<open>Clusters stay apart\<close>

definition cluster_of :: "ClusterConfig \<Rightarrow> Cluster" where
  "cluster_of c = \<lparr>c_Name = cc_Name c, c_Fingerprints = cc_Fingerprints c\<rparr>"

lemma alias_prefix: "a \<in> set (fst (Wanted td c gs)) \<Longrightarrow> HasPrefix (a_SPIFFEID a) (cluster_prefix td (c_Name c))"
  using Wanted_in_cluster [of td c gs] by (auto simp: in_cluster_def list_all_iff)

text \<open>Two clusters with an intermediate each; files hold their own name, and a certificate its file's.\<close>

definition sampleEntry :: "string \<Rightarrow> ClusterYAML" where
  "sampleEntry n = \<lparr>cc_Name = n, cc_APIURL = ''https://'' @ n, cc_CAFile = [], cc_TokenFile = ''token'', cc_Intermediates = [n]\<rparr>"

definition sampleConfig :: "rc_lib" where
  "sampleConfig =
     \<lparr>rc_ReadFile = Some,
      rc_Decode = (\<lambda>_. Some \<lparr>rc_TrustDomain = ''td'', rc_SPIRESocket = ''/s'', rc_Interval = 0,
        rc_Clusters = [sampleEntry ''c1'', sampleEntry ''c2'']\<rparr>),
      rc_blocks = (\<lambda>d. [(''CERTIFICATE'', d)]), rc_ParseCertificate = (\<lambda>d. Some (sampleCert d)),
      RawSubject = Raw, RawIssuer = (\<lambda>_. []), CheckSignatureFrom = (=), rc_sha1 = (\<lambda>s. s), rc_AppendCertsFromPEM = (\<lambda>_. True)\<rparr>"

definition sampleReady :: "string \<Rightarrow> ClusterConfig" where
  "sampleReady n = (decoded_cluster (sampleEntry n))\<lparr>cc_Fingerprints := [hex_encode n]\<rparr>"

lemma sample_config_loads: "LoadConfig sampleConfig ''f'' = Inr \<lparr>rc_TrustDomain = ''td'', rc_SPIRESocket = ''/s'', rc_Interval = DefaultInterval,
    rc_Clusters = [sampleReady ''c1'', sampleReady ''c2'']\<rparr>"
  by code_simp

text \<open>
  C18: a configuration that loads keeps its clusters apart. The interval is at least ten seconds and the trust
  domain and every cluster name are valid segments; the names differ, every cluster has the fingerprints of its
  intermediates, each once, none of a self-signed certificate; and whatever guests two clusters report, no alias
  wanted for one has a selector set or, within one trust domain, an id of the other.
\<close>

theorem clusters_apart:
  assumes "LoadConfig P path = Inr cfg" "c \<in> set (rc_Clusters cfg)" "d \<in> set (rc_Clusters cfg)" "c \<noteq> d"
    and "a \<in> set (fst (Wanted td (cluster_of c) gs))" "b \<in> set (fst (Wanted td (cluster_of d) hs))"
  shows "MinInterval \<le> rc_Interval cfg \<and> validSegment (rc_TrustDomain cfg) \<and>
    list_all (\<lambda>c. validSegment (cc_Name c) \<and> cc_Fingerprints c \<noteq> [] \<and> distinct (cc_Fingerprints c) \<and>
      map (intermediateFingerprint P) (cc_Intermediates c) = map Inr (cc_Fingerprints c)) (rc_Clusters cfg) \<and>
    cc_Name c \<noteq> cc_Name d \<and> a_Selectors a \<noteq> a_Selectors b \<and> a_SPIFFEID a \<noteq> a_SPIFFEID b"
proof -
  note S = loaded [OF assms(1)]
  have names: "cc_Name c \<noteq> cc_Name d" using same_name [OF S(3) assms(2, 3)] assms(4) by blast
  note disjoint = S(6) [OF assms(2, 3) names]
  have "list_all (\<lambda>c. validSegment (cc_Name c) \<and> cc_Fingerprints c \<noteq> [] \<and> distinct (cc_Fingerprints c) \<and>
      map (intermediateFingerprint P) (cc_Intermediates c) = map Inr (cc_Fingerprints c)) (rc_Clusters cfg)"
    by (rule list.pred_mono_strong [OF S(4)]) (simp add: cluster_ok_def)
  moreover have "a_Selectors a \<noteq> a_Selectors b"
  proof -
    from assms(5) obtain v fp where a: "fp \<in> set (cc_Fingerprints c)" "a_Selectors a = [''tpm_devid:ca:fingerprint:'' @ fp, v]"
      unfolding Wanted_aliases cluster_of_def by auto
    from assms(6) obtain w fq where b: "fq \<in> set (cc_Fingerprints d)" "a_Selectors b = [''tpm_devid:ca:fingerprint:'' @ fq, w]"
      unfolding Wanted_aliases cluster_of_def by auto
    from a(1) b(1) disjoint have "fp \<noteq> fq" by blast
    with a(2) b(2) show ?thesis by simp
  qed
  moreover have "a_SPIFFEID a \<noteq> a_SPIFFEID b"
  proof
    assume "a_SPIFFEID a = a_SPIFFEID b"
    with alias_prefix [OF assms(5)] alias_prefix [OF assms(6)]
    have "HasPrefix (a_SPIFFEID a) (cluster_prefix td (cc_Name c))" "HasPrefix (a_SPIFFEID a) (cluster_prefix td (cc_Name d))"
      by (simp_all add: cluster_of_def)
    with S(5) [OF assms(2)] S(5) [OF assms(3)] names show False using cluster_prefix_apart by blast
  qed
  ultimately show ?thesis using S(1, 2) names by blast
qed

theorem clusters_apart_witness:
  "\<exists>a b. a \<in> set (fst (Wanted ''td'' (cluster_of (sampleReady ''c1'')) [\<lparr>g_VMID = ''8'', g_Pool = [], g_Tags = [], g_Template = False\<rparr>])) \<and>
     b \<in> set (fst (Wanted ''td'' (cluster_of (sampleReady ''c2'')) [\<lparr>g_VMID = ''8'', g_Pool = [], g_Tags = [], g_Template = False\<rparr>])) \<and>
     a_Selectors a \<noteq> a_Selectors b \<and> a_SPIFFEID a \<noteq> a_SPIFFEID b"
proof -
  let ?w = "\<lambda>n. Wanted ''td'' (cluster_of (sampleReady n)) [\<lparr>g_VMID = ''8'', g_Pool = [], g_Tags = [], g_Template = False\<rparr>]"
  have w: "fst (?w ''c1'') \<noteq> []" "fst (?w ''c2'') \<noteq> []" by code_simp+
  have ne: "sampleReady ''c1'' \<noteq> sampleReady ''c2''" by code_simp
  show ?thesis
    using clusters_apart [OF sample_config_loads _ _ ne hd_in_set [OF w(1)] hd_in_set [OF w(2)]]
      hd_in_set [OF w(1)] hd_in_set [OF w(2)] by auto
qed

lemma start_targets:
  assumes "build_targets P dial cs = Inr ts"
  shows "map fst ts = map cluster_of cs"
  using assms
  by (induction cs arbitrary: ts) (auto simp: cluster_of_def split: sum.splits option.splits)

lemma start_targets_ok:
  assumes "start P dial dialSpire path s = Some (Inr (td, rpc, ts))"
  shows "targets_ok (pass_targets dial' ts)" "map t_Name (pass_targets dial' ts) = map (c_Name \<circ> fst) ts"
proof -
  from assms obtain cfg where c: "LoadConfig P path = Inr cfg" "build_targets P dial (rc_Clusters cfg) = Inr ts"
    by (auto simp: start_def split: sum.splits option.splits)
  note S = loaded [OF c(1)]
  have names: "map t_Name (pass_targets dial' ts) = map (c_Name \<circ> fst) ts"
    by (simp add: pass_targets_def case_prod_beta comp_def)
  also have "\<dots> = map cc_Name (rc_Clusters cfg)"
    using arg_cong [OF start_targets [OF c(2)], of "map c_Name"] by (simp add: cluster_of_def comp_def)
  finally have eq: "map t_Name (pass_targets dial' ts) = map cc_Name (rc_Clusters cfg)" .
  moreover have "list_all validSegment (map cc_Name (rc_Clusters cfg))" using S(5) by (auto simp: list_all_iff)
  ultimately have "list_all validSegment (map t_Name (pass_targets dial' ts))" by (simp only:)
  with S(3) [folded eq] show "targets_ok (pass_targets dial' ts)" by (simp add: targets_ok_def list.pred_map comp_def)
  show "map t_Name (pass_targets dial' ts) = map (c_Name \<circ> fst) ts" by (rule names)
qed

lemma passes_frame:
  assumes "alias_server api td es ok" "ok s" "\<And>d :: ProxmoxClient \<Rightarrow> ('body, 'json) proxmox. targets_ok (pass_targets d ts)"
    and "passes api td ts (dials :: (ProxmoxClient \<Rightarrow> ('body, 'json) proxmox) list) s b = Some (s', b')"
  shows "filter_mset (\<lambda>e. \<forall>c \<in> fst ` set ts. \<not> owned td (c_Name c) e) (mset (es s'))
    = filter_mset (\<lambda>e. \<forall>c \<in> fst ` set ts. \<not> owned td (c_Name c) e) (mset (es s))"
  using assms(2, 4)
proof (induction dials arbitrary: s b)
  case (Cons d dials)
  let ?P = "\<lambda>e. \<forall>c \<in> fst ` set ts. \<not> owned td (c_Name c) e"
  from Cons.prems(2) obtain r sk s1 b1 where p: "Pass api td (pass_targets d ts) True s b = Some (r, sk, s1, b1)"
    and rest: "passes api td ts dials s1 b1 = Some (s', b')"
    by (auto split: option.splits)
  note F = alias_server.Pass_facts [OF assms(1) Cons.prems(1) assms(3) p]
  have "filter_mset ?P (mset (es s1)) = filter_mset ?P (mset (es s))"
    by (rule F(2)) (auto simp: pass_targets_def touched_def)
  with Cons.IH [OF F(1) rest] show ?case by simp
qed simp

text \<open>
  C19: the running program minds its own business. Started from any configuration that loads, through any number of
  passes, with whatever the clusters report in each and whatever errors occur, the entries of the SPIRE server
  that belong to no configured cluster stay exactly as they were.
\<close>

theorem program_frame:
  assumes "start P dial dialSpire path s = Some (Inr (td, rpc, ts))" "alias_server (SPIRE rpc td) td es ok" "ok s"
    and "passes (SPIRE rpc td) td ts dials s [] = Some (s', b')"
  shows "filter_mset (\<lambda>e. \<forall>c \<in> fst ` set ts. \<not> owned td (c_Name c) e) (mset (es s'))
    = filter_mset (\<lambda>e. \<forall>c \<in> fst ` set ts. \<not> owned td (c_Name c) e) (mset (es s))"
  by (rule passes_frame [OF assms(2, 3) start_targets_ok(1) [OF assms(1)] assms(4)])

text \<open>An API that grants the privileges and lists one machine, and a server with an alias of a third cluster.\<close>

definition samplePx :: "ProxmoxClient \<Rightarrow> (perms, perms) proxmox" where
  "samplePx c = \<lparr>px_token = pc_Token c, px_build = (\<lambda>_. True), px_do = (\<lambda>_. Inr (200, [(''/vms'', [(''VM.Audit'', 1)]), (''/pool'', [(''Pool.Audit'', 1)])])),
     px_decode = Some, px_perms = Some,
     px_list = (\<lambda>_. Some [\<lparr>res_VMID = ''8'', res_Type = ''qemu'', res_Pool = [], res_Tags = [], res_Template = 0\<rparr>])\<rparr>"

definition sampleForeign :: mem where
  "sampleForeign = \<lparr>m_entries = [alias_msg ''td'' ''/pve/c3/vm/7'' \<lparr>a_SPIFFEID = ''x'', a_Selectors = [''t:v'']\<rparr> \<lparr>em_Id := ''0''\<rparr>],
     m_agents = [], m_next = 1\<rparr>"

definition sampleStarted :: "(Cluster \<times> ProxmoxClient) list" where
  "sampleStarted = map (\<lambda>n. (cluster_of (sampleReady n), \<lparr>pc_BaseURL = ''https://'' @ n, pc_Token = ''token'', pc_RootCAs = None\<rparr>)) [''c1'', ''c2'']"

lemma sample_starts: "start sampleConfig samplePx (\<lambda>_. Some memServer) ''f'' sampleForeign = Some (Inr (''td'', memServer, sampleStarted))"
proof -
  have b: "build_targets sampleConfig samplePx [sampleReady ''c1'', sampleReady ''c2''] = Inr sampleStarted" by code_simp
  have "map_option (map_sum id length) (Entries memServer ''td'' sampleForeign) = Some (Inr 1)" by code_simp
  then obtain es where "Entries memServer ''td'' sampleForeign = Some (Inr es)"
    by (cases "Entries memServer ''td'' sampleForeign" rule: option.exhaust) (auto simp: map_sum_def split: sum.splits)
  with b show ?thesis by (simp add: start_def sample_config_loads)
qed

lemma sample_program_run: "map_option (\<lambda>(s', b). map e_SPIFFEID (mem_aliases ''td'' s'))
    (passes (SPIRE memServer ''td'') ''td'' sampleStarted [samplePx, samplePx] sampleForeign [])
  = Some [''spiffe://td/pve/c3/vm/7'', ''spiffe://td/pve/c1/vm/8'', ''spiffe://td/pve/c2/vm/8'']"
  by code_simp

theorem program_frame_witness:
  "\<exists>s' b'. passes (SPIRE memServer ''td'') ''td'' sampleStarted [samplePx, samplePx] sampleForeign [] = Some (s', b') \<and>
     filter_mset (\<lambda>e. \<forall>c \<in> fst ` set sampleStarted. \<not> owned ''td'' (c_Name c) e) (mset (mem_aliases ''td'' s'))
       = filter_mset (\<lambda>e. \<forall>c \<in> fst ` set sampleStarted. \<not> owned ''td'' (c_Name c) e) (mset (mem_aliases ''td'' sampleForeign))"
proof -
  obtain s' b' where run: "passes (SPIRE memServer ''td'') ''td'' sampleStarted [samplePx, samplePx] sampleForeign [] = Some (s', b')"
    using sample_program_run by (auto simp: map_option_case split: option.splits)
  have "mem_ok sampleForeign" by (simp add: mem_ok_def sampleForeign_def itoa_zero)
  from program_frame [OF sample_starts mem.alias_server_axioms this run] run show ?thesis by blast
qed

end
