(* ===== verification/Config.thy ===== *)
theory Config
  imports Go_Prelude
begin

text \<open>
  The configuration of the service, \<open>internal/config/config.go\<close>. The YAML decoder is a parameter:
  it overlays what the file says on the values it is given, or fails. So is
  \<open>time.ParseDuration\<close>, whose fractions are computed in floating point; no theorem depends on
  more than that a string gives one duration or none.

  The theorem: what \<open>Load\<close> accepts satisfies every condition the rest of the service relies on.
\<close>

record MDSConfig =
  ListenAddr :: string
  JWKSPath :: string
  AttestationCA :: string
  EKCAChain :: string
  DevIDCACert :: string
  DevIDCAKey :: string
  DevIDLifetime :: string
  TokenTTL :: string
  JWTTTL :: string
  EnableEC2Compat :: bool
  EnableTPMAttestation :: bool
  TPMDevice :: string
  HostTPMDevice :: string
  SigningKeyPath :: string
  InventoryPath :: string
  cfg_RequireVMIdentity :: bool
  cfg_ClusterPinDir :: string
  cfg_RequireClusterPin :: bool

definition MaxDevIDLifetime :: duration where
  "MaxDevIDLifetime = 8760 * hour"

definition DefaultConfig :: MDSConfig where
  "DefaultConfig =
     \<lparr>ListenAddr = ''169.254.169.1:80'', JWKSPath = ''/var/lib/vtpm-mds/jwks.json'',
      AttestationCA = ''/etc/vtpm-mds/attestation-ca.pem'', EKCAChain = ''/etc/vtpm-mds/ek-chain.pem'',
      DevIDCACert = ''/etc/vtpm-mds/devid-ca.pem'', DevIDCAKey = ''/etc/vtpm-mds/devid-ca-key.pem'',
      DevIDLifetime = ''2160h'', TokenTTL = ''60s'', JWTTTL = ''5m'', EnableEC2Compat = True,
      EnableTPMAttestation = True, TPMDevice = ''/dev/tpm0'', HostTPMDevice = ''/dev/tpmrm0'',
      SigningKeyPath = ''/var/lib/vtpm-mds/signing-key.pem'', InventoryPath = [],
      cfg_RequireVMIdentity = True, cfg_ClusterPinDir = ''/etc/pve/vtpm-ek'', cfg_RequireClusterPin = False\<rparr>"

datatype config_error =
    ConfigRead
  | ConfigParse
  | ListenAddrRequired
  | InvalidTokenTTL string
  | InvalidDevIDLifetime string
  | ClusterPinNeedsDir
  | ClusterPinWithInventory

definition Load ::
  "(string \<Rightarrow> MDSConfig \<Rightarrow> MDSConfig option) \<Rightarrow> (string \<Rightarrow> duration option) \<Rightarrow> string option
    \<Rightarrow> config_error + MDSConfig" where
  "Load overlay ParseDuration data =
     (case data of
        None \<Rightarrow> Inl ConfigRead
      | Some d \<Rightarrow>
          (case overlay d DefaultConfig of
             None \<Rightarrow> Inl ConfigParse
           | Some cfg \<Rightarrow>
               if ListenAddr cfg = [] then Inl ListenAddrRequired
               else if ParseDuration (TokenTTL cfg) = None then Inl (InvalidTokenTTL (TokenTTL cfg))
               else (case ParseDuration (DevIDLifetime cfg) of
                       None \<Rightarrow> Inl (InvalidDevIDLifetime (DevIDLifetime cfg))
                     | Some lifetime \<Rightarrow>
                         if lifetime \<le> 0 then Inl (InvalidDevIDLifetime (DevIDLifetime cfg))
                         else if lifetime > MaxDevIDLifetime then Inl (InvalidDevIDLifetime (DevIDLifetime cfg))
                         else if cfg_RequireClusterPin cfg
                         then if cfg_ClusterPinDir cfg = [] then Inl ClusterPinNeedsDir
                              else if InventoryPath cfg \<noteq> [] then Inl ClusterPinWithInventory
                              else Inr cfg
                         else Inr cfg)))"

definition config_ok :: "(string \<Rightarrow> duration option) \<Rightarrow> MDSConfig \<Rightarrow> bool" where
  "config_ok pd cfg \<longleftrightarrow> ListenAddr cfg \<noteq> [] \<and> pd (TokenTTL cfg) \<noteq> None
     \<and> (\<exists>d. pd (DevIDLifetime cfg) = Some d \<and> 0 < d \<and> d \<le> MaxDevIDLifetime)
     \<and> (cfg_RequireClusterPin cfg \<longrightarrow> cfg_ClusterPinDir cfg \<noteq> [] \<and> InventoryPath cfg = [])"

text \<open>
  A configuration loads exactly when it is usable: the file can be read and decoded, there is
  a listen address, both durations parse, the certificate lifetime is positive and at most
  8760 hours, and cluster pins are required only where they are read. What loads is the defaults
  overlaid by the file and nothing else.
\<close>

lemma Load_exact:
  "Load overlay pd data = Inr cfg \<longleftrightarrow>
     (\<exists>d. data = Some d \<and> overlay d DefaultConfig = Some cfg \<and> config_ok pd cfg)"
proof (cases data)
  case (Some d)
  show ?thesis
  proof (cases "overlay d DefaultConfig")
    case over: (Some c)
    show ?thesis
      using Some over
      by (cases "pd (DevIDLifetime c)") (auto simp: Load_def config_ok_def not_le not_less split: if_splits)
  qed (simp add: Load_def Some)
qed (simp add: Load_def)

end
