(* ===== verification/Http.thy ===== *)
theory Http
  imports Inventory
begin

text \<open>
  The part of \<open>net/http\<close> that the handlers use. A \<open>Request\<close> carries what a handler reads: the
  method, the path, the \<open>Host\<close>, the peer address, the headers (under their canonical names),
  the wildcard values of the route, and the VM record that the connection's context holds.
  A \<open>ResponseWriter\<close> collects the status, the headers and the body; as in Go, the first
  write fixes the status (200 when none was given) and a header set after it is not sent.

  JSON is kept as a value: what \<open>encoding/json\<close> makes of it is not needed.
\<close>

datatype json = JString string | JBool bool | JInt int | JNull | JObject "(string \<times> json) list"

datatype chunk = Text string | JSON json

record Request =
  Method :: string
  Path :: string
  Host :: string
  RemoteAddr :: string
  Header :: "(string \<times> string) list"
  PathValues :: "(string \<times> string) list"
  VMConfigContext :: "VMConfig option"

record ResponseWriter =
  RespHeader :: "(string \<times> string) list"
  StatusCode :: "nat option"
  Body :: "chunk list"

definition newResponse :: ResponseWriter where
  "newResponse = \<lparr>RespHeader = [], StatusCode = None, Body = []\<rparr>"

definition header_get :: "Request \<Rightarrow> string \<Rightarrow> string" where
  "header_get r k = (case map_of (Header r) k of None \<Rightarrow> [] | Some v \<Rightarrow> v)"

definition PathValue :: "Request \<Rightarrow> string \<Rightarrow> string" where
  "PathValue r k = (case map_of (PathValues r) k of None \<Rightarrow> [] | Some v \<Rightarrow> v)"

definition header_set :: "string \<Rightarrow> string \<Rightarrow> ResponseWriter \<Rightarrow> ResponseWriter" where
  "header_set k v w =
     (if StatusCode w = None then w\<lparr>RespHeader := AList.update k v (RespHeader w)\<rparr> else w)"

definition WriteHeader :: "nat \<Rightarrow> ResponseWriter \<Rightarrow> ResponseWriter" where
  "WriteHeader code w = (if StatusCode w = None then w\<lparr>StatusCode := Some code\<rparr> else w)"

definition write_chunk :: "chunk \<Rightarrow> ResponseWriter \<Rightarrow> ResponseWriter" where
  "write_chunk c w = (let w' = WriteHeader 200 w in w'\<lparr>Body := Body w' @ [c]\<rparr>)"

definition Fprint :: "string \<Rightarrow> ResponseWriter \<Rightarrow> ResponseWriter" where
  "Fprint s w = write_chunk (Text s) w"

definition newline :: string where
  "newline = [CHR 0x0A]"

definition Fprintln :: "string \<Rightarrow> ResponseWriter \<Rightarrow> ResponseWriter" where
  "Fprintln s w = Fprint (s @ newline) w"

definition Encode :: "json \<Rightarrow> ResponseWriter \<Rightarrow> ResponseWriter" where
  "Encode j w = write_chunk (JSON j) w"

text \<open>The status that reaches the client: a handler that writes nothing answers 200.\<close>

definition status :: "ResponseWriter \<Rightarrow> nat" where
  "status w = (case StatusCode w of None \<Rightarrow> 200 | Some c \<Rightarrow> c)"

definition http_Error :: "string \<Rightarrow> nat \<Rightarrow> ResponseWriter \<Rightarrow> ResponseWriter" where
  "http_Error msg code w =
     Fprintln msg
       (WriteHeader code
         (header_set ''X-Content-Type-Options'' ''nosniff''
           (header_set ''Content-Type'' ''text/plain; charset=utf-8'' w)))"

definition NotFound :: "ResponseWriter \<Rightarrow> ResponseWriter" where
  "NotFound w = http_Error ''404 page not found'' 404 w"

text \<open>\<open>http.Redirect\<close> to an absolute path: the short HTML body is written for GET only.\<close>

definition Redirect :: "Request \<Rightarrow> string \<Rightarrow> nat \<Rightarrow> ResponseWriter \<Rightarrow> ResponseWriter" where
  "Redirect r url code w =
     (let w1 = header_set ''Location'' url w;
          w2 = (if Method r = ''GET'' \<or> Method r = ''HEAD''
                then header_set ''Content-Type'' ''text/html; charset=utf-8'' w1 else w1);
          w3 = WriteHeader code w2 in
      if Method r = ''GET''
      then Fprintln (''<a href='' @ [CHR 0x22] @ url @ [CHR 0x22] @ ''>Moved Permanently</a>.'' @ newline) w3
      else w3)"

text \<open>\<open>strings.Join\<close> of the lines a handler printed, for reading a plain-text body back.\<close>

fun chunk_text :: "chunk \<Rightarrow> string" where
  "chunk_text (Text s) = s"
| "chunk_text (JSON j) = []"

definition body_text :: "ResponseWriter \<Rightarrow> string" where
  "body_text w = concat (map chunk_text (Body w))"

definition print_lines :: "string list \<Rightarrow> ResponseWriter \<Rightarrow> ResponseWriter" where
  "print_lines ls w = fold Fprintln ls w"

subsection \<open>What the writer operations do to a fresh response\<close>

named_theorems http_simps \<open>reading the status, the headers and the body of a response\<close>

lemma newResponse_sel [http_simps]:
  "RespHeader newResponse = []" "StatusCode newResponse = None" "Body newResponse = []"
  by (simp_all add: newResponse_def)

lemma header_set_sel [http_simps]:
  "StatusCode (header_set k v w) = StatusCode w" "Body (header_set k v w) = Body w"
  "RespHeader (header_set k v w) =
     (if StatusCode w = None then AList.update k v (RespHeader w) else RespHeader w)"
  by (simp_all add: header_set_def)

lemma WriteHeader_sel [http_simps]:
  "StatusCode (WriteHeader c w) = (if StatusCode w = None then Some c else StatusCode w)"
  "Body (WriteHeader c w) = Body w" "RespHeader (WriteHeader c w) = RespHeader w"
  by (simp_all add: WriteHeader_def)

lemma write_chunk_sel [http_simps]:
  "StatusCode (write_chunk c w) = (if StatusCode w = None then Some 200 else StatusCode w)"
  "Body (write_chunk c w) = Body w @ [c]" "RespHeader (write_chunk c w) = RespHeader w"
  by (simp_all add: write_chunk_def WriteHeader_def Let_def)

lemma print_lines_sel [http_simps]:
  "StatusCode (print_lines ls w) =
     (if StatusCode w = None \<and> ls \<noteq> [] then Some 200 else StatusCode w)"
  "Body (print_lines ls w) = Body w @ map (\<lambda>l. Text (l @ newline)) ls"
  "RespHeader (print_lines ls w) = RespHeader w"
  by (induction ls arbitrary: w)
     (auto simp: print_lines_def Fprintln_def Fprint_def write_chunk_sel)

lemmas http_defs = Fprint_def Fprintln_def Encode_def http_Error_def NotFound_def status_def

end
