(* ===== verification/Token_Store.thy ===== *)
theory Token_Store
  imports Go_Encoding
begin

text \<open>
  The IMDSv2 token store, \<open>imds/token.go\<close>. The record \<open>TokenStore\<close> is the Go struct less
  its mutex and its ticker: every operation below runs with \<open>ts.mu\<close> held, so it is one
  step on the record and an interleaving of callers is a sequence of these steps.
  \<open>*Token\<close> values are never changed after they are stored, so a pointer is modelled by
  the token itself. The clock and the random bytes are arguments.

  The second half shows the store's invariant (the two indexes agree and the counter
  counts them), that every operation keeps it, the per-peer quota, the global cap, the
  isolation of peers from each other and the life of a token.
\<close>

subsection \<open>The store and its operations\<close>

definition MaxLiveTokensPerPeer :: int where
  "MaxLiveTokensPerPeer = 32"

definition GlobalTokenEmergencyCap :: int where
  "GlobalTokenEmergencyCap = 65536"

datatype token_error = ErrRandom | ErrTokenStoreEmergency

record Token =
  Token :: string
  ExpiresAt :: time
  CreatedAt :: time
  Peer :: string

record TokenStore =
  tokens :: "(string \<times> Token) list"
  byPeer :: "(string \<times> Token list) list"
  liveCount :: int
  emergencyBrake :: bool
  tokenTTL :: duration

text \<open>The one line the store writes: \<open>token store emergency brake: peer=.. size=.. cap=..\<close>.\<close>

datatype token_log = BrakeEngaged string int int

definition NewTokenStore :: "duration \<Rightarrow> TokenStore" where
  "NewTokenStore ttl =
     \<lparr>tokens = [], byPeer = [], liveCount = 0, emergencyBrake = False, tokenTTL = ttl\<rparr>"

text \<open>\<open>ts.byPeer[peer]\<close>: a missing key reads as the nil slice.\<close>

definition peerList :: "TokenStore \<Rightarrow> string \<Rightarrow> Token list" where
  "peerList ts peer = (case map_of (byPeer ts) peer of None \<Rightarrow> [] | Some l \<Rightarrow> l)"

text \<open>\<open>delete(ts.tokens, tok.Token); ts.liveCount--\<close>.\<close>

definition dropToken :: "Token \<Rightarrow> TokenStore \<Rightarrow> TokenStore" where
  "dropToken tok ts =
     ts\<lparr>tokens := AList.delete (Token tok) (tokens ts), liveCount := liveCount ts - 1\<rparr>"

text \<open>The tail shared by both loops: an empty list deletes the peer's entry.\<close>

definition storePeerList :: "string \<Rightarrow> Token list \<Rightarrow> TokenStore \<Rightarrow> TokenStore" where
  "storePeerList peer l ts =
     (if l = [] then ts\<lparr>byPeer := AList.delete peer (byPeer ts)\<rparr>
      else ts\<lparr>byPeer := AList.update peer l (byPeer ts)\<rparr>)"

fun prune_loop :: "time \<Rightarrow> Token list \<Rightarrow> TokenStore \<Rightarrow> Token list \<times> TokenStore" where
  "prune_loop now [] ts = ([], ts)"
| "prune_loop now (tok # rest) ts =
     (if now > ExpiresAt tok then prune_loop now rest (dropToken tok ts)
      else (case prune_loop now rest ts of (kept, ts') \<Rightarrow> (tok # kept, ts')))"

definition prunePeerExpiredLocked :: "string \<Rightarrow> time \<Rightarrow> TokenStore \<Rightarrow> TokenStore" where
  "prunePeerExpiredLocked peer now ts =
     (let list = peerList ts peer in
      if list = [] then ts
      else (case prune_loop now list ts of (kept, ts') \<Rightarrow> storePeerList peer kept ts'))"

fun evict_loop :: "int \<Rightarrow> Token list \<Rightarrow> TokenStore \<Rightarrow> Token list \<times> TokenStore" where
  "evict_loop keep [] ts = ([], ts)"
| "evict_loop keep (oldest # rest) ts =
     (if int (length (oldest # rest)) > keep then evict_loop keep rest (dropToken oldest ts)
      else (oldest # rest, ts))"

definition evictOldestOfPeerLocked :: "string \<Rightarrow> int \<Rightarrow> TokenStore \<Rightarrow> TokenStore" where
  "evictOldestOfPeerLocked peer keep ts =
     (let keep' = (if keep < 0 then 0 else keep) in
      case evict_loop keep' (peerList ts peer) ts of
        (l, ts') \<Rightarrow> storePeerList peer l ts')"

definition discardExpiredLocked :: "time \<Rightarrow> TokenStore \<Rightarrow> TokenStore" where
  "discardExpiredLocked now ts =
     fold (\<lambda>peer s. prunePeerExpiredLocked peer now s) (map fst (byPeer ts)) ts"

text \<open>
  \<open>rnd\<close> is the 32 bytes \<open>rand.Read\<close> gave, or \<open>None\<close> for its error. The result is the
  answer, the store and the log lines.
\<close>

definition generateTokenAt ::
  "string \<Rightarrow> time \<Rightarrow> string option \<Rightarrow> TokenStore
    \<Rightarrow> (token_error + Token) \<times> TokenStore \<times> token_log list" where
  "generateTokenAt peer0 now rnd ts =
     (let peer = (if peer0 = [] then ''unknown'' else peer0) in
      case rnd of
        None \<Rightarrow> (Inl ErrRandom, ts, [])
      | Some b \<Rightarrow>
          (let tokenValue = EncodeToString b;
               token = \<lparr>Token = tokenValue, ExpiresAt = now + tokenTTL ts,
                        CreatedAt = now, Peer = peer\<rparr>;
               ts1 = prunePeerExpiredLocked peer now ts;
               ts2 = evictOldestOfPeerLocked peer (MaxLiveTokensPerPeer - 1) ts1 in
           if liveCount ts2 \<ge> GlobalTokenEmergencyCap then
             (if \<not> emergencyBrake ts2
              then (Inl ErrTokenStoreEmergency, ts2\<lparr>emergencyBrake := True\<rparr>,
                    [BrakeEngaged peer (liveCount ts2) GlobalTokenEmergencyCap])
              else (Inl ErrTokenStoreEmergency, ts2, []))
           else
             (Inr token,
              ts2\<lparr>emergencyBrake := False,
                  tokens := AList.update tokenValue token (tokens ts2),
                  byPeer := AList.update peer (peerList ts2 peer @ [token]) (byPeer ts2),
                  liveCount := liveCount ts2 + 1\<rparr>,
              [])))"

definition ValidateToken :: "TokenStore \<Rightarrow> time \<Rightarrow> string \<Rightarrow> bool" where
  "ValidateToken ts now tokenStr =
     (case map_of (tokens ts) tokenStr of
        None \<Rightarrow> False
      | Some token \<Rightarrow> if now > ExpiresAt token then False else True)"

definition LiveTokenCount :: "time \<Rightarrow> TokenStore \<Rightarrow> int \<times> TokenStore" where
  "LiveTokenCount now ts = (let ts' = discardExpiredLocked now ts in (liveCount ts', ts'))"

definition LiveTokenCountForPeer :: "string \<Rightarrow> time \<Rightarrow> TokenStore \<Rightarrow> nat \<times> TokenStore" where
  "LiveTokenCountForPeer peer now ts =
     (let ts' = prunePeerExpiredLocked peer now ts in (length (peerList ts' peer), ts'))"

text \<open>One turn of the \<open>cleanupExpired\<close> loop, on a tick of the minute ticker.\<close>

definition cleanupExpired :: "time \<Rightarrow> TokenStore \<Rightarrow> TokenStore" where
  "cleanupExpired now ts =
     (let ts' = discardExpiredLocked now ts in
      if liveCount ts' < GlobalTokenEmergencyCap then ts'\<lparr>emergencyBrake := False\<rparr> else ts')"

subsection \<open>What the two loops compute\<close>

definition dropTokens :: "Token list \<Rightarrow> TokenStore \<Rightarrow> TokenStore" where
  "dropTokens R ts = fold dropToken R ts"

lemma dropTokens_fields [simp]:
  "byPeer (dropTokens R ts) = byPeer ts"
  "emergencyBrake (dropTokens R ts) = emergencyBrake ts"
  "tokenTTL (dropTokens R ts) = tokenTTL ts"
  "liveCount (dropTokens R ts) = liveCount ts - int (length R)"
  "tokens (dropTokens R ts) = filter (\<lambda>(k, _). k \<notin> Token ` set R) (tokens ts)"
proof -
  have "byPeer (dropTokens R ts) = byPeer ts \<and>
        emergencyBrake (dropTokens R ts) = emergencyBrake ts \<and>
        tokenTTL (dropTokens R ts) = tokenTTL ts \<and>
        liveCount (dropTokens R ts) = liveCount ts - int (length R) \<and>
        tokens (dropTokens R ts) = filter (\<lambda>(k, _). k \<notin> Token ` set R) (tokens ts)"
  proof (induction R arbitrary: ts)
    case Nil
    then show ?case by (simp add: dropTokens_def)
  next
    case (Cons a R)
    have "dropTokens (a # R) ts = dropTokens R (dropToken a ts)"
      by (simp add: dropTokens_def)
    then show ?case
      using Cons.IH [of "dropToken a ts"]
      by (auto simp: dropToken_def AList.delete_eq intro!: filter_cong)
  qed
  then show
    "byPeer (dropTokens R ts) = byPeer ts"
    "emergencyBrake (dropTokens R ts) = emergencyBrake ts"
    "tokenTTL (dropTokens R ts) = tokenTTL ts"
    "liveCount (dropTokens R ts) = liveCount ts - int (length R)"
    "tokens (dropTokens R ts) = filter (\<lambda>(k, _). k \<notin> Token ` set R) (tokens ts)"
    by blast+
qed

lemma prune_loop_eq:
  "prune_loop now l ts =
     (filter (\<lambda>t. now \<le> ExpiresAt t) l, dropTokens (filter (\<lambda>t. now > ExpiresAt t) l) ts)"
  by (induction now l ts rule: prune_loop.induct) (auto simp: dropTokens_def)

lemma evict_loop_eq:
  "0 \<le> keep \<Longrightarrow> evict_loop keep l ts =
     (drop (length l - nat keep) l, dropTokens (take (length l - nat keep) l) ts)"
proof (induction keep l ts rule: evict_loop.induct)
  case (2 keep oldest rest ts)
  show ?case
  proof (cases "int (length (oldest # rest)) > keep")
    case True
    then have "length (oldest # rest) - nat keep = Suc (length rest - nat keep)"
      using 2 by simp
    with True 2 show ?thesis by (simp add: dropTokens_def)
  next
    case False
    then have "length (oldest # rest) - nat keep = 0" by simp
    with False show ?thesis by (simp add: dropTokens_def)
  qed
qed (simp add: dropTokens_def)

lemma peerList_storePeerList [simp]:
  "peerList (storePeerList p l ts) q = (if q = p then l else peerList ts q)"
  by (simp add: storePeerList_def peerList_def)

lemma storePeerList_fields [simp]:
  "tokens (storePeerList p l ts) = tokens ts"
  "liveCount (storePeerList p l ts) = liveCount ts"
  "emergencyBrake (storePeerList p l ts) = emergencyBrake ts"
  "tokenTTL (storePeerList p l ts) = tokenTTL ts"
  by (simp_all add: storePeerList_def)

text \<open>Both removals are one operation: split the peer's list, keep one part, drop the other.\<close>

definition shrinkPeer :: "string \<Rightarrow> Token list \<Rightarrow> Token list \<Rightarrow> TokenStore \<Rightarrow> TokenStore" where
  "shrinkPeer p R K ts = storePeerList p K (dropTokens R ts)"

lemma peerList_dropTokens [simp]: "peerList (dropTokens R ts) p = peerList ts p"
  by (simp add: peerList_def)

lemma prunePeer_eq:
  "peerList ts p \<noteq> [] \<Longrightarrow> prunePeerExpiredLocked p now ts =
     shrinkPeer p (filter (\<lambda>t. now > ExpiresAt t) (peerList ts p))
       (filter (\<lambda>t. now \<le> ExpiresAt t) (peerList ts p)) ts"
  by (simp add: prunePeerExpiredLocked_def prune_loop_eq shrinkPeer_def Let_def)

lemma prunePeer_none [simp]: "peerList ts p = [] \<Longrightarrow> prunePeerExpiredLocked p now ts = ts"
  by (simp add: prunePeerExpiredLocked_def)

lemma evictOldest_eq:
  "evictOldestOfPeerLocked p keep ts =
     shrinkPeer p (take (length (peerList ts p) - nat keep) (peerList ts p))
       (drop (length (peerList ts p) - nat keep) (peerList ts p)) ts"
  by (simp add: evictOldestOfPeerLocked_def evict_loop_eq shrinkPeer_def Let_def)

subsection \<open>The invariant\<close>

text \<open>
  The index by value and the index by peer hold the same tokens, no peer has an empty list,
  no token is listed twice and \<open>liveCount\<close> counts the tokens.
\<close>

definition store_ok :: "TokenStore \<Rightarrow> bool" where
  "store_ok ts \<longleftrightarrow>
     distinct (map fst (tokens ts)) \<and> distinct (map fst (byPeer ts)) \<and>
     (\<forall>p l. map_of (byPeer ts) p = Some l \<longrightarrow> l \<noteq> []) \<and>
     (\<forall>p. distinct (peerList ts p)) \<and>
     (\<forall>p t. t \<in> set (peerList ts p) \<longrightarrow> Peer t = p \<and> map_of (tokens ts) (Token t) = Some t) \<and>
     (\<forall>v t. map_of (tokens ts) v = Some t \<longrightarrow> Token t = v \<and> t \<in> set (peerList ts (Peer t))) \<and>
     liveCount ts = int (length (tokens ts))"

lemma store_okD:
  assumes "store_ok ts"
  shows "distinct (map fst (tokens ts))" "distinct (map fst (byPeer ts))"
    "map_of (byPeer ts) p = Some l \<Longrightarrow> l \<noteq> []" "distinct (peerList ts p)"
    "t \<in> set (peerList ts p) \<Longrightarrow> Peer t = p"
    "t \<in> set (peerList ts p) \<Longrightarrow> map_of (tokens ts) (Token t) = Some t"
    "map_of (tokens ts) v = Some t \<Longrightarrow> Token t = v"
    "map_of (tokens ts) v = Some t \<Longrightarrow> t \<in> set (peerList ts (Peer t))"
    "liveCount ts = int (length (tokens ts))"
  using assms by (auto simp: store_ok_def)

lemma store_ok_New: "store_ok (NewTokenStore ttl)"
  by (simp add: store_ok_def NewTokenStore_def peerList_def)

lemma map_of_filter_key:
  "map_of (filter (\<lambda>(k, _). k \<notin> A) m) k = (if k \<in> A then None else map_of m k)"
  by (induction m) auto

lemma length_filter_keys:
  assumes "distinct (map fst m)" "A \<subseteq> fst ` set m"
  shows "int (length (filter (\<lambda>(k, _). k \<notin> A) m)) = int (length m) - int (card A)"
proof -
  have "length (filter (\<lambda>(k, _). k \<notin> A) m) = length (filter (\<lambda>k. k \<notin> A) (map fst m))"
    by (simp add: filter_map comp_def case_prod_beta')
  moreover have "length (filter (\<lambda>k. k \<in> A) (map fst m)) = card A"
  proof -
    have "set (filter (\<lambda>k. k \<in> A) (map fst m)) = A" using assms(2) by auto
    then show ?thesis using assms(1) by (metis distinct_card distinct_filter)
  qed
  moreover have "length (filter (\<lambda>k. k \<in> A) (map fst m))
      + length (filter (\<lambda>k. k \<notin> A) (map fst m)) = length m"
    using sum_length_filter_compl [of "\<lambda>k. k \<in> A" "map fst m"] by simp
  ultimately show ?thesis by linarith
qed

lemma store_ok_value_inj:
  assumes "store_ok ts" "t \<in> set (peerList ts p)" "u \<in> set (peerList ts q)" "Token t = Token u"
  shows "t = u"
  using store_okD(6) [OF assms(1,2)] store_okD(6) [OF assms(1,3)] assms(4)
  by (metis option.inject)

lemma store_ok_listed_keys:
  assumes "store_ok ts"
  shows "Token ` set (peerList ts p) \<subseteq> fst ` set (tokens ts)"
proof
  fix k assume "k \<in> Token ` set (peerList ts p)"
  then obtain r where "r \<in> set (peerList ts p)" "k = Token r" by blast
  then have "map_of (tokens ts) k = Some r" using store_okD(6) [OF assms] by simp
  then show "k \<in> fst ` set (tokens ts)" by (metis map_of_SomeD fst_conv image_eqI)
qed

lemma shrinkPeer_peerList:
  "peerList (shrinkPeer p R K ts) q = (if q = p then K else peerList ts q)"
  by (simp add: shrinkPeer_def)

lemma shrinkPeer_lookup:
  "map_of (tokens (shrinkPeer p R K ts)) v =
     (if v \<in> Token ` set R then None else map_of (tokens ts) v)"
  by (simp add: shrinkPeer_def map_of_filter_key)

lemma shrinkPeer_split:
  assumes ok: "store_ok ts" and split: "mset (peerList ts p) = mset R + mset K"
  shows "set (peerList ts p) = set R \<union> set K" "distinct R" "distinct K" "set R \<inter> set K = {}"
    "card (Token ` set R) = length R"
proof -
  show sets: "set (peerList ts p) = set R \<union> set K"
    using arg_cong [OF split, of set_mset] by simp
  have "mset (peerList ts p) = mset (R @ K)" using split by simp
  then have "distinct (R @ K)" using store_okD(4) [OF ok] mset_eq_imp_distinct_iff by blast
  then show "distinct R" "distinct K" "set R \<inter> set K = {}" by auto
  then show "card (Token ` set R) = length R"
    using store_ok_value_inj [OF ok] sets
    by (metis UnI1 card_image distinct_card inj_onI)
qed

lemma shrinkPeer_count:
  assumes ok: "store_ok ts" and split: "mset (peerList ts p) = mset R + mset K"
  shows "liveCount (shrinkPeer p R K ts) = int (length (tokens (shrinkPeer p R K ts)))"
proof -
  have "Token ` set R \<subseteq> fst ` set (tokens ts)"
    using store_ok_listed_keys [OF ok, of p] shrinkPeer_split(1) [OF assms] by auto
  then show ?thesis
    using length_filter_keys [OF store_okD(1) [OF ok]] store_okD(9) [OF ok]
      shrinkPeer_split(5) [OF assms]
    by (simp add: shrinkPeer_def)
qed

lemma shrinkPeer_kept:
  assumes ok: "store_ok ts" and split: "mset (peerList ts p) = mset R + mset K"
    and t: "t \<in> set (peerList (shrinkPeer p R K ts) q)"
  shows "t \<in> set (peerList ts q)" "t \<notin> set R"
proof -
  note sets = shrinkPeer_split [OF ok split]
  show "t \<in> set (peerList ts q)"
    using t sets(1) by (auto simp: shrinkPeer_peerList split: if_splits)
  then have "q \<noteq> p \<Longrightarrow> t \<notin> set (peerList ts p)"
    using store_okD(5) [OF ok] by blast
  then show "t \<notin> set R"
    using t sets(1,4) by (auto simp: shrinkPeer_peerList split: if_splits)
qed

lemma shrinkPeer_ok:
  assumes ok: "store_ok ts" and split: "mset (peerList ts p) = mset R + mset K"
  shows "store_ok (shrinkPeer p R K ts)"
  unfolding store_ok_def
proof (intro conjI allI impI)
  let ?ts = "shrinkPeer p R K ts"
  note sets = shrinkPeer_split [OF ok split]
  fix q t assume t: "t \<in> set (peerList ?ts q)"
  note kept = shrinkPeer_kept [OF ok split t]
  show "Peer t = q" using store_okD(5) [OF ok kept(1)] .
  have "Token t \<notin> Token ` set R"
    using store_ok_value_inj [OF ok kept(1)] kept(2) sets(1) by blast
  then show "map_of (tokens ?ts) (Token t) = Some t"
    using store_okD(6) [OF ok kept(1)] by (simp add: shrinkPeer_lookup)
next
  let ?ts = "shrinkPeer p R K ts"
  fix v t assume "map_of (tokens ?ts) v = Some t"
  then have v: "map_of (tokens ts) v = Some t" "v \<notin> Token ` set R"
    by (auto simp: shrinkPeer_lookup split: if_splits)
  then show "Token t = v" using store_okD(7) [OF ok] by blast
  then have "t \<notin> set R" using v(2) by blast
  then show "t \<in> set (peerList ?ts (Peer t))"
    using store_okD(8) [OF ok v(1)] shrinkPeer_split(1) [OF ok split]
    by (auto simp: shrinkPeer_peerList)
next
  fix q l assume "map_of (byPeer (shrinkPeer p R K ts)) q = Some l"
  then show "l \<noteq> []"
    using store_okD(3) [OF ok] by (auto simp: shrinkPeer_def storePeerList_def split: if_splits)
next
  fix q show "distinct (peerList (shrinkPeer p R K ts) q)"
    using store_okD(4) [OF ok] shrinkPeer_split(3) [OF ok split] by (simp add: shrinkPeer_peerList)
qed (use store_okD(1,2) [OF ok] shrinkPeer_count [OF ok split] in
    \<open>simp_all add: shrinkPeer_def storePeerList_def distinct_map_filter\<close>)

lemma prunePeer_ok [simp]: "store_ok ts \<Longrightarrow> store_ok (prunePeerExpiredLocked p now ts)"
proof (cases "peerList ts p = []")
  case False
  assume ok: "store_ok ts"
  have "mset (peerList ts p) = mset (filter (\<lambda>t. now > ExpiresAt t) (peerList ts p))
      + mset (filter (\<lambda>t. now \<le> ExpiresAt t) (peerList ts p))"
    using multiset_partition [of "mset (peerList ts p)" "\<lambda>t. now > ExpiresAt t"]
    by (simp add: not_less)
  then show ?thesis by (simp only: prunePeer_eq [OF False] shrinkPeer_ok [OF ok])
qed simp

lemma evictOldest_ok [simp]: "store_ok ts \<Longrightarrow> store_ok (evictOldestOfPeerLocked p keep ts)"
  unfolding evictOldest_eq
  by (rule shrinkPeer_ok) (simp_all flip: mset_append)

lemma fold_prune_ok: "store_ok ts \<Longrightarrow> store_ok (fold (\<lambda>p s. prunePeerExpiredLocked p now s) ps ts)"
  by (induction ps arbitrary: ts) simp_all

lemma discardExpired_ok [simp]: "store_ok ts \<Longrightarrow> store_ok (discardExpiredLocked now ts)"
  by (simp add: discardExpiredLocked_def fold_prune_ok)

lemma store_ok_brake [simp]: "store_ok (ts\<lparr>emergencyBrake := b\<rparr>) \<longleftrightarrow> store_ok ts"
  by (simp add: store_ok_def peerList_def)

lemma cleanupExpired_ok: "store_ok ts \<Longrightarrow> store_ok (cleanupExpired now ts)"
  by (simp add: cleanupExpired_def Let_def)

subsection \<open>Minting a token\<close>

lemma prunePeer_peerList [simp]:
  "peerList (prunePeerExpiredLocked p now ts) q =
     (if q = p then filter (\<lambda>t. now \<le> ExpiresAt t) (peerList ts p) else peerList ts q)"
  by (cases "peerList ts p = []") (auto simp: prunePeer_eq shrinkPeer_peerList)

lemma evictOldest_peerList [simp]:
  "peerList (evictOldestOfPeerLocked p keep ts) q =
     (if q = p then drop (length (peerList ts p) - nat keep) (peerList ts p) else peerList ts q)"
  by (simp add: evictOldest_eq shrinkPeer_peerList)

lemma shrinkPeer_fields [simp]:
  "emergencyBrake (shrinkPeer p R K ts) = emergencyBrake ts"
  "tokenTTL (shrinkPeer p R K ts) = tokenTTL ts"
  "liveCount (shrinkPeer p R K ts) = liveCount ts - int (length R)"
  by (simp_all add: shrinkPeer_def)

lemma prunePeer_fields [simp]:
  "emergencyBrake (prunePeerExpiredLocked p now ts) = emergencyBrake ts"
  "tokenTTL (prunePeerExpiredLocked p now ts) = tokenTTL ts"
  by (cases "peerList ts p = []"; simp add: prunePeer_eq)+

lemma prunePeer_count: "liveCount (prunePeerExpiredLocked p now ts) \<le> liveCount ts"
  by (cases "peerList ts p = []") (simp_all add: prunePeer_eq)

lemma evictOldest_fields [simp]:
  "emergencyBrake (evictOldestOfPeerLocked p keep ts) = emergencyBrake ts"
  "tokenTTL (evictOldestOfPeerLocked p keep ts) = tokenTTL ts"
  by (simp_all add: evictOldest_eq)

lemma evictOldest_count: "liveCount (evictOldestOfPeerLocked p keep ts) \<le> liveCount ts"
  by (simp add: evictOldest_eq)

text \<open>The state in which \<^const>\<open>generateTokenAt\<close> decides: expired and surplus tokens gone.\<close>

definition mintRoom :: "string \<Rightarrow> time \<Rightarrow> TokenStore \<Rightarrow> TokenStore" where
  "mintRoom peer now ts =
     evictOldestOfPeerLocked peer (MaxLiveTokensPerPeer - 1) (prunePeerExpiredLocked peer now ts)"

definition mintPeer :: "string \<Rightarrow> string" where
  "mintPeer peer = (if peer = [] then ''unknown'' else peer)"

definition addToken :: "Token \<Rightarrow> TokenStore \<Rightarrow> TokenStore" where
  "addToken token ts =
     ts\<lparr>emergencyBrake := False,
        tokens := AList.update (Token token) token (tokens ts),
        byPeer := AList.update (Peer token) (peerList ts (Peer token) @ [token]) (byPeer ts),
        liveCount := liveCount ts + 1\<rparr>"

definition mintToken :: "string \<Rightarrow> time \<Rightarrow> string \<Rightarrow> TokenStore \<Rightarrow> Token" where
  "mintToken peer now b ts =
     \<lparr>Token = EncodeToString b, ExpiresAt = now + tokenTTL ts, CreatedAt = now, Peer = mintPeer peer\<rparr>"

lemma generateTokenAt_cases:
  "generateTokenAt peer now (Some b) ts =
     (let ts2 = mintRoom (mintPeer peer) now ts in
      if liveCount ts2 \<ge> GlobalTokenEmergencyCap then
        (Inl ErrTokenStoreEmergency, ts2\<lparr>emergencyBrake := True\<rparr>,
         if emergencyBrake ts then []
         else [BrakeEngaged (mintPeer peer) (liveCount ts2) GlobalTokenEmergencyCap])
      else (Inr (mintToken peer now b ts), addToken (mintToken peer now b ts) ts2, []))"
  by (simp add: generateTokenAt_def Let_def mintRoom_def mintPeer_def addToken_def mintToken_def)

lemma mintRoom_ok [simp]: "store_ok ts \<Longrightarrow> store_ok (mintRoom p now ts)"
  by (simp add: mintRoom_def)

lemma mintRoom_fields [simp]:
  "emergencyBrake (mintRoom p now ts) = emergencyBrake ts"
  "tokenTTL (mintRoom p now ts) = tokenTTL ts"
  by (simp_all add: mintRoom_def)

lemma mintRoom_count: "liveCount (mintRoom p now ts) \<le> liveCount ts"
  unfolding mintRoom_def using evictOldest_count prunePeer_count order_trans by blast

lemma mintRoom_peerList:
  "peerList (mintRoom p now ts) q =
     (if q = p then (let live = filter (\<lambda>t. now \<le> ExpiresAt t) (peerList ts p)
                     in drop (length live - 31) live)
      else peerList ts q)"
  by (simp add: mintRoom_def MaxLiveTokensPerPeer_def Let_def)

lemma addToken_peerList [simp]:
  "peerList (addToken tok ts) q =
     (if q = Peer tok then peerList ts q @ [tok] else peerList ts q)"
  by (simp add: addToken_def peerList_def)

lemma addToken_ok:
  assumes ok: "store_ok ts" and fresh: "map_of (tokens ts) (Token tok) = None"
  shows "store_ok (addToken tok ts)"
proof -
  have new: "Token tok \<notin> fst ` set (tokens ts)"
    using fresh by (simp add: map_of_eq_None_iff)
  have notin: "tok \<notin> set (peerList ts q)" for q
    using store_okD(6) [OF ok, of tok q] fresh by auto
  have differs: "Token t \<noteq> Token tok" if "t \<in> set (peerList ts q)" for t q
    using store_okD(6) [OF ok that] fresh by force
  show ?thesis
    unfolding store_ok_def
  proof (intro conjI allI impI)
    show "liveCount (addToken tok ts) = int (length (tokens (addToken tok ts)))"
      using store_okD(9) [OF ok] new by (simp add: addToken_def alist_update_fresh)
  next
    fix v t assume "map_of (tokens (addToken tok ts)) v = Some t"
    then have "v = Token tok \<and> t = tok \<or> map_of (tokens ts) v = Some t"
      by (auto simp: addToken_def split: if_splits)
    then show "Token t = v" "t \<in> set (peerList (addToken tok ts) (Peer t))"
      using store_okD(7,8) [OF ok, of v t] by auto
  next
    fix q t assume "t \<in> set (peerList (addToken tok ts) q)"
    then have "t = tok \<and> q = Peer tok \<or> t \<in> set (peerList ts q)" by (auto split: if_splits)
    then show "Peer t = q" "map_of (tokens (addToken tok ts)) (Token t) = Some t"
      using store_okD(5,6) [OF ok, of t q] differs [of t q] by (auto simp: addToken_def)
  next
    fix q show "distinct (peerList (addToken tok ts) q)"
      using store_okD(4) [OF ok] notin by simp
  qed (use store_okD(1-3) [OF ok] in
      \<open>auto simp: addToken_def distinct_update split: if_splits\<close>)
qed

lemma mintRoom_lookup_None:
  "store_ok ts \<Longrightarrow> map_of (tokens ts) v = None \<Longrightarrow> map_of (tokens (mintRoom p now ts)) v = None"
  by (cases "peerList ts p = []")
     (simp_all add: mintRoom_def evictOldest_eq prunePeer_eq shrinkPeer_lookup)

subsection \<open>Expired tokens\<close>

lemma ValidateToken_iff:
  "ValidateToken ts now v \<longleftrightarrow> (\<exists>t. map_of (tokens ts) v = Some t \<and> now \<le> ExpiresAt t)"
  by (auto simp: ValidateToken_def split: option.splits)

lemma ValidateToken_prunePeer:
  assumes ok: "store_ok ts" and le: "now \<le> later"
  shows "ValidateToken (prunePeerExpiredLocked p now ts) later v = ValidateToken ts later v"
proof (cases "peerList ts p = []")
  case False
  let ?R = "filter (\<lambda>t. now > ExpiresAt t) (peerList ts p)"
  have "\<not> ValidateToken ts later v" if v: "v \<in> Token ` set ?R"
  proof -
    obtain r where r: "r \<in> set (peerList ts p)" "now > ExpiresAt r" "v = Token r"
      using v by auto
    have "map_of (tokens ts) v = Some r" using store_okD(6) [OF ok r(1)] r(3) by simp
    then show ?thesis using r(2) le by (simp add: ValidateToken_iff)
  qed
  then show ?thesis
    by (auto simp: prunePeer_eq [OF False] shrinkPeer_lookup ValidateToken_iff)
qed simp

lemma ValidateToken_discard:
  assumes "store_ok ts" "now \<le> later"
  shows "ValidateToken (discardExpiredLocked now ts) later v = ValidateToken ts later v"
proof -
  have "ValidateToken (fold (\<lambda>p s. prunePeerExpiredLocked p now s) ps ts) later v
      = ValidateToken ts later v" if "store_ok ts" for ps ts
    using that by (induction ps arbitrary: ts) (simp_all add: ValidateToken_prunePeer assms(2))
  then show ?thesis using assms by (simp add: discardExpiredLocked_def)
qed

lemma discardExpired_fields [simp]:
  shows "emergencyBrake (discardExpiredLocked now ts) = emergencyBrake ts"
  "tokenTTL (discardExpiredLocked now ts) = tokenTTL ts"
  and discardExpired_count: "liveCount (discardExpiredLocked now ts) \<le> liveCount ts"
proof -
  have "emergencyBrake (fold (\<lambda>p s. prunePeerExpiredLocked p now s) ps ts) = emergencyBrake ts \<and>
    tokenTTL (fold (\<lambda>p s. prunePeerExpiredLocked p now s) ps ts) = tokenTTL ts \<and>
    liveCount (fold (\<lambda>p s. prunePeerExpiredLocked p now s) ps ts) \<le> liveCount ts" for ps
  proof (induction ps arbitrary: ts)
    case (Cons p ps)
    then show ?case
      using prunePeer_count [of p now ts] order_trans by fastforce
  qed simp
  then show "emergencyBrake (discardExpiredLocked now ts) = emergencyBrake ts"
    "tokenTTL (discardExpiredLocked now ts) = tokenTTL ts"
    "liveCount (discardExpiredLocked now ts) \<le> liveCount ts"
    by (simp_all add: discardExpiredLocked_def)
qed

lemma fold_prune_peerList:
  "peerList (fold (\<lambda>p s. prunePeerExpiredLocked p now s) ps ts) q =
     (if q \<in> set ps then filter (\<lambda>t. now \<le> ExpiresAt t) (peerList ts q) else peerList ts q)"
  by (induction ps arbitrary: ts) auto

lemma discardExpired_peerList:
  "peerList (discardExpiredLocked now ts) q = filter (\<lambda>t. now \<le> ExpiresAt t) (peerList ts q)"
proof (cases "q \<in> fst ` set (byPeer ts)")
  case False
  then have "map_of (byPeer ts) q = None" by (simp add: map_of_eq_None_iff)
  then have "peerList ts q = []" by (simp add: peerList_def)
  with False show ?thesis by (simp add: discardExpiredLocked_def fold_prune_peerList)
qed (simp add: discardExpiredLocked_def fold_prune_peerList)

subsection \<open>The place of a token in its peer's list\<close>

text \<open>
  A token is held behind older tokens of its peer and before \<open>k\<close> newer ones. A mint of the same
  peer moves it one place towards the end of its life and removes it once 31 newer tokens are there;
  nothing else moves it.
\<close>

definition held :: "Token \<Rightarrow> TokenStore \<Rightarrow> nat \<Rightarrow> bool" where
  "held tok ts k \<longleftrightarrow> (\<exists>older newer. peerList ts (Peer tok) = older @ tok # newer \<and> length newer = k
     \<and> (\<forall>t \<in> set newer. ExpiresAt tok \<le> ExpiresAt t))"

abbreviation forgotten :: "Token \<Rightarrow> TokenStore \<Rightarrow> bool" where
  "forgotten tok ts \<equiv> map_of (tokens ts) (Token tok) = None"

lemma held_lookup: "store_ok ts \<Longrightarrow> held tok ts k \<Longrightarrow> map_of (tokens ts) (Token tok) = Some tok"
  using store_okD(6) [of ts tok "Peer tok"] by (auto simp: held_def)

lemma held_peerList: "peerList ts' (Peer tok) = peerList ts (Peer tok) \<Longrightarrow> held tok ts' k = held tok ts k"
  by (simp add: held_def)

lemma mintRoom_lookup:
  "map_of (tokens (mintRoom p now ts)) v = Some t \<Longrightarrow> map_of (tokens ts) v = Some t"
  by (cases "peerList ts p = []")
     (auto simp: mintRoom_def evictOldest_eq prunePeer_eq shrinkPeer_lookup split: if_splits)

lemma held_mintRoom:
  assumes ok: "store_ok ts" and h: "held tok ts k" and live: "now \<le> ExpiresAt tok"
  shows "k \<le> 30 \<Longrightarrow> held tok (mintRoom (Peer tok) now ts) k"
    "31 \<le> k \<Longrightarrow> forgotten tok (mintRoom (Peer tok) now ts)"
proof -
  let ?m = "mintRoom (Peer tok) now ts"
  obtain older newer where l: "peerList ts (Peer tok) = older @ tok # newer" "length newer = k"
    and exp: "\<forall>t \<in> set newer. ExpiresAt tok \<le> ExpiresAt t"
    using h by (auto simp: held_def)
  let ?o = "filter (\<lambda>t. now \<le> ExpiresAt t) older"
  have "filter (\<lambda>t. now \<le> ExpiresAt t) newer = newer"
    using exp live by (intro filter_True) force
  then have m: "peerList ?m (Peer tok) = drop (length ?o + Suc k - 31) (?o @ tok # newer)"
    using l live by (simp add: mintRoom_peerList)
  show "held tok ?m k" if "k \<le> 30"
    unfolding held_def
  proof (intro exI conjI)
    show "peerList ?m (Peer tok) = drop (length ?o + Suc k - 31) ?o @ tok # newer" using that m by simp
  qed (use l exp in simp_all)
  show "forgotten tok ?m" if "31 \<le> k"
  proof (rule ccontr)
    assume "\<not> forgotten tok ?m"
    then obtain u where u: "map_of (tokens ?m) (Token tok) = Some u" by blast
    then have "map_of (tokens ts) (Token tok) = Some u" by (rule mintRoom_lookup)
    then have "u = tok" using held_lookup [OF ok h] by simp
    moreover have "store_ok ?m" using ok by simp
    ultimately have "tok \<in> set (peerList ?m (Peer tok))" using store_okD(8) u by blast
    then have "tok \<in> set (drop (k - 31) newer)" using that m by (simp add: drop_Cons')
    moreover have "tok \<notin> set newer" using store_okD(4) [OF ok, of "Peer tok"] l by simp
    ultimately show False by (blast dest: in_set_dropD)
  qed
qed

lemma held_mint:
  assumes ok: "store_ok ts" and fresh: "map_of (tokens ts) (EncodeToString b) = None"
    and h: "held tok ts k" and live: "now \<le> ExpiresAt tok" "ExpiresAt tok \<le> now + tokenTTL ts"
    and res: "generateTokenAt peer now (Some b) ts = (r, ts', lg)"
  shows "mintPeer peer \<noteq> Peer tok \<Longrightarrow> held tok ts' k"
    "mintPeer peer = Peer tok \<Longrightarrow> k \<le> 30 \<Longrightarrow> held tok ts' (if isl r then k else Suc k)"
    "mintPeer peer = Peer tok \<Longrightarrow> 31 \<le> k \<Longrightarrow> forgotten tok ts'"
proof -
  let ?m = "mintRoom (mintPeer peer) now ts" and ?new = "mintToken peer now b ts"
  have ts': "isl r \<and> ts' = ?m\<lparr>emergencyBrake := True\<rparr> \<or> \<not> isl r \<and> ts' = addToken ?new ?m"
    using res by (auto simp: generateTokenAt_cases Let_def split: if_splits)
  have brake: "peerList (?m\<lparr>emergencyBrake := True\<rparr>) q = peerList ?m q" for q by (simp add: peerList_def)
  have new: "Peer ?new = mintPeer peer" "ExpiresAt ?new = now + tokenTTL ts" "Token ?new = EncodeToString b"
    by (simp_all add: mintToken_def)
  show "held tok ts' k" if "mintPeer peer \<noteq> Peer tok"
    using ts' that h held_peerList [of ts' tok ts k] by (auto simp: brake new mintRoom_peerList)
  show "held tok ts' (if isl r then k else Suc k)" if p: "mintPeer peer = Peer tok" "k \<le> 30"
  proof -
    obtain older newer where m: "peerList ?m (Peer tok) = older @ tok # newer" "length newer = k"
      "\<forall>t \<in> set newer. ExpiresAt tok \<le> ExpiresAt t"
      using held_mintRoom(1) [OF ok h live(1) p(2)] p(1) by (auto simp: held_def)
    have "held tok (addToken ?new ?m) (Suc k)"
      unfolding held_def
    proof (intro exI conjI)
      show "peerList (addToken ?new ?m) (Peer tok) = older @ tok # newer @ [?new]" using m(1) p(1) new by simp
    qed (use m live new in auto)
    moreover have "held tok (?m\<lparr>emergencyBrake := True\<rparr>) k"
      using held_mintRoom(1) [OF ok h live(1) p(2)] p(1) held_peerList [OF brake, of tok k] by simp
    ultimately show ?thesis using ts' by auto
  qed
  show "forgotten tok ts'" if "mintPeer peer = Peer tok" "31 \<le> k"
  proof -
    have "Token tok \<noteq> EncodeToString b" using held_lookup [OF ok h] fresh by force
    then show ?thesis
      using ts' held_mintRoom(2) [OF ok h live(1) that(2)] that(1) new by (auto simp: addToken_def)
  qed
qed

lemma held_tick:
  assumes "held tok ts k" "now \<le> ExpiresAt tok"
  shows "held tok (cleanupExpired now ts) k"
proof -
  obtain older newer where l: "peerList ts (Peer tok) = older @ tok # newer" "length newer = k"
    "\<forall>t \<in> set newer. ExpiresAt tok \<le> ExpiresAt t"
    using assms(1) by (auto simp: held_def)
  have "filter (\<lambda>t. now \<le> ExpiresAt t) newer = newer"
    using l(3) assms(2) by (intro filter_True) force
  moreover have "peerList (cleanupExpired now ts) q = peerList (discardExpiredLocked now ts) q" for q
    by (simp add: cleanupExpired_def Let_def peerList_def)
  ultimately have "peerList (cleanupExpired now ts) (Peer tok)
      = filter (\<lambda>t. now \<le> ExpiresAt t) older @ tok # newer"
    using l(1) assms(2) by (simp add: discardExpired_peerList)
  then show ?thesis using l by (auto simp: held_def)
qed

lemma discard_keys: "set (tokens (discardExpiredLocked now ts)) \<subseteq> set (tokens ts)"
proof -
  have prune: "set (tokens (prunePeerExpiredLocked p now ts)) \<subseteq> set (tokens ts)" for p ts
    by (cases "peerList ts p = []") (auto simp: prunePeer_eq shrinkPeer_def)
  have "set (tokens (fold (\<lambda>p s. prunePeerExpiredLocked p now s) ps ts)) \<subseteq> set (tokens ts)" for ps
    by (induction ps arbitrary: ts) (use prune in \<open>simp, fastforce\<close>)
  then show ?thesis by (simp add: discardExpiredLocked_def)
qed

lemma tick_keys: "fst ` set (tokens (cleanupExpired now ts)) \<subseteq> fst ` set (tokens ts)"
  using discard_keys [of now ts] by (auto simp: cleanupExpired_def Let_def)

lemma mint_keys:
  assumes "generateTokenAt peer now (Some b) ts = (r, ts', lg)"
  shows "fst ` set (tokens ts') \<subseteq> insert (EncodeToString b) (fst ` set (tokens ts))"
proof -
  have m: "fst ` set (tokens (mintRoom p now ts)) \<subseteq> fst ` set (tokens ts)" for p
    by (cases "peerList ts p = []") (auto simp: mintRoom_def evictOldest_eq prunePeer_eq shrinkPeer_def)
  have "fst ` set (tokens (addToken (mintToken peer now b ts) s)) = insert (EncodeToString b) (fst ` set (tokens s))" for s
    by (simp add: addToken_def mintToken_def dom_update)
  moreover have "tokens ts' = tokens (mintRoom (mintPeer peer) now ts)
      \<or> tokens ts' = tokens (addToken (mintToken peer now b ts) (mintRoom (mintPeer peer) now ts))"
    using assms by (auto simp: generateTokenAt_cases Let_def split: if_splits)
  ultimately show ?thesis using m [of "mintPeer peer"] by (metis insert_mono subset_insertI2)
qed

lemma mint_ok:
  assumes "store_ok ts" "map_of (tokens ts) (EncodeToString b) = None"
    and "generateTokenAt peer now (Some b) ts = (r, ts', lg)"
  shows "store_ok ts'" "tokenTTL ts' = tokenTTL ts"
proof -
  have "store_ok (addToken (mintToken peer now b ts) (mintRoom (mintPeer peer) now ts))"
    using assms(1, 2) mintRoom_lookup_None by (intro addToken_ok) (simp_all add: mintToken_def)
  then show "store_ok ts'" "tokenTTL ts' = tokenTTL ts"
    using assms(1, 3) by (auto simp: generateTokenAt_cases Let_def addToken_def split: if_splits)
qed

subsection \<open>Runs of the store\<close>

text \<open>
  One step per operation of the running service: a mint, whose 32 random bytes give a value
  that is not in the store, a mint whose \<open>rand.Read\<close> fails, and a tick of the cleanup.
\<close>

inductive token_step :: "TokenStore \<Rightarrow> TokenStore \<Rightarrow> bool" where
  mint: "generateTokenAt peer now (Some b) ts = (r, ts', lg) \<Longrightarrow>
     map_of (tokens ts) (EncodeToString b) = None \<Longrightarrow> token_step ts ts'"
| mint_error: "generateTokenAt peer now None ts = (r, ts', lg) \<Longrightarrow> token_step ts ts'"
| tick: "token_step ts (cleanupExpired now ts)"

inductive_cases token_stepE: "token_step ts ts'"

definition store_bounded :: "TokenStore \<Rightarrow> bool" where
  "store_bounded ts \<longleftrightarrow> store_ok ts \<and> liveCount ts \<le> GlobalTokenEmergencyCap
     \<and> (\<forall>p. int (length (peerList ts p)) \<le> MaxLiveTokensPerPeer)"

lemma mintRoom_peer_bound: "length (peerList (mintRoom p now ts) p) \<le> 31"
  by (simp add: mintRoom_peerList Let_def)

lemma mint_bounded:
  assumes inv: "store_bounded ts" and res: "generateTokenAt peer now (Some b) ts = (r, ts', lg)"
    and fresh: "map_of (tokens ts) (EncodeToString b) = None"
  shows "store_bounded ts'"
proof -
  let ?p = "mintPeer peer" and ?tok = "mintToken peer now b ts"
  let ?m = "mintRoom ?p now ts"
  have ok: "store_ok ?m" using inv by (simp add: store_bounded_def)
  have "map_of (tokens ?m) (Token ?tok) = None"
    using inv fresh mintRoom_lookup_None by (simp add: store_bounded_def mintToken_def)
  then have "store_ok (addToken ?tok ?m)" by (rule addToken_ok [OF ok])
  moreover have "int (length (peerList ?m q)) \<le> MaxLiveTokensPerPeer" for q
    using inv mintRoom_peer_bound [of ?p now ts]
    by (cases "q = ?p") (auto simp: store_bounded_def MaxLiveTokensPerPeer_def mintRoom_peerList)
  moreover have "int (length (peerList (addToken ?tok ?m) q)) \<le> MaxLiveTokensPerPeer" for q
    using inv mintRoom_peer_bound [of ?p now ts]
    by (cases "q = ?p") (auto simp: store_bounded_def MaxLiveTokensPerPeer_def mintToken_def
        mintRoom_peerList)
  moreover have "liveCount ?m \<le> GlobalTokenEmergencyCap"
    using inv mintRoom_count [of ?p now ts] by (simp add: store_bounded_def)
  moreover have "peerList (?m\<lparr>emergencyBrake := True\<rparr>) q = peerList ?m q" for q
    by (simp add: peerList_def)
  ultimately show ?thesis
    using res ok by (auto simp: generateTokenAt_cases Let_def store_bounded_def addToken_def
        split: if_splits)
qed

lemma tick_bounded:
  assumes "store_bounded ts"
  shows "store_bounded (cleanupExpired now ts)"
proof -
  have "peerList (cleanupExpired now ts) q = peerList (discardExpiredLocked now ts) q" for q
    by (simp add: cleanupExpired_def Let_def peerList_def)
  then have "length (peerList (cleanupExpired now ts) q) \<le> length (peerList ts q)" for q
    by (simp add: discardExpired_peerList)
  moreover have "liveCount (cleanupExpired now ts) \<le> liveCount ts"
    by (simp add: cleanupExpired_def Let_def discardExpired_count)
  ultimately show ?thesis
    using assms cleanupExpired_ok [of ts now] order_trans of_nat_mono
    unfolding store_bounded_def by (meson of_nat_le_iff order_trans)
qed

interpretation token_system: invariant_system
  "\<lambda>ts. \<exists>ttl. ts = NewTokenStore ttl" token_step store_bounded
proof
  fix ts assume "\<exists>ttl. ts = NewTokenStore ttl"
  then show "store_bounded ts"
    using store_ok_New
    by (auto simp: store_bounded_def NewTokenStore_def peerList_def GlobalTokenEmergencyCap_def
        MaxLiveTokensPerPeer_def)
next
  fix ts ts' assume "token_step ts ts'" "store_bounded ts"
  then show "store_bounded ts'"
    by (auto elim!: token_stepE intro: mint_bounded tick_bounded simp: generateTokenAt_def Let_def)
qed

text \<open>A store with one token, for the witnesses.\<close>

definition sampleStore :: TokenStore where
  "sampleStore = addToken (mintToken ''192.0.2.7'' 5 ''abc'' (NewTokenStore 60)) (NewTokenStore 60)"

lemma sampleStore_minted:
  "fst (snd (generateTokenAt ''192.0.2.7'' 5 (Some ''abc'') (NewTokenStore 60))) = sampleStore"
  by code_simp

lemma sampleStore_ok: "store_ok sampleStore"
  unfolding sampleStore_def by (rule addToken_ok [OF store_ok_New]) (simp add: NewTokenStore_def)

subsection \<open>Properties\<close>

text \<open>
  In every state the running store can reach, by mints from any peers and cleanup ticks in
  any order, the two indexes agree and \<open>liveCount\<close> counts them (\<^const>\<open>store_ok\<close>), no peer holds
  more than \<open>MaxLiveTokensPerPeer\<close> tokens and the store never holds more than
  \<open>GlobalTokenEmergencyCap\<close>.
\<close>

lemma token_store_bounded:
  assumes "token_step\<^sup>*\<^sup>* (NewTokenStore ttl) ts"
  shows "store_ok ts \<and> int (length (tokens ts)) \<le> 65536 \<and> (\<forall>p. length (peerList ts p) \<le> 32)"
proof -
  have "store_bounded ts" using token_system.reachable_inv assms by blast
  then show ?thesis
    by (auto simp: store_bounded_def GlobalTokenEmergencyCap_def MaxLiveTokensPerPeer_def
        dest: store_okD(9))
qed

lemma token_store_bounded_witness:
  "token_step\<^sup>*\<^sup>* (NewTokenStore 60) sampleStore \<and> store_ok sampleStore \<and> length (tokens sampleStore) = 1"
proof -
  let ?g = "generateTokenAt ''192.0.2.7'' 5 (Some ''abc'') (NewTokenStore 60)"
  have "token_step (NewTokenStore 60) sampleStore"
    by (rule token_step.mint [of "''192.0.2.7''" 5 "''abc''" _ "fst ?g" _ "snd (snd ?g)"])
       (simp_all add: sampleStore_minted [symmetric], simp add: NewTokenStore_def)
  then have step: "token_step\<^sup>*\<^sup>* (NewTokenStore 60) sampleStore" by blast
  moreover have "length (tokens sampleStore) = 1" by code_simp
  ultimately show ?thesis using token_store_bounded [OF step] by simp
qed

text \<open>
  What a successful mint does: the minting peer's list becomes the newest 31 of its
  unexpired tokens followed by the new token, so the quota of 32 is kept by evicting the
  oldest first; the new token carries the base64 text of the random bytes and validates up to
  \<open>now + tokenTTL\<close> and not after.
\<close>

lemma generateTokenAt_success:
  assumes res: "generateTokenAt peer now (Some b) ts = (Inr token, ts', lg)"
  shows "Token token = EncodeToString b \<and>
    peerList ts' (Peer token) =
      (let live = filter (\<lambda>t. now \<le> ExpiresAt t) (peerList ts (Peer token))
       in drop (length live - 31) live @ [token]) \<and>
    (ValidateToken ts' later (Token token) \<longleftrightarrow> later \<le> now + tokenTTL ts)"
proof -
  have r: "token = mintToken peer now b ts" "ts' = addToken token (mintRoom (mintPeer peer) now ts)"
    using res by (auto simp: generateTokenAt_cases Let_def split: if_splits)
  have p: "Peer token = mintPeer peer" by (simp add: r(1) mintToken_def)
  have "ValidateToken ts' later (Token token) \<longleftrightarrow> later \<le> now + tokenTTL ts"
    by (simp add: r ValidateToken_iff addToken_def mintToken_def)
  moreover have "Token token = EncodeToString b" by (simp add: r(1) mintToken_def)
  ultimately show ?thesis by (simp add: r(2) p mintRoom_peerList Let_def)
qed

lemma generateTokenAt_success_witness:
  "\<exists>token ts'. generateTokenAt ''192.0.2.7'' 5 (Some ''abc'') (NewTokenStore 60) = (Inr token, ts', [])
     \<and> Token token = ''YWJj'' \<and> ValidateToken ts' 65 ''YWJj'' \<and> \<not> ValidateToken ts' 66 ''YWJj''"
proof -
  have enc: "EncodeToString ''abc'' = ''YWJj''" by code_simp
  obtain token ts' where
    g: "generateTokenAt ''192.0.2.7'' 5 (Some ''abc'') (NewTokenStore 60) = (Inr token, ts', [])"
    by (simp add: generateTokenAt_cases Let_def mintRoom_def evictOldest_eq shrinkPeer_def
        NewTokenStore_def GlobalTokenEmergencyCap_def peerList_def)
  then show ?thesis
    using generateTokenAt_success [OF g, of 65] generateTokenAt_success [OF g, of 66] enc
    by (auto simp: NewTokenStore_def)
qed

text \<open>
  Peers are isolated from each other. Whatever the outcome of a mint by one peer, the token
  list of every other peer is unchanged, and a token of another peer validates after it exactly
  when it did before.
\<close>

lemma mint_isolates_peers:
  assumes ok: "store_ok ts" and fresh: "map_of (tokens ts) (EncodeToString b) = None"
    and res: "generateTokenAt peer now (Some b) ts = (r, ts', lg)"
    and q: "q \<noteq> (if peer = [] then ''unknown'' else peer)"
  shows "peerList ts' q = peerList ts q \<and>
    (\<forall>t \<in> set (peerList ts q). ValidateToken ts' later (Token t) = ValidateToken ts later (Token t))"
proof -
  let ?m = "mintRoom (mintPeer peer) now ts"
  have q': "q \<noteq> mintPeer peer" using q by (simp add: mintPeer_def)
  have ts': "ts' = ?m\<lparr>emergencyBrake := True\<rparr> \<or> ts' = addToken (mintToken peer now b ts) ?m"
    using res by (auto simp: generateTokenAt_cases Let_def split: if_splits)
  have "peerList (?m\<lparr>emergencyBrake := True\<rparr>) q = peerList ?m q" by (simp add: peerList_def)
  then have same: "peerList ts' q = peerList ts q"
    using ts' q' by (auto simp: mintRoom_peerList mintToken_def)
  have "map_of (tokens ts') (Token t) = Some t" if t: "t \<in> set (peerList ts q)" for t
  proof -
    have "t \<in> set (peerList ?m q)" using t q' by (simp add: mintRoom_peerList)
    then have "map_of (tokens ?m) (Token t) = Some t" using ok by (intro store_okD(6)) simp_all
    moreover have "Token t \<noteq> EncodeToString b" using store_okD(6) [OF ok t] fresh by force
    ultimately show ?thesis using ts' by (auto simp: addToken_def mintToken_def)
  qed
  then show ?thesis using same store_okD(6) [OF ok] by (auto simp: ValidateToken_iff)
qed

lemma mint_isolates_peers_witness:
  "peerList (fst (snd (generateTokenAt ''192.0.2.8'' 6 (Some ''xyz'') sampleStore))) ''192.0.2.7''
     = peerList sampleStore ''192.0.2.7'' \<and> length (peerList sampleStore ''192.0.2.7'') = 1"
proof -
  obtain r ts2 lg where g: "generateTokenAt ''192.0.2.8'' 6 (Some ''xyz'') sampleStore = (r, ts2, lg)"
    by (metis prod.exhaust)
  have "map_of (tokens sampleStore) (EncodeToString ''xyz'') = None" by code_simp
  then have "peerList ts2 ''192.0.2.7'' = peerList sampleStore ''192.0.2.7''"
    using mint_isolates_peers [OF sampleStore_ok _ g] by simp
  moreover have "length (peerList sampleStore ''192.0.2.7'') = 1" by code_simp
  ultimately show ?thesis by (simp add: g)
qed

text \<open>
  The cleanup is invisible to callers: whether a token validates at any time from the
  tick on is the same before and after the tick removed the expired tokens of every peer.
\<close>

lemma cleanup_transparent:
  assumes "store_ok ts" "now \<le> later"
  shows "ValidateToken (cleanupExpired now ts) later v = ValidateToken ts later v"
proof -
  have "ValidateToken (cleanupExpired now ts) later v
      = ValidateToken (discardExpiredLocked now ts) later v"
    by (simp add: cleanupExpired_def Let_def ValidateToken_iff)
  then show ?thesis using ValidateToken_discard [OF assms] by simp
qed

lemma cleanup_transparent_witness:
  "ValidateToken (cleanupExpired 66 sampleStore) 70 ''YWJj'' = ValidateToken sampleStore 70 ''YWJj''
     \<and> tokens (cleanupExpired 66 sampleStore) = []"
proof -
  have "ValidateToken (cleanupExpired 66 sampleStore) 70 ''YWJj'' = ValidateToken sampleStore 70 ''YWJj''"
    by (rule cleanup_transparent [OF sampleStore_ok]) simp
  moreover have "tokens (cleanupExpired 66 sampleStore) = []" by code_simp
  ultimately show ?thesis by simp
qed

text \<open>
  The emergency brake. With working randomness a mint fails exactly when, after the peer's
  own expired and surplus tokens are gone, the store still holds \<open>GlobalTokenEmergencyCap\<close>
  tokens; it then adds no token and engages the brake, and it writes its log line only if the
  brake was not engaged already, so once per engagement.
\<close>

lemma emergency_brake:
  assumes ok: "store_ok ts"
    and res: "generateTokenAt peer now (Some b) ts = (r, ts', lg)"
  shows "((\<exists>e. r = Inl e) \<longleftrightarrow> r = Inl ErrTokenStoreEmergency) \<and>
    (r = Inl ErrTokenStoreEmergency \<longrightarrow>
       int (length (tokens ts')) \<ge> GlobalTokenEmergencyCap \<and> emergencyBrake ts' \<and>
       set (tokens ts') \<subseteq> set (tokens ts) \<and> (lg = [] \<longleftrightarrow> emergencyBrake ts)) \<and>
    (r \<noteq> Inl ErrTokenStoreEmergency \<longrightarrow>
       int (length (tokens (mintRoom (mintPeer peer) now ts))) < GlobalTokenEmergencyCap \<and>
       \<not> emergencyBrake ts' \<and> lg = [])"
proof -
  let ?m = "mintRoom (mintPeer peer) now ts"
  have "liveCount ?m = int (length (tokens ?m))" using ok by (intro store_okD(9)) simp
  moreover have "set (tokens ?m) \<subseteq> set (tokens ts)"
    by (cases "peerList ts (mintPeer peer) = []")
       (auto simp: mintRoom_def evictOldest_eq prunePeer_eq shrinkPeer_def)
  ultimately show ?thesis
    using res by (auto simp: generateTokenAt_cases Let_def addToken_def split: if_splits)
qed

lemma emergency_brake_witness:
  "let (r, ts', lg) = generateTokenAt ''192.0.2.7'' 5 (Some ''abc'') (NewTokenStore 60)
   in r \<noteq> Inl ErrTokenStoreEmergency \<and> \<not> emergencyBrake ts' \<and> lg = []"
proof -
  obtain r ts' lg where g: "generateTokenAt ''192.0.2.7'' 5 (Some ''abc'') (NewTokenStore 60) = (r, ts', lg)"
    by (metis prod.exhaust)
  moreover have "r \<noteq> Inl ErrTokenStoreEmergency"
  proof -
    have "\<not> isl (fst (generateTokenAt ''192.0.2.7'' 5 (Some ''abc'') (NewTokenStore 60)))" by code_simp
    then show ?thesis using g by auto
  qed
  ultimately show ?thesis using emergency_brake [OF store_ok_New g] by simp
qed

end
