(* ===== verification/Imds_Handlers.thy ===== *)
theory Imds_Handlers
  imports Http Token_Store
begin

text \<open>
  The metadata handlers, \<open>imds/handlers.go\<close>, \<open>imds/placement.go\<close> and \<open>imds/tags.go\<close>. The package
  variables the handlers read (the token store and the host topology) and the clock are the
  record \<open>imds_env\<close>; each handler is a function from it, the request and the response
  writer to the response writer. Only \<open>HandleCreateToken\<close> changes the token store.
\<close>

subsection \<open>Values read from the request\<close>

record imds_env =
  store :: "TokenStore option"
  hostTopology :: Topology
  clock :: time

definition IdentityBearingPaths :: "string list" where
  "IdentityBearingPaths =
     [''/latest/meta-data/instance-id'', ''/latest/dynamic/instance-identity/document'']"

definition RequiresVMIdentity :: "string \<Rightarrow> bool" where
  "RequiresVMIdentity path \<longleftrightarrow> list_ex (\<lambda>p. p = path) IdentityBearingPaths"

definition storeValidatesToken :: "TokenStore option \<Rightarrow> time \<Rightarrow> Request \<Rightarrow> bool" where
  "storeValidatesToken s now r =
     (case s of
        None \<Rightarrow> False
      | Some ts \<Rightarrow>
          (let token = header_get r ''X-Aws-Ec2-Metadata-Token'' in
           if token = [] then False else ValidateToken ts now token))"

definition validateToken :: "imds_env \<Rightarrow> Request \<Rightarrow> bool" where
  "validateToken env r = storeValidatesToken (store env) (clock env) r"

definition PeerIP :: "string \<Rightarrow> IP option" where
  "PeerIP remoteAddr =
     (let host = (case SplitHostPort remoteAddr of None \<Rightarrow> remoteAddr | Some h \<Rightarrow> h) in ParseIP host)"

definition LocalIPv4 :: "Request \<Rightarrow> string" where
  "LocalIPv4 r =
     (case PeerIP (RemoteAddr r) of
        None \<Rightarrow> []
      | Some ip \<Rightarrow> (case To4 ip of None \<Rightarrow> [] | Some v4 \<Rightarrow> dotted v4))"

text \<open>An absent key of \<open>RawConfig\<close> reads as the empty string.\<close>

definition PublicIPv4 :: "Request \<Rightarrow> string" where
  "PublicIPv4 r =
     (case VMConfigContext r of
        None \<Rightarrow> []
      | Some c \<Rightarrow>
          (let declared = TrimSpace (case map_of (RawConfig c) ''public-ipv4'' of None \<Rightarrow> [] | Some v \<Rightarrow> v) in
           if declared = [] then []
           else case ParseIP declared of
             None \<Rightarrow> []
           | Some ip \<Rightarrow> (case To4 ip of None \<Rightarrow> [] | Some v4 \<Rightarrow> dotted v4)))"

definition InstanceID :: "Request \<Rightarrow> string" where
  "InstanceID r =
     (case BoundVMFromRequest (VMConfigContext r) of
        Some vmConfig \<Rightarrow> ''i-'' @ VMID vmConfig
      | None \<Rightarrow>
          (let ip = LocalIPv4 r in
           if ip = [] then []
           else ''i-'' @ map (\<lambda>c. if c = CHR ''.'' then CHR ''-'' else c) ip))"

definition getHostname :: "Request \<Rightarrow> string" where
  "getHostname r =
     (if Host r = [] then ''localhost.localdomain'' else hd (split_at_char CHR '':'' (Host r)))"

text \<open>Reading a Go map at a missing key gives the empty string.\<close>

definition topology_at :: "imds_env \<Rightarrow> string \<Rightarrow> string" where
  "topology_at env k = (case map_of (hostTopology env) k of None \<Rightarrow> [] | Some v \<Rightarrow> v)"

definition getAvailabilityZone :: "imds_env \<Rightarrow> string" where
  "getAvailabilityZone env = topology_at env ''availability-zone''"

definition getRegion :: "imds_env \<Rightarrow> string" where
  "getRegion env = topology_at env ''region''"

definition getDomain :: string where
  "getDomain = ''localdomain''"

text \<open>\<open>None\<close> is the nil map.\<close>

definition InstanceTags :: "Request \<Rightarrow> (string \<times> string) list option" where
  "InstanceTags r =
     (case VMConfigContext r of
        None \<Rightarrow> None
      | Some c \<Rightarrow> if Tags c = [] then None else Some (Tags c))"

subsection \<open>The handlers\<close>

text \<open>The three lines with which every metadata handler refuses a request without a token.\<close>

definition tokenRequired :: "ResponseWriter \<Rightarrow> ResponseWriter" where
  "tokenRequired w =
     http_Error ''IMDSv2 token required'' 401 (header_set ''X-Aws-Ec2-Metadata-Token'' ''required'' w)"

definition textPlain :: "ResponseWriter \<Rightarrow> ResponseWriter" where
  "textPlain w = header_set ''Content-Type'' ''text/plain'' w"

definition WriteInstanceIDUnavailable :: "ResponseWriter \<Rightarrow> ResponseWriter" where
  "WriteInstanceIDUnavailable w = WriteHeader 422 (textPlain w)"

definition writeNoTag :: "ResponseWriter \<Rightarrow> ResponseWriter" where
  "writeNoTag w = WriteHeader 404 (textPlain w)"

definition RequireVMIdentity ::
  "bool \<Rightarrow> TokenStore option \<Rightarrow> (imds_env \<Rightarrow> Request \<Rightarrow> ResponseWriter \<Rightarrow> ResponseWriter)
    \<Rightarrow> imds_env \<Rightarrow> Request \<Rightarrow> ResponseWriter \<Rightarrow> ResponseWriter" where
  "RequireVMIdentity require s next env r w =
     (if \<not> require then next env r w
      else if \<not> storeValidatesToken s (clock env) r then next env r w
      else if \<not> IsBound (VMConfigContext r) then NotFound w
      else next env r w)"

text \<open>
  \<open>GenerateToken\<close> reads the clock and the random source; the result is the response, the new
  store and the store's log lines.
\<close>

definition HandleCreateToken ::
  "time \<Rightarrow> string option \<Rightarrow> TokenStore \<Rightarrow> Request \<Rightarrow> ResponseWriter
    \<Rightarrow> ResponseWriter \<times> TokenStore \<times> token_log list" where
  "HandleCreateToken now rnd ts r w =
     (let peer = (case PeerIP (RemoteAddr r) of None \<Rightarrow> ''unknown'' | Some ip \<Rightarrow> IP_String ip) in
      case generateTokenAt peer now rnd ts of
        (Inl ErrTokenStoreEmergency, ts', l) \<Rightarrow>
          (Fprint (''Too many requests'' @ newline)
             (WriteHeader 429 (header_set ''Retry-After'' ''60'' (textPlain w))), ts', l)
      | (Inl ErrRandom, ts', l) \<Rightarrow> (http_Error ''Internal server error'' 500 w, ts', l)
      | (Inr token, ts', l) \<Rightarrow> (Fprint (Token token) (WriteHeader 200 (textPlain w)), ts', l))"

definition indexPaths :: "Request \<Rightarrow> string list" where
  "indexPaths r =
     [''instance-id'', ''local-hostname'', ''local-ipv4''] @
     (if PublicIPv4 r \<noteq> [] then [''public-ipv4''] else []) @
     [''placement/'', ''services/''] @
     (case InstanceTags r of None \<Rightarrow> [] | Some tags \<Rightarrow> if length tags > 0 then [''tags/''] else [])"

definition HandleMetaDataIndex :: "imds_env \<Rightarrow> Request \<Rightarrow> ResponseWriter \<Rightarrow> ResponseWriter" where
  "HandleMetaDataIndex env r w =
     (if \<not> validateToken env r then tokenRequired w
      else print_lines (indexPaths r) (textPlain w))"

definition HandleInstanceID :: "imds_env \<Rightarrow> Request \<Rightarrow> ResponseWriter \<Rightarrow> ResponseWriter" where
  "HandleInstanceID env r w =
     (if \<not> validateToken env r then tokenRequired w
      else let instanceID = InstanceID r in
        if instanceID = [] then WriteInstanceIDUnavailable w
        else Fprint instanceID (textPlain w))"

definition HandleHostname :: "imds_env \<Rightarrow> Request \<Rightarrow> ResponseWriter \<Rightarrow> ResponseWriter" where
  "HandleHostname env r w =
     (if \<not> validateToken env r then tokenRequired w else Fprint (getHostname r) (textPlain w))"

definition HandleLocalIPv4 :: "imds_env \<Rightarrow> Request \<Rightarrow> ResponseWriter \<Rightarrow> ResponseWriter" where
  "HandleLocalIPv4 env r w =
     (if \<not> validateToken env r then tokenRequired w
      else let ip = LocalIPv4 r; w1 = textPlain w in
        if ip \<noteq> [] then Fprint ip w1 else WriteHeader 404 w1)"

definition HandlePublicIPv4 :: "imds_env \<Rightarrow> Request \<Rightarrow> ResponseWriter \<Rightarrow> ResponseWriter" where
  "HandlePublicIPv4 env r w =
     (if \<not> validateToken env r then tokenRequired w
      else let ip = PublicIPv4 r; w1 = textPlain w in
        if ip \<noteq> [] then Fprint ip w1 else WriteHeader 404 w1)"

definition HandleAvailabilityZone :: "imds_env \<Rightarrow> Request \<Rightarrow> ResponseWriter \<Rightarrow> ResponseWriter" where
  "HandleAvailabilityZone env r w =
     (if \<not> validateToken env r then tokenRequired w
      else Fprint (getAvailabilityZone env) (textPlain w))"

definition HandleRegion :: "imds_env \<Rightarrow> Request \<Rightarrow> ResponseWriter \<Rightarrow> ResponseWriter" where
  "HandleRegion env r w =
     (if \<not> validateToken env r then tokenRequired w else Fprint (getRegion env) (textPlain w))"

definition HandleDomain :: "imds_env \<Rightarrow> Request \<Rightarrow> ResponseWriter \<Rightarrow> ResponseWriter" where
  "HandleDomain env r w =
     (if \<not> validateToken env r then tokenRequired w else Fprint getDomain (textPlain w))"

definition identityDocument :: "imds_env \<Rightarrow> Request \<Rightarrow> json" where
  "identityDocument env r =
     JObject
       [(''accountId'', JString ''012345678901''),
        (''availabilityZone'', JString (getAvailabilityZone env)),
        (''billingProducts'', JNull),
        (''devpayProductCodes'', JNull),
        (''imageId'', JString ''proxmox-unknown''),
        (''instanceId'', JString (InstanceID r)),
        (''instanceType'', JString ''vm''),
        (''privateIp'', JString (LocalIPv4 r)),
        (''region'', JString (getRegion env)),
        (''version'', JString ''2017-09-30'')]"

definition HandleInstanceIdentityDocument ::
  "imds_env \<Rightarrow> Request \<Rightarrow> ResponseWriter \<Rightarrow> ResponseWriter" where
  "HandleInstanceIdentityDocument env r w =
     (if \<not> validateToken env r then tokenRequired w
      else if InstanceID r = [] then WriteInstanceIDUnavailable w
      else Encode (identityDocument env r) (header_set ''Content-Type'' ''application/json'' w))"

definition HandlePlacementKeys :: "imds_env \<Rightarrow> Request \<Rightarrow> ResponseWriter \<Rightarrow> ResponseWriter" where
  "HandlePlacementKeys env r w =
     (if \<not> validateToken env r then tokenRequired w
      else print_lines (sort (map fst (hostTopology env))) (textPlain w))"

definition HandlePlacementKey :: "imds_env \<Rightarrow> Request \<Rightarrow> ResponseWriter \<Rightarrow> ResponseWriter" where
  "HandlePlacementKey env r w =
     (if \<not> validateToken env r then tokenRequired w
      else case map_of (hostTopology env) (PathValue r ''key'') of
        None \<Rightarrow> writeNoTag w
      | Some value \<Rightarrow> Fprint value (textPlain w))"

definition HandlePlacementRedirect :: "imds_env \<Rightarrow> Request \<Rightarrow> ResponseWriter \<Rightarrow> ResponseWriter" where
  "HandlePlacementRedirect env r w = Redirect r ''/latest/meta-data/placement/'' 301 w"

definition HandleTags :: "imds_env \<Rightarrow> Request \<Rightarrow> ResponseWriter \<Rightarrow> ResponseWriter" where
  "HandleTags env r w =
     (if \<not> validateToken env r then tokenRequired w
      else if InstanceTags r = None then writeNoTag w
      else Fprintln ''instance'' (textPlain w))"

definition HandleInstanceTagKeys :: "imds_env \<Rightarrow> Request \<Rightarrow> ResponseWriter \<Rightarrow> ResponseWriter" where
  "HandleInstanceTagKeys env r w =
     (if \<not> validateToken env r then tokenRequired w
      else case InstanceTags r of
        None \<Rightarrow> writeNoTag w
      | Some tags \<Rightarrow> print_lines (sort (map fst tags)) (textPlain w))"

definition HandleInstanceTag :: "imds_env \<Rightarrow> Request \<Rightarrow> ResponseWriter \<Rightarrow> ResponseWriter" where
  "HandleInstanceTag env r w =
     (if \<not> validateToken env r then tokenRequired w
      else case map_of (case InstanceTags r of None \<Rightarrow> [] | Some tags \<Rightarrow> tags) (PathValue r ''key'') of
        None \<Rightarrow> writeNoTag w
      | Some value \<Rightarrow> Fprint value (textPlain w))"

subsection \<open>The token gate\<close>

text \<open>The handlers that serve metadata: every route but the token, the redirect and \<open>/health\<close>.\<close>

definition metadataHandlers :: "(imds_env \<Rightarrow> Request \<Rightarrow> ResponseWriter \<Rightarrow> ResponseWriter) list" where
  "metadataHandlers =
     [HandleMetaDataIndex, HandleInstanceID, HandleHostname, HandleLocalIPv4, HandlePublicIPv4,
      HandleAvailabilityZone, HandleRegion, HandleDomain, HandleInstanceIdentityDocument,
      HandlePlacementKeys, HandlePlacementKey, HandleTags, HandleInstanceTagKeys, HandleInstanceTag]"

lemmas handler_defs =
  HandleMetaDataIndex_def HandleInstanceID_def HandleHostname_def HandleLocalIPv4_def
  HandlePublicIPv4_def HandleAvailabilityZone_def HandleRegion_def HandleDomain_def
  HandleInstanceIdentityDocument_def HandlePlacementKeys_def HandlePlacementKey_def
  HandleTags_def HandleInstanceTagKeys_def HandleInstanceTag_def

lemmas answer_defs =
  tokenRequired_def textPlain_def WriteInstanceIDUnavailable_def writeNoTag_def

lemma tokenRequired_status: "StatusCode w = None \<Longrightarrow> status (tokenRequired w) = 401"
  by (simp add: answer_defs http_defs http_simps)

text \<open>
  What the metadata handlers share, as an interface: an answer without a token that does not
  depend on the caller, and a status other than 401 with one.
\<close>

locale gated_handler =
  fixes h :: "imds_env \<Rightarrow> Request \<Rightarrow> ResponseWriter \<Rightarrow> ResponseWriter"
  assumes refuses: "\<not> validateToken env r \<Longrightarrow> h env r w = tokenRequired w"
    and admits: "validateToken env r \<Longrightarrow> status (h env r newResponse) \<noteq> 401"
begin

lemma unauthorized_iff: "status (h env r newResponse) = 401 \<longleftrightarrow> \<not> validateToken env r"
  using refuses [of env r newResponse] admits [of env r]
  by (cases "validateToken env r") (auto simp: tokenRequired_status http_simps)

lemma no_store: "store env = None \<Longrightarrow> h env r w = tokenRequired w"
  by (rule refuses) (simp add: validateToken_def storeValidatesToken_def)

lemma identity_wrapped:
  assumes "storeValidatesToken s (clock env) r \<longleftrightarrow> validateToken env r"
  shows "RequireVMIdentity True s h env r newResponse =
    (if \<not> validateToken env r then tokenRequired newResponse
     else if \<not> IsBound (VMConfigContext r) then NotFound newResponse
     else h env r newResponse)"
  using assms refuses by (auto simp: RequireVMIdentity_def)

end

interpretation index: gated_handler HandleMetaDataIndex
  by unfold_locales (auto simp: handler_defs answer_defs http_defs http_simps)

interpretation instance_id: gated_handler HandleInstanceID
  by unfold_locales (auto simp: handler_defs answer_defs http_defs http_simps Let_def)

interpretation hostname: gated_handler HandleHostname
  by unfold_locales (auto simp: handler_defs answer_defs http_defs http_simps)

interpretation local_ipv4: gated_handler HandleLocalIPv4
  by unfold_locales (auto simp: handler_defs answer_defs http_defs http_simps Let_def)

interpretation public_ipv4: gated_handler HandlePublicIPv4
  by unfold_locales (auto simp: handler_defs answer_defs http_defs http_simps Let_def)

interpretation zone: gated_handler HandleAvailabilityZone
  by unfold_locales (auto simp: handler_defs answer_defs http_defs http_simps)

interpretation region: gated_handler HandleRegion
  by unfold_locales (auto simp: handler_defs answer_defs http_defs http_simps)

interpretation domain: gated_handler HandleDomain
  by unfold_locales (auto simp: handler_defs answer_defs http_defs http_simps)

interpretation document: gated_handler HandleInstanceIdentityDocument
  by unfold_locales (auto simp: handler_defs answer_defs http_defs http_simps)

interpretation placement_keys: gated_handler HandlePlacementKeys
  by unfold_locales (auto simp: handler_defs answer_defs http_defs http_simps)

interpretation placement_key: gated_handler HandlePlacementKey
  by unfold_locales (auto simp: handler_defs answer_defs http_defs http_simps split: option.splits)

interpretation tags: gated_handler HandleTags
  by unfold_locales (auto simp: handler_defs answer_defs http_defs http_simps)

interpretation tag_keys: gated_handler HandleInstanceTagKeys
  by unfold_locales (auto simp: handler_defs answer_defs http_defs http_simps split: option.splits)

interpretation tag: gated_handler HandleInstanceTag
  by unfold_locales (auto simp: handler_defs answer_defs http_defs http_simps split: option.splits)

lemmas unauthorized_iffs =
  index.unauthorized_iff instance_id.unauthorized_iff hostname.unauthorized_iff
  local_ipv4.unauthorized_iff public_ipv4.unauthorized_iff zone.unauthorized_iff
  region.unauthorized_iff domain.unauthorized_iff document.unauthorized_iff
  placement_keys.unauthorized_iff placement_key.unauthorized_iff tags.unauthorized_iff
  tag_keys.unauthorized_iff tag.unauthorized_iff

lemmas refusals =
  index.refuses instance_id.refuses hostname.refuses local_ipv4.refuses public_ipv4.refuses
  zone.refuses region.refuses domain.refuses document.refuses placement_keys.refuses
  placement_key.refuses tags.refuses tag_keys.refuses tag.refuses

text \<open>
  Every metadata handler is behind the session token: it answers 401 exactly when the request
  carries no token the store accepts (no store, no header, an unknown or an expired token),
  and that answer is one and the same for all handlers, callers and paths, so it tells
  nothing about the VM.
\<close>

lemma token_gate:
  "\<forall>h \<in> set metadataHandlers.
     (status (h env r newResponse) = 401 \<longleftrightarrow> \<not> validateToken env r) \<and>
     (\<not> validateToken env r \<longrightarrow> h env r newResponse = tokenRequired newResponse)"
  by (simp add: metadataHandlers_def unauthorized_iffs refusals)

definition sampleRequest :: "VMConfig option \<Rightarrow> string \<Rightarrow> Request" where
  "sampleRequest vm token =
     \<lparr>Method = ''GET'', Path = ''/latest/meta-data/instance-id'', Host = ''169.254.169.254'',
      RemoteAddr = ''10.0.0.7:4711'', Header = [(''X-Aws-Ec2-Metadata-Token'', token)],
      PathValues = [(''key'', ''env'')], VMConfigContext = vm\<rparr>"

definition sampleEnv :: imds_env where
  "sampleEnv =
     \<lparr>store = Some (fst (snd (generateTokenAt ''10.0.0.7'' 0 (Some ''abc'') (NewTokenStore second)))),
      hostTopology = DefaultTopology, clock = 0\<rparr>"

lemma token_gate_witness:
  "status (HandleRegion sampleEnv (sampleRequest None ''nope'') newResponse) = 401 \<and>
   status (HandleRegion sampleEnv (sampleRequest None (EncodeToString ''abc'')) newResponse) \<noteq> 401"
proof -
  have "\<not> validateToken sampleEnv (sampleRequest None ''nope'')"
    "validateToken sampleEnv (sampleRequest None (EncodeToString ''abc''))"
    unfolding sampleEnv_def sampleRequest_def by code_simp+
  moreover have "HandleRegion \<in> set metadataHandlers" by (simp add: metadataHandlers_def)
  ultimately show ?thesis using token_gate by blast
qed

lemma validateToken_header: "Header r = Header r' \<Longrightarrow> validateToken env r = validateToken env r'"
  by (cases "store env") (simp_all add: validateToken_def storeValidatesToken_def header_get_def)

subsection \<open>Refusing an identity to a caller with no VM record\<close>

text \<open>
  Who gets an instance id. With the identity requirement on, a caller that is not bound to a
  VM record and has a valid token gets byte for byte the answer of the catch-all handler
  for a route that does not exist; a bound caller gets \<open>i-\<close> and its own VM id, with the
  requirement on or off. With it off, an unbound caller gets the id made from its own IPv4
  peer address, or an empty 422 when it has none. Without a valid token the answer is the
  401 in every case.
\<close>

lemma instance_id_answers:
  "RequireVMIdentity require (store env) HandleInstanceID env r newResponse =
    (if \<not> validateToken env r then tokenRequired newResponse
     else case VMConfigContext r of
       Some c \<Rightarrow> if VMID c \<noteq> [] then Fprint (''i-'' @ VMID c) (textPlain newResponse)
                 else if require then NotFound newResponse
                 else HandleInstanceID env (r\<lparr>VMConfigContext := None\<rparr>) newResponse
     | None \<Rightarrow>
         if require then NotFound newResponse
         else case Option.bind (PeerIP (RemoteAddr r)) To4 of
           None \<Rightarrow> WriteHeader 422 (textPlain newResponse)
         | Some v4 \<Rightarrow>
             Fprint (''i-'' @ Join (map itoa v4) ''-'') (textPlain newResponse))"
proof -
  have unbound: "InstanceID r = InstanceID (r\<lparr>VMConfigContext := None\<rparr>)"
    if "\<not> IsBound (VMConfigContext r)"
    using that by (simp add: InstanceID_def BoundVMFromRequest_def LocalIPv4_def IsBound_def)
  have tok: "validateToken env (r\<lparr>VMConfigContext := x\<rparr>) = validateToken env r" for x
    by (rule validateToken_header) simp
  have ne: "dotted b \<noteq> []" if "To4 ip = Some b" for ip b
    using To4_length [OF that] dot_in_dotted by fastforce
  show ?thesis
    using unbound tok
    by (auto simp: RequireVMIdentity_def HandleInstanceID_def IsBound_def InstanceID_def
        BoundVMFromRequest_def validateToken_def WriteInstanceIDUnavailable_def LocalIPv4_def
        dotted_dash ne Let_def split: option.splits bind_splits)
qed

subsection \<open>The index and what it lists\<close>

lemma text_lines: "body_text (print_lines ls (textPlain newResponse)) = concat (map (\<lambda>l. l @ newline) ls)"
  by (simp add: body_text_def textPlain_def http_simps comp_def)

lemma LocalIPv4_ne: "LocalIPv4 r \<noteq> [] \<longleftrightarrow> (\<exists>b. Option.bind (PeerIP (RemoteAddr r)) To4 = Some b)"
proof -
  have "dotted b \<noteq> []" if "To4 ip = Some b" for ip b
    using To4_length [OF that] dot_in_dotted by fastforce
  then show ?thesis by (auto simp: LocalIPv4_def split: option.splits bind_splits)
qed

lemma InstanceTags_ne: "InstanceTags r = Some t \<Longrightarrow> t \<noteq> []"
  by (auto simp: InstanceTags_def split: option.splits if_splits)

text \<open>
  C29: What the index lists. Five entries are listed for every caller with a token, and \<open>public-ipv4\<close>
  and \<open>tags/\<close> are added exactly when their own paths answer 200 to the same caller. Of the five,
  \<open>local-hostname\<close>, the placement keys and the domain under \<open>services/\<close> are always answered,
  \<open>local-ipv4\<close> when the caller has an IPv4 address; \<open>instance-id\<close> is listed also where reading it
  is refused: it answers 200 exactly to a bound caller or, where no identity is required, to one with
  an IPv4 address, and where one is required an unbound caller gets the answer of a path that does
  not exist. The tag keys are listed in strictly ascending order, one per line, and a key is listed
  exactly when its own path answers 200, with the value the VM record has for it.
\<close>

theorem index_entries:
  assumes tok: "validateToken env r"
    and tags: "\<forall>c. VMConfigContext r = Some c \<longrightarrow> distinct (map fst (Tags c))"
  shows "body_text (HandleMetaDataIndex env r newResponse) = concat (map (\<lambda>p. p @ newline)
      ([''instance-id'', ''local-hostname'', ''local-ipv4'']
       @ (if status (HandlePublicIPv4 env r newResponse) = 200 then [''public-ipv4''] else [])
       @ [''placement/'', ''services/'']
       @ (if status (HandleTags env r newResponse) = 200 then [''tags/''] else []))) \<and>
    status (HandleHostname env r newResponse) = 200 \<and> status (HandlePlacementKeys env r newResponse) = 200 \<and>
    status (HandleDomain env r newResponse) = 200 \<and>
    (status (HandleLocalIPv4 env r newResponse) = 200 \<longleftrightarrow> (\<exists>b. Option.bind (PeerIP (RemoteAddr r)) To4 = Some b)) \<and>
    (status (RequireVMIdentity require (store env) HandleInstanceID env r newResponse) = 200 \<longleftrightarrow>
       IsBound (VMConfigContext r) \<or> (\<not> require \<and> status (HandleLocalIPv4 env r newResponse) = 200)) \<and>
    (require \<and> \<not> IsBound (VMConfigContext r) \<longrightarrow>
       RequireVMIdentity require (store env) HandleInstanceID env r newResponse = NotFound newResponse) \<and>
    (\<exists>keys. sorted_wrt (<) keys \<and>
       body_text (HandleInstanceTagKeys env r newResponse) = concat (map (\<lambda>k. k @ newline) keys) \<and>
       (\<forall>k. let w = HandleInstanceTag env (r\<lparr>PathValues := [(''key'', k)]\<rparr>) newResponse in
          (k \<in> set keys \<longleftrightarrow> status w = 200) \<and>
          (k \<in> set keys \<longrightarrow> (\<exists>c. VMConfigContext r = Some c \<and> map_of (Tags c) k = Some (body_text w)))))"
proof (intro conjI)
  have tokk: "validateToken env (r\<lparr>PathValues := x\<rparr>)" for x
    using tok validateToken_header [of "r\<lparr>PathValues := x\<rparr>" r env] by simp
  let ?keys = "case InstanceTags r of None \<Rightarrow> [] | Some t \<Rightarrow> sort (map fst t)"
  have "sorted_wrt (<) ?keys"
    using tags by (auto simp: InstanceTags_def strict_sorted_iff split: option.splits)
  moreover have "body_text (HandleInstanceTagKeys env r newResponse) = concat (map (\<lambda>k. k @ newline) ?keys)"
    using tok by (auto simp: HandleInstanceTagKeys_def text_lines writeNoTag_def body_text_def
        textPlain_def http_simps comp_def split: option.splits)
  moreover have "let w = HandleInstanceTag env (r\<lparr>PathValues := [(''key'', k)]\<rparr>) newResponse in
      (k \<in> set ?keys \<longleftrightarrow> status w = 200) \<and>
      (k \<in> set ?keys \<longrightarrow> (\<exists>c. VMConfigContext r = Some c \<and> map_of (Tags c) k = Some (body_text w)))" for k
    using tokk [of "[(''key'', k)]"]
    by (cases "VMConfigContext r"; cases "map_of (Tags (the (VMConfigContext r))) k")
       (auto simp: HandleInstanceTag_def InstanceTags_def PathValue_def answer_defs http_defs
        http_simps body_text_def Let_def alist_key_iff)
  ultimately show "\<exists>keys. sorted_wrt (<) keys \<and>
       body_text (HandleInstanceTagKeys env r newResponse) = concat (map (\<lambda>k. k @ newline) keys) \<and>
       (\<forall>k. let w = HandleInstanceTag env (r\<lparr>PathValues := [(''key'', k)]\<rparr>) newResponse in
          (k \<in> set keys \<longleftrightarrow> status w = 200) \<and>
          (k \<in> set keys \<longrightarrow> (\<exists>c. VMConfigContext r = Some c \<and> map_of (Tags c) k = Some (body_text w))))"
    by blast
  have "status (HandlePublicIPv4 env r newResponse) = 200 \<longleftrightarrow> PublicIPv4 r \<noteq> []"
    using tok by (simp add: HandlePublicIPv4_def answer_defs http_defs http_simps Let_def)
  moreover have "status (HandleTags env r newResponse) = 200 \<longleftrightarrow> InstanceTags r \<noteq> None"
    using tok by (simp add: HandleTags_def answer_defs http_defs http_simps)
  ultimately show "body_text (HandleMetaDataIndex env r newResponse) = concat (map (\<lambda>p. p @ newline)
      ([''instance-id'', ''local-hostname'', ''local-ipv4'']
       @ (if status (HandlePublicIPv4 env r newResponse) = 200 then [''public-ipv4''] else [])
       @ [''placement/'', ''services/'']
       @ (if status (HandleTags env r newResponse) = 200 then [''tags/''] else [])))"
    using tok by (auto simp: HandleMetaDataIndex_def text_lines indexPaths_def dest: InstanceTags_ne split: option.splits)
  show "status (HandleHostname env r newResponse) = 200" "status (HandlePlacementKeys env r newResponse) = 200"
    "status (HandleDomain env r newResponse) = 200"
    using tok by (simp_all add: handler_defs answer_defs http_defs http_simps)
  have ip: "status (HandleLocalIPv4 env r newResponse) = 200 \<longleftrightarrow> LocalIPv4 r \<noteq> []"
    using tok by (simp add: HandleLocalIPv4_def answer_defs http_defs http_simps Let_def)
  then show "status (HandleLocalIPv4 env r newResponse) = 200 \<longleftrightarrow> (\<exists>b. Option.bind (PeerIP (RemoteAddr r)) To4 = Some b)"
    using LocalIPv4_ne by simp
  have id: "status (HandleInstanceID env r newResponse) = 200 \<longleftrightarrow> IsBound (VMConfigContext r) \<or> LocalIPv4 r \<noteq> []"
    using tok by (auto simp: HandleInstanceID_def InstanceID_def BoundVMFromRequest_def IsBound_def Let_def
        answer_defs http_defs http_simps split: option.splits)
  have nf: "status (NotFound newResponse) \<noteq> 200" by (simp add: http_defs http_simps)
  show "status (RequireVMIdentity require (store env) HandleInstanceID env r newResponse) = 200 \<longleftrightarrow>
       IsBound (VMConfigContext r) \<or> (\<not> require \<and> status (HandleLocalIPv4 env r newResponse) = 200)"
    using tok id ip nf by (auto simp: RequireVMIdentity_def validateToken_def)
  show "require \<and> \<not> IsBound (VMConfigContext r) \<longrightarrow>
       RequireVMIdentity require (store env) HandleInstanceID env r newResponse = NotFound newResponse"
    using tok by (simp add: RequireVMIdentity_def validateToken_def)
qed

definition sampleVM :: VMConfig where
  "sampleVM = \<lparr>VMID = ''101'', Name = ''web'', RawConfig = [(''public-ipv4'', ''203.0.113.7'')],
     Tags = [(''env'', ''prod''), (''app'', ''shop'')], MACs = [], EKSHA256 = ''''\<rparr>"

text \<open>A caller that is bound to no VM record sees \<open>instance-id\<close> in the index and cannot read it.\<close>

theorem index_entries_witness:
  "status (HandlePublicIPv4 sampleEnv (sampleRequest (Some sampleVM) (EncodeToString ''abc'')) newResponse) = 200 \<and>
   body_text (HandleMetaDataIndex sampleEnv (sampleRequest (Some sampleVM) (EncodeToString ''abc'')) newResponse)
     = concat (map (\<lambda>p. p @ newline)
         [''instance-id'', ''local-hostname'', ''local-ipv4'', ''public-ipv4'', ''placement/'', ''services/'', ''tags/'']) \<and>
   RequireVMIdentity True (store sampleEnv) HandleInstanceID sampleEnv
     (sampleRequest None (EncodeToString ''abc'')) newResponse = NotFound newResponse"
proof -
  let ?r = "sampleRequest (Some sampleVM) (EncodeToString ''abc'')" and ?u = "sampleRequest None (EncodeToString ''abc'')"
  have "validateToken sampleEnv ?r" "validateToken sampleEnv ?u"
    unfolding sampleEnv_def sampleRequest_def sampleVM_def by code_simp+
  moreover have "\<forall>c. VMConfigContext ?r = Some c \<longrightarrow> distinct (map fst (Tags c))"
    "\<forall>c. VMConfigContext ?u = Some c \<longrightarrow> distinct (map fst (Tags c))"
    by (simp_all add: sampleRequest_def sampleVM_def)
  moreover have "status (HandlePublicIPv4 sampleEnv ?r newResponse) = 200" "status (HandleTags sampleEnv ?r newResponse) = 200"
    unfolding sampleEnv_def sampleRequest_def sampleVM_def by code_simp+
  moreover have "\<not> IsBound (VMConfigContext ?u)" by (simp add: sampleRequest_def IsBound_def)
  ultimately show ?thesis using index_entries [of sampleEnv ?r True] index_entries [of sampleEnv ?u True] by simp
qed

subsection \<open>Minting a token over HTTP\<close>

text \<open>
  What may happen to the store after a token was given out: token requests of any caller, and ticks
  of the cleanup. \<open>token_peer\<close> is the peer a request is counted for.
\<close>

datatype token_event = TokenRequest time "string option" Request | CleanupTick time

definition token_peer :: "Request \<Rightarrow> string" where
  "token_peer r = mintPeer (case PeerIP (RemoteAddr r) of None \<Rightarrow> ''unknown'' | Some ip \<Rightarrow> IP_String ip)"

fun token_event_step :: "token_event \<Rightarrow> TokenStore \<Rightarrow> TokenStore" where
  "token_event_step (TokenRequest now rnd r) ts = fst (snd (HandleCreateToken now rnd ts r newResponse))"
| "token_event_step (CleanupTick now) ts = cleanupExpired now ts"

fun token_run :: "token_event list \<Rightarrow> TokenStore \<Rightarrow> TokenStore" where
  "token_run [] ts = ts"
| "token_run (ev # evs) ts = token_run evs (token_event_step ev ts)"

fun event_time :: "token_event \<Rightarrow> time" where
  "event_time (TokenRequest now rnd r) = now"
| "event_time (CleanupTick now) = now"

text \<open>The values drawn, the requests of a peer for which one was drawn, and those answered 200.\<close>

fun drawn :: "token_event list \<Rightarrow> string list" where
  "drawn [] = []"
| "drawn (TokenRequest now (Some b) r # evs) = EncodeToString b # drawn evs"
| "drawn (_ # evs) = drawn evs"

fun asked :: "string \<Rightarrow> token_event list \<Rightarrow> nat" where
  "asked p [] = 0"
| "asked p (TokenRequest now (Some b) r # evs) = (if token_peer r = p then 1 else 0) + asked p evs"
| "asked p (_ # evs) = asked p evs"

fun given :: "string \<Rightarrow> token_event list \<Rightarrow> TokenStore \<Rightarrow> nat" where
  "given p [] ts = 0"
| "given p (TokenRequest now rnd r # evs) ts =
     (case HandleCreateToken now rnd ts r newResponse of (w, ts', lg) \<Rightarrow>
        (if token_peer r = p \<and> status w = 200 then 1 else 0) + given p evs ts')"
| "given p (CleanupTick now # evs) ts = given p evs (cleanupExpired now ts)"

text \<open>The random values are new: none is in the store, and none is drawn twice.\<close>

definition fresh_values :: "token_event list \<Rightarrow> TokenStore \<Rightarrow> bool" where
  "fresh_values evs ts \<longleftrightarrow> distinct (drawn evs) \<and> set (drawn evs) \<inter> fst ` set (tokens ts) = {}"

lemma mint_by_peer: "generateTokenAt (mintPeer p) now rnd ts = generateTokenAt p now rnd ts"
  by (simp add: generateTokenAt_def mintPeer_def)

text \<open>The handler in terms of the store.\<close>

lemma HandleCreateToken_eq:
  "HandleCreateToken now rnd ts r w =
     (case generateTokenAt (token_peer r) now rnd ts of
        (Inl ErrTokenStoreEmergency, ts', l) \<Rightarrow>
          (Fprint (''Too many requests'' @ newline)
             (WriteHeader 429 (header_set ''Retry-After'' ''60'' (textPlain w))), ts', l)
      | (Inl ErrRandom, ts', l) \<Rightarrow> (http_Error ''Internal server error'' 500 w, ts', l)
      | (Inr token, ts', l) \<Rightarrow> (Fprint (Token token) (WriteHeader 200 (textPlain w)), ts', l))"
  by (simp only: HandleCreateToken_def token_peer_def mint_by_peer Let_def)

lemma token_statuses:
  "status (Fprint s (WriteHeader 200 (textPlain newResponse))) = 200"
  "status (Fprint s (WriteHeader 429 (header_set k v (textPlain newResponse)))) = 429"
  "status (http_Error s 500 newResponse) = 500"
  by (simp_all add: http_defs http_simps textPlain_def)

lemma HandleCreateToken_store:
  assumes "HandleCreateToken now rnd ts r newResponse = (w, ts', lg)"
  shows "rnd = None \<Longrightarrow> ts' = ts \<and> status w = 500"
    "rnd = Some b \<Longrightarrow> \<exists>res. generateTokenAt (token_peer r) now (Some b) ts = (res, ts', lg) \<and> (status w = 200 \<longleftrightarrow> \<not> isl res)"
proof -
  show "ts' = ts \<and> status w = 500" if "rnd = None"
    using assms that by (auto simp: HandleCreateToken_eq generateTokenAt_def Let_def token_statuses)
  obtain res s l where g: "generateTokenAt (token_peer r) now (Some b) ts = (res, s, l)" by (metis prod_cases3)
  show "\<exists>res. generateTokenAt (token_peer r) now (Some b) ts = (res, ts', lg) \<and> (status w = 200 \<longleftrightarrow> \<not> isl res)"
    if "rnd = Some b"
  proof (cases res)
    case (Inl e)
    then show ?thesis
      using assms that g by (cases e) (auto simp: HandleCreateToken_eq token_statuses)
  next
    case (Inr t)
    then show ?thesis
      using assms that g by (auto simp: HandleCreateToken_eq token_statuses)
  qed
qed

lemma event_keys:
  "fst ` set (tokens (token_event_step ev ts)) \<subseteq> set (drawn [ev]) \<union> fst ` set (tokens ts)"
proof (cases ev)
  case (TokenRequest now rnd r)
  obtain w ts' lg where h: "HandleCreateToken now rnd ts r newResponse = (w, ts', lg)" by (metis prod_cases3)
  show ?thesis
  proof (cases rnd)
    case None
    then show ?thesis using TokenRequest h HandleCreateToken_store(1) [OF h] by simp
  next
    case (Some b)
    obtain res where "generateTokenAt (token_peer r) now (Some b) ts = (res, ts', lg)"
      using HandleCreateToken_store(2) [OF h Some] by blast
    then show ?thesis using mint_keys TokenRequest h Some by simp
  qed
next
  case (CleanupTick now)
  then show ?thesis using tick_keys [of now ts] by simp
qed

lemma drawn_Cons: "drawn (ev # evs) = drawn [ev] @ drawn evs"
proof (cases ev)
  case (TokenRequest now rnd r)
  then show ?thesis by (cases rnd) simp_all
qed simp

lemma asked_Cons: "asked p (ev # evs) = asked p [ev] + asked p evs"
proof (cases ev)
  case (TokenRequest now rnd r)
  then show ?thesis by (cases rnd) simp_all
qed simp

lemma given_Cons: "given p (ev # evs) ts = given p [ev] ts + given p evs (token_event_step ev ts)"
  by (cases ev) (auto split: prod.split)

lemma fresh_values_step:
  assumes "fresh_values (ev # evs) ts"
  shows "fresh_values evs (token_event_step ev ts)"
proof -
  have "distinct (drawn evs)" "set (drawn [ev]) \<inter> set (drawn evs) = {}" "set (drawn evs) \<inter> fst ` set (tokens ts) = {}"
    using assms drawn_Cons [of ev evs] by (auto simp: fresh_values_def)
  then show ?thesis using event_keys [of ev ts] unfolding fresh_values_def by blast
qed

lemma forgotten_step:
  assumes "forgotten tok ts" "Token tok \<notin> set (drawn [ev])"
  shows "forgotten tok (token_event_step ev ts)"
proof -
  have "Token tok \<notin> fst ` set (tokens ts)" using assms(1) by (simp add: map_of_eq_None_iff)
  moreover have "fst ` set (tokens (token_event_step ev ts)) \<subseteq> set (drawn [ev]) \<union> fst ` set (tokens ts)"
    by (rule event_keys)
  ultimately show ?thesis using assms(2) by (auto simp: map_of_eq_None_iff)
qed

lemma forgotten_run:
  "forgotten tok ts \<Longrightarrow> Token tok \<notin> set (drawn evs) \<Longrightarrow> forgotten tok (token_run evs ts)"
proof (induction evs arbitrary: ts)
  case (Cons ev evs)
  then show ?case using forgotten_step [of ts tok ev] drawn_Cons [of ev evs] by simp
qed simp

text \<open>One event on a token that has not expired.\<close>

lemma held_request:
  assumes ok: "store_ok ts" and new: "map_of (tokens ts) (EncodeToString b) = None" and h: "held tok ts k" "k \<le> 31"
    and t: "now \<le> ExpiresAt tok" "ExpiresAt tok \<le> now + tokenTTL ts"
    and res: "HandleCreateToken now (Some b) ts r newResponse = (w, ts', lg)"
  shows "store_ok ts'" "tokenTTL ts' = tokenTTL ts"
    "if token_peer r = Peer tok \<and> k = 31 then forgotten tok ts'
     else held tok ts' (k + (if token_peer r = Peer tok \<and> status w = 200 then 1 else 0))"
proof -
  obtain res where g: "generateTokenAt (token_peer r) now (Some b) ts = (res, ts', lg)"
    and st: "status w = 200 \<longleftrightarrow> \<not> isl res"
    using HandleCreateToken_store(2) [OF res refl] by blast
  have p: "mintPeer (token_peer r) = token_peer r" by (simp add: token_peer_def mintPeer_def)
  show "store_ok ts'" "tokenTTL ts' = tokenTTL ts" by (fact mint_ok [OF ok new g])+
  show "if token_peer r = Peer tok \<and> k = 31 then forgotten tok ts'
     else held tok ts' (k + (if token_peer r = Peer tok \<and> status w = 200 then 1 else 0))"
    using held_mint [OF ok new h(1) t g] p st h(2) by (cases "token_peer r = Peer tok"; cases "k = 31") auto
qed

lemma held_step:
  assumes ok: "store_ok ts" and fresh: "fresh_values (ev # evs) ts" and h: "held tok ts k" "k \<le> 31"
    and t: "event_time ev \<le> ExpiresAt tok" "ExpiresAt tok \<le> event_time ev + tokenTTL ts"
  shows "tokenTTL (token_event_step ev ts) = tokenTTL ts"
    "store_ok (token_event_step ev ts)"
    "forgotten tok (token_event_step ev ts) \<Longrightarrow> k = 31 \<and> asked (Peer tok) [ev] = 1"
    "\<not> forgotten tok (token_event_step ev ts) \<Longrightarrow> held tok (token_event_step ev ts) (k + given (Peer tok) [ev] ts)
       \<and> k + given (Peer tok) [ev] ts \<le> 31 \<and> given (Peer tok) [ev] ts \<le> asked (Peer tok) [ev]"
proof -
  have "tokenTTL (token_event_step ev ts) = tokenTTL ts \<and> store_ok (token_event_step ev ts) \<and>
    (forgotten tok (token_event_step ev ts) \<and> k = 31 \<and> asked (Peer tok) [ev] = 1
     \<or> held tok (token_event_step ev ts) (k + given (Peer tok) [ev] ts)
       \<and> k + given (Peer tok) [ev] ts \<le> 31 \<and> given (Peer tok) [ev] ts \<le> asked (Peer tok) [ev])"
  proof (cases ev)
    case (TokenRequest now rnd r)
    obtain w ts' lg where res: "HandleCreateToken now rnd ts r newResponse = (w, ts', lg)" by (metis prod_cases3)
    show ?thesis
    proof (cases rnd)
      case None
      then show ?thesis using TokenRequest ok h HandleCreateToken_store(1) [OF res] res by simp
    next
      case (Some b)
      have "map_of (tokens ts) (EncodeToString b) = None"
        using fresh TokenRequest Some by (auto simp: fresh_values_def map_of_eq_None_iff)
      then show ?thesis
        using held_request [OF ok _ h, of b now r w ts' lg] t TokenRequest Some res h(2)
        by (cases "token_peer r = Peer tok"; cases "k = 31") auto
    qed
  next
    case (CleanupTick now)
    then show ?thesis
      using held_tick [OF h(1)] t cleanupExpired_ok [OF ok] h(2) by (simp add: cleanupExpired_def Let_def)
  qed
  moreover have "held tok (token_event_step ev ts) j \<Longrightarrow> store_ok (token_event_step ev ts) \<Longrightarrow> \<not> forgotten tok (token_event_step ev ts)" for j
    using held_lookup by fastforce
  ultimately show "tokenTTL (token_event_step ev ts) = tokenTTL ts"
    "store_ok (token_event_step ev ts)"
    "forgotten tok (token_event_step ev ts) \<Longrightarrow> k = 31 \<and> asked (Peer tok) [ev] = 1"
    "\<not> forgotten tok (token_event_step ev ts) \<Longrightarrow> held tok (token_event_step ev ts) (k + given (Peer tok) [ev] ts)
       \<and> k + given (Peer tok) [ev] ts \<le> 31 \<and> given (Peer tok) [ev] ts \<le> asked (Peer tok) [ev]"
    by metis+
qed

text \<open>
  The token at its place, through any such history in which it does not expire: it is pushed out by
  the 32nd newer token of its own peer and by nothing else.
\<close>

lemma held_run:
  assumes "store_ok ts" "fresh_values evs ts" "held tok ts k" "k \<le> 31" "Token tok \<notin> set (drawn evs)"
    and "\<forall>ev \<in> set evs. event_time ev \<le> ExpiresAt tok \<and> ExpiresAt tok \<le> event_time ev + tokenTTL ts"
  shows "forgotten tok (token_run evs ts) \<and> 32 \<le> k + asked (Peer tok) evs
    \<or> store_ok (token_run evs ts) \<and> held tok (token_run evs ts) (k + given (Peer tok) evs ts)
      \<and> k + given (Peer tok) evs ts \<le> 31"
  using assms
proof (induction evs arbitrary: ts k)
  case (Cons ev evs)
  let ?s = "token_event_step ev ts"
  have t: "event_time ev \<le> ExpiresAt tok" "ExpiresAt tok \<le> event_time ev + tokenTTL ts" using Cons.prems(6) by simp_all
  note step = held_step [OF Cons.prems(1-4) t]
  have fresh: "fresh_values evs ?s" using fresh_values_step [OF Cons.prems(2)] .
  have rest: "Token tok \<notin> set (drawn evs)" "\<forall>ev \<in> set evs. event_time ev \<le> ExpiresAt tok \<and> ExpiresAt tok \<le> event_time ev + tokenTTL ?s"
    using Cons.prems(5, 6) drawn_Cons [of ev evs] step(1) by auto
  show ?case
  proof (cases "forgotten tok ?s")
    case True
    then have "forgotten tok (token_run evs ?s)" by (rule forgotten_run [OF _ rest(1)])
    then show ?thesis using step(3) True asked_Cons [of "Peer tok" ev evs] by simp
  next
    case False
    let ?g = "given (Peer tok) [ev] ts"
    have s: "store_ok ?s" "held tok ?s (k + ?g)" "k + ?g \<le> 31" "?g \<le> asked (Peer tok) [ev]"
      using step False by blast+
    have "given (Peer tok) (ev # evs) ts = ?g + given (Peer tok) evs ?s" by (rule given_Cons)
    then show ?thesis
      using Cons.IH [OF s(1) fresh s(2, 3) rest] s(4) asked_Cons [of "Peer tok" ev evs] by (auto simp: add.assoc)
  qed
qed simp

text \<open>A value that is not drawn again is in the store only as the token it was.\<close>

lemma event_lookup:
  assumes "store_ok ts" "map_of (tokens (token_event_step ev ts)) v = Some u" "v \<notin> set (drawn [ev])"
  shows "map_of (tokens ts) v = Some u"
proof (cases ev)
  case (TokenRequest now rnd r)
  obtain w ts' lg where h: "HandleCreateToken now rnd ts r newResponse = (w, ts', lg)" by (metis prod_cases3)
  show ?thesis
  proof (cases rnd)
    case None
    then show ?thesis using TokenRequest h HandleCreateToken_store(1) [OF h] assms(2) by simp
  next
    case (Some b)
    obtain res where g: "generateTokenAt (token_peer r) now (Some b) ts = (res, ts', lg)"
      using HandleCreateToken_store(2) [OF h Some] by blast
    have "map_of (tokens ts') v = Some u" "v \<noteq> EncodeToString b" using assms TokenRequest h Some by simp_all
    then have "map_of (tokens (mintRoom (mintPeer (token_peer r)) now ts)) v = Some u"
      using g by (auto simp: generateTokenAt_cases Let_def addToken_def mintToken_def split: if_splits)
    then show ?thesis by (rule mintRoom_lookup)
  qed
next
  case (CleanupTick now)
  have "tokens (cleanupExpired now ts) = tokens (discardExpiredLocked now ts)"
    by (simp add: cleanupExpired_def Let_def)
  then have "(v, u) \<in> set (tokens ts)"
    using assms(2) CleanupTick discard_keys [of now ts] by (auto dest: map_of_SomeD)
  then show ?thesis using store_okD(1) [OF assms(1)] by simp
qed

lemma event_ok:
  assumes "store_ok ts" "fresh_values (ev # evs) ts"
  shows "store_ok (token_event_step ev ts)"
proof (cases ev)
  case (TokenRequest now rnd r)
  obtain w ts' lg where h: "HandleCreateToken now rnd ts r newResponse = (w, ts', lg)" by (metis prod_cases3)
  show ?thesis
  proof (cases rnd)
    case None
    then show ?thesis using TokenRequest h HandleCreateToken_store(1) [OF h] assms(1) by simp
  next
    case (Some b)
    obtain res where g: "generateTokenAt (token_peer r) now (Some b) ts = (res, ts', lg)"
      using HandleCreateToken_store(2) [OF h Some] by blast
    have "map_of (tokens ts) (EncodeToString b) = None"
      using assms(2) TokenRequest Some by (auto simp: fresh_values_def map_of_eq_None_iff)
    then show ?thesis using mint_ok(1) [OF assms(1) _ g] TokenRequest h by simp
  qed
next
  case (CleanupTick now)
  then show ?thesis using cleanupExpired_ok [OF assms(1)] by simp
qed

lemma run_lookup:
  assumes "store_ok ts" "fresh_values evs ts" "map_of (tokens (token_run evs ts)) v = Some u" "v \<notin> set (drawn evs)"
  shows "map_of (tokens ts) v = Some u"
  using assms
proof (induction evs arbitrary: ts)
  case (Cons ev evs)
  have "map_of (tokens (token_event_step ev ts)) v = Some u"
    using Cons event_ok [OF Cons.prems(1, 2)] fresh_values_step [OF Cons.prems(2)] drawn_Cons [of ev evs] by simp
  then show ?case using event_lookup [OF Cons.prems(1)] Cons.prems(4) drawn_Cons [of ev evs] by simp
qed simp

text \<open>A token answered now and looked for later.\<close>

lemma token_life:
  assumes ok: "store_ok ts" and fresh: "fresh_values (TokenRequest now (Some b) r # evs) ts"
    and g: "generateTokenAt (token_peer r) now (Some b) ts = (Inr tok, ts', lg)"
    and times: "\<forall>ev \<in> set evs. now \<le> event_time ev \<and> event_time ev \<le> later"
  shows "now + tokenTTL ts < later \<Longrightarrow> \<not> ValidateToken (token_run evs ts') later (EncodeToString b)"
    "later \<le> now + tokenTTL ts \<Longrightarrow> asked (token_peer r) evs < 32 \<Longrightarrow> ValidateToken (token_run evs ts') later (EncodeToString b)"
    "32 \<le> given (token_peer r) evs ts' \<Longrightarrow> \<not> ValidateToken (token_run evs ts') later (EncodeToString b)"
proof -
  have p: "mintPeer (token_peer r) = token_peer r" by (simp add: token_peer_def mintPeer_def)
  have tok: "Token tok = EncodeToString b" "Peer tok = token_peer r" "ExpiresAt tok = now + tokenTTL ts"
    and ts': "ts' = addToken tok (mintRoom (token_peer r) now ts)"
    using g p by (auto simp: generateTokenAt_cases Let_def mintToken_def split: if_splits)
  have new: "map_of (tokens ts) (EncodeToString b) = None" "EncodeToString b \<notin> set (drawn evs)"
    using fresh by (auto simp: fresh_values_def map_of_eq_None_iff)
  note ok' = mint_ok [OF ok new(1) g]
  have "token_event_step (TokenRequest now (Some b) r) ts = ts'"
    using g by (simp add: HandleCreateToken_eq)
  then have fresh': "fresh_values evs ts'" using fresh_values_step [OF fresh] by simp
  have h: "held tok ts' 0" by (auto simp: held_def ts')
  have look: "map_of (tokens (token_run evs ts')) (EncodeToString b) = Some u \<Longrightarrow> u = tok" for u
    using run_lookup [OF ok'(1) fresh' _ new(2), of u] tok(1) held_lookup [OF ok'(1) h] by simp
  show late: "\<not> ValidateToken (token_run evs ts') later (EncodeToString b)" if "now + tokenTTL ts < later"
    using look that tok(3) by (auto simp: ValidateToken_iff)
  have inv: "forgotten tok (token_run evs ts') \<and> 32 \<le> asked (Peer tok) evs
    \<or> store_ok (token_run evs ts') \<and> held tok (token_run evs ts') (given (Peer tok) evs ts') \<and> given (Peer tok) evs ts' \<le> 31"
    if "later \<le> now + tokenTTL ts"
    using held_run [OF ok'(1) fresh' h] new(2) tok times that ok'(2) by force
  show "ValidateToken (token_run evs ts') later (EncodeToString b)"
    if "later \<le> now + tokenTTL ts" "asked (token_peer r) evs < 32"
    using inv [OF that(1)] that tok held_lookup [of "token_run evs ts'" tok "given (token_peer r) evs ts'"]
    by (auto simp: ValidateToken_iff)
  show "\<not> ValidateToken (token_run evs ts') later (EncodeToString b)" if "32 \<le> given (token_peer r) evs ts'"
    using inv late that tok by (cases "later \<le> now + tokenTTL ts") (auto simp: ValidateToken_iff)
qed

text \<open>
  C28: The life of a session token. A token request fails with 500 exactly when the random source
  fails, and with 429 exactly when the store is still at its emergency cap after the caller's own
  list was pruned; otherwise the answer is 200, and its body is a token. Let then any token requests
  and cleanup ticks follow, each drawing a value of its own: sent as the token header of any
  request, the token is refused once the lifetime of the store has passed, and refused as soon as its
  peer got 32 newer ones, the quota that evicts the oldest; until then, while its peer made fewer than
  32 requests, it is accepted. Requests of other peers and the cleanup do not matter.
\<close>

theorem create_token_flow:
  assumes ok: "store_ok ts" and res: "HandleCreateToken now rnd ts r newResponse = (w, ts', lg)" and rnd: "rnd \<noteq> Some []"
    and fresh: "fresh_values (TokenRequest now rnd r # evs) ts"
    and times: "\<forall>ev \<in> set evs. now \<le> event_time ev \<and> event_time ev \<le> clock env"
    and env: "store env = Some (token_run evs ts')"
    and sent: "header_get r' ''X-Aws-Ec2-Metadata-Token'' = body_text w"
  shows "status w \<in> {200, 429, 500} \<and> (status w = 500 \<longleftrightarrow> rnd = None) \<and>
    (status w = 429 \<longleftrightarrow> rnd \<noteq> None \<and> GlobalTokenEmergencyCap \<le> liveCount (mintRoom (token_peer r) now ts)) \<and>
    (status w = 200 \<and> now + tokenTTL ts < clock env \<longrightarrow> \<not> validateToken env r') \<and>
    (status w = 200 \<and> 32 \<le> given (token_peer r) evs ts' \<longrightarrow> \<not> validateToken env r') \<and>
    (status w = 200 \<and> clock env \<le> now + tokenTTL ts \<and> asked (token_peer r) evs < 32 \<longrightarrow> validateToken env r')"
proof (cases rnd)
  case None
  then have "w = http_Error ''Internal server error'' 500 newResponse"
    using res by (auto simp: HandleCreateToken_eq generateTokenAt_def Let_def)
  with None show ?thesis by (simp add: token_statuses)
next
  case (Some b)
  have p: "mintPeer (token_peer r) = token_peer r" by (simp add: token_peer_def mintPeer_def)
  have ne: "EncodeToString b \<noteq> []" using rnd Some by simp
  show ?thesis
  proof (cases "GlobalTokenEmergencyCap \<le> liveCount (mintRoom (token_peer r) now ts)")
    case True
    then have "status w = 429"
      using res Some p by (auto simp: HandleCreateToken_eq generateTokenAt_cases Let_def token_statuses split: if_splits)
    then show ?thesis using True Some by simp
  next
    case False
    let ?tok = "mintToken (token_peer r) now b ts"
    have g: "generateTokenAt (token_peer r) now (Some b) ts = (Inr ?tok, ts', lg)"
      and w: "w = Fprint (EncodeToString b) (WriteHeader 200 (textPlain newResponse))"
      using False res Some p by (auto simp: HandleCreateToken_eq generateTokenAt_cases Let_def mintToken_def)
    have "body_text w = EncodeToString b" "status w = 200"
      by (simp_all add: w http_defs http_simps textPlain_def body_text_def)
    moreover from this have "validateToken env r' \<longleftrightarrow> ValidateToken (token_run evs ts') (clock env) (EncodeToString b)"
      using ne env sent by (simp add: validateToken_def storeValidatesToken_def)
    ultimately show ?thesis
      using False Some token_life [OF ok fresh [unfolded Some] g times] by auto
  qed
qed

text \<open>
  The first token of a store, after another caller's request and a tick: accepted to the end of its
  lifetime and not after.
\<close>

definition sampleLater :: "token_event list" where
  "sampleLater = [TokenRequest 6 (Some ''xyz'') ((sampleRequest None '''')\<lparr>RemoteAddr := ''10.0.0.8:99''\<rparr>), CleanupTick 7]"

theorem create_token_flow_witness:
  "\<exists>w ts' lg. HandleCreateToken 5 (Some ''abc'') (NewTokenStore 60) (sampleRequest None '''') newResponse
      = (w, ts', lg) \<and> status w = 200 \<and>
      validateToken \<lparr>store = Some (token_run sampleLater ts'), hostTopology = [], clock = 65\<rparr> (sampleRequest None (body_text w)) \<and>
      \<not> validateToken \<lparr>store = Some (token_run sampleLater ts'), hostTopology = [], clock = 66\<rparr> (sampleRequest None (body_text w))"
proof -
  obtain w ts' lg where
    g: "HandleCreateToken 5 (Some ''abc'') (NewTokenStore 60) (sampleRequest None '''') newResponse = (w, ts', lg)"
    by (metis prod_cases3)
  have st: "status (fst (HandleCreateToken 5 (Some ''abc'') (NewTokenStore 60) (sampleRequest None '''') newResponse)) = 200"
    unfolding sampleRequest_def by code_simp
  have f: "fresh_values (TokenRequest 5 (Some ''abc'') (sampleRequest None '''') # sampleLater) (NewTokenStore 60)"
    unfolding sampleLater_def sampleRequest_def by code_simp
  have a: "asked (token_peer (sampleRequest None '''')) sampleLater < 32"
    unfolding sampleLater_def sampleRequest_def by code_simp
  have t: "\<forall>ev \<in> set sampleLater. 5 \<le> event_time ev \<and> event_time ev \<le> clock env" if "7 \<le> clock env" for env
    using that by (auto simp: sampleLater_def)
  have h: "header_get (sampleRequest None (body_text w)) ''X-Aws-Ec2-Metadata-Token'' = body_text w"
    by (simp add: header_get_def sampleRequest_def)
  note flow = create_token_flow [OF store_ok_New g _ f _ _ h]
  let ?env = "\<lambda>now. \<lparr>store = Some (token_run sampleLater ts'), hostTopology = [], clock = now\<rparr>"
  have "validateToken (?env 65) (sampleRequest None (body_text w))"
    "\<not> validateToken (?env 66) (sampleRequest None (body_text w))"
    using flow [of "?env 65"] flow [of "?env 66"] t [of "?env 65"] t [of "?env 66"] st a g by (simp_all add: NewTokenStore_def)
  then show ?thesis using g st by simp
qed

end
