(* ===== verification/Limiter.thy ===== *)
theory Limiter
  imports Imds_Handlers
begin

text \<open>
  The guest throttle, \<open>internal/server/limit.go\<close>: per-peer budgets of requests, token PUTs and
  enrolment POSTs in a sliding window of sixty seconds, a cap on concurrent connections, and
  the middleware that applies them. Every operation holds \<open>l.mu\<close>, so it is one step on the
  record. \<open>now\<close> is the time the caller passes; \<open>t1\<close> and \<open>t2\<close> are the two readings of the
  clock that \<open>trip\<close> makes (\<open>time.Since\<close>, then \<open>time.Now\<close>).

  The second half states the budget as an abstract counter over the history of admitted
  events and shows that the three budgets implement it, and that the connection count is
  the number of open connections that were not refused.
\<close>

subsection \<open>State\<close>

definition limitWindow :: duration where
  "limitWindow = 60 * second"

definition maxTokenPUTsPerPeer :: nat where
  "maxTokenPUTsPerPeer = 30"

definition maxRequestsPerPeer :: nat where
  "maxRequestsPerPeer = 120"

definition maxConnsPerPeer :: int where
  "maxConnsPerPeer = 16"

definition maxEnrollPerPeer :: nat where
  "maxEnrollPerPeer = 6"

definition retryAfterSeconds :: string where
  "retryAfterSeconds = ''60''"

datatype limitKind = LimitRequest | LimitToken | LimitEnroll | LimitConn

text \<open>A \<open>net.Conn\<close>: its identity as a map key, and its remote address.\<close>

record Conn =
  connId :: nat
  connRemoteAddr :: string

datatype ConnState = StateNew | StateActive | StateIdle | StateHijacked | StateClosed

record peerBudget =
  b_requests :: "time list"
  b_tokens :: "time list"
  b_enrolls :: "time list"
  b_conns :: int
  b_logged :: "(limitKind \<times> time) list"

record guestLimiter =
  peers :: "(string \<times> peerBudget) list"
  overCap :: "Conn list"

text \<open>The log line \<open>rate limit: peer=.. kind=..\<close>.\<close>

datatype limit_log = RateLimit string limitKind

definition newPeerBudget :: peerBudget where
  "newPeerBudget = \<lparr>b_requests = [], b_tokens = [], b_enrolls = [], b_conns = 0, b_logged = []\<rparr>"

definition newGuestLimiter :: guestLimiter where
  "newGuestLimiter = \<lparr>peers = [], overCap = []\<rparr>"

subsection \<open>Operations\<close>

text \<open>
  \<open>l.peer(key)\<close> returns a pointer into the map, creating the entry when it is missing: reading
  through it is \<open>budget\<close>, writing through it is \<open>setBudget\<close>, and \<open>peer\<close> is the creation.
\<close>

definition budget :: "string \<Rightarrow> guestLimiter \<Rightarrow> peerBudget" where
  "budget key l = (case map_of (peers l) key of None \<Rightarrow> newPeerBudget | Some p \<Rightarrow> p)"

definition setBudget :: "string \<Rightarrow> peerBudget \<Rightarrow> guestLimiter \<Rightarrow> guestLimiter" where
  "setBudget key p l = l\<lparr>peers := AList.update key p (peers l)\<rparr>"

definition peer :: "string \<Rightarrow> guestLimiter \<Rightarrow> guestLimiter" where
  "peer key l = (if map_of (peers l) key = None then setBudget key newPeerBudget l else l)"

definition peerKeyFromAddr :: "string \<Rightarrow> string" where
  "peerKeyFromAddr remoteAddr =
     (case PeerIP remoteAddr of Some ip \<Rightarrow> IP_String ip | None \<Rightarrow> ''unknown'')"

definition prune :: "time list \<Rightarrow> time \<Rightarrow> time list" where
  "prune ts now = (let cut = now - limitWindow in filter (\<lambda>t. t > cut) ts)"

definition trip :: "string \<Rightarrow> limitKind \<Rightarrow> time \<Rightarrow> time \<Rightarrow> guestLimiter \<Rightarrow> guestLimiter \<times> limit_log list" where
  "trip key kind t1 t2 l0 =
     (let l = peer key l0; p = budget key l in
      case map_of (b_logged p) kind of
        Some logged \<Rightarrow>
          if t1 - logged < limitWindow then (l, [])
          else (setBudget key (p\<lparr>b_logged := AList.update kind t2 (b_logged p)\<rparr>) l, [RateLimit key kind])
      | None \<Rightarrow>
          (setBudget key (p\<lparr>b_logged := AList.update kind t2 (b_logged p)\<rparr>) l, [RateLimit key kind]))"

definition allowRequest ::
  "string \<Rightarrow> time \<Rightarrow> time \<Rightarrow> time \<Rightarrow> guestLimiter \<Rightarrow> bool \<times> guestLimiter \<times> limit_log list" where
  "allowRequest key now t1 t2 l0 =
     (let l = peer key l0;
          p = (budget key l)\<lparr>b_requests := prune (b_requests (budget key l)) now\<rparr>;
          l1 = setBudget key p l in
      if length (b_requests p) \<ge> maxRequestsPerPeer
      then (case trip key LimitRequest t1 t2 l1 of (l2, lg) \<Rightarrow> (False, l2, lg))
      else (True, setBudget key (p\<lparr>b_requests := b_requests p @ [now]\<rparr>) l1, []))"

definition allowToken ::
  "string \<Rightarrow> time \<Rightarrow> time \<Rightarrow> time \<Rightarrow> guestLimiter \<Rightarrow> bool \<times> guestLimiter \<times> limit_log list" where
  "allowToken key now t1 t2 l0 =
     (let l = peer key l0;
          p = (budget key l)\<lparr>b_tokens := prune (b_tokens (budget key l)) now\<rparr>;
          l1 = setBudget key p l in
      if length (b_tokens p) \<ge> maxTokenPUTsPerPeer
      then (case trip key LimitToken t1 t2 l1 of (l2, lg) \<Rightarrow> (False, l2, lg))
      else (True, setBudget key (p\<lparr>b_tokens := b_tokens p @ [now]\<rparr>) l1, []))"

definition allowEnroll ::
  "string \<Rightarrow> time \<Rightarrow> time \<Rightarrow> time \<Rightarrow> guestLimiter \<Rightarrow> bool \<times> guestLimiter \<times> limit_log list" where
  "allowEnroll key now t1 t2 l0 =
     (let l = peer key l0;
          p = (budget key l)\<lparr>b_enrolls := prune (b_enrolls (budget key l)) now\<rparr>;
          l1 = setBudget key p l in
      if length (b_enrolls p) \<ge> maxEnrollPerPeer
      then (case trip key LimitEnroll t1 t2 l1 of (l2, lg) \<Rightarrow> (False, l2, lg))
      else (True, setBudget key (p\<lparr>b_enrolls := b_enrolls p @ [now]\<rparr>) l1, []))"

text \<open>One round of the loop of \<open>scrubIdlePeers\<close>: the entry it leaves, or none when it is deleted.\<close>

definition scrub_entry :: "time \<Rightarrow> string \<times> peerBudget \<Rightarrow> (string \<times> peerBudget) list" where
  "scrub_entry now e =
     (case e of (key, p0) \<Rightarrow>
        let p = p0\<lparr>b_requests := prune (b_requests p0) now, b_tokens := prune (b_tokens p0) now,
                   b_enrolls := prune (b_enrolls p0) now\<rparr> in
        if b_conns p > 0 then [(key, p)]
        else if length (b_requests p) > 0 \<or> length (b_tokens p) > 0 \<or> length (b_enrolls p) > 0
        then [(key, p)]
        else if list_ex (\<lambda>(kind, t). t > now - limitWindow) (b_logged p) then [(key, p)]
        else [])"

definition scrubIdlePeers :: "time \<Rightarrow> guestLimiter \<Rightarrow> guestLimiter" where
  "scrubIdlePeers now l = l\<lparr>peers := concat (map (scrub_entry now) (peers l))\<rparr>"

definition peerCount :: "guestLimiter \<Rightarrow> nat" where
  "peerCount l = length (peers l)"

text \<open>The last component of the result says whether the connection is closed.\<close>

definition trackConnState ::
  "Conn \<Rightarrow> ConnState \<Rightarrow> time \<Rightarrow> time \<Rightarrow> guestLimiter \<Rightarrow> guestLimiter \<times> limit_log list \<times> bool" where
  "trackConnState c state t1 t2 l0 =
     (let key = peerKeyFromAddr (connRemoteAddr c); l = peer key l0; p = budget key l in
      case state of
        StateNew \<Rightarrow>
          if b_conns p \<ge> maxConnsPerPeer
          then (case trip key LimitConn t1 t2 l of
                  (l1, lg) \<Rightarrow> (l1\<lparr>overCap := List.insert c (overCap l1)\<rparr>, lg, True))
          else (setBudget key (p\<lparr>b_conns := b_conns p + 1\<rparr>) l, [], False)
      | StateActive \<Rightarrow> (l, [], False)
      | StateIdle \<Rightarrow> (l, [], False)
      | _ \<Rightarrow>
          if c \<in> set (overCap l) then (l\<lparr>overCap := filter (\<lambda>d. d \<noteq> c) (overCap l)\<rparr>, [], False)
          else if b_conns p > 0 then (setBudget key (p\<lparr>b_conns := b_conns p - 1\<rparr>) l, [], False)
          else (l, [], False))"

definition writeTooManyRequests :: "ResponseWriter \<Rightarrow> ResponseWriter" where
  "writeTooManyRequests w =
     Fprint (''Too many requests'' @ newline)
       (WriteHeader 429
         (header_set ''Connection'' ''close''
           (header_set ''Retry-After'' retryAfterSeconds (textPlain w))))"

definition isEnrollPath :: "string \<Rightarrow> bool" where
  "isEnrollPath path = HasPrefix path ''/latest/devid/enroll/''"

text \<open>
  The middleware around a handler \<open>next\<close> that also changes a state of its own. The three
  budgets are asked in turn and the first refusal ends the request.
\<close>

definition guestLimitMiddleware ::
  "(Request \<Rightarrow> ResponseWriter \<Rightarrow> 's \<Rightarrow> ResponseWriter \<times> 's) \<Rightarrow> time \<Rightarrow> time \<Rightarrow> time
    \<Rightarrow> Request \<Rightarrow> ResponseWriter \<Rightarrow> guestLimiter \<times> 's
    \<Rightarrow> ResponseWriter \<times> (guestLimiter \<times> 's) \<times> limit_log list" where
  "guestLimitMiddleware next now t1 t2 r w st =
     (case st of (l, s) \<Rightarrow>
      if Method r = ''GET'' \<and> Path r = ''/health'' then
        (case next r w s of (w', s') \<Rightarrow> (w', (l, s'), []))
      else
        let key = peerKeyFromAddr (RemoteAddr r) in
        case allowRequest key now t1 t2 l of
          (False, l1, lg) \<Rightarrow> (writeTooManyRequests w, (l1, s), lg)
        | (True, l1, lg) \<Rightarrow>
            (case (if Method r = ''PUT'' \<and> Path r = ''/latest/api/token''
                   then allowToken key now t1 t2 l1 else (True, l1, [])) of
               (False, l2, lg2) \<Rightarrow> (writeTooManyRequests w, (l2, s), lg @ lg2)
             | (True, l2, lg2) \<Rightarrow>
                 (case (if Method r = ''POST'' \<and> isEnrollPath (Path r)
                        then allowEnroll key now t1 t2 l2 else (True, l2, [])) of
                    (False, l3, lg3) \<Rightarrow> (writeTooManyRequests w, (l3, s), lg @ lg2 @ lg3)
                  | (True, l3, lg3) \<Rightarrow>
                      (case next r w s of (w', s') \<Rightarrow> (w', (l3, s'), lg @ lg2 @ lg3)))))"

subsection \<open>Reading a budget after an operation\<close>

lemma budget_setBudget [simp]: "budget k (setBudget k' p l) = (if k = k' then p else budget k l)"
  by (simp add: budget_def setBudget_def)

lemma budget_peer [simp]: "budget k (peer k' l) = budget k l"
  by (simp add: peer_def) (simp add: budget_def)

lemma overCap_simps [simp]:
  "overCap (setBudget k p l) = overCap l" "overCap (peer k l) = overCap l"
  "budget k (l\<lparr>overCap := x\<rparr>) = budget k l"
  by (simp_all add: setBudget_def peer_def budget_def)

definition limiter_ok :: "guestLimiter \<Rightarrow> bool" where
  "limiter_ok l \<longleftrightarrow> distinct (map fst (peers l))"

lemma limiter_ok_simps [simp]:
  "limiter_ok l \<Longrightarrow> limiter_ok (setBudget k p l)" "limiter_ok l \<Longrightarrow> limiter_ok (peer k l)"
  "limiter_ok (l\<lparr>overCap := x\<rparr>) = limiter_ok l" "limiter_ok newGuestLimiter"
  by (simp_all add: limiter_ok_def setBudget_def peer_def newGuestLimiter_def)

lemma trip_budget:
  assumes "trip k kind t1 t2 l = (l', lg)"
  shows "b_requests (budget q l') = b_requests (budget q l)" "b_tokens (budget q l') = b_tokens (budget q l)"
    "b_enrolls (budget q l') = b_enrolls (budget q l)" "b_conns (budget q l') = b_conns (budget q l)"
    "overCap l' = overCap l" "limiter_ok l \<Longrightarrow> limiter_ok l'"
proof -
  obtain g where g: "l' = peer k l \<or> l' = setBudget k ((budget k l)\<lparr>b_logged := g\<rparr>) (peer k l)"
    using assms by (auto simp: trip_def Let_def split: option.splits if_splits)
  then show "b_requests (budget q l') = b_requests (budget q l)" "b_tokens (budget q l') = b_tokens (budget q l)"
    "b_enrolls (budget q l') = b_enrolls (budget q l)" "b_conns (budget q l') = b_conns (budget q l)"
    "overCap l' = overCap l" "limiter_ok l \<Longrightarrow> limiter_ok l'"
    by auto
qed

text \<open>A \<open>range\<close> over a map that rewrites or deletes the entry at hand.\<close>

lemma map_of_concat_entries:
  assumes "distinct (map fst m)" "\<And>k v. f (k, v) = [] \<or> (\<exists>v'. f (k, v) = [(k, v')])"
  shows "map_of (concat (map f m)) k =
      (case map_of m k of None \<Rightarrow> None | Some v \<Rightarrow> (case f (k, v) of [] \<Rightarrow> None | (k', v') # _ \<Rightarrow> Some v')) \<and>
    distinct (map fst (concat (map f m))) \<and> fst ` set (concat (map f m)) \<subseteq> fst ` set m"
  using assms(1)
proof (induction m)
  case (Cons e m)
  obtain k1 v1 where e: "e = (k1, v1)" by (cases e)
  have new: "k1 \<notin> fst ` set m" "map_of m k1 = None"
    using Cons.prems e by (simp_all add: map_of_eq_None_iff)
  define L where "L = concat (map f m)"
  have L: "map_of L k = (case map_of m k of None \<Rightarrow> None
      | Some v \<Rightarrow> (case f (k, v) of [] \<Rightarrow> None | (k', v') # _ \<Rightarrow> Some v'))"
    "distinct (map fst L)" "fst ` set L \<subseteq> fst ` set m"
    using Cons by (auto simp: L_def)
  have cat: "concat (map f (e # m)) = f e @ L" by (simp add: L_def)
  have "k1 \<notin> fst ` set L" using L(3) new by blast
  with L e new assms(2) [of k1 v1] show ?case unfolding cat by (auto simp: image_iff)
qed simp

lemma scrub_entry_shape: "scrub_entry now (k, v) = [] \<or> (\<exists>v'. scrub_entry now (k, v) = [(k, v')])"
  by (simp add: scrub_entry_def Let_def)

lemma prune_Nil [simp]: "prune [] now = []"
  by (simp add: prune_def)

lemma scrub_budget:
  assumes "limiter_ok l"
  shows "b_requests (budget k (scrubIdlePeers now l)) = prune (b_requests (budget k l)) now"
    "b_tokens (budget k (scrubIdlePeers now l)) = prune (b_tokens (budget k l)) now"
    "b_enrolls (budget k (scrubIdlePeers now l)) = prune (b_enrolls (budget k l)) now"
    "0 \<le> b_conns (budget k l) \<Longrightarrow> b_conns (budget k (scrubIdlePeers now l)) = b_conns (budget k l)"
    "limiter_ok (scrubIdlePeers now l)" "overCap (scrubIdlePeers now l) = overCap l"
proof -
  note c = map_of_concat_entries [OF assms [unfolded limiter_ok_def] scrub_entry_shape]
  have b: "budget k (scrubIdlePeers now l) =
      (case map_of (peers l) k of None \<Rightarrow> newPeerBudget
       | Some v \<Rightarrow> (case scrub_entry now (k, v) of [] \<Rightarrow> newPeerBudget | (k', v') # _ \<Rightarrow> v'))"
    by (simp add: budget_def scrubIdlePeers_def c split: option.splits list.splits)
  show "b_requests (budget k (scrubIdlePeers now l)) = prune (b_requests (budget k l)) now"
    "b_tokens (budget k (scrubIdlePeers now l)) = prune (b_tokens (budget k l)) now"
    "b_enrolls (budget k (scrubIdlePeers now l)) = prune (b_enrolls (budget k l)) now"
    "0 \<le> b_conns (budget k l) \<Longrightarrow> b_conns (budget k (scrubIdlePeers now l)) = b_conns (budget k l)"
    unfolding b by (auto simp: budget_def scrub_entry_def Let_def newPeerBudget_def split: option.splits)
  show "limiter_ok (scrubIdlePeers now l)" "overCap (scrubIdlePeers now l) = overCap l"
    using c by (simp_all add: limiter_ok_def scrubIdlePeers_def)
qed

subsection \<open>The budget as an abstract counter\<close>

text \<open>
  The specification of one budget keeps the whole history of admitted events and admits an
  event exactly when fewer than \<open>cap\<close> admitted ones lie in the window that ends with it.
\<close>

definition in_window :: "time \<Rightarrow> time list \<Rightarrow> time list" where
  "in_window now hist = filter (\<lambda>t. t > now - limitWindow) hist"

definition spec_admits :: "nat \<Rightarrow> time \<Rightarrow> time list \<Rightarrow> bool" where
  "spec_admits cap now hist \<longleftrightarrow> length (in_window now hist) < cap"

text \<open>No window of sixty seconds, wherever it lies, holds more than \<open>cap\<close> events.\<close>

definition rate_bounded :: "nat \<Rightarrow> time list \<Rightarrow> bool" where
  "rate_bounded cap hist \<longleftrightarrow>
     (\<forall>t. length (filter (\<lambda>u. t - limitWindow < u \<and> u \<le> t) hist) \<le> cap)"

lemma limitWindow_pos: "0 < limitWindow"
  by (simp add: limitWindow_def duration_simps)

lemma prune_eq_in_window: "prune ts now = in_window now ts"
  by (simp add: prune_def in_window_def Let_def)

lemma in_window_later: "now \<le> now' \<Longrightarrow> in_window now' (in_window now ts) = in_window now' ts"
  by (auto simp: in_window_def intro: filter_cong)

lemma in_window_snoc: "in_window now (ts @ [now]) = in_window now ts @ [now]"
  using limitWindow_pos by (simp add: in_window_def)

lemma length_filter_mono:
  "(\<And>x. x \<in> set xs \<Longrightarrow> P x \<Longrightarrow> Q x) \<Longrightarrow> length (filter P xs) \<le> length (filter Q xs)"
  by (induction xs) auto

lemma rate_bounded_snoc:
  assumes bounded: "rate_bounded cap hist" and adm: "spec_admits cap now hist"
    and past: "\<forall>u \<in> set hist. u \<le> now"
  shows "rate_bounded cap (hist @ [now])"
  unfolding rate_bounded_def
proof (intro allI)
  fix t
  let ?P = "\<lambda>u. t - limitWindow < u \<and> u \<le> t"
  show "length (filter ?P (hist @ [now])) \<le> cap"
  proof (cases "?P now")
    case True
    then have "length (filter ?P hist) \<le> length (in_window now hist)"
      unfolding in_window_def by (intro length_filter_mono) auto
    with adm True show ?thesis by (simp add: spec_admits_def)
  qed (use bounded in \<open>auto simp: rate_bounded_def\<close>)
qed

text \<open>
  The interface of one budget: how it decides, and what it leaves in the stamps it keeps.
  Every budget that satisfies it implements the abstract counter.
\<close>

locale window_budget =
  fixes allow :: "string \<Rightarrow> time \<Rightarrow> time \<Rightarrow> time \<Rightarrow> guestLimiter \<Rightarrow> bool \<times> guestLimiter \<times> limit_log list"
    and stamps :: "peerBudget \<Rightarrow> time list" and cap :: nat
  assumes allow_decides: "allow k now t1 t2 l = (ok, l', lg) \<Longrightarrow>
      ok \<longleftrightarrow> length (prune (stamps (budget k l)) now) < cap"
    and allow_stamps: "allow k now t1 t2 l = (ok, l', lg) \<Longrightarrow> stamps (budget q l') =
      (if q = k then prune (stamps (budget k l)) now @ (if ok then [now] else [])
       else stamps (budget q l))"
    and scrub_stamps: "limiter_ok l \<Longrightarrow>
      stamps (budget q (scrubIdlePeers now l)) = prune (stamps (budget q l)) now"
begin

definition represents :: "time \<Rightarrow> guestLimiter \<Rightarrow> (string \<Rightarrow> time list) \<Rightarrow> bool" where
  "represents now l hist \<longleftrightarrow>
     (\<forall>q. in_window now (stamps (budget q l)) = in_window now (hist q) \<and>
        rate_bounded cap (hist q) \<and> (\<forall>u \<in> set (hist q). u \<le> now))"

lemma represents_later:
  assumes "represents now l hist" "now \<le> now'"
  shows "represents now' l hist"
  using assms in_window_later [OF assms(2)] unfolding represents_def
  by (metis order_trans)

lemma allow_refines:
  assumes rep: "represents now l hist" and res: "allow k now t1 t2 l = (ok, l', lg)"
  shows "ok \<longleftrightarrow> spec_admits cap now (hist k)"
    and "represents now l' (hist(k := hist k @ (if ok then [now] else [])))"
proof -
  have win: "in_window now (stamps (budget q l)) = in_window now (hist q)" for q
    using rep by (simp add: represents_def)
  show ok: "ok \<longleftrightarrow> spec_admits cap now (hist k)"
    using allow_decides [OF res] by (simp add: prune_eq_in_window win spec_admits_def)
  show "represents now l' (hist(k := hist k @ (if ok then [now] else [])))"
    using rep ok
    by (auto simp: represents_def allow_stamps [OF res] prune_eq_in_window in_window_snoc
        in_window_later rate_bounded_snoc)
qed

lemma represents_bounded: "represents now l hist \<Longrightarrow> rate_bounded cap (hist q)"
  by (simp add: represents_def)

lemma scrub_represents:
  assumes "represents now l hist" "limiter_ok l"
  shows "represents now (scrubIdlePeers now l) hist"
  using assms by (simp add: represents_def scrub_stamps prune_eq_in_window in_window_later)

lemma same_represents:
  assumes "represents now l hist" "\<And>q. stamps (budget q l') = stamps (budget q l)"
  shows "represents now l' hist"
  using assms by (simp add: represents_def)

end

lemma allowRequest_keeps:
  assumes "allowRequest k now t1 t2 l = (ok, l', lg)"
  shows "b_tokens (budget q l') = b_tokens (budget q l)" "b_enrolls (budget q l') = b_enrolls (budget q l)"
    "b_conns (budget q l') = b_conns (budget q l)" "overCap l' = overCap l" "limiter_ok l \<Longrightarrow> limiter_ok l'"
  using assms by (auto simp: allowRequest_def Let_def trip_budget split: if_splits prod.splits)

lemma allowToken_keeps:
  assumes "allowToken k now t1 t2 l = (ok, l', lg)"
  shows "b_requests (budget q l') = b_requests (budget q l)" "b_enrolls (budget q l') = b_enrolls (budget q l)"
    "b_conns (budget q l') = b_conns (budget q l)" "overCap l' = overCap l" "limiter_ok l \<Longrightarrow> limiter_ok l'"
  using assms by (auto simp: allowToken_def Let_def trip_budget split: if_splits prod.splits)

lemma allowEnroll_keeps:
  assumes "allowEnroll k now t1 t2 l = (ok, l', lg)"
  shows "b_requests (budget q l') = b_requests (budget q l)" "b_tokens (budget q l') = b_tokens (budget q l)"
    "b_conns (budget q l') = b_conns (budget q l)" "overCap l' = overCap l" "limiter_ok l \<Longrightarrow> limiter_ok l'"
  using assms by (auto simp: allowEnroll_def Let_def trip_budget split: if_splits prod.splits)

interpretation requests: window_budget allowRequest b_requests maxRequestsPerPeer
  by unfold_locales
     (auto simp: allowRequest_def Let_def trip_budget scrub_budget split: if_splits prod.splits)

interpretation tokens: window_budget allowToken b_tokens maxTokenPUTsPerPeer
  by unfold_locales
     (auto simp: allowToken_def Let_def trip_budget scrub_budget split: if_splits prod.splits)

interpretation enrolls: window_budget allowEnroll b_enrolls maxEnrollPerPeer
  by unfold_locales
     (auto simp: allowEnroll_def Let_def trip_budget scrub_budget split: if_splits prod.splits)

subsection \<open>Runs of the throttle\<close>

text \<open>
  A run of the throttle: its state, the history of the events each budget admitted, the
  latest time passed to it and the connections that are open. Times passed in do not go
  backwards; connections open once and close once, as \<open>net/http\<close> reports them.
\<close>

record throttle_run =
  lim :: guestLimiter
  hist :: "limitKind \<Rightarrow> string \<Rightarrow> time list"
  at :: time
  conns :: "Conn list"

definition note_admitted ::
  "limitKind \<Rightarrow> string \<Rightarrow> time \<Rightarrow> bool \<Rightarrow> (limitKind \<Rightarrow> string \<Rightarrow> time list) \<Rightarrow> limitKind \<Rightarrow> string \<Rightarrow> time list" where
  "note_admitted kind k now ok h = h(kind := (h kind)(k := h kind k @ (if ok then [now] else [])))"

inductive throttle_step :: "throttle_run \<Rightarrow> throttle_run \<Rightarrow> bool" where
  request: "at s \<le> now \<Longrightarrow> allowRequest k now t1 t2 (lim s) = (ok, l', lg) \<Longrightarrow>
    throttle_step s (s\<lparr>lim := l', at := now, hist := note_admitted LimitRequest k now ok (hist s)\<rparr>)"
| token: "at s \<le> now \<Longrightarrow> allowToken k now t1 t2 (lim s) = (ok, l', lg) \<Longrightarrow>
    throttle_step s (s\<lparr>lim := l', at := now, hist := note_admitted LimitToken k now ok (hist s)\<rparr>)"
| enroll: "at s \<le> now \<Longrightarrow> allowEnroll k now t1 t2 (lim s) = (ok, l', lg) \<Longrightarrow>
    throttle_step s (s\<lparr>lim := l', at := now, hist := note_admitted LimitEnroll k now ok (hist s)\<rparr>)"
| scrub: "at s \<le> now \<Longrightarrow> throttle_step s (s\<lparr>lim := scrubIdlePeers now (lim s), at := now\<rparr>)"
| opened: "c \<notin> set (conns s) \<Longrightarrow> trackConnState c StateNew t1 t2 (lim s) = (l', lg, cl) \<Longrightarrow>
    throttle_step s (s\<lparr>lim := l', conns := c # conns s\<rparr>)"
| moved: "c \<in> set (conns s) \<Longrightarrow> st \<in> {StateActive, StateIdle} \<Longrightarrow>
    trackConnState c st t1 t2 (lim s) = (l', lg, cl) \<Longrightarrow> throttle_step s (s\<lparr>lim := l'\<rparr>)"
| closed: "c \<in> set (conns s) \<Longrightarrow> st \<in> {StateHijacked, StateClosed} \<Longrightarrow>
    trackConnState c st t1 t2 (lim s) = (l', lg, cl) \<Longrightarrow>
    throttle_step s (s\<lparr>lim := l', conns := filter (\<lambda>d. d \<noteq> c) (conns s)\<rparr>)"

definition throttle_start :: "time \<Rightarrow> throttle_run" where
  "throttle_start t = \<lparr>lim = newGuestLimiter, hist = (\<lambda>_ _. []), at = t, conns = []\<rparr>"

text \<open>The connections of a peer that were counted when they opened.\<close>

definition counted :: "throttle_run \<Rightarrow> string \<Rightarrow> Conn list" where
  "counted s k = filter (\<lambda>c. peerKeyFromAddr (connRemoteAddr c) = k \<and> c \<notin> set (overCap (lim s))) (conns s)"

definition conns_inv :: "throttle_run \<Rightarrow> bool" where
  "conns_inv s \<longleftrightarrow> distinct (conns s) \<and> set (overCap (lim s)) \<subseteq> set (conns s) \<and>
     (\<forall>k. b_conns (budget k (lim s)) = int (length (counted s k)) \<and>
        int (length (counted s k)) \<le> maxConnsPerPeer)"

definition rates_inv :: "throttle_run \<Rightarrow> bool" where
  "rates_inv s \<longleftrightarrow> requests.represents (at s) (lim s) (hist s LimitRequest) \<and>
     tokens.represents (at s) (lim s) (hist s LimitToken) \<and>
     enrolls.represents (at s) (lim s) (hist s LimitEnroll)"

definition throttle_inv :: "throttle_run \<Rightarrow> bool" where
  "throttle_inv s \<longleftrightarrow> limiter_ok (lim s) \<and> rates_inv s \<and> conns_inv s"

lemma track_keeps:
  assumes "trackConnState c st t1 t2 l = (l', lg, cl)"
  shows "b_requests (budget q l') = b_requests (budget q l)" "b_tokens (budget q l') = b_tokens (budget q l)"
    "b_enrolls (budget q l') = b_enrolls (budget q l)" "limiter_ok l \<Longrightarrow> limiter_ok l'"
  using assms
  by (auto simp: trackConnState_def Let_def trip_budget split: ConnState.splits if_splits prod.splits)

lemma track_new:
  assumes "trackConnState c StateNew t1 t2 l = (l', lg, cl)"
  shows "cl \<longleftrightarrow> maxConnsPerPeer \<le> b_conns (budget (peerKeyFromAddr (connRemoteAddr c)) l)"
    "set (overCap l') = set (overCap l) \<union> (if cl then {c} else {})"
    "b_conns (budget q l') = b_conns (budget q l) +
       (if \<not> cl \<and> q = peerKeyFromAddr (connRemoteAddr c) then 1 else 0)"
  using assms by (auto simp: trackConnState_def Let_def trip_budget split: if_splits prod.splits)

lemma track_closed:
  assumes "trackConnState c st t1 t2 l = (l', lg, cl)" "st \<in> {StateHijacked, StateClosed}"
  shows "set (overCap l') = set (overCap l) - {c}"
    "b_conns (budget q l') = b_conns (budget q l) -
       (if c \<notin> set (overCap l) \<and> q = peerKeyFromAddr (connRemoteAddr c) \<and> 0 < b_conns (budget q l) then 1 else 0)"
  using assms by (auto simp: trackConnState_def Let_def split: if_splits)

lemma track_moved:
  assumes "trackConnState c st t1 t2 l = (l', lg, cl)" "st \<in> {StateActive, StateIdle}"
  shows "overCap l' = overCap l" "b_conns (budget q l') = b_conns (budget q l)"
  using assms by (auto simp: trackConnState_def Let_def)

lemma conns_inv_same:
  assumes "conns_inv s" "conns t = conns s" "overCap (lim t) = overCap (lim s)"
    "\<And>q. b_conns (budget q (lim t)) = b_conns (budget q (lim s))"
  shows "conns_inv t"
  using assms unfolding conns_inv_def counted_def by simp

lemma conns_inv_opened:
  assumes inv: "conns_inv s" and new: "c \<notin> set (conns s)"
    and res: "trackConnState c StateNew t1 t2 (lim s) = (l', lg, cl)"
  shows "conns_inv (s\<lparr>lim := l', conns := c # conns s\<rparr>)"
proof -
  have cnt: "counted (s\<lparr>lim := l', conns := c # conns s\<rparr>) k =
      (if \<not> cl \<and> k = peerKeyFromAddr (connRemoteAddr c) then c # counted s k else counted s k)" for k
    using new inv track_new(2) [OF res]
    by (auto simp: counted_def conns_inv_def intro!: filter_cong)
  show ?thesis
    using inv new track_new [OF res] unfolding conns_inv_def cnt by auto
qed

lemma length_filter_remove:
  "distinct xs \<Longrightarrow> length (filter (\<lambda>y. y \<noteq> x) xs) = length xs - (if x \<in> set xs then 1 else 0)"
proof (induction xs)
  case (Cons a xs)
  have "a = x \<Longrightarrow> filter (\<lambda>y. y \<noteq> x) xs = xs"
    using Cons by (intro filter_True) auto
  with Cons show ?case using length_pos_if_in_set [of x xs] by auto
qed simp

lemma conns_inv_closed:
  assumes inv: "conns_inv s" and c: "c \<in> set (conns s)" and st: "st \<in> {StateHijacked, StateClosed}"
    and res: "trackConnState c st t1 t2 (lim s) = (l', lg, cl)"
  shows "conns_inv (s\<lparr>lim := l', conns := filter (\<lambda>d. d \<noteq> c) (conns s)\<rparr>)"
proof -
  let ?s' = "s\<lparr>lim := l', conns := filter (\<lambda>d. d \<noteq> c) (conns s)\<rparr>"
  have cnt: "counted ?s' k = filter (\<lambda>d. d \<noteq> c) (counted s k)" for k
    using track_closed(1) [OF res st] by (auto simp: counted_def intro!: filter_cong)
  have mem: "c \<in> set (counted s k) \<longleftrightarrow> c \<notin> set (overCap (lim s)) \<and> k = peerKeyFromAddr (connRemoteAddr c)" for k
    using c by (auto simp: counted_def)
  have dist: "distinct (counted s k)" for k
    using inv by (simp add: counted_def conns_inv_def)
  have len: "length (counted ?s' k) = length (counted s k) - (if c \<in> set (counted s k) then 1 else 0)" for k
    unfolding cnt by (rule length_filter_remove [OF dist])
  have pos: "c \<in> set (counted s k) \<Longrightarrow> 0 < length (counted s k)" for k by auto
  have "b_conns (budget k l') = int (length (counted ?s' k))" for k
    using inv pos [of k] unfolding len track_closed(2) [OF res st] conns_inv_def mem
    by (auto simp: of_nat_diff Suc_leI)
  moreover have "int (length (counted ?s' k)) \<le> maxConnsPerPeer" for k
    using inv unfolding len conns_inv_def by (auto intro: order_trans [of _ "int (length (counted s k))"])
  ultimately show ?thesis
    using inv track_closed(1) [OF res st] by (auto simp: conns_inv_def)
qed

lemma rates_inv_same:
  assumes "rates_inv s" "at t = at s" "hist t = hist s"
    "\<And>q. b_requests (budget q (lim t)) = b_requests (budget q (lim s))"
    "\<And>q. b_tokens (budget q (lim t)) = b_tokens (budget q (lim s))"
    "\<And>q. b_enrolls (budget q (lim t)) = b_enrolls (budget q (lim s))"
  shows "rates_inv t"
  using assms unfolding rates_inv_def
  by (metis requests.same_represents tokens.same_represents enrolls.same_represents)

lemma throttle_step_inv:
  assumes "throttle_step s t" "throttle_inv s"
  shows "throttle_inv t"
  using assms
proof (induction rule: throttle_step.induct)
  case (request s now k t1 t2 ok l' lg)
  note k = allowRequest_keeps [OF request(2)]
  have "rates_inv (s\<lparr>at := now\<rparr>)" using request
    by (auto simp: throttle_inv_def rates_inv_def intro: requests.represents_later
        tokens.represents_later enrolls.represents_later)
  then show ?case
    using request k requests.allow_refines(2) [OF _ request(2)]
    by (auto simp: throttle_inv_def rates_inv_def note_admitted_def
        intro: conns_inv_same tokens.same_represents enrolls.same_represents)
next
  case (token s now k t1 t2 ok l' lg)
  note k = allowToken_keeps [OF token(2)]
  have "rates_inv (s\<lparr>at := now\<rparr>)" using token
    by (auto simp: throttle_inv_def rates_inv_def intro: requests.represents_later
        tokens.represents_later enrolls.represents_later)
  then show ?case
    using token k tokens.allow_refines(2) [OF _ token(2)]
    by (auto simp: throttle_inv_def rates_inv_def note_admitted_def
        intro: conns_inv_same requests.same_represents enrolls.same_represents)
next
  case (enroll s now k t1 t2 ok l' lg)
  note k = allowEnroll_keeps [OF enroll(2)]
  have "rates_inv (s\<lparr>at := now\<rparr>)" using enroll
    by (auto simp: throttle_inv_def rates_inv_def intro: requests.represents_later
        tokens.represents_later enrolls.represents_later)
  then show ?case
    using enroll k enrolls.allow_refines(2) [OF _ enroll(2)]
    by (auto simp: throttle_inv_def rates_inv_def note_admitted_def
        intro: conns_inv_same requests.same_represents tokens.same_represents)
next
  case (scrub s now)
  have c: "0 \<le> b_conns (budget q (lim s))" for q
    using scrub by (simp add: throttle_inv_def conns_inv_def)
  have "rates_inv (s\<lparr>at := now\<rparr>)" using scrub
    by (auto simp: throttle_inv_def rates_inv_def intro: requests.represents_later
        tokens.represents_later enrolls.represents_later)
  then show ?case
    using scrub c
    by (auto simp: throttle_inv_def rates_inv_def scrub_budget requests.scrub_represents
        tokens.scrub_represents enrolls.scrub_represents intro: conns_inv_same)
next
  case (opened c s t1 t2 l' lg cl)
  then show ?case
    using track_keeps [OF opened(2)]
    by (auto simp: throttle_inv_def conns_inv_opened intro: rates_inv_same)
next
  case (moved c s st t1 t2 l' lg cl)
  then show ?case
    using track_keeps [OF moved(3)] track_moved [OF moved(3,2)]
    by (auto simp: throttle_inv_def intro: rates_inv_same conns_inv_same)
next
  case (closed c s st t1 t2 l' lg cl)
  then show ?case
    using track_keeps [OF closed(3)] conns_inv_closed [OF _ closed(1,2,3)]
    by (auto simp: throttle_inv_def intro: rates_inv_same)
qed

lemma throttle_start_inv: "throttle_inv (throttle_start t)"
  by (auto simp: throttle_inv_def throttle_start_def rates_inv_def conns_inv_def counted_def
      requests.represents_def tokens.represents_def enrolls.represents_def rate_bounded_def
      newGuestLimiter_def budget_def newPeerBudget_def maxConnsPerPeer_def limiter_ok_def)

interpretation throttle: invariant_system "\<lambda>s. \<exists>t. s = throttle_start t" throttle_step throttle_inv
  by unfold_locales (auto simp: throttle_start_inv intro: throttle_step_inv)

subsection \<open>Properties\<close>

text \<open>
  C14: The budgets hold for every peer and over every window. In every run of the throttle, any
  sixty seconds contain at most 120 admitted requests, 30 token PUTs and 6 enrolment POSTs
  of one peer, and the next event of each kind is admitted exactly when the window that
  ends with it holds fewer admitted ones than the budget, whatever scrubs and other
  traffic came in between. The requests are taken in the order of their clock readings, which
  the code makes just before it takes the lock.
\<close>

theorem rate_limits_hold:
  assumes run: "throttle_step\<^sup>*\<^sup>* (throttle_start t0) s" and now: "at s \<le> now"
  shows "rate_bounded 120 (hist s LimitRequest p) \<and> rate_bounded 30 (hist s LimitToken p) \<and>
    rate_bounded 6 (hist s LimitEnroll p) \<and>
    (fst (allowRequest p now t1 t2 (lim s)) \<longleftrightarrow> spec_admits 120 now (hist s LimitRequest p)) \<and>
    (fst (allowToken p now t1 t2 (lim s)) \<longleftrightarrow> spec_admits 30 now (hist s LimitToken p)) \<and>
    (fst (allowEnroll p now t1 t2 (lim s)) \<longleftrightarrow> spec_admits 6 now (hist s LimitEnroll p))"
proof -
  have "throttle_inv s" using throttle.reachable_inv run by blast
  then have r: "requests.represents now (lim s) (hist s LimitRequest)"
    "tokens.represents now (lim s) (hist s LimitToken)"
    "enrolls.represents now (lim s) (hist s LimitEnroll)"
    using now by (auto simp: throttle_inv_def rates_inv_def intro: requests.represents_later
        tokens.represents_later enrolls.represents_later)
  have "rate_bounded 120 (hist s LimitRequest p)" "rate_bounded 30 (hist s LimitToken p)"
    "rate_bounded 6 (hist s LimitEnroll p)"
    using requests.represents_bounded [OF r(1)] tokens.represents_bounded [OF r(2)]
      enrolls.represents_bounded [OF r(3)]
    by (simp_all add: maxRequestsPerPeer_def maxTokenPUTsPerPeer_def maxEnrollPerPeer_def)
  then show ?thesis
    using requests.allow_refines(1) [OF r(1), of p t1 t2] tokens.allow_refines(1) [OF r(2), of p t1 t2]
      enrolls.allow_refines(1) [OF r(3), of p t1 t2]
    by (cases "allowRequest p now t1 t2 (lim s)"; cases "allowToken p now t1 t2 (lim s)";
        cases "allowEnroll p now t1 t2 (lim s)")
       (simp add: maxRequestsPerPeer_def maxTokenPUTsPerPeer_def maxEnrollPerPeer_def)
qed

theorem rate_limits_hold_witness:
  "\<exists>s. throttle_step\<^sup>*\<^sup>* (throttle_start 0) s \<and> hist s LimitEnroll ''10.0.0.7'' = [5] \<and>
     rate_bounded 6 (hist s LimitEnroll ''10.0.0.7'') \<and> fst (allowEnroll ''10.0.0.7'' 9 9 9 (lim s))"
proof -
  obtain ok l' lg where e: "allowEnroll ''10.0.0.7'' 5 5 5 newGuestLimiter = (ok, l', lg)"
    by (cases "allowEnroll ''10.0.0.7'' 5 5 5 newGuestLimiter")
  then have ok: "ok"
    using enrolls.allow_decides [OF e]
    by (simp add: newGuestLimiter_def budget_def newPeerBudget_def maxEnrollPerPeer_def)
  let ?s = "(throttle_start 0)\<lparr>lim := l', at := 5, hist := note_admitted LimitEnroll ''10.0.0.7'' 5 ok (\<lambda>_ _. [])\<rparr>"
  have "throttle_step (throttle_start 0) ?s"
    using throttle_step.enroll [of "throttle_start 0" 5 "''10.0.0.7''" 5 5 ok l' lg] e
    by (simp add: throttle_start_def)
  then have run: "throttle_step\<^sup>*\<^sup>* (throttle_start 0) ?s" by blast
  have h: "hist ?s LimitEnroll ''10.0.0.7'' = [5]" using ok by (simp add: note_admitted_def)
  have "spec_admits 6 9 [5]" by (simp add: spec_admits_def in_window_def limitWindow_def duration_simps)
  then show ?thesis
    using rate_limits_hold [OF run, of 9 "''10.0.0.7''" 9 9] run h by auto
qed

text \<open>
  At most sixteen connections of a peer are served at a time. In every run the peer's counter is
  exactly the number of its open connections that were not refused, never above sixteen; a
  new connection is closed exactly when sixteen others of the same peer are being served,
  and a refused connection is forgotten when it closes, so it never frees a slot.
\<close>

lemma connection_cap:
  assumes run: "throttle_step\<^sup>*\<^sup>* (throttle_start t0) s"
    and new: "trackConnState c StateNew t1 t2 (lim s) = (l', lg, cl)"
  shows "b_conns (budget p (lim s)) = int (length (counted s p)) \<and> length (counted s p) \<le> 16 \<and>
    distinct (counted s p) \<and> set (overCap (lim s)) \<subseteq> set (conns s) \<and>
    (cl \<longleftrightarrow> length (counted s (peerKeyFromAddr (connRemoteAddr c))) = 16)"
proof -
  have inv: "conns_inv s" using throttle.reachable_inv run by (auto simp: throttle_inv_def)
  then have "int (length (counted s q)) \<le> 16" for q
    by (simp add: conns_inv_def maxConnsPerPeer_def)
  then have le: "length (counted s q) \<le> 16" for q by (simp add: numeral_eq_Suc flip: of_nat_le_iff)
  have "cl \<longleftrightarrow> 16 \<le> int (length (counted s (peerKeyFromAddr (connRemoteAddr c))))"
    using track_new(1) [OF new] inv by (simp add: conns_inv_def maxConnsPerPeer_def)
  then have "cl \<longleftrightarrow> length (counted s (peerKeyFromAddr (connRemoteAddr c))) = 16"
    using le [of "peerKeyFromAddr (connRemoteAddr c)"] by auto
  then show ?thesis
    using inv le [of p] by (auto simp: conns_inv_def counted_def)
qed

lemma connection_cap_witness:
  "\<exists>l' lg. trackConnState \<lparr>connId = 1, connRemoteAddr = ''10.0.0.7:80''\<rparr> StateNew 0 0 newGuestLimiter
      = (l', lg, False)"
proof -
  obtain l' lg cl where
    t: "trackConnState \<lparr>connId = 1, connRemoteAddr = ''10.0.0.7:80''\<rparr> StateNew 0 0 (lim (throttle_start 0)) = (l', lg, cl)"
    by (cases "trackConnState \<lparr>connId = 1, connRemoteAddr = ''10.0.0.7:80''\<rparr> StateNew 0 0 (lim (throttle_start 0))")
  show ?thesis
    using connection_cap [OF rtranclp.rtrancl_refl t, of "''''"] t
    by (auto simp: throttle_start_def counted_def)
qed

text \<open>
  What the middleware does with a request. \<open>GET /health\<close> is always passed on and costs no
  budget. Any other request is passed on exactly when the peer has room in the request
  budget and, for a token PUT or an enrolment POST, in that budget too; otherwise it is
  answered 429 with \<open>Retry-After: 60\<close> and the handler does not run.
\<close>

lemma middleware_admission:
  assumes res: "guestLimitMiddleware next now t1 t2 r w (l, s) = (w', (l', s'), lg)"
  shows "let key = peerKeyFromAddr (RemoteAddr r);
             health = (Method r = ''GET'' \<and> Path r = ''/health'');
             room = (length (prune (b_requests (budget key l)) now) < 120 \<and>
               (Method r = ''PUT'' \<and> Path r = ''/latest/api/token'' \<longrightarrow>
                  length (prune (b_tokens (budget key l)) now) < 30) \<and>
               (Method r = ''POST'' \<and> isEnrollPath (Path r) \<longrightarrow>
                  length (prune (b_enrolls (budget key l)) now) < 6)) in
    (health \<longrightarrow> l' = l) \<and>
    (if health \<or> room then next r w s = (w', s')
     else w' = writeTooManyRequests w \<and> s' = s) \<and>
    (StatusCode w = None \<longrightarrow> status (writeTooManyRequests w) = 429 \<and>
       map_of (RespHeader (writeTooManyRequests w)) ''Retry-After'' = Some ''60'')"
proof -
  let ?key = "peerKeyFromAddr (RemoteAddr r)"
  obtain ok1 l1 lg1 where a1: "allowRequest ?key now t1 t2 l = (ok1, l1, lg1)"
    by (cases "allowRequest ?key now t1 t2 l")
  obtain ok2 l2 lg2 where a2: "allowToken ?key now t1 t2 l1 = (ok2, l2, lg2)"
    by (cases "allowToken ?key now t1 t2 l1")
  obtain ok3 l3 lg3 where a3: "allowEnroll ?key now t1 t2 l1 = (ok3, l3, lg3)"
    by (cases "allowEnroll ?key now t1 t2 l1")
  have ok: "ok1 \<longleftrightarrow> length (prune (b_requests (budget ?key l)) now) < 120"
    "ok2 \<longleftrightarrow> length (prune (b_tokens (budget ?key l)) now) < 30"
    "ok3 \<longleftrightarrow> length (prune (b_enrolls (budget ?key l)) now) < 6"
    using requests.allow_decides [OF a1] tokens.allow_decides [OF a2] enrolls.allow_decides [OF a3]
      allowRequest_keeps [OF a1]
    by (simp_all add: maxRequestsPerPeer_def maxTokenPUTsPerPeer_def maxEnrollPerPeer_def)
  have too: "StatusCode w = None \<longrightarrow> status (writeTooManyRequests w) = 429 \<and>
      map_of (RespHeader (writeTooManyRequests w)) ''Retry-After'' = Some ''60''"
    by (simp add: writeTooManyRequests_def textPlain_def retryAfterSeconds_def http_defs http_simps)
  show ?thesis
    using res a1 a2 a3 too unfolding ok [symmetric] Let_def
    by (cases "Method r = ''GET''"; cases "Method r = ''PUT''"; cases ok1; cases ok2; cases ok3)
       (auto simp: guestLimitMiddleware_def Let_def split: prod.splits if_splits)
qed

lemma middleware_admission_witness:
  "\<exists>w' l' s' lg. guestLimitMiddleware (\<lambda>r w n. (w, n + 1)) 0 0 0 (sampleRequest None []) newResponse
      (newGuestLimiter, 0 :: nat) = (w', (l', s'), lg) \<and> s' = 1"
proof -
  let ?run = "guestLimitMiddleware (\<lambda>r w n. (w, n + 1)) 0 0 0 (sampleRequest None []) newResponse
      (newGuestLimiter, 0 :: nat)"
  obtain w' l' s' lg where r: "?run = (w', (l', s'), lg)" by (metis prod.exhaust)
  have "Method (sampleRequest None []) = ''GET''" by (simp add: sampleRequest_def)
  moreover have "b_requests (budget k newGuestLimiter) = []" for k
    by (simp add: budget_def newGuestLimiter_def newPeerBudget_def)
  ultimately have "(newResponse, 0 + 1) = (w', s')"
    using middleware_admission [OF r] by (simp add: Let_def split: if_splits)
  then show ?thesis using r by auto
qed

end
