(* ===== verification/Pins.thy ===== *)
theory Pins
  imports Inventory Go_Encoding
begin

text \<open>
  The EK pin stores, \<open>internal/devid/pin.go\<close> and \<open>internal/devid/clusterpin.go\<close>: the local
  store (one file per VM id, trust on first use), the cluster store that is only read, and
  the rule that one EK certificate is never pinned to two VMs that still exist.

  A directory is what the file operations see of it: missing, not accessible, or its entries
  in the order of \<open>os.ReadDir\<close>, with a flag that says whether it can be listed. A file
  operation that can fail for a reason outside the directory (a full disk, a failing sync)
  takes its failure from the record \<open>pin_faults\<close>. The guest configurations are looked at
  twice, \<open>guestConfigRecheck\<close> apart, so the world holds two views of them. Log lines are
  not modelled, nor the argument \<open>quiet\<close> of \<open>readClusterPin\<close>, which only silences one.
\<close>

subsection \<open>Errors and directories\<close>

datatype enroll_error =
  ErrPinStore
| ErrAlreadyPinned
| Unauthorized (msg: string) (detail: string)
| Failed string

datatype node = File string | Directory | Unreadable

datatype dirst = DirMissing | DirError | Dir bool "(string \<times> node) list"

datatype fread = FContent string | FNotExist | FIsDir | FError

fun read_node :: "node option \<Rightarrow> fread" where
  "read_node None = FNotExist"
| "read_node (Some (File b)) = FContent b"
| "read_node (Some Directory) = FIsDir"
| "read_node (Some Unreadable) = FError"

fun ReadFile :: "dirst \<Rightarrow> string \<Rightarrow> fread" where
  "ReadFile DirMissing name = FNotExist"
| "ReadFile DirError name = FError"
| "ReadFile (Dir listable es) name = read_node (map_of es name)"

text \<open>\<open>os.ReadDir\<close>: the entries, or \<open>None\<close> for an error other than a missing directory.\<close>

fun ReadDir :: "dirst \<Rightarrow> (string \<times> node) list option" where
  "ReadDir DirMissing = Some []"
| "ReadDir DirError = None"
| "ReadDir (Dir listable es) = (if listable then Some es else None)"

text \<open>The guest configurations: the nodes with what \<open>os.Stat\<close> says of \<open><node>/<kind>/<vmid>.conf\<close>.\<close>

datatype stat_result = StatOK | StatNotExist | StatError

record guest_node =
  nodeIsDir :: bool
  confStat :: "string \<Rightarrow> string \<Rightarrow> stat_result"

record world =
  pinStore :: dirst
  clusterStore :: dirst
  guestNodes :: "guest_node list option"
  guestNodesLater :: "guest_node list option"

text \<open>The fields of \<open>Enroller\<close> that the pin code reads; \<open>InventoryPins\<close> is the map it returns.\<close>

record pin_config =
  PinDir :: string
  InventoryPins :: "(string \<times> string) list option"
  ClusterPinDir :: string
  RequireClusterPin :: bool
  GuestConfigRoot :: string

definition errStoredPinMismatch :: string where
  "errStoredPinMismatch = ''EK certificate does not match stored pin''"

definition errInventoryPinMismatch :: string where
  "errInventoryPinMismatch = ''EK certificate does not match inventory pin''"

definition errPinStoreUnavailable :: string where
  "errPinStoreUnavailable = ''pin store unavailable''"

definition errPinnedElsewhere :: string where
  "errPinnedElsewhere = ''EK certificate is pinned to another VM''"

definition errClusterPinMismatch :: string where
  "errClusterPinMismatch = ''EK certificate does not match cluster pin''"

definition errNoClusterPin :: string where
  "errNoClusterPin = ''no cluster pin for this VM''"

definition errUnauthorized :: "string \<Rightarrow> enroll_error" where
  "errUnauthorized m = Unauthorized m []"

definition errPinnedToAnotherVM :: "string \<Rightarrow> string \<Rightarrow> enroll_error" where
  "errPinnedToAnotherVM vmid other =
     Unauthorized errPinnedElsewhere (''vm='' @ vmid @ '' pinned='' @ other)"

subsection \<open>Names\<close>

definition path_Base :: "string \<Rightarrow> string" where
  "path_Base p =
     (if p = [] then ''.''
      else let s = rev (dropWhile (\<lambda>c. c = CHR ''/'') (rev p)) in
        if s = [] then ''/'' else last (split_at_char CHR ''/'' s))"

definition validateVMID :: "string \<Rightarrow> bool" where
  "validateVMID vmid \<longleftrightarrow>
     vmid \<noteq> [] \<and>
     \<not> (list_ex (\<lambda>c. c = CHR ''/'' \<or> c = CHR 0x5C) vmid \<or> Contains vmid ''..'' \<or> HasPrefix vmid ''.'') \<and>
     path_Base vmid = vmid"

definition isVMIDName :: "string \<Rightarrow> bool" where
  "isVMIDName name \<longleftrightarrow> name \<noteq> [] \<and> list_all is_digit name"

subsection \<open>The local store\<close>

definition readStoredPin :: "string \<Rightarrow> dirst \<Rightarrow> string \<Rightarrow> enroll_error + string" where
  "readStoredPin dir st vmid =
     (if dir = [] then Inr []
      else if \<not> validateVMID vmid then Inl ErrPinStore
      else case ReadFile st vmid of
        FContent b \<Rightarrow> Inr (ToLower (TrimSpace b))
      | FNotExist \<Rightarrow> Inr []
      | FIsDir \<Rightarrow> Inl ErrPinStore
      | FError \<Rightarrow> Inl ErrPinStore)"

record pin_faults =
  mkdirFails :: bool
  randBytes :: "string option"
  openFails :: bool
  writeFails :: bool
  closeFails :: bool
  linkFails :: bool
  removeFails :: bool
  pinRemoveFails :: bool

text \<open>\<open>os.MkdirAll\<close>, \<open>O_CREATE|O_EXCL\<close>, \<open>os.Link\<close> and \<open>os.Remove\<close> on a directory.\<close>

fun MkdirAll :: "pin_faults \<Rightarrow> dirst \<Rightarrow> dirst option" where
  "MkdirAll f DirMissing = (if mkdirFails f then None else Some (Dir True []))"
| "MkdirAll f DirError = None"
| "MkdirAll f (Dir listable es) = Some (Dir listable es)"

fun dir_insert :: "string \<times> node \<Rightarrow> (string \<times> node) list \<Rightarrow> (string \<times> node) list" where
  "dir_insert e [] = [e]"
| "dir_insert e (x # xs) = (if fst e < fst x then e # x # xs else x # dir_insert e xs)"

fun createExcl :: "string \<Rightarrow> node \<Rightarrow> dirst \<Rightarrow> dirst option" where
  "createExcl name n (Dir listable es) =
     (if map_of es name = None then Some (Dir listable (dir_insert (name, n) es)) else None)"
| "createExcl name n _ = None"

fun remove_entry :: "string \<Rightarrow> dirst \<Rightarrow> dirst" where
  "remove_entry name (Dir listable es) = Dir listable (filter (\<lambda>e. fst e \<noteq> name) es)"
| "remove_entry name st = st"

definition Remove :: "pin_faults \<Rightarrow> string \<Rightarrow> dirst \<Rightarrow> dirst" where
  "Remove f name st = (if removeFails f then st else remove_entry name st)"

definition tmpName :: "string \<Rightarrow> string \<Rightarrow> string" where
  "tmpName vmid nonce = ''.'' @ vmid @ ''.tmp-'' @ hex_encode nonce"

text \<open>
  The content of the temporary file is written, then linked to the pin's name, which fails
  when the name exists; the temporary name is removed on every path.
\<close>

definition createStoredPinExclusive ::
  "pin_faults \<Rightarrow> string \<Rightarrow> string \<Rightarrow> string \<Rightarrow> dirst \<Rightarrow> enroll_error option \<times> dirst" where
  "createStoredPinExclusive f dir vmid fp st =
     (if dir = [] \<or> fp = [] then (Some ErrPinStore, st)
      else if \<not> validateVMID vmid then (Some ErrPinStore, st)
      else case MkdirAll f st of
        None \<Rightarrow> (Some ErrPinStore, st)
      | Some st1 \<Rightarrow>
          (case randBytes f of
             None \<Rightarrow> (Some ErrPinStore, st1)
           | Some nonce \<Rightarrow>
               (let tmp = tmpName vmid nonce; body = File (ToLower fp @ [CHR 0x0A]) in
                case (if openFails f then None else createExcl tmp body st1) of
                  None \<Rightarrow> (Some ErrPinStore, st1)
                | Some st2 \<Rightarrow>
                    if writeFails f \<or> closeFails f then (Some ErrPinStore, Remove f tmp st2)
                    else (case createExcl vmid body st2 of
                      None \<Rightarrow> (Some ErrAlreadyPinned, Remove f tmp st2)
                    | Some st3 \<Rightarrow>
                        if linkFails f then (Some ErrPinStore, Remove f tmp st2)
                        else (None, Remove f tmp st3)))))"

subsection \<open>The cluster store\<close>

definition is_lower_hex :: "char \<Rightarrow> bool" where
  "is_lower_hex c \<longleftrightarrow> \<not> (\<not> is_digit c \<and> \<not> (97 \<le> (of_char c :: nat) \<and> (of_char c :: nat) \<le> 102))"

definition parseClusterPin :: "string \<Rightarrow> string option" where
  "parseClusterPin b0 =
     (let b = (if length b0 = 65 \<and> b0 ! 64 = CHR 0x0A then take 64 b0 else b0) in
      if length b \<noteq> 64 then None
      else if list_all is_lower_hex b then Some b else None)"

text \<open>The pin (empty for none) and whether the directory exists.\<close>

definition readClusterPin :: "pin_config \<Rightarrow> dirst \<Rightarrow> string \<Rightarrow> enroll_error + string \<times> bool" where
  "readClusterPin e st vmid =
     (if ClusterPinDir e = [] then Inr ([], False)
      else if \<not> validateVMID vmid then Inl ErrPinStore
      else case st of
        DirMissing \<Rightarrow> Inr ([], False)
      | DirError \<Rightarrow> Inl ErrPinStore
      | Dir listable es \<Rightarrow>
          (case ReadFile st vmid of
             FNotExist \<Rightarrow> Inr ([], True)
           | FError \<Rightarrow> Inl ErrPinStore
           | FIsDir \<Rightarrow> (case parseClusterPin [] of None \<Rightarrow> Inr ([], True) | Some pin \<Rightarrow> Inr (pin, True))
           | FContent b \<Rightarrow> (case parseClusterPin b of None \<Rightarrow> Inr ([], True) | Some pin \<Rightarrow> Inr (pin, True))))"

fun cluster_scan :: "string \<Rightarrow> string \<Rightarrow> (string \<times> node) list \<Rightarrow> enroll_error + string list" where
  "cluster_scan vmid fp [] = Inr []"
| "cluster_scan vmid fp ((name, n) # es) =
     (if name = vmid \<or> n = Directory \<or> \<not> isVMIDName name then cluster_scan vmid fp es
      else case read_node (Some n) of
        FContent b \<Rightarrow>
          (case cluster_scan vmid fp es of
             Inl err \<Rightarrow> Inl err
           | Inr ids \<Rightarrow> Inr (if parseClusterPin b = Some fp then name # ids else ids))
      | FNotExist \<Rightarrow> cluster_scan vmid fp es
      | _ \<Rightarrow> Inl ErrPinStore)"

definition clusterPinsMatching :: "pin_config \<Rightarrow> dirst \<Rightarrow> string \<Rightarrow> string \<Rightarrow> enroll_error + string list" where
  "clusterPinsMatching e st vmid fp =
     (if ClusterPinDir e = [] then Inr []
      else case ReadDir st of None \<Rightarrow> Inl ErrPinStore | Some es \<Rightarrow> cluster_scan vmid fp es)"

definition guestConfigFound :: "guest_node list option \<Rightarrow> string \<Rightarrow> bool" where
  "guestConfigFound nodes vmid =
     (case nodes of
        None \<Rightarrow> True
      | Some ns \<Rightarrow>
          list_ex (\<lambda>n. nodeIsDir n \<and>
            list_ex (\<lambda>kind. confStat n kind vmid = StatOK \<or> confStat n kind vmid \<noteq> StatNotExist)
              [''qemu-server'', ''lxc'']) ns)"

definition guestExists :: "pin_config \<Rightarrow> world \<Rightarrow> string \<Rightarrow> bool" where
  "guestExists e w vmid =
     (if GuestConfigRoot e = [] then True
      else if guestConfigFound (guestNodes w) vmid then True
      else guestConfigFound (guestNodesLater w) vmid)"

subsection \<open>One EK, one VM\<close>

fun store_scan ::
  "pin_config \<Rightarrow> world \<Rightarrow> string \<Rightarrow> string \<Rightarrow> (string \<times> node) list \<Rightarrow> enroll_error + string" where
  "store_scan e w vmid fp [] = Inr []"
| "store_scan e w vmid fp ((name, n) # es) =
     (if name = vmid \<or> n = Directory \<or> \<not> isVMIDName name then store_scan e w vmid fp es
      else case readStoredPin (PinDir e) (pinStore w) name of
        Inl err \<Rightarrow> Inl err
      | Inr stored \<Rightarrow>
          if stored \<noteq> [] \<and> EqualFold stored fp \<and> guestExists e w name then Inr name
          else store_scan e w vmid fp es)"

definition inventory_scan :: "(string \<times> string) list \<Rightarrow> string \<Rightarrow> string \<Rightarrow> string" where
  "inventory_scan pins vmid fp =
     (case find (\<lambda>i. i \<noteq> vmid \<and>
              (let pin = TrimSpace (case map_of pins i of None \<Rightarrow> [] | Some p \<Rightarrow> p)
               in pin \<noteq> [] \<and> EqualFold pin fp)) (sort (map fst pins)) of
        None \<Rightarrow> []
      | Some i \<Rightarrow> i)"

text \<open>The empty string is \<open>pinned to no other VM\<close>.\<close>

definition pinnedToAnotherVM :: "pin_config \<Rightarrow> world \<Rightarrow> string \<Rightarrow> string \<Rightarrow> enroll_error + string" where
  "pinnedToAnotherVM e w vmid fp =
     (if fp = [] then Inr []
      else case (if PinDir e \<noteq> [] then
                   (case ReadDir (pinStore w) of
                      None \<Rightarrow> Inl ErrPinStore
                    | Some es \<Rightarrow> store_scan e w vmid fp es)
                 else Inr []) of
        Inl err \<Rightarrow> Inl err
      | Inr other \<Rightarrow>
          if other \<noteq> [] then Inr other
          else case clusterPinsMatching e (clusterStore w) vmid (ToLower fp) of
            Inl err \<Rightarrow> Inl err
          | Inr ids \<Rightarrow>
              (case find (guestExists e w) ids of
                 Some i \<Rightarrow> Inr i
               | None \<Rightarrow>
                   (case InventoryPins e of
                      None \<Rightarrow> Inr []
                    | Some pins \<Rightarrow> Inr (inventory_scan pins vmid fp))))"

text \<open>
  \<open>race\<close> is what happens to the local store between the scan and the create, from outside
  this process (inside it \<open>pinCreateMu\<close> is held). The result is the error, if any, and the
  world with its local store.
\<close>

definition ensurePinBeforeIssue ::
  "pin_faults \<Rightarrow> pin_faults \<Rightarrow> (dirst \<Rightarrow> dirst) \<Rightarrow> pin_config \<Rightarrow> world \<Rightarrow> string \<Rightarrow> string
    \<Rightarrow> enroll_error option \<times> world" where
  "ensurePinBeforeIssue f f' race e w vmid fp =
     (case readClusterPin e (clusterStore w) vmid of
        Inl err \<Rightarrow> (Some err, w)
      | Inr (cpin, _) \<Rightarrow>
        if cpin \<noteq> [] then
          (if \<not> EqualFold cpin fp then (Some (errUnauthorized errClusterPinMismatch), w) else (None, w))
        else if RequireClusterPin e then (Some (errUnauthorized errNoClusterPin), w)
        else if PinDir e = [] then (None, w)
        else case readStoredPin (PinDir e) (pinStore w) vmid of
          Inl err \<Rightarrow> (Some err, w)
        | Inr existing \<Rightarrow>
            if existing \<noteq> [] \<and> \<not> EqualFold existing fp
            then (Some (errUnauthorized errStoredPinMismatch), w)
            else case pinnedToAnotherVM e w vmid fp of
              Inl err \<Rightarrow> (Some err, w)
            | Inr other \<Rightarrow>
                if other \<noteq> [] then (Some (errPinnedToAnotherVM vmid other), w)
                else if existing \<noteq> [] then (None, w)
                else (case createStoredPinExclusive f (PinDir e) vmid fp (race (pinStore w)) of
                  (Some ErrAlreadyPinned, st) \<Rightarrow>
                    (case readStoredPin (PinDir e) st vmid of
                       Inl rerr \<Rightarrow> (Some rerr, w\<lparr>pinStore := st\<rparr>)
                     | Inr existing' \<Rightarrow>
                         if existing' = [] then
                           (case createStoredPinExclusive f' (PinDir e) vmid fp (if pinRemoveFails f then st else remove_entry vmid st) of
                              (err, st') \<Rightarrow> (err, w\<lparr>pinStore := st'\<rparr>))
                         else if \<not> EqualFold existing' fp
                         then (Some (errUnauthorized errStoredPinMismatch), w\<lparr>pinStore := st\<rparr>)
                         else (None, w\<lparr>pinStore := st\<rparr>))
                | (err, st) \<Rightarrow> (err, w\<lparr>pinStore := st\<rparr>)))"

text \<open>\<open>enforceOwnPin\<close> of \<open>internal/devid/auth.go\<close>: the caller's own cluster pin, else its local pin.\<close>

definition enforceOwnPin :: "pin_config \<Rightarrow> world \<Rightarrow> string \<Rightarrow> string \<Rightarrow> enroll_error option" where
  "enforceOwnPin e w vmid fp =
     (case readClusterPin e (clusterStore w) vmid of
        Inl err \<Rightarrow> Some err
      | Inr (cpin, dirExists) \<Rightarrow>
          (case (if PinDir e \<noteq> [] then readStoredPin (PinDir e) (pinStore w) vmid else Inr []) of
             Inl err \<Rightarrow> Some err
           | Inr stored \<Rightarrow>
               if cpin \<noteq> [] then
                 (if \<not> EqualFold cpin fp then Some (errUnauthorized errClusterPinMismatch) else None)
               else if RequireClusterPin e then Some (errUnauthorized errNoClusterPin)
               else if stored \<noteq> [] \<and> \<not> EqualFold stored fp
               then Some (errUnauthorized errStoredPinMismatch)
               else None))"

subsection \<open>Directories\<close>

fun lookup :: "dirst \<Rightarrow> string \<Rightarrow> node option" where
  "lookup (Dir listable es) name = map_of es name"
| "lookup _ name = None"

fun dir_ok :: "dirst \<Rightarrow> bool" where
  "dir_ok (Dir listable es) \<longleftrightarrow> distinct (map fst es)"
| "dir_ok _ \<longleftrightarrow> True"

text \<open>Names the service never gives to a temporary file: those that do not start with a dot.\<close>

definition plain :: "string \<Rightarrow> bool" where
  "plain name \<longleftrightarrow> \<not> HasPrefix name ''.''"

lemma set_dir_insert [simp]: "set (dir_insert e es) = insert e (set es)"
  by (induction es) auto

lemma map_of_dir_insert:
  "map_of es k = None \<Longrightarrow> map_of (dir_insert (k, v) es) x = (if x = k then Some v else map_of es x)"
  by (induction es) (auto split: if_splits)

lemma distinct_dir_insert:
  "k \<notin> fst ` set es \<Longrightarrow> distinct (map fst es) \<Longrightarrow> distinct (map fst (dir_insert (k, v) es))"
  by (induction es) auto

lemma createExcl_lookup:
  "createExcl k v st = Some st' \<Longrightarrow> lookup st k = None \<and> lookup st' x = (if x = k then Some v else lookup st x)"
  by (cases st) (auto simp: map_of_dir_insert split: if_splits)

lemma createExcl_ok: "createExcl k v st = Some st' \<Longrightarrow> dir_ok st \<Longrightarrow> dir_ok st'"
  by (cases st) (auto simp: distinct_dir_insert map_of_eq_None_iff split: if_splits)

lemma createExcl_listing: "createExcl k v st = Some st' \<Longrightarrow> \<exists>l es es'. st = Dir l es \<and> st' = Dir l es'"
  by (cases st) (auto split: if_splits)

lemma lookup_remove_entry: "lookup (remove_entry k st) x = (if x = k then None else lookup st x)"
proof (cases st)
  case (Dir l es)
  have "map_of (filter (\<lambda>e. fst e \<noteq> k) es) x = (if x = k then None else map_of es x)"
    by (induction es) auto
  with Dir show ?thesis by simp
qed simp_all

lemma remove_entry_ok: "dir_ok st \<Longrightarrow> dir_ok (remove_entry k st)"
  by (cases st) (auto simp: distinct_map_filter)

lemma tmpName_hidden: "plain x \<Longrightarrow> x \<noteq> tmpName v n"
  by (auto simp: plain_def tmpName_def HasPrefix_def)

lemma Remove_tmp:
  "plain x \<Longrightarrow> lookup (Remove f (tmpName v n) st) x = lookup st x"
  "dir_ok st \<Longrightarrow> dir_ok (Remove f (tmpName v n) st)"
  by (auto simp: Remove_def lookup_remove_entry remove_entry_ok dest: tmpName_hidden)

lemma validateVMID_plain: "validateVMID v \<Longrightarrow> plain v"
  by (simp add: validateVMID_def plain_def)

lemma isVMIDName_no: "isVMIDName v \<Longrightarrow> c \<in> set v \<Longrightarrow> is_digit c"
  by (auto simp: isVMIDName_def list_all_iff)

lemma Contains_set: "Contains s sub \<Longrightarrow> set sub \<subseteq> set s"
proof (induction s)
  case (Cons c s)
  show ?case
  proof (cases "HasPrefix (c # s) sub")
    case True
    then obtain r where "c # s = sub @ r" by (rule HasPrefixE)
    then have "set (c # s) = set sub \<union> set r" by simp
    then show ?thesis by blast
  next
    case False
    with Cons have "set sub \<subseteq> set s" by simp
    then show ?thesis by auto
  qed
qed simp

lemma isVMIDName_valid: assumes "isVMIDName v" shows "validateVMID v"
proof -
  have ne: "v \<noteq> []" using assms by (simp add: isVMIDName_def)
  have not_in: "\<not> is_digit c \<Longrightarrow> c \<notin> set v" for c using isVMIDName_no [OF assms] by blast
  have sl: "CHR ''/'' \<notin> set v" "CHR 0x5C \<notin> set v" "CHR ''.'' \<notin> set v"
    by (rule not_in, simp add: is_digit_def)+
  have "\<not> Contains v ''..''" using Contains_set [of v "''..''"] sl by auto
  moreover have "\<not> HasPrefix v ''.''" using sl by (auto elim!: HasPrefixE)
  moreover have "path_Base v = v"
  proof -
    have "dropWhile (\<lambda>c. c = CHR ''/'') (rev v) = rev v"
      using sl(1) by (cases "rev v") (auto simp: dropWhile_eq_self_iff dest: arg_cong [of _ _ set])
    then show ?thesis using ne sl(1) by (simp add: path_Base_def split_at_char_id)
  qed
  ultimately show ?thesis
    using ne sl by (auto simp: validateVMID_def list_ex_iff)
qed

subsection \<open>The exclusive create\<close>

lemma MkdirAll_lookup:
  "MkdirAll f st = Some st1 \<Longrightarrow> lookup st1 x = lookup st x"
  "MkdirAll f st = Some st1 \<Longrightarrow> dir_ok st \<Longrightarrow> dir_ok st1"
  "MkdirAll f st = Some st1 \<Longrightarrow> \<exists>l es. st1 = Dir l es \<and> (st = DirMissing \<and> l \<or> st = st1)"
  by (cases st; auto split: if_splits)+

lemma create_cases:
  assumes res: "createStoredPinExclusive f dir vmid fp st = (r, st')"
  obtains (early) "r = Some ErrPinStore" "st' = st"
  | (made) st1 where "MkdirAll f st = Some st1" "r = Some ErrPinStore" "st' = st1"
  | (failed) st1 nonce st2 where "MkdirAll f st = Some st1" "validateVMID vmid"
      "createExcl (tmpName vmid nonce) (File (ToLower fp @ [CHR 0x0A])) st1 = Some st2"
      "r = Some ErrPinStore \<or> r = Some ErrAlreadyPinned \<and> createExcl vmid (File (ToLower fp @ [CHR 0x0A])) st2 = None"
      "st' = Remove f (tmpName vmid nonce) st2"
  | (linked) st1 nonce st2 st3 where "MkdirAll f st = Some st1" "validateVMID vmid" "fp \<noteq> []"
      "createExcl (tmpName vmid nonce) (File (ToLower fp @ [CHR 0x0A])) st1 = Some st2"
      "createExcl vmid (File (ToLower fp @ [CHR 0x0A])) st2 = Some st3"
      "r = None" "st' = Remove f (tmpName vmid nonce) st3"
  using res unfolding createStoredPinExclusive_def Let_def
  by (auto split: if_splits option.splits)

text \<open>
  On success the pin's name, which was free, holds the fingerprint and a line feed; on any
  failure no plain name changed. Temporary files are never plain.
\<close>

lemma create_effect:
  assumes res: "createStoredPinExclusive f dir vmid fp st = (r, st')"
  shows "plain x \<Longrightarrow> lookup st' x =
      (if r = None \<and> x = vmid then Some (File (ToLower fp @ [CHR 0x0A])) else lookup st x)"
    and "dir_ok st \<Longrightarrow> dir_ok st'"
    and "r = None \<Longrightarrow> lookup st vmid = None \<and> validateVMID vmid \<and> fp \<noteq> []"
    and "r = Some ErrAlreadyPinned \<Longrightarrow> lookup st vmid \<noteq> None"
    and "r \<in> {None, Some ErrPinStore, Some ErrAlreadyPinned}"
proof -
  have all: "(plain x \<longrightarrow> lookup st' x =
      (if r = None \<and> x = vmid then Some (File (ToLower fp @ [CHR 0x0A])) else lookup st x)) \<and>
    (dir_ok st \<longrightarrow> dir_ok st') \<and> (r = None \<longrightarrow> lookup st vmid = None \<and> validateVMID vmid \<and> fp \<noteq> []) \<and>
    (r = Some ErrAlreadyPinned \<longrightarrow> lookup st vmid \<noteq> None) \<and>
    r \<in> {None, Some ErrPinStore, Some ErrAlreadyPinned}" for x
    using res
  proof (cases rule: create_cases)
    case (made st1)
    then show ?thesis by (simp add: MkdirAll_lookup)
  next
    case (failed st1 nonce st2)
    obtain l es where "st2 = Dir l es" using createExcl_listing [OF failed(3)] by blast
    then have taken: "r = Some ErrAlreadyPinned \<Longrightarrow> lookup st2 vmid \<noteq> None"
      using failed(4) by (auto split: if_splits)
    note f = MkdirAll_lookup [OF failed(1)] createExcl_lookup [OF failed(3)] createExcl_ok [OF failed(3)]
      validateVMID_plain [OF failed(2)] tmpName_hidden
    show ?thesis using failed(4,5) f taken by (auto simp: Remove_tmp)
  next
    case (linked st1 nonce st2 st3)
    note f = MkdirAll_lookup [OF linked(1)] createExcl_lookup [OF linked(4)] createExcl_lookup [OF linked(5)]
      createExcl_ok [OF linked(4)] createExcl_ok [OF linked(5)] validateVMID_plain [OF linked(2)] tmpName_hidden
    show ?thesis using linked(2,3,6,7) f by (auto simp: Remove_tmp)
  qed simp
  then show "plain x \<Longrightarrow> lookup st' x =
      (if r = None \<and> x = vmid then Some (File (ToLower fp @ [CHR 0x0A])) else lookup st x)"
    "dir_ok st \<Longrightarrow> dir_ok st'" "r = None \<Longrightarrow> lookup st vmid = None \<and> validateVMID vmid \<and> fp \<noteq> []"
    "r = Some ErrAlreadyPinned \<Longrightarrow> lookup st vmid \<noteq> None"
    "r \<in> {None, Some ErrPinStore, Some ErrAlreadyPinned}"
    by blast+
qed

subsection \<open>The cross-VM scan\<close>

definition storedPin :: "pin_config \<Rightarrow> world \<Rightarrow> string \<Rightarrow> string" where
  "storedPin e w q =
     (case lookup (pinStore w) q of Some (File b) \<Rightarrow> ToLower (TrimSpace b) | _ \<Rightarrow> [])"

text \<open>Who holds a pin of a fingerprint, by source, and who still counts: the specification of the scan.\<close>

definition pinnedLocal :: "pin_config \<Rightarrow> world \<Rightarrow> string \<Rightarrow> string \<Rightarrow> bool" where
  "pinnedLocal e w q fp \<longleftrightarrow> PinDir e \<noteq> [] \<and> isVMIDName q \<and> storedPin e w q \<noteq> [] \<and> EqualFold (storedPin e w q) fp"

definition pinnedCluster :: "pin_config \<Rightarrow> world \<Rightarrow> string \<Rightarrow> string \<Rightarrow> bool" where
  "pinnedCluster e w q fp \<longleftrightarrow> ClusterPinDir e \<noteq> [] \<and> isVMIDName q \<and>
     (\<exists>b. lookup (clusterStore w) q = Some (File b) \<and> parseClusterPin b = Some (ToLower fp))"

definition inventoryHit :: "(string \<times> string) list \<Rightarrow> string \<Rightarrow> string \<Rightarrow> bool" where
  "inventoryHit pins fp q \<longleftrightarrow>
     (\<exists>pin. map_of pins q = Some pin \<and> TrimSpace pin \<noteq> [] \<and> EqualFold (TrimSpace pin) fp)"

definition pinnedInventory :: "pin_config \<Rightarrow> string \<Rightarrow> string \<Rightarrow> bool" where
  "pinnedInventory e q fp \<longleftrightarrow> (\<exists>pins. InventoryPins e = Some pins \<and> inventoryHit pins fp q)"

definition claimsEK :: "pin_config \<Rightarrow> world \<Rightarrow> string \<Rightarrow> string \<Rightarrow> bool" where
  "claimsEK e w q fp \<longleftrightarrow>
     (pinnedLocal e w q fp \<or> pinnedCluster e w q fp) \<and> guestExists e w q \<or> pinnedInventory e q fp"

definition world_ok :: "pin_config \<Rightarrow> world \<Rightarrow> bool" where
  "world_ok e w \<longleftrightarrow> dir_ok (pinStore w) \<and> dir_ok (clusterStore w) \<and>
     (\<forall>pins. InventoryPins e = Some pins \<longrightarrow> [] \<notin> fst ` set pins)"

lemma readStoredPin_ok:
  "readStoredPin dir st q = Inr p \<Longrightarrow> dir \<noteq> [] \<Longrightarrow>
    p = (case lookup st q of Some (File b) \<Rightarrow> ToLower (TrimSpace b) | _ \<Rightarrow> []) \<and> validateVMID q"
  by (cases st; cases "lookup st q" rule: read_node.cases)
     (auto simp: readStoredPin_def split: if_splits fread.splits)

lemma store_scan_spec:
  assumes "PinDir e \<noteq> []" "pinStore w = Dir l ents" "distinct (map fst ents)"
    "set es \<subseteq> set ents" "store_scan e w vmid fp es = Inr r"
  shows "(r = [] \<longrightarrow> (\<forall>q \<in> fst ` set es. q \<noteq> vmid \<longrightarrow> \<not> (pinnedLocal e w q fp \<and> guestExists e w q))) \<and>
    (r \<noteq> [] \<longrightarrow> r \<noteq> vmid \<and> pinnedLocal e w r fp \<and> guestExists e w r)"
  using assms(4,5)
proof (induction es)
  case (Cons x es)
  obtain name n where x: "x = (name, n)" by (cases x)
  have n: "lookup (pinStore w) name = Some n"
    using Cons.prems(1) x assms(2,3) by auto
  show ?case
  proof (cases "name = vmid \<or> n = Directory \<or> \<not> isVMIDName name")
    case True
    then have "name \<noteq> vmid \<Longrightarrow> \<not> pinnedLocal e w name fp"
      using n by (auto simp: pinnedLocal_def storedPin_def)
    with Cons True x show ?thesis by auto
  next
    case False
    then obtain p where p: "readStoredPin (PinDir e) (pinStore w) name = Inr p"
      using Cons.prems(2) x by (auto split: sum.splits)
    then have "p = storedPin e w name"
      using readStoredPin_ok [OF p assms(1)] by (simp add: storedPin_def)
    moreover have "name \<noteq> []" using False by (simp add: isVMIDName_def)
    ultimately show ?thesis
      using Cons p False x assms(1) by (auto simp: pinnedLocal_def split: if_splits)
  qed
qed simp

lemma cluster_scan_spec:
  assumes "distinct (map fst ents)" "set es \<subseteq> set ents" "cluster_scan vmid fp es = Inr ids"
  shows "set ids = {q \<in> fst ` set es. q \<noteq> vmid \<and> isVMIDName q \<and>
    (\<exists>b. map_of ents q = Some (File b) \<and> parseClusterPin b = Some fp)}"
  using assms(2,3)
proof (induction es arbitrary: ids)
  case (Cons x es)
  obtain name n where x: "x = (name, n)" by (cases x)
  have n: "map_of ents name = Some n"
    using Cons.prems(1) x assms(1) by auto
  show ?case
  proof (cases "name = vmid \<or> n = Directory \<or> \<not> isVMIDName name")
    case True
    with Cons x n show ?thesis by auto
  next
    case False
    then obtain b ids' where "n = File b" "cluster_scan vmid fp es = Inr ids'"
      "ids = (if parseClusterPin b = Some fp then name # ids' else ids')"
      using Cons.prems(2) x by (cases n) (auto split: sum.splits)
    with Cons False x n show ?thesis by auto
  qed
qed simp

lemma inventory_scan_spec:
  assumes "[] \<notin> fst ` set pins"
  shows "(inventory_scan pins vmid fp = [] \<longrightarrow> (\<forall>q. q \<noteq> vmid \<longrightarrow> \<not> inventoryHit pins fp q)) \<and>
    (inventory_scan pins vmid fp \<noteq> [] \<longrightarrow>
       inventory_scan pins vmid fp \<noteq> vmid \<and> inventoryHit pins fp (inventory_scan pins vmid fp))"
proof -
  let ?hit = "inventoryHit pins fp"
  let ?P = "\<lambda>i. i \<noteq> vmid \<and> (let pin = TrimSpace (case map_of pins i of None \<Rightarrow> [] | Some p \<Rightarrow> p)
    in pin \<noteq> [] \<and> EqualFold pin fp)"
  have P: "?P i \<longleftrightarrow> i \<noteq> vmid \<and> ?hit i" for i
    by (auto simp: inventoryHit_def Let_def TrimSpace_def split: option.splits)
  show ?thesis
  proof (cases "find ?P (sort (map fst pins))")
    case None
    then have "\<forall>q \<in> fst ` set pins. \<not> ?P q" by (auto simp: find_None_iff)
    moreover have "?hit q \<Longrightarrow> q \<in> fst ` set pins" for q by (auto simp: inventoryHit_def alist_key_iff)
    ultimately have "\<forall>q. q \<noteq> vmid \<longrightarrow> \<not> ?hit q" unfolding P by blast
    moreover have "inventory_scan pins vmid fp = []" using None by (simp add: inventory_scan_def)
    ultimately show ?thesis by simp
  next
    case (Some i)
    then have "?P i" "i \<in> set (sort (map fst pins))"
      by (auto simp only: find_Some_iff set_conv_nth)
    moreover have "inventory_scan pins vmid fp = i" using Some by (simp add: inventory_scan_def)
    moreover have "i \<noteq> []" using calculation(2) assms(1) by (auto simp: image_iff)
    ultimately show ?thesis unfolding P by auto
  qed
qed

text \<open>
  The scan is exact: it names a VM that claims the fingerprint when one other than the caller
  does, and none only when none does.
\<close>

lemma store_part_spec:
  assumes ok: "world_ok e w"
    and res: "(if PinDir e \<noteq> [] then (case ReadDir (pinStore w) of None \<Rightarrow> Inl ErrPinStore
        | Some es \<Rightarrow> store_scan e w vmid fp es) else Inr []) = Inr r"
  shows "(r = [] \<longrightarrow> (\<forall>q. q \<noteq> vmid \<longrightarrow> \<not> (pinnedLocal e w q fp \<and> guestExists e w q))) \<and>
    (r \<noteq> [] \<longrightarrow> r \<noteq> vmid \<and> pinnedLocal e w r fp \<and> guestExists e w r)"
proof (cases "PinDir e = []")
  case True
  with res show ?thesis by (auto simp: pinnedLocal_def)
next
  case pd: False
  have none: "\<not> pinnedLocal e w q fp" if "lookup (pinStore w) q = None" for q
    using that by (simp add: pinnedLocal_def storedPin_def)
  show ?thesis
  proof (cases "pinStore w")
    case (Dir l es)
    have "distinct (map fst es)" using ok Dir by (simp add: world_ok_def)
    moreover have "store_scan e w vmid fp es = Inr r"
      using res pd Dir by (simp split: if_splits)
    ultimately have s: "(r = [] \<longrightarrow> (\<forall>q \<in> fst ` set es. q \<noteq> vmid \<longrightarrow> \<not> (pinnedLocal e w q fp \<and> guestExists e w q))) \<and>
      (r \<noteq> [] \<longrightarrow> r \<noteq> vmid \<and> pinnedLocal e w r fp \<and> guestExists e w r)"
      using store_scan_spec [OF pd Dir] by blast
    have "q \<in> fst ` set es" if "pinnedLocal e w q fp" for q
      using none [of q] that Dir by (auto simp: alist_key_iff)
    with s show ?thesis by blast
  qed (use res pd none in auto)
qed

lemma cluster_part_spec:
  assumes ok: "world_ok e w" and res: "clusterPinsMatching e (clusterStore w) vmid (ToLower fp) = Inr ids"
  shows "set ids = {q. q \<noteq> vmid \<and> pinnedCluster e w q fp}"
proof (cases "ClusterPinDir e = []")
  case True
  with res show ?thesis by (auto simp: clusterPinsMatching_def pinnedCluster_def)
next
  case cd: False
  show ?thesis
  proof (cases "clusterStore w")
    case (Dir l es)
    then have "distinct (map fst es)" "cluster_scan vmid (ToLower fp) es = Inr ids"
      using ok res cd by (auto simp: world_ok_def clusterPinsMatching_def split: if_splits)
    then show ?thesis
      using cluster_scan_spec [of es es] cd Dir
      by (auto simp: pinnedCluster_def alist_key_iff)
  qed (use res cd in \<open>auto simp: clusterPinsMatching_def pinnedCluster_def\<close>)
qed

lemma pinnedToAnotherVM_spec:
  assumes ok: "world_ok e w" and fp: "fp \<noteq> []" and res: "pinnedToAnotherVM e w vmid fp = Inr r"
  shows "(r = [] \<longrightarrow> (\<forall>q. q \<noteq> vmid \<longrightarrow> \<not> claimsEK e w q fp)) \<and>
    (r \<noteq> [] \<longrightarrow> r \<noteq> vmid \<and> claimsEK e w r fp)"
proof -
  let ?store = "if PinDir e \<noteq> [] then (case ReadDir (pinStore w) of None \<Rightarrow> Inl ErrPinStore
        | Some es \<Rightarrow> store_scan e w vmid fp es) else Inr []"
  obtain r1 where r1: "?store = Inr r1"
    using res fp by (simp add: pinnedToAnotherVM_def split: sum.splits)
  note s = store_part_spec [OF ok r1]
  show ?thesis
  proof (cases "r1 = []")
    case False
    then have "r = r1" using res fp r1 by (simp add: pinnedToAnotherVM_def)
    with s False show ?thesis by (auto simp: claimsEK_def)
  next
    case True
    obtain ids where ids: "clusterPinsMatching e (clusterStore w) vmid (ToLower fp) = Inr ids"
      using res fp r1 True by (simp add: pinnedToAnotherVM_def split: sum.splits)
    note c = cluster_part_spec [OF ok ids]
    show ?thesis
    proof (cases "find (guestExists e w) ids")
      case (Some i)
      then have "i \<in> set ids" "guestExists e w i" by (auto simp: find_Some_iff)
      moreover have "r = i" using res fp r1 True ids Some by (simp add: pinnedToAnotherVM_def)
      ultimately show ?thesis using c by (auto simp: claimsEK_def pinnedCluster_def isVMIDName_def)
    next
      case None
      then have "\<forall>q \<in> set ids. \<not> guestExists e w q" by (auto simp: find_None_iff)
      moreover have "r = (case InventoryPins e of None \<Rightarrow> [] | Some pins \<Rightarrow> inventory_scan pins vmid fp)"
        using res fp r1 True ids None by (simp add: pinnedToAnotherVM_def split: option.splits)
      moreover have "(\<forall>pins. InventoryPins e = Some pins \<longrightarrow> [] \<notin> fst ` set pins)"
        using ok by (simp add: world_ok_def)
      ultimately show ?thesis
        using s c True inventory_scan_spec [of "the (InventoryPins e)" vmid fp]
        by (auto simp: claimsEK_def pinnedInventory_def split: option.splits)
    qed
  qed
qed

subsection \<open>Pinning before a certificate is issued\<close>

lemma is_space_lower_char [simp]: "is_space (lower_char c) \<longleftrightarrow> is_space c"
proof (cases "is_upper c")
  case True
  then have "of_char (lower_char c) = (of_char c + 32 :: nat)" "65 \<le> (of_char c :: nat)"
    by (simp_all add: of_char_lower_char is_upper_def)
  then have "\<not> is_space (lower_char c)" "\<not> is_space c" by (auto simp: is_space_def)
  then show ?thesis by simp
qed (simp add: lower_char_def)

lemma TrimSpace_line:
  assumes "list_all (\<lambda>c. \<not> is_space c) s" "s \<noteq> []"
  shows "TrimSpace (s @ [CHR 0x0A]) = s"
proof -
  have "dropWhile is_space (s @ [CHR 0x0A]) = s @ [CHR 0x0A]"
    using assms by (cases s) auto
  moreover have "dropWhile is_space (rev s) = rev s"
    using assms by (cases s rule: rev_cases) auto
  moreover have "is_space CHR 0x0A" by (simp add: is_space_def)
  ultimately show ?thesis by (simp add: TrimSpace_def)
qed

text \<open>A fingerprint as the service computes it: not empty and without blanks.\<close>

definition fingerprint_ok :: "string \<Rightarrow> bool" where
  "fingerprint_ok fp \<longleftrightarrow> fp \<noteq> [] \<and> list_all (\<lambda>c. \<not> is_space c) fp"

lemma pin_line: "fingerprint_ok fp \<Longrightarrow> TrimSpace (ToLower fp @ [CHR 0x0A]) = ToLower fp"
  by (rule TrimSpace_line) (auto simp: fingerprint_ok_def ToLower_def list_all_iff)

text \<open>
  The part after the scan: create the pin, or replace a blank file, or accept one that
  appeared in between with the same fingerprint.
\<close>

definition createOrAccept ::
  "pin_faults \<Rightarrow> pin_faults \<Rightarrow> pin_config \<Rightarrow> world \<Rightarrow> dirst \<Rightarrow> string \<Rightarrow> string \<Rightarrow> enroll_error option \<times> world" where
  "createOrAccept f f' e w st0 vmid fp =
     (case createStoredPinExclusive f (PinDir e) vmid fp st0 of
        (Some ErrAlreadyPinned, st) \<Rightarrow>
          (case readStoredPin (PinDir e) st vmid of
             Inl rerr \<Rightarrow> (Some rerr, w\<lparr>pinStore := st\<rparr>)
           | Inr existing' \<Rightarrow>
               if existing' = [] then
                 (case createStoredPinExclusive f' (PinDir e) vmid fp
                      (if pinRemoveFails f then st else remove_entry vmid st) of
                    (err, st') \<Rightarrow> (err, w\<lparr>pinStore := st'\<rparr>))
               else if \<not> EqualFold existing' fp
               then (Some (errUnauthorized errStoredPinMismatch), w\<lparr>pinStore := st\<rparr>)
               else (None, w\<lparr>pinStore := st\<rparr>))
      | (err, st) \<Rightarrow> (err, w\<lparr>pinStore := st\<rparr>))"

lemma ensure_decompose:
  assumes res: "ensurePinBeforeIssue f f' race e w vmid fp = (r, w')"
  obtains (cluster) cpin d where "readClusterPin e (clusterStore w) vmid = Inr (cpin, d)" "cpin \<noteq> []"
      "r = None \<longleftrightarrow> EqualFold cpin fp" "w' = w"
  | (refused) err where "r = Some err" "w' = w"
  | (disabled) d where "readClusterPin e (clusterStore w) vmid = Inr ([], d)" "\<not> RequireClusterPin e"
      "PinDir e = []" "r = None" "w' = w"
  | (kept) d p where "readClusterPin e (clusterStore w) vmid = Inr ([], d)" "\<not> RequireClusterPin e"
      "PinDir e \<noteq> []" "readStoredPin (PinDir e) (pinStore w) vmid = Inr p" "p \<noteq> []" "EqualFold p fp"
      "pinnedToAnotherVM e w vmid fp = Inr []" "r = None" "w' = w"
  | (created) d where "readClusterPin e (clusterStore w) vmid = Inr ([], d)" "\<not> RequireClusterPin e"
      "PinDir e \<noteq> []" "readStoredPin (PinDir e) (pinStore w) vmid = Inr []"
      "pinnedToAnotherVM e w vmid fp = Inr []"
      "createOrAccept f f' e w (race (pinStore w)) vmid fp = (r, w')"
  using res unfolding ensurePinBeforeIssue_def createOrAccept_def
  by (auto split: sum.splits if_splits)

definition pinAt :: "dirst \<Rightarrow> string \<Rightarrow> string" where
  "pinAt st q = (case lookup st q of Some (File b) \<Rightarrow> ToLower (TrimSpace b) | _ \<Rightarrow> [])"

lemma storedPin_pinAt: "storedPin e w q = pinAt (pinStore w) q"
  by (simp add: storedPin_def pinAt_def)

lemma create_pinAt:
  assumes "createStoredPinExclusive f dir vmid fp st = (r, st')" "validateVMID vmid" "fingerprint_ok fp"
  shows "pinAt st' vmid = (if r = None then ToLower fp else pinAt st vmid)" "r = None \<Longrightarrow> pinAt st vmid = []"
  using create_effect(1) [OF assms(1) validateVMID_plain [OF assms(2)]] create_effect(3) [OF assms(1)]
    pin_line [OF assms(3)]
  by (auto simp: pinAt_def)

text \<open>What \<open>createOrAccept\<close> leaves: other plain names as they were, and the caller's pin.\<close>

lemma createOrAccept_effect:
  assumes res: "createOrAccept f f' e w st0 vmid fp = (r, w')" and pd: "PinDir e \<noteq> []"
    and fp: "fingerprint_ok fp" and v: "validateVMID vmid"
  shows "w' = w\<lparr>pinStore := pinStore w'\<rparr> \<and> (dir_ok st0 \<longrightarrow> dir_ok (pinStore w')) \<and>
    (plain q \<and> q \<noteq> vmid \<longrightarrow> lookup (pinStore w') q = lookup st0 q) \<and>
    (r = None \<longrightarrow> EqualFold (pinAt (pinStore w') vmid) fp \<and> pinAt (pinStore w') vmid \<noteq> []) \<and>
    (pinAt st0 vmid \<noteq> [] \<or> r \<noteq> None \<longrightarrow> pinAt (pinStore w') vmid = pinAt st0 vmid)"
proof -
  obtain r1 st1 where c1: "createStoredPinExclusive f (PinDir e) vmid fp st0 = (r1, st1)"
    by (cases "createStoredPinExclusive f (PinDir e) vmid fp st0")
  have ne: "ToLower fp \<noteq> []" using fp by (simp add: fingerprint_ok_def)
  note e1 = create_effect(1,2) [OF c1] create_pinAt [OF c1 v fp]
  show ?thesis
  proof (cases "r1 = Some ErrAlreadyPinned")
    case False
    then have "r = r1" "w' = w\<lparr>pinStore := st1\<rparr>"
      using res c1 by (auto simp: createOrAccept_def split: option.splits enroll_error.splits)
    then show ?thesis using e1 ne by (auto split: if_splits)
  next
    case True
    show ?thesis
    proof (cases "readStoredPin (PinDir e) st1 vmid")
      case (Inl err)
      then have "r = Some err" "w' = w\<lparr>pinStore := st1\<rparr>"
        using res c1 True by (auto simp: createOrAccept_def)
      then show ?thesis using e1 True by auto
    next
      case (Inr p)
      then have p: "p = pinAt st1 vmid" using readStoredPin_ok [OF Inr pd] by (simp add: pinAt_def)
      show ?thesis
      proof (cases "p = []")
        case False
        then show ?thesis using res c1 True Inr p e1 by (auto simp: createOrAccept_def split: if_splits)
      next
        case blank: True
        let ?st = "if pinRemoveFails f then st1 else remove_entry vmid st1"
        obtain st2 where c2: "createStoredPinExclusive f' (PinDir e) vmid fp ?st = (r, st2)" "w' = w\<lparr>pinStore := st2\<rparr>"
          using res c1 True Inr blank by (auto simp: createOrAccept_def split: prod.splits)
        note e2 = create_effect(1,2) [OF c2(1)] create_pinAt [OF c2(1) v fp]
        have "pinAt ?st vmid = []" using p blank by (simp add: pinAt_def lookup_remove_entry)
        then show ?thesis
          using e1 e2 c2(2) True p blank ne
          by (auto simp: lookup_remove_entry remove_entry_ok split: if_splits)
      qed
    qed
  qed
qed

text \<open>The whole operation when nothing outside the process touches the store in between.\<close>

lemma ensure_effect:
  assumes res: "ensurePinBeforeIssue f f' (\<lambda>st. st) e w vmid fp = (r, w')" and fp: "fingerprint_ok fp"
  shows "w' = w\<lparr>pinStore := pinStore w'\<rparr> \<and> (dir_ok (pinStore w) \<longrightarrow> dir_ok (pinStore w')) \<and>
    (plain q \<and> q \<noteq> vmid \<longrightarrow> lookup (pinStore w') q = lookup (pinStore w) q) \<and>
    (storedPin e w vmid \<noteq> [] \<or> r \<noteq> None \<longrightarrow> storedPin e w' vmid = storedPin e w vmid)"
  using res
proof (cases rule: ensure_decompose)
  case (created d)
  then have "validateVMID vmid" using readStoredPin_ok by blast
  then show ?thesis
    using createOrAccept_effect [OF created(6,3) fp, of q] by (auto simp: storedPin_pinAt)
qed auto

lemma ensure_success:
  assumes res: "ensurePinBeforeIssue f f' (\<lambda>st. st) e w vmid fp = (None, w')" and fp: "fingerprint_ok fp"
    and nocluster: "readClusterPin e (clusterStore w) vmid = Inr ([], d)" and pd: "PinDir e \<noteq> []"
  shows "pinnedToAnotherVM e w vmid fp = Inr [] \<and> storedPin e w' vmid \<noteq> [] \<and>
    EqualFold (storedPin e w' vmid) fp"
  using res
proof (cases rule: ensure_decompose)
  case (kept d' p)
  then show ?thesis using readStoredPin_ok [OF kept(4,3)] by (simp add: storedPin_def)
next
  case (created d')
  then have "validateVMID vmid" using readStoredPin_ok by blast
  then show ?thesis
    using createOrAccept_effect [OF created(6,3) fp] created(5) by (auto simp: storedPin_pinAt)
qed (use nocluster pd in auto)

lemma guestExists_store [simp]: "guestExists e (w\<lparr>pinStore := st\<rparr>) q = guestExists e w q"
  by (simp add: guestExists_def)

lemma claimsEK_store:
  assumes "isVMIDName q \<Longrightarrow> lookup st q = lookup (pinStore w) q"
  shows "claimsEK e (w\<lparr>pinStore := st\<rparr>) q fp = claimsEK e w q fp"
  using assms by (auto simp: claimsEK_def pinnedLocal_def pinnedCluster_def storedPin_def)

lemma ensure_exclusive:
  assumes "world_ok e w" and "fingerprint_ok fp" and "PinDir e \<noteq> []"
    and "readClusterPin e (clusterStore w) vmid = Inr ([], d)"
    and "ensurePinBeforeIssue f f' (\<lambda>st. st) e w vmid fp = (None, w')"
  shows "EqualFold (storedPin e w' vmid) fp \<and> (\<forall>q. q \<noteq> vmid \<longrightarrow> \<not> claimsEK e w' q fp)"
proof -
  note s = ensure_success [OF assms(5,2,4,3)]
  have free: "\<forall>q. q \<noteq> vmid \<longrightarrow> \<not> claimsEK e w q fp"
    using pinnedToAnotherVM_spec [OF assms(1) _ s [THEN conjunct1]] assms(2) by (simp add: fingerprint_ok_def)
  have "claimsEK e w' q fp = claimsEK e w q fp" if "q \<noteq> vmid" for q
  proof -
    have eff: "w' = w\<lparr>pinStore := pinStore w'\<rparr>" "plain q \<Longrightarrow> lookup (pinStore w') q = lookup (pinStore w) q"
      using ensure_effect [OF assms(5,2), of q] that by blast+
    have "isVMIDName q \<Longrightarrow> plain q" using isVMIDName_valid validateVMID_plain by blast
    with eff show ?thesis using claimsEK_store [of q "pinStore w'" w e fp] by simp
  qed
  with free s show ?thesis by blast
qed

subsection \<open>Properties\<close>

text \<open>
  Pinning is exclusive. When the pin check before an issue succeeds for a VM without a cluster
  pin and the local store is on, the VM holds a local pin of that fingerprint, and no other
  VM claims it: no local or cluster pin of a VM whose guest configuration still exists, and
  no inventory pin.
\<close>

lemma ensure_pin_exclusive:
  assumes "world_ok e w" and "fingerprint_ok fp" and "PinDir e \<noteq> []"
    and "readClusterPin e (clusterStore w) vmid = Inr ([], d)"
    and "ensurePinBeforeIssue f f' (\<lambda>st. st) e w vmid fp = (None, w')"
  shows "EqualFold (storedPin e w' vmid) fp \<and> (\<forall>q. q \<noteq> vmid \<longrightarrow> \<not> claimsEK e w' q fp)"
  using ensure_exclusive [OF assms] .

definition noFaults :: pin_faults where
  "noFaults = \<lparr>mkdirFails = False, randBytes = Some ''nonce678'', openFails = False, writeFails = False,
     closeFails = False, linkFails = False, removeFails = False, pinRemoveFails = False\<rparr>"

definition samplePins :: pin_config where
  "samplePins = \<lparr>PinDir = ''/var/lib/vtpm-mds/ek-pins'', InventoryPins = Some [],
     ClusterPinDir = '''', RequireClusterPin = False, GuestConfigRoot = ''''\<rparr>"

definition sampleWorld :: world where
  "sampleWorld = \<lparr>pinStore = Dir True [(''102'', File ''bb'')], clusterStore = DirMissing,
     guestNodes = None, guestNodesLater = None\<rparr>"

lemma sampleWorld_ok: "world_ok samplePins sampleWorld"
  by (simp add: world_ok_def sampleWorld_def samplePins_def)

lemma ensure_pin_exclusive_witness:
  "\<exists>w'. ensurePinBeforeIssue noFaults noFaults (\<lambda>st. st) samplePins sampleWorld ''101'' ''AA'' = (None, w') \<and>
     EqualFold (storedPin samplePins w' ''101'') ''AA'' \<and> \<not> claimsEK samplePins w' ''102'' ''AA''"
proof -
  have c: "readClusterPin samplePins (clusterStore sampleWorld) ''101'' = Inr ([], False)"
    unfolding samplePins_def sampleWorld_def by code_simp
  have fp: "fingerprint_ok ''AA''" by code_simp
  have pd: "PinDir samplePins \<noteq> []" by (simp add: samplePins_def)
  have "fst (ensurePinBeforeIssue noFaults noFaults (\<lambda>st. st) samplePins sampleWorld ''101'' ''AA'') = None"
    unfolding noFaults_def samplePins_def sampleWorld_def by code_simp
  then obtain w' where
    r: "ensurePinBeforeIssue noFaults noFaults (\<lambda>st. st) samplePins sampleWorld ''101'' ''AA'' = (None, w')"
    by (metis prod.collapse)
  then show ?thesis
    using ensure_pin_exclusive [OF sampleWorld_ok fp pd c r] by auto
qed

text \<open>
  One process, one store, over time. A step is the pin check of one enrolment, of any VM, with any
  fingerprint, any inventory, any failing file operation and any outcome; or anything that happens
  outside the process between two checks: guests are made, migrated and destroyed, cluster pins
  come and go, the operator deletes pin files, the store cannot be read for a while. Only one
  thing is excluded, that somebody else writes a pin.
\<close>

definition stores_ok :: "world \<Rightarrow> bool" where
  "stores_ok w \<longleftrightarrow> dir_ok (pinStore w) \<and> dir_ok (clusterStore w)"

definition pins_named :: "(string \<times> string) list option \<Rightarrow> bool" where
  "pins_named pins \<longleftrightarrow> (\<forall>ps. pins = Some ps \<longrightarrow> [] \<notin> fst ` set ps)"

inductive pin_step :: "pin_config \<Rightarrow> world \<Rightarrow> world \<Rightarrow> bool" for e where
  check: "pins_named pins \<Longrightarrow> fingerprint_ok fp \<Longrightarrow>
    ensurePinBeforeIssue f f' (\<lambda>st. st) (e\<lparr>InventoryPins := pins\<rparr>) w vmid fp = (r, w') \<Longrightarrow> pin_step e w w'"
| outside: "stores_ok w' \<Longrightarrow> \<forall>q. isVMIDName q \<longrightarrow> storedPin e w' q \<in> {[], storedPin e w q} \<Longrightarrow> pin_step e w w'"

lemma EqualFold_chain: "EqualFold a b \<Longrightarrow> EqualFold a c \<Longrightarrow> EqualFold b c"
  by (simp add: EqualFold_def)

lemma pinnedLocal_change:
  assumes res: "ensurePinBeforeIssue f f' (\<lambda>st. st) e w vmid fp = (r, w')" and fp: "fingerprint_ok fp"
    and "pinnedLocal e w' q x" "\<not> pinnedLocal e w q x"
  shows "q = vmid \<and> r = None \<and> (\<exists>d. readClusterPin e (clusterStore w) vmid = Inr ([], d))"
  using res
proof (cases rule: ensure_decompose)
  case (created d)
  note eff = ensure_effect [OF res fp, of q]
  have "isVMIDName q" using assms(3) by (simp add: pinnedLocal_def)
  then have "plain q" using isVMIDName_valid validateVMID_plain by blast
  then have "q = vmid"
    using eff assms(3,4) by (auto simp: pinnedLocal_def storedPin_def)
  moreover have "r = None"
    using eff assms(3,4) calculation by (auto simp: pinnedLocal_def)
  ultimately show ?thesis using created(1) by blast
qed (use assms(3,4) in auto)

lemma inventory_irrelevant [simp]:
  "pinnedLocal (e\<lparr>InventoryPins := pins\<rparr>) w q fp = pinnedLocal e w q fp"
  "guestExists (e\<lparr>InventoryPins := pins\<rparr>) w q = guestExists e w q"
  by (simp_all add: pinnedLocal_def storedPin_def guestExists_def)

lemma pin_step_stores:
  assumes "pin_step e w w'" "stores_ok w"
  shows "stores_ok w'"
  using assms(1)
proof cases
  case (check pins fp f f' vmid r)
  from ensure_effect [OF check(3, 2)] assms(2) show ?thesis
    by (metis stores_ok_def world.select_convs(2) world.update_convs(1) world.surjective)
qed

interpretation pin_system: invariant_system stores_ok "pin_step e" stores_ok for e
  by unfold_locales (auto intro: pin_step_stores)

text \<open>A pin that appears was made by a check, and that check found every other VM with this EK destroyed.\<close>

lemma pin_step_new:
  assumes step: "pin_step e w w'" and ok: "stores_ok w"
    and new: "pinnedLocal e w' q x" "\<not> pinnedLocal e w q x" and other: "u \<noteq> q" "pinnedLocal e w' u x"
  shows "pinnedLocal e w u x \<and> \<not> guestExists e w u"
  using step
proof cases
  case (check pins fp f f' vmid r)
  let ?e = "e\<lparr>InventoryPins := pins\<rparr>"
  note change = pinnedLocal_change [OF check(3, 2)]
  obtain d where n: "q = vmid" "r = None" "readClusterPin ?e (clusterStore w) vmid = Inr ([], d)"
    using change [of q x] new by auto
  have wok: "world_ok ?e w" using ok check(1) by (simp add: world_ok_def stores_ok_def pins_named_def)
  have pd: "PinDir ?e \<noteq> []" using new(1) by (simp add: pinnedLocal_def)
  from ensure_exclusive [OF wok check(2) pd n(3)] n(2) check(3)
  have fpv: "EqualFold (storedPin ?e w' vmid) fp" and free: "\<not> claimsEK ?e w' u fp" using other(1) n(1) by auto
  have "EqualFold x fp" using fpv new(1) n(1) by (auto simp: pinnedLocal_def storedPin_def intro: EqualFold_chain)
  then have "pinnedLocal e w' u fp" using other(2) by (auto simp: pinnedLocal_def intro: EqualFold_trans)
  with free have gone: "\<not> guestExists e w' u" by (auto simp: claimsEK_def)
  obtain st where "w' = w\<lparr>pinStore := st\<rparr>" using ensure_effect [OF check(3, 2)] by metis
  moreover have "pinnedLocal e w u x" using change [of u x] other n(1) by auto
  ultimately show ?thesis using gone by simp
next
  case outside
  then have "storedPin e w' q \<in> {[], storedPin e w q}" using new(1) by (auto simp: pinnedLocal_def)
  then show ?thesis using new by (auto simp: pinnedLocal_def)
qed

lemma last_change:
  "P n \<Longrightarrow> \<not> P 0 \<Longrightarrow> \<exists>i < n. \<not> P i \<and> (\<forall>j. i < j \<and> j \<le> n \<longrightarrow> P j)" for P :: "nat \<Rightarrow> bool"
proof (induction n)
  case (Suc n)
  show ?case
  proof (cases "P n")
    case True
    then obtain i where "i < n" "\<not> P i" "\<forall>j. i < j \<and> j \<le> n \<longrightarrow> P j" using Suc by blast
    then show ?thesis using Suc.prems(1) by (intro exI [of _ i]) (auto simp: le_Suc_eq)
  next
    case False
    then show ?thesis using Suc.prems(1) by (intro exI [of _ n]) (auto dest: le_antisym Suc_leI)
  qed
qed simp

text \<open>
  C3: One EK, one VM at a time. Take any history of one service: pin checks of any VMs in any order,
  with any file operation failing, and between them anything outside that does not itself write a
  pin (destroyed and re-created guests, changed inventories and cluster pins, deleted pin files).
  When two VMs with ids of digits, the ids Proxmox gives, hold local pins of the same EK
  certificate at the end and did not at the start, then the one was pinned at a moment when the
  other, which already held its pin, had no guest configuration left in the cluster; from then on
  both held them. So while both VMs exist they never get to share an EK. Of ids in another form the
  scan does not know (see \<open>named_vms_share_an_ek\<close>), and the claim is not about them.
\<close>

theorem one_ek_one_vm:
  assumes "stores_ok (h 0)" "\<forall>i < n. pin_step e (h i) (h (Suc i))" "q \<noteq> q'"
    and "\<not> (pinnedLocal e (h 0) q fp \<and> pinnedLocal e (h 0) q' fp)"
    and "pinnedLocal e (h n) q fp" "pinnedLocal e (h n) q' fp"
  shows "\<exists>i < n. \<exists>v u. {v, u} = {q, q'} \<and>
    \<not> pinnedLocal e (h i) v fp \<and> pinnedLocal e (h i) u fp \<and> \<not> guestExists e (h i) u \<and>
    (\<forall>j. i < j \<and> j \<le> n \<longrightarrow> pinnedLocal e (h j) v fp \<and> pinnedLocal e (h j) u fp)"
proof -
  let ?both = "\<lambda>i. pinnedLocal e (h i) q fp \<and> pinnedLocal e (h i) q' fp"
  obtain i where i: "i < n" "\<not> ?both i" "\<forall>j. i < j \<and> j \<le> n \<longrightarrow> ?both j"
    using last_change [of ?both n] assms(4-6) by blast
  obtain v u where vu: "{v, u} = {q, q'}" "v \<noteq> u" "\<not> pinnedLocal e (h i) v fp"
    using i(2) assms(3) by (metis insert_commute)
  have "(pin_step e)\<^sup>*\<^sup>* (h 0) (h m)" if "m \<le> n" for m
    using that
  proof (induction m)
    case (Suc m)
    then have "(pin_step e)\<^sup>*\<^sup>* (h 0) (h m)" "pin_step e (h m) (h (Suc m))" using assms(2) by simp_all
    then show ?case by (rule rtranclp.rtrancl_into_rtrancl)
  qed simp
  then have "stores_ok (h i)" using pin_system.reachable_inv [OF assms(1)] i(1) by (meson less_imp_le)
  moreover have both: "pinnedLocal e (h j) v fp \<and> pinnedLocal e (h j) u fp" if "i < j" "j \<le> n" for j
    using i(3) that vu(1) by (auto simp: doubleton_eq_iff)
  ultimately have "pinnedLocal e (h i) u fp \<and> \<not> guestExists e (h i) u"
    using pin_step_new [of e "h i" "h (Suc i)" v fp u] assms(2) i(1) vu(2, 3) by auto
  with i(1) vu both show ?thesis by blast
qed

text \<open>VM 101 is pinned, then destroyed, then VM 102 is pinned to the same EK.\<close>

definition sampleNode :: "string \<Rightarrow> guest_node list option" where
  "sampleNode v = Some [\<lparr>nodeIsDir = True, confStat = (\<lambda>kind vmid. if vmid = v then StatOK else StatNotExist)\<rparr>]"

definition clusterPins :: pin_config where
  "clusterPins = samplePins\<lparr>GuestConfigRoot := ''/etc/pve/nodes''\<rparr>"

definition sampleCheck :: "string \<Rightarrow> world \<Rightarrow> world" where
  "sampleCheck v w = snd (ensurePinBeforeIssue noFaults noFaults (\<lambda>st. st) clusterPins w v ''AA'')"

definition withGuest :: "string \<Rightarrow> world \<Rightarrow> world" where
  "withGuest v w = w\<lparr>guestNodes := sampleNode v, guestNodesLater := sampleNode v\<rparr>"

definition sampleHistory :: "nat \<Rightarrow> world" where
  "sampleHistory i = (let w0 = withGuest ''101'' (sampleWorld\<lparr>pinStore := DirMissing\<rparr>); w1 = sampleCheck ''101'' w0;
     w2 = withGuest ''102'' w1 in
     [w0, w1, w2, sampleCheck ''102'' w2] ! i)"

lemma sample_check_step: "pin_step clusterPins w (sampleCheck v w)"
proof -
  have c: "clusterPins\<lparr>InventoryPins := Some []\<rparr> = clusterPins" by (simp add: clusterPins_def samplePins_def)
  have "fingerprint_ok ''AA''" by code_simp
  then show ?thesis
    using pin_step.check [of "Some []" "''AA''" noFaults noFaults clusterPins w v] unfolding c sampleCheck_def
    by (metis pins_named_def list.set(1) image_empty empty_iff option.inject prod.collapse)
qed

theorem one_ek_one_vm_witness:
  "pinnedLocal clusterPins (sampleHistory 3) ''101'' ''AA'' \<and> pinnedLocal clusterPins (sampleHistory 3) ''102'' ''AA'' \<and>
   (\<exists>i < 3. \<exists>v u. {v, u} = {''101'', ''102''} \<and> \<not> pinnedLocal clusterPins (sampleHistory i) v ''AA'' \<and>
      \<not> guestExists clusterPins (sampleHistory i) u)"
proof -
  have start: "stores_ok (sampleHistory 0)"
    by (simp add: stores_ok_def sampleHistory_def withGuest_def sampleWorld_def Let_def)
  have s1: "stores_ok (sampleHistory 1)"
    using pin_step_stores [OF sample_check_step start, of "''101''"] by (simp add: sampleHistory_def Let_def)
  have "pin_step clusterPins (sampleHistory 1) (sampleHistory 2)"
    using s1 by (intro pin_step.outside)
      (simp_all add: sampleHistory_def withGuest_def stores_ok_def storedPin_def Let_def)
  then have steps: "\<forall>i < 3. pin_step clusterPins (sampleHistory i) (sampleHistory (Suc i))"
    using sample_check_step by (auto simp: sampleHistory_def Let_def numeral_3_eq_3 numeral_2_eq_2 less_Suc_eq)
  have p: "\<not> (pinnedLocal clusterPins (sampleHistory 0) ''101'' ''AA'' \<and> pinnedLocal clusterPins (sampleHistory 0) ''102'' ''AA'')"
    "pinnedLocal clusterPins (sampleHistory 3) ''101'' ''AA''" "pinnedLocal clusterPins (sampleHistory 3) ''102'' ''AA''"
    unfolding sampleHistory_def clusterPins_def samplePins_def sampleWorld_def by code_simp+
  show ?thesis
    using one_ek_one_vm [OF start steps _ p] p(2, 3) by auto
qed

text \<open>
  A pin, once written, stays. Whatever the pin check is asked for whichever VM, and however it
  ends, no VM's non-empty local pin changes; and when it ends with an error no local pin
  changes at all.
\<close>

lemma pins_never_change:
  assumes "ensurePinBeforeIssue f f' (\<lambda>st. st) e w vmid fp = (r, w')" "fingerprint_ok fp" "isVMIDName q"
    and "storedPin e w q \<noteq> [] \<or> r \<noteq> None"
  shows "storedPin e w' q = storedPin e w q"
proof -
  have "plain q" using assms(3) isVMIDName_valid validateVMID_plain by blast
  with ensure_effect [OF assms(1,2), of q] assms(4) show ?thesis
    by (cases "q = vmid") (auto simp: storedPin_def)
qed

lemma pins_never_change_witness:
  "fst (ensurePinBeforeIssue noFaults noFaults (\<lambda>st. st) samplePins sampleWorld ''102'' ''AA'') \<noteq> None \<and>
   storedPin samplePins (snd (ensurePinBeforeIssue noFaults noFaults (\<lambda>st. st) samplePins sampleWorld ''102'' ''AA''))
     ''102'' = storedPin samplePins sampleWorld ''102''"
proof -
  let ?run = "ensurePinBeforeIssue noFaults noFaults (\<lambda>st. st) samplePins sampleWorld ''102'' ''AA''"
  have "fst ?run \<noteq> None"
    unfolding noFaults_def samplePins_def sampleWorld_def by code_simp
  moreover have "fingerprint_ok ''AA''" "isVMIDName ''102''" by code_simp+
  ultimately show ?thesis using pins_never_change [of noFaults noFaults samplePins sampleWorld "''102''" "''AA''" "fst ?run" "snd ?run" "''102''"]
    by simp
qed

lemma create_error: "createStoredPinExclusive f dir vmid fp st = (Some err, st') \<Longrightarrow> err = ErrPinStore \<or> err = ErrAlreadyPinned"
  using create_effect(5) [of f dir vmid fp st "Some err" st'] by auto

lemma create_fresh:
  assumes "createStoredPinExclusive f dir vmid fp (remove_entry vmid st) = (r, st')"
  shows "r = None \<or> r = Some ErrPinStore"
proof -
  have "r \<noteq> Some ErrAlreadyPinned"
    using create_effect(4) [OF assms] by (auto simp: lookup_remove_entry)
  then show ?thesis using create_effect(5) [OF assms] by blast
qed

text \<open>
  The two checks of an enrolment agree. A VM that passed the check of its own pin and the
  cross-VM scan is not refused by the check before the issue (unless the store changed in
  between): that check then succeeds, or fails because the store itself failed.
\<close>

lemma own_check_suffices:
  assumes "enforceOwnPin e w vmid fp = None" "pinnedToAnotherVM e w vmid fp = Inr []" "fingerprint_ok fp"
    and "\<not> pinRemoveFails f"
    and "ensurePinBeforeIssue f f' (\<lambda>st. st) e w vmid fp = (r, w')"
  shows "r = None \<or> r = Some ErrPinStore"
proof -
  obtain cpin d where c: "readClusterPin e (clusterStore w) vmid = Inr (cpin, d)"
    using assms(1) by (auto simp: enforceOwnPin_def split: sum.splits)
  show ?thesis
  proof (cases "cpin \<noteq> [] \<or> PinDir e = []")
    case True
    with c assms(1,5) show ?thesis
      by (auto simp: enforceOwnPin_def ensurePinBeforeIssue_def split: if_splits sum.splits)
  next
    case False
    then obtain p where p: "readStoredPin (PinDir e) (pinStore w) vmid = Inr p" "p = [] \<or> EqualFold p fp"
      "\<not> RequireClusterPin e"
      using c assms(1) by (auto simp: enforceOwnPin_def split: sum.splits if_splits)
    show ?thesis
    proof (cases "p = []")
      case True
      then have run: "createOrAccept f f' e w (pinStore w) vmid fp = (r, w')"
        using False c p assms(2,5) by (auto simp: ensurePinBeforeIssue_def createOrAccept_def)
      obtain r1 st1 where c1: "createStoredPinExclusive f (PinDir e) vmid fp (pinStore w) = (r1, st1)"
        by (cases "createStoredPinExclusive f (PinDir e) vmid fp (pinStore w)")
      have v: "validateVMID vmid" using readStoredPin_ok [OF p(1)] False by blast
      have "lookup st1 vmid = lookup (pinStore w) vmid" if "r1 = Some ErrAlreadyPinned"
        using create_effect(1) [OF c1 validateVMID_plain [OF v]] that by simp
      then have blank: "readStoredPin (PinDir e) st1 vmid = Inr q \<Longrightarrow> q = []" if "r1 = Some ErrAlreadyPinned" for q
        using readStoredPin_ok [of "PinDir e" st1 vmid q] readStoredPin_ok [OF p(1)] False True that by auto
      have store_err: "readStoredPin (PinDir e) st1 vmid = Inl err \<Longrightarrow> err = ErrPinStore" for err
        by (auto simp: readStoredPin_def split: if_splits fread.splits)
      show ?thesis
        using run c1 blank store_err create_error [of f "PinDir e" vmid fp "pinStore w"] assms(4)
        by (auto simp: createOrAccept_def dest: create_fresh split: prod.splits option.splits enroll_error.splits sum.splits if_splits)
    next
      case False
      with p c \<open>\<not> (cpin \<noteq> [] \<or> PinDir e = [])\<close> assms(2,5) show ?thesis
        by (auto simp: ensurePinBeforeIssue_def)
    qed
  qed
qed

lemma own_check_suffices_witness:
  "fst (ensurePinBeforeIssue noFaults noFaults (\<lambda>st. st) samplePins sampleWorld ''101'' ''AA'') \<in> {None, Some ErrPinStore}"
proof -
  let ?run = "ensurePinBeforeIssue noFaults noFaults (\<lambda>st. st) samplePins sampleWorld ''101'' ''AA''"
  have "enforceOwnPin samplePins sampleWorld ''101'' ''AA'' = None"
    unfolding samplePins_def sampleWorld_def by code_simp
  moreover have "pinnedToAnotherVM samplePins sampleWorld ''101'' ''AA'' = Inr []"
    unfolding samplePins_def sampleWorld_def by code_simp
  moreover have "fingerprint_ok ''AA''" by code_simp
  moreover have "\<not> pinRemoveFails noFaults" by (simp add: noFaults_def)
  ultimately show ?thesis
    using own_check_suffices [of samplePins sampleWorld "''101''" "''AA''" noFaults noFaults "fst ?run" "snd ?run"]
    by simp
qed

text \<open>
  A cluster pin is exactly sixty-four lower-case hexadecimal digits, with at most one line feed
  after them; nothing is trimmed or folded.
\<close>

lemma parseClusterPin_exact:
  "parseClusterPin b = Some p \<longleftrightarrow>
     (b = p \<or> b = p @ [CHR 0x0A]) \<and> length p = 64 \<and> list_all is_lower_hex p"
proof -
  have nl: "\<not> is_lower_hex CHR 0x0A" by (simp add: is_lower_hex_def is_digit_def)
  have shape: "b = take 64 b @ [CHR 0x0A]" if "length b = 65" "b ! 64 = CHR 0x0A" for b :: string
    using that take_Suc_conv_app_nth [of 64 b] by simp
  show ?thesis
  proof (cases "length b = 65 \<and> b ! 64 = CHR 0x0A")
    case True
    then have "parseClusterPin b = (if list_all is_lower_hex (take 64 b) then Some (take 64 b) else None)"
      by (simp add: parseClusterPin_def Let_def)
    moreover have "b = p \<Longrightarrow> length p \<noteq> 64" "b = p @ [CHR 0x0A] \<longleftrightarrow> p = take 64 b"
      using True shape [of b] by auto
    ultimately show ?thesis using True by auto
  next
    case False
    then have "parseClusterPin b = (if length b = 64 \<and> list_all is_lower_hex b then Some b else None)"
      by (auto simp: parseClusterPin_def Let_def)
    moreover have "b = p @ [CHR 0x0A] \<Longrightarrow> length p \<noteq> 64"
      using False by (auto simp: nth_append)
    ultimately show ?thesis by auto
  qed
qed

text \<open>
  A pin is never ignored on doubt. A VM is taken for destroyed only when both looks at the guest
  configurations could list the nodes and found, on every node directory and for both kinds
  of guest, that the configuration file does not exist.
\<close>

lemma stale_only_when_certain:
  "\<not> guestExists e w q \<longleftrightarrow> GuestConfigRoot e \<noteq> [] \<and>
     (\<forall>look \<in> {guestNodes w, guestNodesLater w}. \<exists>ns. look = Some ns \<and>
        (\<forall>n \<in> set ns. nodeIsDir n \<longrightarrow>
           confStat n ''qemu-server'' q = StatNotExist \<and> confStat n ''lxc'' q = StatNotExist))"
  by (auto simp: guestExists_def guestConfigFound_def list_ex_iff split: option.splits)

lemma stale_only_when_certain_witness:
  "\<not> guestExists (samplePins\<lparr>GuestConfigRoot := ''/etc/pve/nodes''\<rparr>)
      (sampleWorld\<lparr>guestNodes := Some [], guestNodesLater := Some []\<rparr>) ''101''"
  using stale_only_when_certain [of "samplePins\<lparr>GuestConfigRoot := ''/etc/pve/nodes''\<rparr>"
      "sampleWorld\<lparr>guestNodes := Some [], guestNodesLater := Some []\<rparr>" "''101''"]
  by simp

text \<open>
  The scan skips pin files whose names are not all digits. Nothing in the YAML loader asks for
  such ids, so with ids of another form two VMs can pin the same EK certificate.
\<close>

lemma named_vms_share_an_ek:
  "let (r1, w1) = ensurePinBeforeIssue noFaults noFaults (\<lambda>st. st) samplePins sampleWorld ''web-1'' ''AA'';
       (r2, w2) = ensurePinBeforeIssue noFaults noFaults (\<lambda>st. st) samplePins w1 ''web-2'' ''AA''
   in r1 = None \<and> r2 = None \<and> storedPin samplePins w2 ''web-1'' = ''aa'' \<and> storedPin samplePins w2 ''web-2'' = ''aa''"
  unfolding noFaults_def samplePins_def sampleWorld_def by code_simp

end
