(* ===== verification/Enroll.thy ===== *)
theory Enroll
  imports Http Pins Devid_Keys
begin

text \<open>
  DevID enrolment on the server: the sessions (\<open>internal/devid/session.go\<close>), the authentication
  of the caller (\<open>auth.go\<close>), the two legs \<open>Start\<close> and \<open>Finish\<close> (\<open>enroll.go\<close>) and their
  HTTP handlers (\<open>http.go\<close>). The state is the session store and the world of \<open>Pins\<close>; the
  libraries are \<open>lib\<close>, clocks and random bytes are arguments. \<open>logIssuance\<close> writes a log
  line and is not modelled.
\<close>

subsection \<open>Sessions\<close>

record Session =
  SessID :: string
  Nonce :: string
  SessRequest :: SigningRequest
  SessVMID :: string
  SessEKFingerprint :: string
  Created :: time

record SessionStore =
  sessions :: "(string \<times> Session) list"
  sessTTL :: duration

definition NewSessionStore :: "duration \<Rightarrow> SessionStore" where
  "NewSessionStore ttl = \<lparr>sessions = [], sessTTL = (if ttl \<le> 0 then 5 * minute else ttl)\<rparr>"

definition purgeLocked :: "time \<Rightarrow> SessionStore \<Rightarrow> SessionStore" where
  "purgeLocked now s =
     s\<lparr>sessions := filter (\<lambda>(i, sess). \<not> (now - Created sess > sessTTL s)) (sessions s)\<rparr>"

text \<open>\<open>t1\<close> is the clock of \<open>purgeLocked\<close>, \<open>t2\<close> that of the new session.\<close>

definition Put ::
  "string option \<Rightarrow> time \<Rightarrow> time \<Rightarrow> string \<Rightarrow> SigningRequest \<Rightarrow> string \<Rightarrow> string \<Rightarrow> SessionStore
    \<Rightarrow> string option \<times> SessionStore" where
  "Put rnd t1 t2 nonce sr vmid ekFP s =
     (case rnd of
        None \<Rightarrow> (None, s)
      | Some idBytes \<Rightarrow>
          (let i = hex_encode idBytes; s1 = purgeLocked t1 s;
               sess = \<lparr>SessID = i, Nonce = nonce, SessRequest = sr, SessVMID = vmid,
                       SessEKFingerprint = ekFP, Created = t2\<rparr> in
           (Some i, s1\<lparr>sessions := AList.update i sess (sessions s1)\<rparr>)))"

definition Take :: "time \<Rightarrow> string \<Rightarrow> SessionStore \<Rightarrow> Session option \<times> SessionStore" where
  "Take now i s =
     (let s1 = purgeLocked now s in
      case map_of (sessions s1) i of
        None \<Rightarrow> (None, s1)
      | Some sess \<Rightarrow> (Some sess, s1\<lparr>sessions := AList.delete i (sessions s1)\<rparr>))"

subsection \<open>The enroller\<close>

record Enroller =
  E_CA :: CA
  E_Roots :: "string option"
  E_Pins :: pin_config

text \<open>What the two legs change: the sessions and the pin store.\<close>

record enroll_state =
  Sessions :: SessionStore
  World :: world

text \<open>What a leg reads from outside: the clocks and the random source.\<close>

record enroll_inputs =
  rndNonce :: "nat \<Rightarrow> string option"
  rndSession :: "string option"
  time1 :: time
  time2 :: time
  faults1 :: pin_faults
  faults2 :: pin_faults
  race :: "dirst \<Rightarrow> dirst"

definition HeaderEKCert :: string where
  "HeaderEKCert = ''X-Vtpm-Mds-Ek-Cert''"

definition errNoVM :: string where
  "errNoVM = ''VM identity required (MAC not in inventory)''"

definition errKeyMismatch :: string where
  "errKeyMismatch = ''EK certificate does not match the endorsement key in the signing request''"

definition errNotTrusted :: string where
  "errNotTrusted = ''EK certificate not trusted''"

definition errHeader :: string where
  "errHeader = ''EK certificate header''"

definition errSessionVM :: string where
  "errSessionVM = ''VM identity does not match enroll session''"

definition errSessionEK :: string where
  "errSessionEK = ''EK certificate does not match enroll session''"

definition errHeaderCSR :: string where
  "errHeaderCSR = ''EK certificate header does not match signing request''"

text \<open>
  \<open>AuthenticateEnrollCaller\<close>. The texts of the errors that come from the libraries (a bad
  header, an untrusted chain) are replaced by one fixed text each.
\<close>

definition AuthenticateEnrollCaller ::
  "lib \<Rightarrow> Enroller \<Rightarrow> world \<Rightarrow> Request \<Rightarrow> Certificate option \<Rightarrow> Public option \<Rightarrow> string
    \<Rightarrow> enroll_error + string \<times> Certificate" where
  "AuthenticateEnrollCaller L e w r csrEK endorsementKey expectedFP =
     (case VMConfigContext r of
        None \<Rightarrow> Inl (errUnauthorized errNoVM)
      | Some vm \<Rightarrow>
        if VMID vm = [] then Inl (errUnauthorized errNoVM)
        else case ParseEKCertHeader L (header_get r HeaderEKCert) of
          None \<Rightarrow> Inl (errUnauthorized errHeader)
        | Some ekCert \<Rightarrow>
          (case (if csrEK \<noteq> None
                 then (case VerifyEKCertificateBound L (E_Roots e) endorsementKey (Some ekCert) of
                         BoundOK \<Rightarrow> None
                       | KeyMismatch \<Rightarrow> Some (errUnauthorized errKeyMismatch)
                       | NotTrusted \<Rightarrow> Some (errUnauthorized errNotTrusted))
                 else if \<not> VerifyEKCertificateChain L (E_Roots e) (Some ekCert)
                 then Some (errUnauthorized errNotTrusted) else None) of
             Some err \<Rightarrow> Inl err
           | None \<Rightarrow>
             (let fp = EKFingerprint L (Some ekCert); pin = TrimSpace (EKSHA256 vm) in
              case (if pin \<noteq> []
                    then (if \<not> EqualFold pin fp then Some (errUnauthorized errInventoryPinMismatch) else None)
                    else enforceOwnPin (E_Pins e) w (VMID vm) fp) of
                Some err \<Rightarrow> Inl err
              | None \<Rightarrow>
                (case pinnedToAnotherVM (E_Pins e) w (VMID vm) fp of
                   Inl err \<Rightarrow> Inl err
                 | Inr other \<Rightarrow>
                   if other \<noteq> [] then Inl (errPinnedToAnotherVM (VMID vm) other)
                   else if expectedFP \<noteq> [] \<and> \<not> EqualFold expectedFP fp
                   then Inl (errUnauthorized errSessionEK)
                   else if csrEK \<noteq> None \<and> \<not> certsDEREqual csrEK (Some ekCert)
                   then Inl (errUnauthorized errHeaderCSR)
                   else Inr (VMID vm, ekCert)))))"

record StartResult =
  SessionID :: string
  CredentialBlob :: string
  Secret :: string

definition Start ::
  "lib \<Rightarrow> Enroller \<Rightarrow> enroll_inputs \<Rightarrow> string \<Rightarrow> string \<Rightarrow> string \<Rightarrow> string \<Rightarrow> SessionStore
    \<Rightarrow> (enroll_error + StartResult) \<times> SessionStore" where
  "Start L e inp requestData signature vmid ekFP s =
     (case UnmarshalBinary L requestData of
        None \<Rightarrow> (Inl (Failed ''decode signing request''), s)
      | Some sr \<Rightarrow>
        if \<not> CheckSignature L (DevIDKey sr) requestData signature
        then (Inl (Failed ''invalid request signature''), s)
        else if \<not> VerifyEKCertificateChain L (E_Roots e) (EndorsementCertificate sr)
        then (Inl (Failed ''EK certificate verification failed''), s)
        else if \<not> VerifyDevIDResidency L (AttestationKey sr) (DevIDKey sr) (CertifyData sr) (CertifySignature sr)
        then (Inl (Failed ''DevID residency''), s)
        else case (DevIDKey sr, AttestationKey sr) of
          (Some dk, Some ak) \<Rightarrow>
            if CheckDevIDProp L (Attributes dk) \<noteq> None \<or> CheckAKProp L (Attributes ak) \<noteq> None
            then (Inl (Failed ''key attribute error''), s)
            else if ekFP \<noteq> [] \<and> EndorsementCertificate sr \<noteq> None \<and>
              \<not> EqualFold (EKFingerprint L (EndorsementCertificate sr)) ekFP
            then (Inl (Failed ''EK fingerprint does not match authenticated certificate''), s)
            else (case pub_Name L ak of
              None \<Rightarrow> (Inl (Failed ''AK name''), s)
            | Some akName \<Rightarrow>
              (case CreateChallenge L (rndNonce inp) (EndorsementKey sr) akName of
                 None \<Rightarrow> (Inl (Failed ''create challenge''), s)
               | Some (cred, secret, nonce) \<Rightarrow>
                 (case Put (rndSession inp) (time1 inp) (time2 inp) nonce sr vmid ekFP s of
                    (None, s') \<Rightarrow> (Inl (Failed ''session''), s')
                  | (Some sid, s') \<Rightarrow>
                      (Inr \<lparr>SessionID = sid, CredentialBlob = cred, Secret = secret\<rparr>, s'))))
        | _ \<Rightarrow> (Inl (Failed ''missing key''), s))"

text \<open>
  \<open>Finish\<close>; the certificate stands for the PEM text of it and of the CA's. \<open>time1\<close> is the
  clock of \<open>Take\<close>, \<open>time2\<close> that of the issue.
\<close>

definition Finish ::
  "lib \<Rightarrow> Enroller \<Rightarrow> enroll_inputs \<Rightarrow> string \<Rightarrow> string \<Rightarrow> string \<Rightarrow> string \<Rightarrow> string \<Rightarrow> enroll_state
    \<Rightarrow> (enroll_error + Certificate) \<times> enroll_state" where
  "Finish L e inp sessionID challengeResponse vmid ekFP inventoryPin st =
     (case Take (time1 inp) sessionID (Sessions st) of
        (None, s1) \<Rightarrow> (Inl (Failed ''unknown or expired session''), st\<lparr>Sessions := s1\<rparr>)
      | (Some sess, s1) \<Rightarrow>
        let st1 = st\<lparr>Sessions := s1\<rparr> in
        if SessVMID sess \<noteq> [] \<and> SessVMID sess \<noteq> vmid then (Inl (Failed errSessionVM), st1)
        else if SessEKFingerprint sess \<noteq> [] \<and> \<not> EqualFold (SessEKFingerprint sess) ekFP
        then (Inl (Failed errSessionEK), st1)
        else if Nonce sess \<noteq> challengeResponse then (Inl (Failed ''challenge verification failed''), st1)
        else (case (if TrimSpace inventoryPin = []
                    then ensurePinBeforeIssue (faults1 inp) (faults2 inp) (race inp) (E_Pins e) (World st1) vmid ekFP
                    else (None, World st1)) of
            (Some err, w') \<Rightarrow> (Inl err, st1\<lparr>World := w'\<rparr>)
          | (None, w') \<Rightarrow>
              (case IssueDevID L (E_CA e) (SessRequest sess) (SessVMID sess) (time2 inp) (time2 inp) of
                 None \<Rightarrow> (Inl (Failed ''issue DevID''), st1\<lparr>World := w'\<rparr>)
               | Some cert \<Rightarrow> (Inr cert, st1\<lparr>World := w'\<rparr>))))"

subsection \<open>The handlers\<close>

fun isUnauthorized :: "enroll_error \<Rightarrow> bool" where
  "isUnauthorized (Unauthorized m d) = True"
| "isUnauthorized _ = False"

fun responseBody :: "enroll_error \<Rightarrow> string" where
  "responseBody (Unauthorized m d) = m"
| "responseBody ErrPinStore = ''ek pin store''"
| "responseBody ErrAlreadyPinned = ''ek pin already exists''"
| "responseBody (Failed m) = m"

definition writeEnrollAuthError :: "enroll_error \<Rightarrow> ResponseWriter \<Rightarrow> ResponseWriter" where
  "writeEnrollAuthError err w =
     (if err = ErrPinStore then http_Error errPinStoreUnavailable 500 w
      else http_Error (responseBody err) (if isUnauthorized err then 401 else 400) w)"

text \<open>A request body: the decoded JSON object, or \<open>None\<close> when it does not decode.\<close>

record EnrollStartRequest =
  RequestB64 :: string
  SignatureB64 :: string

record EnrollFinishRequest =
  FinishSessionID :: string
  ChallengeResponseB64 :: string

definition HandleStart ::
  "lib \<Rightarrow> Enroller \<Rightarrow> enroll_inputs \<Rightarrow> EnrollStartRequest option \<Rightarrow> Request \<Rightarrow> ResponseWriter \<Rightarrow> enroll_state
    \<Rightarrow> ResponseWriter \<times> enroll_state" where
  "HandleStart L e inp body r w st =
     (case body of
        None \<Rightarrow> (http_Error ''invalid JSON'' 400 w, st)
      | Some req \<Rightarrow>
        (case DecodeString (RequestB64 req) of
           None \<Rightarrow> (http_Error ''invalid request_b64'' 400 w, st)
         | Some requestData \<Rightarrow>
           (case DecodeString (SignatureB64 req) of
              None \<Rightarrow> (http_Error ''invalid signature_b64'' 400 w, st)
            | Some sig \<Rightarrow>
              (case UnmarshalBinary L requestData of
                 None \<Rightarrow> (http_Error ''invalid signing request'' 400 w, st)
               | Some sr \<Rightarrow>
                 (case AuthenticateEnrollCaller L e (World st) r (EndorsementCertificate sr) (EndorsementKey sr) [] of
                    Inl err \<Rightarrow> (writeEnrollAuthError err w, st)
                  | Inr (vmid, ekCert) \<Rightarrow>
                    (case Start L e inp requestData sig vmid (EKFingerprint L (Some ekCert)) (Sessions st) of
                       (Inl err, s') \<Rightarrow> (http_Error (responseBody err) 400 w, st\<lparr>Sessions := s'\<rparr>)
                     | (Inr res, s') \<Rightarrow>
                         (Encode (JObject [(''session_id'', JString (SessionID res)),
                            (''credential_blob_b64'', JString (EncodeToString (CredentialBlob res))),
                            (''secret_b64'', JString (EncodeToString (Secret res)))])
                            (header_set ''Content-Type'' ''application/json'' w), st\<lparr>Sessions := s'\<rparr>)))))))"

definition HandleFinish ::
  "lib \<Rightarrow> Enroller \<Rightarrow> enroll_inputs \<Rightarrow> EnrollFinishRequest option \<Rightarrow> Request \<Rightarrow> ResponseWriter \<Rightarrow> enroll_state
    \<Rightarrow> ResponseWriter \<times> enroll_state" where
  "HandleFinish L e inp body r w st =
     (case body of
        None \<Rightarrow> (http_Error ''invalid JSON'' 400 w, st)
      | Some req \<Rightarrow>
        (case DecodeString (ChallengeResponseB64 req) of
           None \<Rightarrow> (http_Error ''invalid challenge_response_b64'' 400 w, st)
         | Some resp \<Rightarrow>
           (case AuthenticateEnrollCaller L e (World st) r None None [] of
              Inl err \<Rightarrow> (writeEnrollAuthError err w, st)
            | Inr (vmid, ekCert) \<Rightarrow>
              (let ekFP = EKFingerprint L (Some ekCert);
                   inventoryPin = (case VMConfigContext r of None \<Rightarrow> [] | Some vm \<Rightarrow> EKSHA256 vm) in
               case Finish L e inp (FinishSessionID req) resp vmid ekFP inventoryPin st of
                 (Inl err, st') \<Rightarrow>
                   (if err = ErrPinStore then http_Error errPinStoreUnavailable 500 w
                    else http_Error (responseBody err)
                      (if isUnauthorized err \<or> err = Failed errSessionVM \<or> err = Failed errSessionEK
                       then 401 else 400) w, st')
               | (Inr cert, st') \<Rightarrow>
                   (Encode (JObject [(''devid_cert_pem'', JString (Raw cert @ Raw (ca_cert (E_CA e))))])
                      (header_set ''Content-Type'' ''application/json'' w), st')))))"

subsection \<open>Sessions are used once and expire\<close>

lemma purge_sessions: "map_of (sessions (purgeLocked now s)) i = Some sess \<Longrightarrow> distinct (map fst (sessions s)) \<Longrightarrow>
    map_of (sessions s) i = Some sess \<and> now - Created sess \<le> sessTTL s"
  by (auto simp: purgeLocked_def dest!: map_of_SomeD)

lemma purge_ok: "distinct (map fst (sessions s)) \<Longrightarrow> distinct (map fst (sessions (purgeLocked now s)))"
  by (simp add: purgeLocked_def distinct_map_filter)

lemma purge_subset: "set (sessions (purgeLocked now s)) \<subseteq> set (sessions s)"
  by (auto simp: purgeLocked_def)

lemma purge_ttl [simp]: "sessTTL (purgeLocked now s) = sessTTL s"
  by (simp add: purgeLocked_def)

lemma map_of_filter_None: "map_of m i = None \<Longrightarrow> map_of (filter P m) i = None"
  by (auto simp: map_of_eq_None_iff)

lemma purge_None: "map_of (sessions s) i = None \<Longrightarrow> map_of (sessions (purgeLocked now s)) i = None"
  by (simp add: purgeLocked_def map_of_filter_None)

lemma Take_facts:
  assumes "Take now i s = (r, s')"
  shows "map_of (sessions s') i = None" "set (sessions s') \<subseteq> set (sessions s)" "sessTTL s' = sessTTL s"
    "distinct (map fst (sessions s)) \<Longrightarrow> distinct (map fst (sessions s'))"
    "distinct (map fst (sessions s)) \<Longrightarrow> r = Some sess \<Longrightarrow>
       map_of (sessions s) i = Some sess \<and> now - Created sess \<le> sessTTL s"
  using assms purge_subset [of now s] purge_ok [of s now] purge_sessions [of now s i sess]
    alist_set_delete [of i "sessions (purgeLocked now s)"]
  by (auto simp: Take_def Let_def split: option.splits)

text \<open>
  C23: A session answers once and not after its lifetime. Taking it returns exactly what was stored
  under that id, no older than the store's lifetime; afterwards, whatever the outcome, the id
  is unknown, so a second attempt with the same session fails at any time.
\<close>

theorem session_one_shot:
  assumes "distinct (map fst (sessions s))" "Take now i s = (r, s')"
  shows "(\<forall>sess. r = Some sess \<longrightarrow> map_of (sessions s) i = Some sess \<and> now - Created sess \<le> sessTTL s) \<and>
    (r = None \<longrightarrow> (\<forall>sess. map_of (sessions s) i = Some sess \<longrightarrow> now - Created sess > sessTTL s)) \<and>
    fst (Take later i s') = None"
proof -
  have "map_of (sessions (purgeLocked later s')) i = None"
    using Take_facts(1) [OF assms(2)] by (rule purge_None)
  then have "fst (Take later i s') = None" by (simp add: Take_def Let_def)
  moreover have "now - Created sess > sessTTL s" if "r = None" "map_of (sessions s) i = Some sess" for sess
  proof (rule ccontr)
    assume "\<not> now - Created sess > sessTTL s"
    then have "(i, sess) \<in> set (sessions (purgeLocked now s))"
      using that(2) by (auto simp: purgeLocked_def dest: map_of_SomeD)
    then have "map_of (sessions (purgeLocked now s)) i = Some sess"
      using purge_ok [OF assms(1)] by simp
    with assms(2) that(1) show False by (simp add: Take_def Let_def)
  qed
  ultimately show ?thesis using Take_facts(5) [OF assms(2,1)] by blast
qed

subsection \<open>What a session vouches for\<close>

definition session_ok :: "lib \<Rightarrow> Enroller \<Rightarrow> Session \<Rightarrow> bool" where
  "session_ok L e sess \<longleftrightarrow> SessVMID sess \<noteq> [] \<and>
     (let sr = SessRequest sess in
      (\<exists>ek c. EndorsementCertificate sr = Some c \<and> Raw ek = Raw c \<and>
         SessEKFingerprint sess = hex_encode (sha256 L (Raw c)) \<and>
         VerifyEKCertificateBound L (E_Roots e) (EndorsementKey sr) (Some ek) = BoundOK) \<and>
      (\<exists>data sig. UnmarshalBinary L data = Some sr \<and> CheckSignature L (DevIDKey sr) data sig) \<and>
      VerifyDevIDResidency L (AttestationKey sr) (DevIDKey sr) (CertifyData sr) (CertifySignature sr) \<and>
      (\<exists>dk ak. DevIDKey sr = Some dk \<and> AttestationKey sr = Some ak \<and>
         CheckDevIDProp L (Attributes dk) = None \<and> CheckAKProp L (Attributes ak) = None))"

definition sessions_ok :: "lib \<Rightarrow> Enroller \<Rightarrow> SessionStore \<Rightarrow> bool" where
  "sessions_ok L e s \<longleftrightarrow> distinct (map fst (sessions s)) \<and> (\<forall>(i, sess) \<in> set (sessions s). session_ok L e sess)"

lemma authenticated:
  assumes "AuthenticateEnrollCaller L e w r csrEK ek xfp = Inr (vmid, cert)"
  shows "\<exists>vm. VMConfigContext r = Some vm \<and> VMID vm = vmid \<and> vmid \<noteq> [] \<and>
      ParseEKCertHeader L (header_get r HeaderEKCert) = Some cert \<and>
      VerifyEKCertificateChain L (E_Roots e) (Some cert) \<and>
      (csrEK \<noteq> None \<longrightarrow> VerifyEKCertificateBound L (E_Roots e) ek (Some cert) = BoundOK \<and>
         certsDEREqual csrEK (Some cert)) \<and>
      (if TrimSpace (EKSHA256 vm) \<noteq> [] then EqualFold (TrimSpace (EKSHA256 vm)) (EKFingerprint L (Some cert))
       else enforceOwnPin (E_Pins e) w vmid (EKFingerprint L (Some cert)) = None) \<and>
      pinnedToAnotherVM (E_Pins e) w vmid (EKFingerprint L (Some cert)) = Inr []"
proof -
  obtain vm where vm: "VMConfigContext r = Some vm" "VMID vm \<noteq> []"
    using assms by (auto simp: AuthenticateEnrollCaller_def split: option.splits if_splits)
  obtain ekc where ekc: "ParseEKCertHeader L (header_get r HeaderEKCert) = Some ekc"
    using assms vm by (auto simp: AuthenticateEnrollCaller_def split: option.splits if_splits)
  show ?thesis
    using assms vm ekc
    by (auto simp: AuthenticateEnrollCaller_def Let_def VerifyEKCertificateBound_def
        split: if_splits option.splits bound_result.splits sum.splits)
qed

lemma Start_Inl: "Start L e inp d sig vmid fp s = (Inl err, s') \<Longrightarrow> s' = s"
  by (auto simp: Start_def Put_def Let_def split: option.splits if_splits prod.splits)

lemma Start_Inr:
  assumes "Start L e inp d sig vmid fp s = (Inr res, s')"
  shows "\<exists>sr nonce. UnmarshalBinary L d = Some sr \<and> CheckSignature L (DevIDKey sr) d sig \<and>
      VerifyEKCertificateChain L (E_Roots e) (EndorsementCertificate sr) \<and>
      VerifyDevIDResidency L (AttestationKey sr) (DevIDKey sr) (CertifyData sr) (CertifySignature sr) \<and>
      (\<exists>dk ak. DevIDKey sr = Some dk \<and> AttestationKey sr = Some ak \<and>
         CheckDevIDProp L (Attributes dk) = None \<and> CheckAKProp L (Attributes ak) = None) \<and>
      Put (rndSession inp) (time1 inp) (time2 inp) nonce sr vmid fp s = (Some (SessionID res), s')"
  using assms unfolding Start_def
  by (auto split: option.splits if_splits prod.splits)

lemma Put_sessions:
  assumes "Put rnd t1 t2 nonce sr vmid fp s = (Some i, s')"
  shows "set (sessions s') \<subseteq> insert (i, \<lparr>SessID = i, Nonce = nonce, SessRequest = sr,
      SessVMID = vmid, SessEKFingerprint = fp, Created = t2\<rparr>) (set (sessions s))"
    "distinct (map fst (sessions s)) \<Longrightarrow> distinct (map fst (sessions s'))" "sessTTL s' = sessTTL s"
proof -
  let ?sess = "\<lparr>SessID = i, Nonce = nonce, SessRequest = sr, SessVMID = vmid, SessEKFingerprint = fp, Created = t2\<rparr>"
  have s': "s' = (purgeLocked t1 s)\<lparr>sessions := AList.update i ?sess (sessions (purgeLocked t1 s))\<rparr>"
    using assms by (auto simp: Put_def Let_def split: option.splits)
  show "set (sessions s') \<subseteq> insert (i, ?sess) (set (sessions s))"
    using alist_set_update [of i ?sess "sessions (purgeLocked t1 s)"] purge_subset [of t1 s] by (auto simp: s')
  show "distinct (map fst (sessions s)) \<Longrightarrow> distinct (map fst (sessions s'))" "sessTTL s' = sessTTL s"
    by (simp_all add: s' purge_ok)
qed

lemma HandleStart_cases:
  assumes "HandleStart L e inp body r newResponse st = (w, st')"
  shows "status w \<noteq> 200 \<and> st' = st \<or>
    status w = 200 \<and> (\<exists>sr d sig cert vmid res s'. UnmarshalBinary L d = Some sr \<and>
       AuthenticateEnrollCaller L e (World st) r (EndorsementCertificate sr) (EndorsementKey sr) [] = Inr (vmid, cert) \<and>
       Start L e inp d sig vmid (EKFingerprint L (Some cert)) (Sessions st) = (Inr res, s') \<and>
       st' = st\<lparr>Sessions := s'\<rparr>)"
  using assms unfolding HandleStart_def writeEnrollAuthError_def
  by (auto simp: http_defs http_simps dest: Start_Inl split: option.splits sum.splits prod.splits if_splits) blast+

lemma start_sessions_ok:
  assumes "HandleStart L e inp body r newResponse st = (w, st')" "sessions_ok L e (Sessions st)"
  shows "sessions_ok L e (Sessions st')"
  using HandleStart_cases [OF assms(1)]
proof (elim disjE conjE exE)
  fix sr d sig cert vmid res s'
  assume u: "UnmarshalBinary L d = Some sr" and st': "st' = st\<lparr>Sessions := s'\<rparr>"
    and a: "AuthenticateEnrollCaller L e (World st) r (EndorsementCertificate sr) (EndorsementKey sr) [] = Inr (vmid, cert)"
    and s: "Start L e inp d sig vmid (EKFingerprint L (Some cert)) (Sessions st) = (Inr res, s')"
  note auth = authenticated [OF a]
  obtain nonce where f: "CheckSignature L (DevIDKey sr) d sig"
      "VerifyEKCertificateChain L (E_Roots e) (EndorsementCertificate sr)"
      "VerifyDevIDResidency L (AttestationKey sr) (DevIDKey sr) (CertifyData sr) (CertifySignature sr)"
      "\<exists>dk ak. DevIDKey sr = Some dk \<and> AttestationKey sr = Some ak \<and>
         CheckDevIDProp L (Attributes dk) = None \<and> CheckAKProp L (Attributes ak) = None"
      and p: "Put (rndSession inp) (time1 inp) (time2 inp) nonce sr vmid (EKFingerprint L (Some cert)) (Sessions st) = (Some (SessionID res), s')"
    using Start_Inr [OF s] u by auto
  obtain c where c: "EndorsementCertificate sr = Some c"
    using f(2) by (cases "EndorsementCertificate sr") (auto simp: VerifyEKCertificateChain_def)
  have "session_ok L e \<lparr>SessID = SessionID res, Nonce = nonce, SessRequest = sr, SessVMID = vmid,
      SessEKFingerprint = EKFingerprint L (Some cert), Created = time2 inp\<rparr>"
    using auth f u c by (auto simp: session_ok_def Let_def EKFingerprint_def certsDEREqual_def)
  then show ?thesis
    using assms(2) Put_sessions(1,2) [OF p] st' by (auto simp: sessions_ok_def)
qed (use assms(2) in auto)

subsection \<open>From the first leg to the certificate\<close>

text \<open>Enrolments by any callers, and anything that happens to the pin stores and guests outside.\<close>

inductive enroll_step :: "lib \<Rightarrow> Enroller \<Rightarrow> enroll_state \<Rightarrow> enroll_state \<Rightarrow> bool" for L e where
  start: "HandleStart L e inp body r newResponse st = (w, st') \<Longrightarrow> enroll_step L e st st'"
| finish: "HandleFinish L e inp body' r newResponse st = (w, st') \<Longrightarrow> enroll_step L e st st'"
| outside: "enroll_step L e st (st\<lparr>World := x\<rparr>)"

lemma Finish_sessions:
  assumes "Finish L e inp sid resp vmid fp ip st = (r, st')"
  shows "\<exists>sess. Take (time1 inp) sid (Sessions st) = (sess, Sessions st')"
  using assms unfolding Finish_def
  by (auto simp: Let_def split: option.splits prod.splits if_splits)

lemma HandleFinish_sessions:
  assumes "HandleFinish L e inp body r newResponse st = (w, st')"
  shows "st' = st \<or> (\<exists>sid sess. Take (time1 inp) sid (Sessions st) = (sess, Sessions st'))"
  using assms unfolding HandleFinish_def
  by (auto simp: Let_def dest: Finish_sessions split: option.splits sum.splits prod.splits if_splits)

lemma enroll_step_ok:
  assumes "enroll_step L e st st'" "sessions_ok L e (Sessions st)"
  shows "sessions_ok L e (Sessions st')"
  using assms
proof cases
  case (start inp body r w)
  then show ?thesis using start_sessions_ok assms(2) by blast
next
  case (finish inp body' r w)
  show ?thesis
    using HandleFinish_sessions [OF finish] assms(2) Take_facts(2,4)
    by (fastforce simp: sessions_ok_def)
qed (use assms(2) in simp)

interpretation enroll_system: invariant_system
  "\<lambda>st. sessions (Sessions st) = []" "enroll_step L e" "\<lambda>st. sessions_ok L e (Sessions st)" for L e
  by unfold_locales (simp add: sessions_ok_def, rule enroll_step_ok)

lemma Finish_Inr:
  assumes "Finish L e inp sid resp vmid fp ip st = (Inr cert, st')"
  shows "\<exists>sess s1. Take (time1 inp) sid (Sessions st) = (Some sess, s1) \<and>
    (SessVMID sess = [] \<or> SessVMID sess = vmid) \<and>
    (SessEKFingerprint sess = [] \<or> EqualFold (SessEKFingerprint sess) fp) \<and> Nonce sess = resp \<and>
    (TrimSpace ip = [] \<longrightarrow> ensurePinBeforeIssue (faults1 inp) (faults2 inp) (race inp) (E_Pins e) (World st) vmid fp
       = (None, World st')) \<and>
    IssueDevID L (E_CA e) (SessRequest sess) (SessVMID sess) (time2 inp) (time2 inp) = Some cert"
  using assms unfolding Finish_def
  by (auto simp: Let_def split: option.splits prod.splits if_splits)

lemma HandleFinish_200:
  assumes "HandleFinish L e inp body r newResponse st = (w, st')" "status w = 200"
  shows "\<exists>req resp vmid ek cert ip. body = Some req \<and> DecodeString (ChallengeResponseB64 req) = Some resp \<and>
    AuthenticateEnrollCaller L e (World st) r None None [] = Inr (vmid, ek) \<and>
    ip = (case VMConfigContext r of None \<Rightarrow> [] | Some vm \<Rightarrow> EKSHA256 vm) \<and>
    Finish L e inp (FinishSessionID req) resp vmid (EKFingerprint L (Some ek)) ip st = (Inr cert, st') \<and>
    Body w = [JSON (JObject [(''devid_cert_pem'', JString (Raw cert @ Raw (ca_cert (E_CA e))))])]"
  using assms unfolding HandleFinish_def writeEnrollAuthError_def
  by (auto simp: Let_def http_defs http_simps split: option.splits sum.splits prod.splits if_splits)

lemma finish_means:
  assumes ok: "sessions_ok L e (Sessions st)"
    and res: "HandleFinish L e inp body r newResponse st = (w, st')" "status w = 200"
    and sha: "\<forall>s. sha256 L s \<noteq> []"
  shows "\<exists>req vm sess ek cert. body = Some req \<and> VMConfigContext r = Some vm \<and> VMID vm \<noteq> [] \<and>
    map_of (sessions (Sessions st)) (FinishSessionID req) = Some sess \<and>
    map_of (sessions (Sessions st')) (FinishSessionID req) = None \<and>
    time1 inp - Created sess \<le> sessTTL (Sessions st) \<and>
    session_ok L e sess \<and> SessVMID sess = VMID vm \<and>
    ParseEKCertHeader L (header_get r HeaderEKCert) = Some ek \<and>
    EqualFold (SessEKFingerprint sess) (EKFingerprint L (Some ek)) \<and>
    DecodeString (ChallengeResponseB64 req) = Some (Nonce sess) \<and>
    IssueDevID L (E_CA e) (SessRequest sess) (VMID vm) (time2 inp) (time2 inp) = Some cert \<and>
    Body w = [JSON (JObject [(''devid_cert_pem'', JString (Raw cert @ Raw (ca_cert (E_CA e))))])]"
proof -
  obtain req resp vmid ek cert ip where h: "body = Some req" "DecodeString (ChallengeResponseB64 req) = Some resp"
    "AuthenticateEnrollCaller L e (World st) r None None [] = Inr (vmid, ek)"
    "Finish L e inp (FinishSessionID req) resp vmid (EKFingerprint L (Some ek)) ip st = (Inr cert, st')"
    "Body w = [JSON (JObject [(''devid_cert_pem'', JString (Raw cert @ Raw (ca_cert (E_CA e))))])]"
    using HandleFinish_200 [OF res] by blast
  obtain sess s1 where f: "Take (time1 inp) (FinishSessionID req) (Sessions st) = (Some sess, s1)"
    "SessVMID sess = [] \<or> SessVMID sess = vmid"
    "SessEKFingerprint sess = [] \<or> EqualFold (SessEKFingerprint sess) (EKFingerprint L (Some ek))"
    "Nonce sess = resp" "IssueDevID L (E_CA e) (SessRequest sess) (SessVMID sess) (time2 inp) (time2 inp) = Some cert"
    using Finish_Inr [OF h(4)] by blast
  have s1: "s1 = Sessions st'" using Finish_sessions [OF h(4)] f(1) by auto
  have t: "map_of (sessions (Sessions st)) (FinishSessionID req) = Some sess"
    "time1 inp - Created sess \<le> sessTTL (Sessions st)"
    using Take_facts(5) [OF f(1)] ok by (auto simp: sessions_ok_def)
  then have sok: "session_ok L e sess" using ok by (auto simp: sessions_ok_def dest: map_of_SomeD)
  then have "SessVMID sess \<noteq> []" "SessEKFingerprint sess \<noteq> []"
    using sha by (auto simp: session_ok_def Let_def)
  moreover have "map_of (sessions (Sessions st')) (FinishSessionID req) = None"
    using Take_facts(1) [OF f(1)] s1 by simp
  moreover obtain vm where "VMConfigContext r = Some vm" "VMID vm = vmid" "vmid \<noteq> []"
    "ParseEKCertHeader L (header_get r HeaderEKCert) = Some ek"
    using authenticated [OF h(3)] by blast
  ultimately show ?thesis
    using h(1,2,5) f(2-5) t sok
    by (intro exI [of _ req] exI [of _ vm] exI [of _ sess] exI [of _ ek] exI [of _ cert]) auto
qed

text \<open>
  C1: What an issued certificate proves. Whenever, after any history of enrolments and outside
  changes, the second leg answers 200, then the caller is bound to a VM record; the session
  it named was opened for that very VM and for the EK certificate it now presents, is
  within its lifetime, and is gone afterwards; the session's EK certificate was trusted and
  certifies the request's endorsement key, the DevID key was shown to live in the TPM of the
  attestation key and both have the right attributes; the caller answered the challenge with
  the session's nonce; and the certificate is the one issued for the session's request with
  the VM id as its subject.
\<close>

theorem issued_certificate_means:
  assumes run: "(enroll_step L e)\<^sup>*\<^sup>* st0 st" "sessions (Sessions st0) = []"
    and res: "HandleFinish L e inp body r newResponse st = (w, st')" "status w = 200"
    and sha: "\<forall>s. sha256 L s \<noteq> []"
  shows "\<exists>req vm sess ek cert. body = Some req \<and> VMConfigContext r = Some vm \<and> VMID vm \<noteq> [] \<and>
    map_of (sessions (Sessions st)) (FinishSessionID req) = Some sess \<and>
    map_of (sessions (Sessions st')) (FinishSessionID req) = None \<and>
    time1 inp - Created sess \<le> sessTTL (Sessions st) \<and>
    session_ok L e sess \<and> SessVMID sess = VMID vm \<and>
    ParseEKCertHeader L (header_get r HeaderEKCert) = Some ek \<and>
    EqualFold (SessEKFingerprint sess) (EKFingerprint L (Some ek)) \<and>
    DecodeString (ChallengeResponseB64 req) = Some (Nonce sess) \<and>
    IssueDevID L (E_CA e) (SessRequest sess) (VMID vm) (time2 inp) (time2 inp) = Some cert \<and>
    Body w = [JSON (JObject [(''devid_cert_pem'', JString (Raw cert @ Raw (ca_cert (E_CA e))))])]"
proof -
  have "sessions_ok L e (Sessions st)" using enroll_system.reachable_inv run by blast
  then show ?thesis by (rule finish_means [OF _ res sha])
qed

text \<open>
  C2: The EK behind a certificate is the VM's own. When the second leg answers 200 for a VM without an
  inventory pin, and nothing else touched the pin store meanwhile, then the VM's cluster pin,
  if it has one, is the fingerprint of the presented EK certificate; otherwise, with the local
  store on, the local pin is it. In either case no other VM claims that EK; with an inventory
  pin, the inventory pin is it.
\<close>

theorem issued_certificate_is_pinned:
  assumes res: "HandleFinish L e inp body r newResponse st = (w, st')" "status w = 200"
    and quiet: "race inp = (\<lambda>d. d)" and wok: "world_ok (E_Pins e) (World st)"
    and sha: "\<forall>s. sha256 L s \<noteq> []"
    and vm: "VMConfigContext r = Some vm" "ParseEKCertHeader L (header_get r HeaderEKCert) = Some ek"
  shows "let fp = EKFingerprint L (Some ek); p = E_Pins e in
    (\<forall>q. q \<noteq> VMID vm \<longrightarrow> \<not> claimsEK p (World st) q fp) \<and>
    (if TrimSpace (EKSHA256 vm) \<noteq> [] then EqualFold (TrimSpace (EKSHA256 vm)) fp
     else \<exists>cpin d. readClusterPin p (clusterStore (World st)) (VMID vm) = Inr (cpin, d) \<and>
       (if cpin \<noteq> [] then EqualFold cpin fp
        else PinDir p \<noteq> [] \<longrightarrow> EqualFold (storedPin p (World st') (VMID vm)) fp))"
proof -
  obtain req :: EnrollFinishRequest and resp vmid ek' cert ip where h:
    "AuthenticateEnrollCaller L e (World st) r None None [] = Inr (vmid, ek')"
    "ip = (case VMConfigContext r of None \<Rightarrow> [] | Some vm \<Rightarrow> EKSHA256 vm)"
    "Finish L e inp (FinishSessionID req) resp vmid (EKFingerprint L (Some ek')) ip st = (Inr cert, st')"
    using HandleFinish_200 [OF res] by blast
  let ?fp = "EKFingerprint L (Some ek)"
  have a: "ek' = ek" "vmid = VMID vm" "pinnedToAnotherVM (E_Pins e) (World st) (VMID vm) ?fp = Inr []"
    "TrimSpace (EKSHA256 vm) \<noteq> [] \<Longrightarrow> EqualFold (TrimSpace (EKSHA256 vm)) ?fp"
  proof -
    obtain vm' where v: "VMConfigContext r = Some vm'" "VMID vm' = vmid"
      "ParseEKCertHeader L (header_get r HeaderEKCert) = Some ek'"
      "if TrimSpace (EKSHA256 vm') \<noteq> [] then EqualFold (TrimSpace (EKSHA256 vm')) (EKFingerprint L (Some ek'))
       else enforceOwnPin (E_Pins e) (World st) vmid (EKFingerprint L (Some ek')) = None"
      "pinnedToAnotherVM (E_Pins e) (World st) vmid (EKFingerprint L (Some ek')) = Inr []"
      using authenticated [OF h(1)] by blast
    have "vm' = vm" "ek' = ek" using v(1,3) vm by simp_all
    with v show "ek' = ek" "vmid = VMID vm" "pinnedToAnotherVM (E_Pins e) (World st) (VMID vm) ?fp = Inr []"
      "TrimSpace (EKSHA256 vm) \<noteq> [] \<Longrightarrow> EqualFold (TrimSpace (EKSHA256 vm)) ?fp"
      by simp_all
  qed
  have fp: "fingerprint_ok ?fp"
    using sha by (auto simp: fingerprint_ok_def EKFingerprint_def list_all_iff hex_encode_no_space)
  have free: "\<forall>q. q \<noteq> VMID vm \<longrightarrow> \<not> claimsEK (E_Pins e) (World st) q ?fp"
    using pinnedToAnotherVM_spec [OF wok _ a(3)] fp by (simp add: fingerprint_ok_def)
  show ?thesis
  proof (cases "TrimSpace (EKSHA256 vm) = []")
    case True
    then have en: "ensurePinBeforeIssue (faults1 inp) (faults2 inp) (\<lambda>d. d) (E_Pins e) (World st) (VMID vm) ?fp = (None, World st')"
      using Finish_Inr [OF h(3)] h(2) vm(1) quiet a by auto
    obtain cpin d where c: "readClusterPin (E_Pins e) (clusterStore (World st)) (VMID vm) = Inr (cpin, d)"
      using en by (auto simp: ensurePinBeforeIssue_def split: sum.splits)
    have "cpin \<noteq> [] \<Longrightarrow> EqualFold cpin ?fp"
      using en c by (auto simp: ensurePinBeforeIssue_def split: if_splits)
    moreover have "cpin = [] \<Longrightarrow> PinDir (E_Pins e) \<noteq> [] \<Longrightarrow> EqualFold (storedPin (E_Pins e) (World st') (VMID vm)) ?fp"
      using ensure_success [OF en fp] c by auto
    ultimately show ?thesis using True free c by (simp add: Let_def)
  qed (use free a(4) in \<open>simp add: Let_def\<close>)
qed










subsection \<open>A run, for the witnesses\<close>

definition sampleEnroller :: Enroller where
  "sampleEnroller = \<lparr>E_CA = \<lparr>ca_cert = sampleCert ''ca'', Lifetime = hour\<rparr>, E_Roots = Some ''roots'', E_Pins = samplePins\<rparr>"

definition sampleState :: enroll_state where
  "sampleState = \<lparr>Sessions = NewSessionStore (5 * minute), World = sampleWorld\<rparr>"

definition sampleInputs :: "time \<Rightarrow> enroll_inputs" where
  "sampleInputs t = \<lparr>rndNonce = (\<lambda>n. Some ''nonc''), rndSession = Some ''session-16bytes'', time1 = t, time2 = t,
     faults1 = noFaults, faults2 = noFaults, race = (\<lambda>d. d)\<rparr>"

definition sampleVMRecord :: VMConfig where
  "sampleVMRecord = \<lparr>VMID = ''101'', Name = ''web'', RawConfig = [(''name'', ''web''), (''public-ipv4'', ''203.0.113.7'')],
     Tags = [(''env'', ''prod'')], MACs = [''bc:24:11:00:00:01''], EKSHA256 = ''''\<rparr>"

definition sampleCaller :: "VMConfig option \<Rightarrow> Request" where
  "sampleCaller vm = \<lparr>Method = ''POST'', Path = ''/latest/devid/enroll/finish'', Host = '''', RemoteAddr = ''192.0.2.7:4711'',
     Header = [(HeaderEKCert, EncodeEKCertHeader (Some (sampleCert ''e1'')))], PathValues = [],
     VMConfigContext = vm\<rparr>"

definition sampleData :: string where
  "sampleData = (case MarshalBinary sampleLib sampleSR of None \<Rightarrow> [] | Some d \<Rightarrow> d)"

definition sampleStart :: "ResponseWriter \<times> enroll_state" where
  "sampleStart = HandleStart sampleLib sampleEnroller (sampleInputs 5)
     (Some \<lparr>RequestB64 = EncodeToString sampleData, SignatureB64 = EncodeToString (''d1'' @ sampleData)\<rparr>)
     (sampleCaller (Some sampleVMRecord)) newResponse sampleState"

definition sampleFinish :: "ResponseWriter \<times> enroll_state" where
  "sampleFinish = HandleFinish sampleLib sampleEnroller (sampleInputs 6)
     (Some \<lparr>FinishSessionID = hex_encode ''session-16bytes'', ChallengeResponseB64 = EncodeToString ''nonc''\<rparr>)
     (sampleCaller (Some sampleVMRecord)) newResponse (snd sampleStart)"

lemma sampleData_decodes: "UnmarshalBinary sampleLib sampleData = Some sampleSR"
proof -
  obtain d where "MarshalBinary sampleLib sampleSR = Some d"
    by (simp add: MarshalBinary_def sampleSR_def sampleLib_encode)
  then show ?thesis using unmarshal_marshal [OF sampleLib_codecs] by (simp add: sampleData_def)
qed

lemma sampleHeader: "ParseEKCertHeader sampleLib (header_get (sampleCaller vm) HeaderEKCert) = Some (sampleCert ''e1'')"
proof -
  have "header_get (sampleCaller vm) HeaderEKCert = EncodeEKCertHeader (Some (sampleCert ''e1''))"
    by (simp add: header_get_def sampleCaller_def)
  then show ?thesis
    using parse_encoded_header [of "sampleCert ''e1''" sampleLib]
    by (simp add: sampleLib_def sampleCert_def parseCertificateLoose_def)
qed

lemma sampleFP: "EKFingerprint sampleLib (Some (sampleCert d)) = hex_encode (CHR ''h'' # d)"
  by (simp add: EKFingerprint_def sampleLib_def sampleCert_def)

lemma samplePinChecks:
  "enforceOwnPin samplePins sampleWorld ''101'' (hex_encode ''he1'') = None"
  "pinnedToAnotherVM samplePins sampleWorld ''101'' (hex_encode ''he1'') = Inr []"
  unfolding samplePins_def sampleWorld_def by code_simp+

lemma sampleBound: "VerifyEKCertificateBound sampleLib (Some ''roots'') (Some (samplePub d)) (Some (sampleCert d)) = BoundOK"
  "VerifyEKCertificateChain sampleLib (Some ''roots'') (Some (sampleCert d))"
  by (simp_all add: VerifyEKCertificateBound_def VerifyEKCertificateChain_def ekCertificateMatchesKey_def
      sampleLib_def sampleCert_def samplePub_def)

lemma sampleAuth:
  assumes "c = None \<or> c = Some (sampleCert ''e1'') \<and> k = Some (samplePub ''e1'')"
  shows "AuthenticateEnrollCaller sampleLib sampleEnroller sampleWorld (sampleCaller (Some sampleVMRecord)) c k []
    = Inr (''101'', sampleCert ''e1'')"
proof -
  have "VMConfigContext (sampleCaller (Some sampleVMRecord)) = Some sampleVMRecord" by (simp add: sampleCaller_def)
  moreover have "E_Roots sampleEnroller = Some ''roots''" "E_Pins sampleEnroller = samplePins"
    by (simp_all add: sampleEnroller_def)
  moreover have "VMID sampleVMRecord = ''101''" "TrimSpace (EKSHA256 sampleVMRecord) = []"
    by (simp_all add: sampleVMRecord_def TrimSpace_def)
  ultimately show ?thesis
    using assms
    by (auto simp: AuthenticateEnrollCaller_def sampleHeader sampleBound sampleFP samplePinChecks Let_def certsDEREqual_def)
qed

definition sampleSession :: Session where
  "sampleSession = \<lparr>SessID = hex_encode ''session-16bytes'', Nonce = ''nonc'', SessRequest = sampleSR,
     SessVMID = ''101'', SessEKFingerprint = hex_encode ''he1'', Created = 5\<rparr>"

definition sampleSessions :: SessionStore where
  "sampleSessions = \<lparr>sessions = [(hex_encode ''session-16bytes'', sampleSession)], sessTTL = 5 * minute\<rparr>"

lemma sampleKeys:
  "CheckSignature sampleLib (Some (samplePub u)) d (u @ d) \<longleftrightarrow> sampleAttributes u AND 262144 \<noteq> 0"
  "VerifyDevIDResidency sampleLib (Some (samplePub ''a1'')) (Some (samplePub ''d1'')) ''d1'' ''a1d1''"
  "CheckDevIDProp sampleLib (Attributes (samplePub ''d1'')) = None"
  "CheckAKProp sampleLib (Attributes (samplePub ''a1'')) = None"
proof -
  have lib: "FlagSign sampleLib = 262144" "AlgRSA sampleLib = 1" "pub_Key sampleLib = (\<lambda>p. Some (RSAKey (PubUnique p)))"
    "hash_size sampleLib = (\<lambda>a. Some 4)" "hash_sum sampleLib = (\<lambda>a s. s)"
    "VerifyPKCS1v15 sampleLib = (\<lambda>k h d sig. sig = k @ d)"
    by (simp_all add: sampleLib_def)
  show s: "CheckSignature sampleLib (Some (samplePub u)) d (u @ d) \<longleftrightarrow> sampleAttributes u AND 262144 \<noteq> 0" for u d
    by (simp add: CheckSignature_def SignatureScheme_def lib samplePub_def)
  have "sampleAttributes ''a1'' AND 262144 \<noteq> 0" by code_simp
  then show "VerifyDevIDResidency sampleLib (Some (samplePub ''a1'')) (Some (samplePub ''d1'')) ''d1'' ''a1d1''"
    using s [of "''a1''" "''d1''"] by (simp add: VerifyDevIDResidency_def) (simp add: sampleLib_def samplePub_def)
  show "CheckDevIDProp sampleLib (Attributes (samplePub ''d1'')) = None"
    "CheckAKProp sampleLib (Attributes (samplePub ''a1'')) = None"
    unfolding sampleLib_def samplePub_def by code_simp+
qed

lemma sampleStart_run:
  "status (fst sampleStart) = 200" "snd sampleStart = sampleState\<lparr>Sessions := sampleSessions\<rparr>"
proof -
  have sr: "EndorsementCertificate sampleSR = Some (sampleCert ''e1'')" "EndorsementKey sampleSR = Some (samplePub ''e1'')"
    "DevIDKey sampleSR = Some (samplePub ''d1'')" "AttestationKey sampleSR = Some (samplePub ''a1'')"
    "CertifyData sampleSR = ''d1''" "CertifySignature sampleSR = ''a1d1''"
    by (simp_all add: sampleSR_def)
  have "sampleAttributes ''d1'' AND 262144 \<noteq> 0" by code_simp
  then have sig: "CheckSignature sampleLib (Some (samplePub ''d1'')) sampleData (''d1'' @ sampleData)"
    by (simp add: sampleKeys del: append.simps)
  have ch: "CreateChallenge sampleLib (rndNonce (sampleInputs 5)) (Some (samplePub ''e1'')) n = Some (''nonc'', ''e1'', ''nonc'')" for n
    by (simp add: CreateChallenge_def sampleLib_def samplePub_def sampleInputs_def)
  have put: "Put (rndSession (sampleInputs 5)) (time1 (sampleInputs 5)) (time2 (sampleInputs 5)) ''nonc'' sampleSR ''101''
      (hex_encode ''he1'') (Sessions sampleState) = (Some (hex_encode ''session-16bytes''), sampleSessions)"
    by (simp add: Put_def sampleInputs_def sampleState_def NewSessionStore_def purgeLocked_def Let_def
        sampleSessions_def sampleSession_def duration_simps)
  have "pub_Name sampleLib p = Some (PubUnique p)" for p by (simp add: sampleLib_def)
  then have start: "\<exists>res. Start sampleLib sampleEnroller (sampleInputs 5) sampleData (''d1'' @ sampleData) ''101''
      (hex_encode ''he1'') (Sessions sampleState) = (Inr res, sampleSessions)"
    by (simp add: Start_def sampleData_decodes sr sig ch put sampleKeys(2-) sampleFP sampleBound sampleEnroller_def del: append.simps)
  have w: "World sampleState = sampleWorld" by (simp add: sampleState_def)
  show "status (fst sampleStart) = 200" "snd sampleStart = sampleState\<lparr>Sessions := sampleSessions\<rparr>"
    using start
    by (auto simp: sampleStart_def HandleStart_def sampleData_decodes sr sampleAuth w sampleFP http_defs http_simps
        simp del: append.simps)
qed

lemma sampleFinish_run: "status (fst sampleFinish) = 200"
proof -
  have take: "Take 6 (hex_encode ''session-16bytes'') sampleSessions = (Some sampleSession, sampleSessions\<lparr>sessions := []\<rparr>)"
    by (simp add: Take_def purgeLocked_def sampleSessions_def sampleSession_def Let_def duration_simps)
  have pin: "fst (ensurePinBeforeIssue noFaults noFaults (\<lambda>d. d) samplePins sampleWorld ''101'' (hex_encode ''he1'')) = None"
    unfolding samplePins_def sampleWorld_def noFaults_def by code_simp
  have issue: "IssueDevID sampleLib (E_CA sampleEnroller) sampleSR ''101'' 6 6 \<noteq> None"
    by (simp add: IssueDevID_def sampleSR_def buildDevIDSAN_def DevIDSANFromEKPublicKey_def buildSAN_def
        Sign_def uniqueSerial_def sampleLib_def devIDTemplate_def Let_def)
  have w: "World sampleState = sampleWorld" "E_Pins sampleEnroller = samplePins"
    by (simp_all add: sampleState_def sampleEnroller_def)
  have inp: "time1 (sampleInputs 6) = 6" "time2 (sampleInputs 6) = 6" "faults1 (sampleInputs 6) = noFaults"
    "faults2 (sampleInputs 6) = noFaults" "race (sampleInputs 6) = (\<lambda>d. d)"
    by (simp_all add: sampleInputs_def)
  have vm: "VMConfigContext (sampleCaller (Some sampleVMRecord)) = Some sampleVMRecord" "EKSHA256 sampleVMRecord = []"
    by (simp_all add: sampleCaller_def sampleVMRecord_def)
  have sess: "SessVMID sampleSession = ''101''" "SessEKFingerprint sampleSession = hex_encode ''he1''"
    "Nonce sampleSession = ''nonc''" "SessRequest sampleSession = sampleSR"
    by (simp_all add: sampleSession_def)
  have t: "TrimSpace [] = []" by (simp add: TrimSpace_def)
  show ?thesis
    using pin issue
    by (cases "ensurePinBeforeIssue noFaults noFaults (\<lambda>d. d) samplePins sampleWorld ''101'' (hex_encode ''he1'')")
       (auto simp: sampleFinish_def sampleStart_run HandleFinish_def Finish_def sampleAuth w take inp vm sess sampleFP
        Let_def t http_defs http_simps split: option.splits)
qed

lemma sample_sha: "\<forall>s. sha256 sampleLib s \<noteq> []"
  by (simp add: sampleLib_def)

theorem session_one_shot_witness:
  "fst (Take 6 (hex_encode ''session-16bytes'') sampleSessions) = Some sampleSession \<and>
   fst (Take 7 (hex_encode ''session-16bytes'') (snd (Take 6 (hex_encode ''session-16bytes'') sampleSessions))) = None"
proof -
  let ?t = "Take 6 (hex_encode ''session-16bytes'') sampleSessions"
  have d: "distinct (map fst (sessions sampleSessions))" by (simp add: sampleSessions_def)
  have t: "?t = (Some sampleSession, snd ?t)"
    by (simp add: Take_def purgeLocked_def sampleSessions_def sampleSession_def Let_def duration_simps)
  have "fst ?t = Some sampleSession" by (subst t) simp
  then show ?thesis using session_one_shot [OF d t, of 7] by blast
qed

theorem issued_certificate_means_witness:
  "status (fst sampleFinish) = 200 \<and> session_ok sampleLib sampleEnroller sampleSession \<and>
   SessVMID sampleSession = ''101''"
proof -
  have run: "(enroll_step sampleLib sampleEnroller)\<^sup>*\<^sup>* sampleState (snd sampleStart)"
    using enroll_step.start [of sampleLib sampleEnroller "sampleInputs 5"
        "Some \<lparr>RequestB64 = EncodeToString sampleData, SignatureB64 = EncodeToString (''d1'' @ sampleData)\<rparr>"
        "sampleCaller (Some sampleVMRecord)" sampleState "fst sampleStart" "snd sampleStart"]
    by (simp add: sampleStart_def [symmetric] r_into_rtranclp del: append.simps)
  have init: "sessions (Sessions sampleState) = []" by (simp add: sampleState_def NewSessionStore_def)
  have fin: "HandleFinish sampleLib sampleEnroller (sampleInputs 6)
     (Some \<lparr>FinishSessionID = hex_encode ''session-16bytes'', ChallengeResponseB64 = EncodeToString ''nonc''\<rparr>)
     (sampleCaller (Some sampleVMRecord)) newResponse (snd sampleStart) = (fst sampleFinish, snd sampleFinish)"
    by (simp add: sampleFinish_def)
  have sel: "VMConfigContext (sampleCaller (Some sampleVMRecord)) = Some sampleVMRecord"
    "VMID sampleVMRecord = ''101''" "Raw (ca_cert (E_CA sampleEnroller)) = ''ca''"
    by (simp_all add: sampleCaller_def sampleVMRecord_def sampleEnroller_def sampleCert_def)
  have m: "map_of (sessions (Sessions (snd sampleStart))) (hex_encode ''session-16bytes'') = Some sampleSession"
    by (simp add: sampleStart_run sampleSessions_def)
  show ?thesis
    using issued_certificate_means [OF run init fin sampleFinish_run sample_sha] sampleFinish_run
    by (auto simp: sel m)
qed

theorem issued_certificate_is_pinned_witness:
  "\<not> claimsEK samplePins sampleWorld ''102'' (hex_encode ''he1'') \<and>
   EqualFold (storedPin samplePins (World (snd sampleFinish)) ''101'') (hex_encode ''he1'')"
proof -
  have fin: "HandleFinish sampleLib sampleEnroller (sampleInputs 6)
     (Some \<lparr>FinishSessionID = hex_encode ''session-16bytes'', ChallengeResponseB64 = EncodeToString ''nonc''\<rparr>)
     (sampleCaller (Some sampleVMRecord)) newResponse (snd sampleStart) = (fst sampleFinish, snd sampleFinish)"
    by (simp add: sampleFinish_def)
  have quiet: "race (sampleInputs 6) = (\<lambda>d. d)" by (simp add: sampleInputs_def)
  have w: "World (snd sampleStart) = sampleWorld" "E_Pins sampleEnroller = samplePins"
    by (simp_all add: sampleStart_run sampleState_def sampleEnroller_def)
  have wok: "world_ok (E_Pins sampleEnroller) (World (snd sampleStart))" by (simp add: w sampleWorld_ok)
  have vm: "VMConfigContext (sampleCaller (Some sampleVMRecord)) = Some sampleVMRecord" by (simp add: sampleCaller_def)
  have v: "VMID sampleVMRecord = ''101''" "TrimSpace (EKSHA256 sampleVMRecord) = []"
    by (simp_all add: sampleVMRecord_def TrimSpace_def)
  have c: "readClusterPin samplePins (clusterStore sampleWorld) ''101'' = Inr ([], False)"
    unfolding samplePins_def sampleWorld_def by code_simp
  have pd: "PinDir samplePins \<noteq> []" by (simp add: samplePins_def)
  show ?thesis
    using issued_certificate_is_pinned [OF fin sampleFinish_run quiet wok sample_sha vm sampleHeader] c pd
    by (simp add: w v sampleFP Let_def)
qed


end
