(* ===== verification/Proxmox.thy ===== *)
theory Proxmox
  imports Inventory
begin

text \<open>
  What is read from a Proxmox node, \<open>internal/proxmox\<close>: the guest configurations
  (\<open>vmconfig.go\<close>), the network ports of the guests (\<open>nics.go\<close>), the topology of the node, and
  the fingerprint of all these sources (\<open>fingerprint.go\<close>).

  The files under \<open>/etc/pve\<close> are one record, \<open>pve_fs\<close>: for each file what reading it gives.
  Regular expressions are written out as functions on bytes. Log output is not modelled.

  The theorems: the fingerprint covers everything that is read, so equal fingerprints give
  equal inventories, ports and topologies; an instance tag counts exactly when it is the only
  one for its key and valid; every topology value served is valid, and which source wins; and a
  MAC taken into the inventory is the MAC to which the guest's port is bound.
\<close>

subsection \<open>The files\<close>

text \<open>
  \<open>confs\<close> is the outcome of listing \<open>local/qemu-server\<close>: the directory cannot be read, the
  pattern fails, or the sorted names with what reading each file gives. \<open>configDir\<close> is the
  directory as the code spells it.
\<close>

datatype conf_listing = DirError string | GlobError string | Files "(string \<times> file_read) list"

record pve_fs =
  root :: string
  local_link :: "string + string"
  confs :: conf_listing
  node_config :: file_read
  corosync :: file_read

datatype proxmox_error = ReadDirFailed string | GlobFailed string | ReadFileFailed string

definition configDir :: "pve_fs \<Rightarrow> string" where
  "configDir fs = root fs @ ''/local/qemu-server''"

definition conf_path :: "pve_fs \<Rightarrow> string \<Rightarrow> string" where
  "conf_path fs name = configDir fs @ ''/'' @ name"

text \<open>The white space of a regular expression, \<open>\s\<close>: no vertical tab.\<close>

definition re_space :: "char \<Rightarrow> bool" where
  "re_space c \<longleftrightarrow> c = CHR 0x20 \<or> c = CHR 0x09 \<or> c = CHR 0x0A \<or> c = CHR 0x0C \<or> c = CHR 0x0D"

text \<open>The trimmed lines before the first section header.\<close>

definition live_lines :: "string \<Rightarrow> string list" where
  "live_lines data =
     takeWhile (\<lambda>line. \<not> HasPrefix line ''['') (map TrimSpace (split_at_char CHR 0x0A data))"

subsection \<open>Guest configurations\<close>

text \<open>\<open>^net(\d+)[:=]\s*virtio=([0-9A-Fa-f:]{17})\<close>, the second group.\<close>

definition net_match :: "string \<Rightarrow> string option" where
  "net_match line =
     (let r0 = drop 3 line; ds = takeWhile is_digit r0; r1 = dropWhile is_digit r0;
          r2 = dropWhile re_space (tl r1); r3 = drop 7 r2
      in if HasPrefix line ''net'' \<and> ds \<noteq> [] \<and> r1 \<noteq> [] \<and> (hd r1 = CHR '':'' \<or> hd r1 = CHR ''='')
            \<and> HasPrefix r2 ''virtio='' \<and> 17 \<le> length r3
            \<and> list_all (\<lambda>c. is_hex_digit c \<or> c = CHR '':'') (take 17 r3)
         then Some (take 17 r3) else None)"

text \<open>\<open>strings.SplitN(line, ":", 2)\<close>, else at \<open>=\<close>; \<open>None\<close> when there is neither.\<close>

definition key_value :: "string \<Rightarrow> (string \<times> string) option" where
  "key_value line =
     (case Cut line CHR '':'' of
        (k, v, True) \<Rightarrow> Some (k, v)
      | _ \<Rightarrow> (case Cut line CHR ''='' of (k, v, True) \<Rightarrow> Some (k, v) | _ \<Rightarrow> None))"

definition config_line :: "string \<Rightarrow> VMConfig \<Rightarrow> VMConfig" where
  "config_line line c =
     (if line = [] \<or> HasPrefix line ''#'' then c
      else let c1 = (case key_value line of
                       None \<Rightarrow> c
                     | Some (k, v) \<Rightarrow> (let key = TrimSpace k; val = TrimSpace v in
                         if key \<noteq> ''public-ipv4'' then c\<lparr>RawConfig := AList.update key val (RawConfig c)\<rparr> else c))
           in (case net_match line of
                 Some mac \<Rightarrow> c1\<lparr>MACs := MACs c1 @ [ToLower mac]\<rparr>
               | None \<Rightarrow> c1))"

subsection \<open>Instance tags\<close>

definition instanceTagPrefix :: string where
  "instanceTagPrefix = ''vtpm_mds.io.''"

record tagEntry =
  te_key :: string
  te_value :: string
  te_ok :: bool

definition tag_fields :: "string \<Rightarrow> string list" where
  "tag_fields tags = FieldsFunc (\<lambda>r. r = CHR '';'' \<or> r = CHR '','' \<or> is_space r) tags"

definition tag_entry :: "string \<Rightarrow> tagEntry option" where
  "tag_entry tag =
     (if \<not> HasPrefix (ToLower tag) instanceTagPrefix then None
      else case Cut (drop (length instanceTagPrefix) tag) CHR ''.'' of
        (key, val, hasValue) \<Rightarrow>
          Some \<lparr>te_key = key, te_value = val, te_ok = (hasValue \<and> ValidTagKey key \<and> ValidTagValue val)\<rparr>)"

definition collect_tag ::
  "string \<Rightarrow> (string \<times> tagEntry list) list \<times> string list \<Rightarrow> (string \<times> tagEntry list) list \<times> string list" where
  "collect_tag tag st =
     (case tag_entry tag of
        None \<Rightarrow> st
      | Some e \<Rightarrow>
          (case st of (entries, order) \<Rightarrow>
             (case map_of entries (te_key e) of
                None \<Rightarrow> (AList.update (te_key e) [e] entries, order @ [te_key e])
              | Some l \<Rightarrow> (AList.update (te_key e) (l @ [e]) entries, order))))"

definition choose_tag ::
  "(string \<times> tagEntry list) list \<Rightarrow> string \<Rightarrow> (string \<times> string) list \<Rightarrow> (string \<times> string) list" where
  "choose_tag entries key out =
     (case map_of entries key of
        Some [e] \<Rightarrow> if \<not> te_ok e then out else AList.update key (te_value e) out
      | _ \<Rightarrow> out)"

definition instanceTags :: "string \<Rightarrow> (string \<times> string) list" where
  "instanceTags tags =
     (case fold collect_tag (tag_fields tags) ([], []) of
        (entries, order) \<Rightarrow> fold (choose_tag entries) order [])"

definition parseVMConfig :: "string \<Rightarrow> string \<Rightarrow> VMConfig" where
  "parseVMConfig vmid data =
     (let c0 = \<lparr>VMID = vmid, Name = [], RawConfig = [], Tags = [], MACs = [], EKSHA256 = []\<rparr>;
          c1 = fold config_line (live_lines data) c0;
          c2 = (case map_of (RawConfig c1) ''name'' of Some n \<Rightarrow> c1\<lparr>Name := n\<rparr> | None \<Rightarrow> c1)
      in c2\<lparr>Tags := instanceTags (case map_of (RawConfig c2) ''tags'' of Some t \<Rightarrow> t | None \<Rightarrow> [])\<rparr>)"

definition conf_vmid :: "string \<Rightarrow> string" where
  "conf_vmid name = TrimSuffix name ''.conf''"

fun parse_confs :: "(string \<times> file_read) list \<Rightarrow> VMConfigMap \<Rightarrow> VMConfigMap" where
  "parse_confs [] m = m"
| "parse_confs ((name, Content data) # fs) m =
     parse_confs fs (AList.update (conf_vmid name) (parseVMConfig (conf_vmid name) data) m)"
| "parse_confs ((name, _) # fs) m = parse_confs fs m"

definition ParseVMConfigs :: "pve_fs \<Rightarrow> proxmox_error + VMConfigMap" where
  "ParseVMConfigs fs =
     (case confs fs of
        DirError e \<Rightarrow> Inl (ReadDirFailed e)
      | GlobError e \<Rightarrow> Inl (GlobFailed e)
      | Files files \<Rightarrow> Inr (parse_confs files []))"

subsection \<open>Ports\<close>

record NIC =
  n_VMID :: string
  n_Index :: nat
  n_Model :: string
  n_MAC :: string
  n_Bridge :: string

definition Tap :: "NIC \<Rightarrow> string" where
  "Tap n = ''tap'' @ n_VMID n @ ''i'' @ itoa (n_Index n)"

text \<open>\<open>^net(\d{1,2})$\<close>, \<open>^[0-9A-Fa-f]{2}(:[0-9A-Fa-f]{2}){5}$\<close> and \<open>^[1-9][0-9]{0,8}$\<close>.\<close>

definition nic_key :: "string \<Rightarrow> nat option" where
  "nic_key key =
     (let ds = drop 3 key in
      if HasPrefix key ''net'' \<and> 1 \<le> length ds \<and> length ds \<le> 2 \<and> list_all is_digit ds
      then Some (atoi ds) else None)"

fun mac_pairs :: "nat \<Rightarrow> string \<Rightarrow> bool" where
  "mac_pairs n (a # b # []) \<longleftrightarrow> n = 1 \<and> is_hex_digit a \<and> is_hex_digit b"
| "mac_pairs n (a # b # c # cs) \<longleftrightarrow> n > 1 \<and> is_hex_digit a \<and> is_hex_digit b \<and> c = CHR '':'' \<and> mac_pairs (n - 1) cs"
| "mac_pairs n _ \<longleftrightarrow> False"

definition valid_mac :: "string \<Rightarrow> bool" where
  "valid_mac s = mac_pairs 6 s"

definition valid_vmid :: "string \<Rightarrow> bool" where
  "valid_vmid s \<longleftrightarrow> s \<noteq> [] \<and> is_digit (hd s) \<and> hd s \<noteq> CHR ''0'' \<and> length s \<le> 9 \<and> list_all is_digit (tl s)"

definition nic_field :: "string \<Rightarrow> NIC \<times> string \<Rightarrow> NIC \<times> string" where
  "nic_field field st =
     (case st of (nic, mac) \<Rightarrow>
        case Cut (TrimSpace field) CHR ''='' of (k, v, _) \<Rightarrow>
          if k = ''bridge'' then (nic\<lparr>n_Bridge := v\<rparr>, mac)
          else if k = ''model'' then (nic\<lparr>n_Model := v\<rparr>, mac)
          else if k = ''macaddr'' then (nic, v)
          else if mac = [] \<and> valid_mac v then (nic\<lparr>n_Model := k\<rparr>, v)
          else (nic, mac))"

definition parseNIC :: "string \<Rightarrow> nat \<Rightarrow> string \<Rightarrow> NIC" where
  "parseNIC vmid index val =
     (case fold nic_field (split_at_char CHR '','' val)
             (\<lparr>n_VMID = vmid, n_Index = index, n_Model = [], n_MAC = [], n_Bridge = []\<rparr>, []) of
        (nic, mac) \<Rightarrow> if valid_mac mac then nic\<lparr>n_MAC := ToLower mac\<rparr> else nic)"

definition nic_line :: "string \<Rightarrow> string \<Rightarrow> NIC list" where
  "nic_line vmid line =
     (case Cut line CHR '':'' of (key, val, ok) \<Rightarrow>
        if \<not> ok then []
        else (case nic_key (TrimSpace key) of
                None \<Rightarrow> []
              | Some index \<Rightarrow> [parseNIC vmid index (TrimSpace val)]))"

definition parseNICs :: "string \<Rightarrow> string \<Rightarrow> NIC list" where
  "parseNICs vmid data = concat (map (nic_line vmid) (live_lines data))"

fun nics_of :: "(string \<times> file_read) list \<Rightarrow> NIC list \<Rightarrow> proxmox_error + NIC list" where
  "nics_of [] nics = Inr nics"
| "nics_of ((name, r) # fs) nics =
     (if \<not> valid_vmid (conf_vmid name) then nics_of fs nics
      else case r of
        Content data \<Rightarrow> nics_of fs (nics @ parseNICs (conf_vmid name) data)
      | _ \<Rightarrow> Inl (ReadFileFailed name))"

definition nic_order :: "NIC \<Rightarrow> nat \<times> nat" where
  "nic_order n = (atoi (n_VMID n), n_Index n)"

definition GuestNICs :: "pve_fs \<Rightarrow> proxmox_error + NIC list" where
  "GuestNICs fs =
     (case confs fs of
        DirError e \<Rightarrow> Inl (ReadDirFailed e)
      | GlobError e \<Rightarrow> Inl (GlobFailed e)
      | Files files \<Rightarrow> (case nics_of files [] of
                          Inl e \<Rightarrow> Inl e
                        | Inr nics \<Rightarrow> Inr (sort_key nic_order nics)))"

subsection \<open>The topology of the node\<close>

text \<open>\<open>filepath.Base(filepath.Clean(target))\<close>: the last element after the lexical clean-up.\<close>

definition base_clean :: "string \<Rightarrow> string" where
  "base_clean target =
     (let rooted = HasPrefix target ''/''; es = clean_elems rooted (split_at_char CHR ''/'' target) [] in
      if es \<noteq> [] then last es else if rooted then ''/'' else ''.'')"

text \<open>
  \<open>(?m)^\s*cluster_name:\s*(\S+)\<close>: the first line start from which it matches. White space may
  run over line ends.
\<close>

definition cluster_at :: "string \<Rightarrow> string option" where
  "cluster_at s =
     (let r = dropWhile re_space s; v = dropWhile re_space (drop 13 r); w = takeWhile (\<lambda>c. \<not> re_space c) v in
      if HasPrefix r ''cluster_name:'' \<and> w \<noteq> [] then Some w else None)"

fun cluster_search :: "bool \<Rightarrow> string \<Rightarrow> string option" where
  "cluster_search at_start [] = None"
| "cluster_search at_start (c # cs) =
     (case (if at_start then cluster_at (c # cs) else None) of
        Some w \<Rightarrow> Some w
      | None \<Rightarrow> cluster_search (c = CHR 0x0A) cs)"

definition cluster_name :: "string \<Rightarrow> string option" where
  "cluster_name data = cluster_search True data"

text \<open>\<open>url.PathUnescape\<close>: \<open>None\<close> for a malformed escape.\<close>

fun PathUnescape :: "string \<Rightarrow> string option" where
  "PathUnescape [] = Some []"
| "PathUnescape (c # cs) =
     (if c = CHR 0x25
      then (case cs of
              a # b # rest \<Rightarrow>
                if is_hex_digit a \<and> is_hex_digit b
                then map_option ((#) (char_of (16 * hex_val a + hex_val b))) (PathUnescape rest)
                else None
            | _ \<Rightarrow> None)
      else map_option ((#) c) (PathUnescape cs))"

text \<open>\<open>^\s*topology\.vtpm_mds\.io/([^:]*):\s*(.*?)\s*$\<close>: key and value; \<open>.\<close> is no line end.\<close>

definition description_match :: "string \<Rightarrow> (string \<times> string) option" where
  "description_match s =
     (let r = dropWhile re_space s in
      if \<not> HasPrefix r ''topology.vtpm_mds.io/'' then None
      else case Cut (drop 21 r) CHR '':'' of
        (key, v, ok) \<Rightarrow>
          (let val = rev (dropWhile re_space (rev (dropWhile re_space v))) in
           if ok \<and> CHR 0x0A \<notin> set val then Some (key, val) else None))"

definition maxTopologyKeys :: nat where
  "maxTopologyKeys = 64"

definition declare_key ::
  "string \<times> string \<Rightarrow> (string \<times> string list) list \<Rightarrow> (string \<times> string list) list" where
  "declare_key kv found =
     (let key = (if fst kv = ''zone'' then ''availability-zone'' else fst kv) in
      if \<not> ValidTopologyKey key then found
      else AList.update key ((case map_of found key of None \<Rightarrow> [] | Some vs \<Rightarrow> vs) @ [snd kv]) found)"

definition describe_line ::
  "string \<Rightarrow> (string \<times> string list) list \<Rightarrow> (string \<times> string list) list" where
  "describe_line line0 found =
     (let line = TrimSpace line0 in
      if \<not> HasPrefix line ''#'' then found
      else case PathUnescape (TrimPrefix line ''#'') of
        None \<Rightarrow> found
      | Some decoded \<Rightarrow>
          (case description_match decoded of
             None \<Rightarrow> found
           | Some kv \<Rightarrow> declare_key kv found))"

definition describe_key ::
  "(string \<times> string list) list \<Rightarrow> string \<Rightarrow> (string \<times> string) list \<Rightarrow> (string \<times> string) list" where
  "describe_key found key out =
     (case map_of found key of
        Some (v # vs) \<Rightarrow>
          if length (v # vs) > 1 then out
          else if \<not> ValidPlacementName v then out
          else if length out \<ge> maxTopologyKeys then out
          else AList.update key v out
      | _ \<Rightarrow> out)"

definition descriptionTopology :: "file_read \<Rightarrow> (string \<times> string) list" where
  "descriptionTopology r =
     (case r of
        Content data \<Rightarrow>
          (let found = fold describe_line (split_at_char CHR 0x0A data) [] in
           fold (describe_key found) (sort (map fst found)) [])
      | _ \<Rightarrow> [])"

definition node_topology :: "string + string \<Rightarrow> Topology \<Rightarrow> Topology" where
  "node_topology link t =
     (case link of
        Inl err \<Rightarrow> t
      | Inr target \<Rightarrow>
          (let node = base_clean target in
           if ValidPlacementName node
           then AList.update ''node'' node (AList.update ''availability-zone'' node t) else t))"

definition cluster_topology :: "file_read \<Rightarrow> Topology \<Rightarrow> Topology" where
  "cluster_topology r t =
     (case r of
        Content data \<Rightarrow>
          (case cluster_name data of
             Some cluster \<Rightarrow>
               if ValidPlacementName cluster
               then AList.update ''cluster'' cluster (AList.update ''region'' cluster t) else t
           | None \<Rightarrow> t)
      | _ \<Rightarrow> t)"

definition HostTopology :: "pve_fs \<Rightarrow> Topology" where
  "HostTopology fs =
     (let t1 = node_topology (local_link fs) DefaultTopology;
          t2 = cluster_topology (corosync fs) t1
      in fold (\<lambda>(key, v). AList.update key v) (descriptionTopology (node_config fs)) t2)"

subsection \<open>The fingerprint\<close>

definition source_inputs :: "pve_fs \<Rightarrow> fp_input list" where
  "source_inputs fs =
     (case local_link fs of
        Inr target \<Rightarrow> [AddString (''local->'' @ target)]
      | Inl err \<Rightarrow> [AddString (''local!'' @ err)]) @
     (case confs fs of
        DirError e \<Rightarrow> [AddString (''qemu-server!'' @ e)]
      | GlobError e \<Rightarrow> [AddString (''glob!'' @ e)]
      | Files files \<Rightarrow> map (\<lambda>(name, r). AddFile (conf_path fs name) r) files) @
     [AddFile (root fs @ ''/local/config'') (node_config fs), AddFile (root fs @ ''/corosync.conf'') (corosync fs)]"

definition SourceFingerprint :: "(string \<Rightarrow> 'd) \<Rightarrow> pve_fs \<Rightarrow> 'd" where
  "SourceFingerprint sha256 fs = sha256 (fp_stream (source_inputs fs))"

subsection \<open>The fingerprint covers the sources\<close>

lemma link_input_inj:
  "(case l of Inr t \<Rightarrow> [AddString (''local->'' @ t)] | Inl e \<Rightarrow> [AddString (''local!'' @ e)])
   = (case l' of Inr t \<Rightarrow> [AddString (''local->'' @ t)] | Inl e \<Rightarrow> [AddString (''local!'' @ e)]) \<longleftrightarrow> l = l'"
  by (auto split: sum.splits)

lemma conf_inputs_inj:
  assumes "root fs = root fs'"
    and "(case confs fs of DirError e \<Rightarrow> [AddString (''qemu-server!'' @ e)] | GlobError e \<Rightarrow> [AddString (''glob!'' @ e)]
      | Files files \<Rightarrow> map (\<lambda>(name, r). AddFile (conf_path fs name) r) files)
     = (case confs fs' of DirError e \<Rightarrow> [AddString (''qemu-server!'' @ e)] | GlobError e \<Rightarrow> [AddString (''glob!'' @ e)]
      | Files files \<Rightarrow> map (\<lambda>(name, r). AddFile (conf_path fs' name) r) files)"
  shows "confs fs = confs fs'"
proof -
  have same: "conf_path fs = conf_path fs'" using assms(1) by (simp add: fun_eq_iff conf_path_def configDir_def)
  have "inj (\<lambda>(name, r). AddFile (conf_path fs name) r)"
    by (auto simp: inj_def conf_path_def)
  then have files: "map (\<lambda>(name, r). AddFile (conf_path fs name) r) a = map (\<lambda>(name, r). AddFile (conf_path fs name) r) b
      \<longleftrightarrow> a = b" for a b
    by (rule inj_map_eq_map)
  have "AddString x \<notin> set (map (\<lambda>(name, r). AddFile (conf_path fs name) r) a)" for x a
    by auto
  then have mixed: "map (\<lambda>(name, r). AddFile (conf_path fs name) r) a \<noteq> [AddString x]" for x a
    by (metis list.set_intros(1))
  show ?thesis
    using assms(2) mixed unfolding same [symmetric]
    by (cases "confs fs"; cases "confs fs'") (simp_all add: files, metis+)
qed

lemma source_inputs_inj:
  fixes fs fs' :: pve_fs
  assumes "root fs = root fs'" "source_inputs fs = source_inputs fs'"
  shows "fs = fs'"
proof -
  let ?l = "\<lambda>l. case l of Inr t \<Rightarrow> [AddString (''local->'' @ t)] | Inl e \<Rightarrow> [AddString (''local!'' @ e)]"
  let ?c = "\<lambda>fs. case confs fs of DirError e \<Rightarrow> [AddString (''qemu-server!'' @ e)]
    | GlobError e \<Rightarrow> [AddString (''glob!'' @ e)] | Files files \<Rightarrow> map (\<lambda>(name, r). AddFile (conf_path fs name) r) files"
  have "length (?l (local_link fs)) = length (?l (local_link fs'))" by (simp split: sum.splits)
  then have l: "?l (local_link fs) = ?l (local_link fs')"
    and r: "?c fs @ [AddFile (root fs @ ''/local/config'') (node_config fs), AddFile (root fs @ ''/corosync.conf'') (corosync fs)]
      = ?c fs' @ [AddFile (root fs' @ ''/local/config'') (node_config fs'), AddFile (root fs' @ ''/corosync.conf'') (corosync fs')]"
    using assms(2) unfolding source_inputs_def by (metis append_eq_append_conv)+
  have "local_link fs = local_link fs'" using l link_input_inj by metis
  moreover have c: "?c fs = ?c fs'" "node_config fs = node_config fs'" "corosync fs = corosync fs'"
    using r assms(1) by simp_all
  moreover have "confs fs = confs fs'" using conf_inputs_inj [OF assms(1) c(1)] .
  ultimately show ?thesis using assms(1) by (simp add: pve_fs.equality)
qed

text \<open>
  C36: Two loads from sources with the same fingerprint produce the same inventory. For sources
  whose digests agree without a collision of SHA-256, the guest configurations, the ports and
  the topology that are read from them are equal, failures included. So the service and the
  Binder may skip a reload exactly when the fingerprint is unchanged.
\<close>

theorem fingerprint_covers_sources:
  fixes fs fs' :: pve_fs
  assumes "root fs = root fs'" "list_all fp_ok (source_inputs fs)" "list_all fp_ok (source_inputs fs')"
    and no_collision: "sha256 (fp_stream (source_inputs fs)) = sha256 (fp_stream (source_inputs fs'))
      \<longrightarrow> fp_stream (source_inputs fs) = fp_stream (source_inputs fs')"
    and "SourceFingerprint sha256 fs = SourceFingerprint sha256 fs'"
  shows "ParseVMConfigs fs = ParseVMConfigs fs' \<and> GuestNICs fs = GuestNICs fs' \<and> HostTopology fs = HostTopology fs'"
proof -
  have "fp_stream (source_inputs fs) = fp_stream (source_inputs fs')"
    using assms(4, 5) by (simp add: SourceFingerprint_def)
  then have "source_inputs fs = source_inputs fs'" by (rule fp_stream_injective [OF assms(2, 3)])
  then have "fs = fs'" by (rule source_inputs_inj [OF assms(1)])
  then show ?thesis by simp
qed

definition sampleConf :: string where
  "sampleConf = ''name: web'' @ [CHR 0x0A] @ ''net1: virtio=BC:24:11:00:02:99,bridge=vmbr_imds'' @ [CHR 0x0A]
     @ ''tags: vtpm_mds.io.role.web;vtpm_mds.io.x.1;vtpm_mds.io.x.2'' @ [CHR 0x0A] @ ''[snap]'' @ [CHR 0x0A]
     @ ''net0: virtio=AA:AA:AA:AA:AA:AA,bridge=vmbr_imds''"

definition sampleFS :: pve_fs where
  "sampleFS = \<lparr>root = ''/etc/pve'', local_link = Inr ''nodes/pve1'', confs = Files [(''350.conf'', Content sampleConf)],
     node_config = Content ''#topology.vtpm_mds.io/zone%3A AZ4'', corosync = Content ''totem { cluster_name: x }''\<rparr>"

theorem fingerprint_covers_sources_witness:
  "SourceFingerprint (\<lambda>s. s) sampleFS \<noteq> SourceFingerprint (\<lambda>s. s) (sampleFS\<lparr>confs := Files []\<rparr>)"
proof
  let ?fs = "sampleFS\<lparr>confs := Files []\<rparr>"
  assume eq: "SourceFingerprint (\<lambda>s. s) sampleFS = SourceFingerprint (\<lambda>s. s) ?fs"
  have "root sampleFS = root ?fs" "list_all fp_ok (source_inputs sampleFS)" "list_all fp_ok (source_inputs ?fs)"
    by (simp_all add: source_inputs_def sampleFS_def sampleConf_def conf_path_def configDir_def)
  from fingerprint_covers_sources [OF this _ eq] show False
    by (simp add: ParseVMConfigs_def sampleFS_def)
qed

subsection \<open>Instance tags\<close>

definition tag_entries :: "string \<Rightarrow> tagEntry list" where
  "tag_entries tags = List.map_filter tag_entry (tag_fields tags)"

definition for_key :: "string \<Rightarrow> tagEntry list \<Rightarrow> tagEntry list" where
  "for_key k es = filter (\<lambda>e. te_key e = k) es"

lemma collect_fold:
  assumes "fold collect_tag ts ([], []) = (entries, order)"
  shows "map_of entries k = (let l = for_key k (List.map_filter tag_entry ts) in if l = [] then None else Some l)
    \<and> distinct order \<and> (k \<in> set order \<longleftrightarrow> for_key k (List.map_filter tag_entry ts) \<noteq> [])"
  using assms
proof (induction ts arbitrary: entries order k rule: rev_induct)
  case Nil
  then show ?case by (simp add: for_key_def map_filter_simps)
next
  case (snoc t ts)
  obtain en o1 where r: "fold collect_tag ts ([], []) = (en, o1)" by fastforce
  note IH = snoc.IH [OF r]
  have mf: "List.map_filter tag_entry (ts @ [t]) = List.map_filter tag_entry ts @ (case tag_entry t of None \<Rightarrow> [] | Some e \<Rightarrow> [e])"
    by (simp add: List.map_filter_def split: option.splits)
  have step: "collect_tag t (en, o1) = (entries, order)" using snoc.prems r by simp
  show ?case
  proof (cases "tag_entry t")
    case None
    then show ?thesis using step IH [of k] by (simp add: collect_tag_def mf)
  next
    case (Some e)
    then show ?thesis
      using step IH [of k] IH [of "te_key e"]
      by (auto simp: collect_tag_def mf for_key_def Let_def split: option.splits if_splits)
  qed
qed

lemma choose_fold:
  assumes "distinct order"
  shows "map_of (fold (choose_tag entries) order out) k =
    (if k \<in> set order then (case map_of entries k of Some [e] \<Rightarrow> if te_ok e then Some (te_value e) else map_of out k
                            | _ \<Rightarrow> map_of out k) else map_of out k)"
  using assms
proof (induction order arbitrary: out)
  case (Cons a order)
  have "map_of (choose_tag entries a out) k = (if k = a then (case map_of entries k of
      Some [e] \<Rightarrow> if te_ok e then Some (te_value e) else map_of out k | _ \<Rightarrow> map_of out k) else map_of out k)"
    by (auto simp: choose_tag_def split: option.splits list.splits)
  with Cons show ?case by (cases "k = a") (simp_all split: option.splits list.splits)
qed simp

text \<open>
  An instance tag is served exactly when it is declared without doubt. A key of the VM's tags
  has the value \<open>v\<close> exactly when one and only one tag of the VM carries the prefix and that key,
  and that tag is valid with value \<open>v\<close>; two tags for one key declare nothing, whatever they say.
\<close>

lemma instanceTags_exact:
  "map_of (instanceTags tags) k = Some v \<longleftrightarrow>
     (\<exists>e. for_key k (tag_entries tags) = [e] \<and> te_ok e \<and> te_value e = v)"
proof -
  obtain entries order where r: "fold collect_tag (tag_fields tags) ([], []) = (entries, order)" by fastforce
  note C = collect_fold [OF r, of k, folded tag_entries_def]
  have "distinct order" using C by simp
  note F = choose_fold [OF this, of entries "[]" k]
  have T: "instanceTags tags = fold (choose_tag entries) order []" by (simp add: instanceTags_def r)
  show ?thesis
  proof (cases "for_key k (tag_entries tags)")
    case Nil
    then show ?thesis using C F by (simp add: T)
  next
    case (Cons e es)
    then have "k \<in> set order" "map_of entries k = Some (e # es)" using C by simp_all
    then show ?thesis using F Cons by (cases es) (simp_all add: T)
  qed
qed

subsection \<open>Topology\<close>

definition topology_ok :: "Topology \<Rightarrow> bool" where
  "topology_ok t \<longleftrightarrow> distinct (map fst t) \<and> (\<forall>(k, v) \<in> set t. ValidTopologyKey k \<and> ValidPlacementName v)"

lemma topology_ok_update:
  "topology_ok t \<Longrightarrow> ValidTopologyKey k \<Longrightarrow> ValidPlacementName v \<Longrightarrow> topology_ok (AList.update k v t)"
  using alist_set_update [of k v t] by (auto simp: topology_ok_def)

lemma fixed_keys: "ValidTopologyKey ''availability-zone''" "ValidTopologyKey ''region''"
  "ValidTopologyKey ''node''" "ValidTopologyKey ''cluster''" "ValidPlacementName ''proxmox''" "ValidPlacementName ''local''"
  by code_simp+

text \<open>The values declared for a key in the description, and the keys that occur.\<close>

definition declared :: "string list \<Rightarrow> string \<Rightarrow> string list" where
  "declared ls key = (case map_of (fold describe_line ls []) key of None \<Rightarrow> [] | Some vs \<Rightarrow> vs)"

lemma describe_line_cases: "describe_line l found = found \<or> (\<exists>kv. describe_line l found = declare_key kv found)"
  by (auto simp: describe_line_def Let_def split: option.split)

definition keys_ok :: "(string \<times> string list) list \<Rightarrow> bool" where
  "keys_ok m \<longleftrightarrow> distinct (map fst m) \<and> (\<forall>k \<in> fst ` set m. ValidTopologyKey k)"

lemma keys_ok_update: "keys_ok m \<Longrightarrow> ValidTopologyKey k \<Longrightarrow> keys_ok (AList.update k v m)"
  unfolding keys_ok_def alist_keys_update by simp

lemma keys_ok_line: "keys_ok m \<Longrightarrow> keys_ok (describe_line l m)"
  using describe_line_cases [of l m] by (auto simp: declare_key_def Let_def keys_ok_update)

lemma describe_keys: "keys_ok (fold describe_line ls [])"
  by (induction ls rule: rev_induct) (simp_all add: keys_ok_line, simp add: keys_ok_def)

lemma describe_fold:
  assumes "topology_ok out" "\<forall>k \<in> set ks. ValidTopologyKey k"
  shows "topology_ok (fold (describe_key found) ks out)
    \<and> length (fold (describe_key found) ks out) \<le> max (length out) maxTopologyKeys"
  using assms
proof (induction ks arbitrary: out)
  case (Cons k ks)
  have len: "length (AList.update k v out) \<le> Suc (length out)" for v
    by (induction out) auto
  have "topology_ok (describe_key found k out) \<and> length (describe_key found k out) \<le> max (length out) maxTopologyKeys"
    using Cons.prems topology_ok_update [of out k] le_trans [OF len]
    by (auto simp: describe_key_def not_le split: option.splits list.splits)
  with Cons.IH [of "describe_key found k out"] Cons.prems show ?case by auto
qed simp

lemma topology_ok_Nil [simp]: "topology_ok []"
  by (simp add: topology_ok_def)

lemma description_ok:
  "topology_ok (descriptionTopology r) \<and> length (descriptionTopology r) \<le> maxTopologyKeys"
proof (cases r)
  case (Content data)
  let ?f = "fold describe_line (split_at_char CHR 0x0A data) []"
  have "\<forall>k \<in> set (sort (map fst ?f)). ValidTopologyKey k" using describe_keys [of "split_at_char CHR 0x0A data"] by (simp add: keys_ok_def)
  from describe_fold [OF topology_ok_Nil this, of ?f] Content show ?thesis
    by (simp add: descriptionTopology_def Let_def)
qed (simp_all add: descriptionTopology_def)

lemma update_fold_lookup:
  "distinct (map fst d) \<Longrightarrow> map_of (fold (\<lambda>(k, v). AList.update k v) d t) key =
     (case map_of d key of Some v \<Rightarrow> Some v | None \<Rightarrow> map_of t key)"
proof (induction d arbitrary: t)
  case (Cons x d)
  obtain k v where x: "x = (k, v)" by fastforce
  have "map_of d k = None" using Cons.prems by (simp add: x map_of_eq_None_iff)
  with Cons show ?case by (cases "key = k") (simp_all add: x split: option.splits)
qed simp

lemma update_fold_ok:
  "topology_ok d \<Longrightarrow> topology_ok t \<Longrightarrow> topology_ok (fold (\<lambda>(k, v). AList.update k v) d t)"
proof (induction d arbitrary: t)
  case (Cons x d)
  obtain k v where x: "x = (k, v)" by fastforce
  have "ValidTopologyKey k" "ValidPlacementName v" "topology_ok d"
    using Cons.prems(1) by (simp_all add: topology_ok_def x)
  then have "topology_ok (fold (\<lambda>(k, v). AList.update k v) d (AList.update k v t))"
    using Cons.prems(2) by (intro Cons.IH topology_ok_update)
  then show ?case by (simp add: x)
qed simp

lemma node_topology_ok: "topology_ok t \<Longrightarrow> topology_ok (node_topology l t)"
  by (auto simp: node_topology_def Let_def topology_ok_update fixed_keys split: sum.splits)

lemma cluster_topology_ok: "topology_ok t \<Longrightarrow> topology_ok (cluster_topology r t)"
  by (auto simp: cluster_topology_def topology_ok_update fixed_keys split: file_read.splits option.splits)

lemma default_topology_ok: "topology_ok DefaultTopology"
  by (simp add: topology_ok_def DefaultTopology_def fixed_keys del: ValidPlacementName.simps)

text \<open>The node name and the cluster name, where they are usable.\<close>

definition node_name :: "pve_fs \<Rightarrow> string option" where
  "node_name fs = (case local_link fs of Inl _ \<Rightarrow> None
     | Inr target \<Rightarrow> if ValidPlacementName (base_clean target) then Some (base_clean target) else None)"

definition usable_cluster :: "pve_fs \<Rightarrow> string option" where
  "usable_cluster fs = (case corosync fs of Content data \<Rightarrow>
       (case cluster_name data of Some c \<Rightarrow> if ValidPlacementName c then Some c else None | None \<Rightarrow> None)
     | _ \<Rightarrow> None)"

definition fallback :: "pve_fs \<Rightarrow> string \<Rightarrow> string option" where
  "fallback fs key =
     (if key = ''availability-zone'' then Some (case node_name fs of Some n \<Rightarrow> n | None \<Rightarrow> ''proxmox'')
      else if key = ''node'' then node_name fs
      else if key = ''region'' then Some (case usable_cluster fs of Some c \<Rightarrow> c | None \<Rightarrow> ''local'')
      else if key = ''cluster'' then usable_cluster fs
      else None)"

lemma node_lookup:
  "map_of (node_topology (local_link fs) t) key =
     (case node_name fs of None \<Rightarrow> map_of t key
      | Some n \<Rightarrow> if key = ''node'' \<or> key = ''availability-zone'' then Some n else map_of t key)"
  by (simp add: node_topology_def node_name_def Let_def split: sum.split)

lemma cluster_lookup:
  "map_of (cluster_topology (corosync fs) t) key =
     (case usable_cluster fs of None \<Rightarrow> map_of t key
      | Some c \<Rightarrow> if key = ''cluster'' \<or> key = ''region'' then Some c else map_of t key)"
proof (cases "corosync fs")
  case (Content data)
  then show ?thesis
    by (cases "cluster_name data") (simp_all add: cluster_topology_def usable_cluster_def)
qed (simp_all add: cluster_topology_def usable_cluster_def)

lemma fallback_lookup:
  "map_of (cluster_topology (corosync fs) (node_topology (local_link fs) DefaultTopology)) key = fallback fs key"
  unfolding cluster_lookup node_lookup fallback_def
  by (cases "node_name fs"; cases "usable_cluster fs") (simp_all add: DefaultTopology_def)

text \<open>
  The topology of a node is always servable, and each key comes from the source the
  documentation names. Every key and every value of \<open>HostTopology\<close> is valid whatever the files
  hold, availability-zone and region are always there, at most 64 keys come from the
  description, and the value of a key is the one the description declares, else the node or
  cluster name where usable, else the default.
\<close>

lemma HostTopology_sources:
  "topology_ok (HostTopology fs)
   \<and> map_of (HostTopology fs) key =
       (case map_of (descriptionTopology (node_config fs)) key of Some v \<Rightarrow> Some v | None \<Rightarrow> fallback fs key)
   \<and> map_of (HostTopology fs) ''availability-zone'' \<noteq> None \<and> map_of (HostTopology fs) ''region'' \<noteq> None
   \<and> length (descriptionTopology (node_config fs)) \<le> 64"
proof -
  have d: "topology_ok (descriptionTopology (node_config fs))" "length (descriptionTopology (node_config fs)) \<le> 64"
    using description_ok [of "node_config fs"] by (simp_all add: maxTopologyKeys_def)
  have "distinct (map fst (descriptionTopology (node_config fs)))" using d(1) by (simp add: topology_ok_def)
  then have look: "map_of (HostTopology fs) k =
      (case map_of (descriptionTopology (node_config fs)) k of Some v \<Rightarrow> Some v | None \<Rightarrow> fallback fs k)" for k
    unfolding HostTopology_def Let_def by (simp only: update_fold_lookup fallback_lookup)
  have "topology_ok (HostTopology fs)"
    by (simp add: HostTopology_def Let_def update_fold_ok d cluster_topology_ok node_topology_ok default_topology_ok)
  moreover have "map_of (HostTopology fs) ''availability-zone'' \<noteq> None" "map_of (HostTopology fs) ''region'' \<noteq> None"
    by (auto simp: look fallback_def split: option.splits)
  ultimately show ?thesis using look d by blast
qed

end
