(* ===== verification/Server.thy ===== *)
theory Server
  imports Config Limiter Enroll Proxmox
begin

text \<open>
  The service that joins the parts, \<open>internal/server\<close>: which VM a connection belongs to, the
  inventory cache and its reload (\<open>server.go\<close>, \<open>reload.go\<close>), readiness and \<open>/health\<close>, the
  wrapping of routes, and the wiring of enrolment.

  The state of the server is one record; the package variables \<open>vmConfigCache\<close> and the host
  topology are fields of it. The sources of the inventory are a record of file contents, the
  clock and the outcomes of opening files are arguments. Sockets, the HTTP server and the
  goroutine of the poller are not modelled: a run of the service is a sequence of the operations
  here.

  The theorems: a connection is bound to a VM exactly through the ARP entry of its address and
  the owner of that MAC; a failed reload changes nothing that is served and is visible in
  \<open>/health\<close> until a load succeeds; a load is attempted once per fingerprint; and the status is
  \<open>ok\<close> exactly when everything behind it is.
\<close>

subsection \<open>Who is calling\<close>

text \<open>The answer for an address: a MAC, empty for none, or an index out of range.\<close>

datatype arp_answer = ArpMAC string | ArpPanic

definition zeroMAC :: string where
  "zeroMAC = ''00:00:00:00:00:00''"

fun arp_scan :: "string \<Rightarrow> string list \<Rightarrow> arp_answer" where
  "arp_scan ip [] = ArpMAC []"
| "arp_scan ip (line # lines) =
     (if HasPrefix line ''IP address'' then arp_scan ip lines
      else let fields = Fields line in
        if length fields \<ge> 4 \<and> fields ! 0 = ip
        then let mac = ToLower (fields ! 3) in
          if mac \<noteq> zeroMAC
          then if length fields \<le> 5 then ArpPanic else ArpMAC mac
          else arp_scan ip lines
        else arp_scan ip lines)"

definition getMACFromARP :: "string option \<Rightarrow> string \<Rightarrow> arp_answer" where
  "getMACFromARP table ip =
     (case table of None \<Rightarrow> ArpMAC [] | Some data \<Rightarrow> arp_scan ip (split_at_char CHR 0x0A data))"

definition findVMConfigByMAC :: "VMConfigMap \<Rightarrow> string \<Rightarrow> VMConfig option" where
  "findVMConfigByMAC cache mac0 =
     (let mac = ToLower (TrimSpace mac0); vmid = GetVMIDByMAC cache mac in
      if vmid \<noteq> [] then map_of cache vmid else None)"

text \<open>
  \<open>extractVMConfigByRouting\<close>: \<open>remote\<close> is the text of the peer's IP address, \<open>None\<close> when the
  connection has none. The result is the record bound to the connection; \<open>Inl\<close> is the panic.
\<close>

definition extractVMConfig :: "VMConfigMap \<Rightarrow> string option \<Rightarrow> string option \<Rightarrow> unit + VMConfig option" where
  "extractVMConfig cache table remote =
     (case remote of
        None \<Rightarrow> Inr None
      | Some ip \<Rightarrow>
          (case getMACFromARP table ip of
             ArpPanic \<Rightarrow> Inl ()
           | ArpMAC mac \<Rightarrow> if mac \<noteq> [] then Inr (findVMConfigByMAC cache mac) else Inr None))"

definition peerForLog :: "Request \<Rightarrow> string" where
  "peerForLog r = (case PeerIP (RemoteAddr r) of Some ip \<Rightarrow> IP_String ip | None \<Rightarrow> ''-'')"

definition vmForLog :: "Request \<Rightarrow> string" where
  "vmForLog r = (case VMConfigContext r of
     Some vm \<Rightarrow> if VMID vm \<noteq> [] then VMID vm else ''-'' | None \<Rightarrow> ''-'')"

subsection \<open>The inventory cache\<close>

record sources =
  src_yaml :: file_read
  src_pve :: pve_fs

record 'f Server =
  vmConfigCache :: VMConfigMap
  srvTopology :: Topology
  inventoryLoaded :: bool
  vmCount :: nat
  lastReload :: "time option"
  lastErrorClass :: string
  caReadable :: bool
  caCheckedAt :: "time option"
  devid_set :: bool
  poll_last :: "'f option"

datatype load_error = YAMLError inventory_error | ProxmoxError proxmox_error

text \<open>\<open>decode\<close> is the YAML decoder, as in \<open>LoadYAML\<close>.\<close>

definition load_sources ::
  "MDSConfig \<Rightarrow> (string \<Rightarrow> fileVM list option) \<Rightarrow> sources \<Rightarrow> load_error + VMConfigMap \<times> Topology" where
  "load_sources cfg decode src =
     (if InventoryPath cfg \<noteq> []
      then (case LoadYAML decode (case src_yaml src of Content d \<Rightarrow> Some d | _ \<Rightarrow> None) of
              Inl e \<Rightarrow> Inl (YAMLError e) | Inr m \<Rightarrow> Inr (m, DefaultTopology))
      else (case ParseVMConfigs (src_pve src) of
              Inl e \<Rightarrow> Inl (ProxmoxError e) | Inr m \<Rightarrow> Inr (m, HostTopology (src_pve src))))"

definition errClassInventoryLoadFailed :: string where
  "errClassInventoryLoadFailed = ''inventory_load_failed''"

definition errClassDevIDCAUnreadable :: string where
  "errClassDevIDCAUnreadable = ''devid_ca_unreadable''"

definition caReadableCacheTTL :: duration where
  "caReadableCacheTTL = 5 * second"

definition recordInventoryLoadSuccess :: "nat \<Rightarrow> time \<Rightarrow> 'f Server \<Rightarrow> 'f Server" where
  "recordInventoryLoadSuccess n now s =
     s\<lparr>inventoryLoaded := True, vmCount := n, lastReload := Some now, lastErrorClass := []\<rparr>"

definition recordInventoryLoadFailure :: "'f Server \<Rightarrow> 'f Server" where
  "recordInventoryLoadFailure s = s\<lparr>lastErrorClass := errClassInventoryLoadFailed\<rparr>"

definition RefreshVMConfigCache ::
  "MDSConfig \<Rightarrow> (string \<Rightarrow> fileVM list option) \<Rightarrow> sources \<Rightarrow> time \<Rightarrow> 'f Server
    \<Rightarrow> load_error option \<times> 'f Server" where
  "RefreshVMConfigCache cfg decode src now s =
     (case load_sources cfg decode src of
        Inl e \<Rightarrow> (Some e, recordInventoryLoadFailure s)
      | Inr (m, t) \<Rightarrow>
          (None, recordInventoryLoadSuccess (length m) now (s\<lparr>vmConfigCache := m, srvTopology := t\<rparr>)))"

subsection \<open>Reloading\<close>

definition inventoryFingerprint :: "(string \<Rightarrow> 'f) \<Rightarrow> MDSConfig \<Rightarrow> sources \<Rightarrow> 'f" where
  "inventoryFingerprint hash cfg src =
     (if InventoryPath cfg \<noteq> [] then YAMLFingerprint hash (InventoryPath cfg) (src_yaml src)
      else SourceFingerprint hash (src_pve src))"

text \<open>
  One moment of a reload: the sources as the fingerprint sees them, as the load reads them, and
  the clock at its end.
\<close>

record moment =
  at_check :: sources
  at_load :: sources
  at_time :: time

definition reloadNow ::
  "(string \<Rightarrow> 'f) \<Rightarrow> MDSConfig \<Rightarrow> (string \<Rightarrow> fileVM list option) \<Rightarrow> moment \<Rightarrow> 'f Server
    \<Rightarrow> load_error option \<times> 'f Server" where
  "reloadNow hash cfg decode e s =
     RefreshVMConfigCache cfg decode (at_load e) (at_time e)
       (s\<lparr>poll_last := Some (inventoryFingerprint hash cfg (at_check e))\<rparr>)"

definition reloadIfChanged ::
  "(string \<Rightarrow> 'f) \<Rightarrow> MDSConfig \<Rightarrow> (string \<Rightarrow> fileVM list option) \<Rightarrow> moment \<Rightarrow> 'f Server \<Rightarrow> bool \<times> 'f Server" where
  "reloadIfChanged hash cfg decode e s =
     (let fp = inventoryFingerprint hash cfg (at_check e) in
      if poll_last s = Some fp then (False, s)
      else (True, snd (RefreshVMConfigCache cfg decode (at_load e) (at_time e) (s\<lparr>poll_last := Some fp\<rparr>))))"

definition newServer :: "'f Server" where
  "newServer =
     \<lparr>vmConfigCache = [], srvTopology = DefaultTopology, inventoryLoaded = False, vmCount = 0,
      lastReload = None, lastErrorClass = [], caReadable = False, caCheckedAt = None,
      devid_set = False, poll_last = None\<rparr>"

subsection \<open>Readiness\<close>

record healthDetail =
  hd_Status :: string
  hd_InventoryLoaded :: bool
  hd_VMCount :: nat
  hd_DevIDCAReadable :: "bool option"
  hd_LastReload :: "time option"
  hd_LastError :: string

record files =
  CREDENTIALS_DIRECTORY :: string
  STATE_DIRECTORY :: string
  file_size :: "string \<Rightarrow> nat option"
  can_open :: "string \<Rightarrow> bool"

text \<open>The key delivered as a systemd credential; one that is empty or cannot be found counts as none.\<close>

definition credentialCAKeyPath :: "files \<Rightarrow> string" where
  "credentialCAKeyPath f =
     (if CREDENTIALS_DIRECTORY f = [] then []
      else let path = filepath_Join [CREDENTIALS_DIRECTORY f, ''devid_ca.key''] in
        case file_size f path of None \<Rightarrow> [] | Some n \<Rightarrow> if n = 0 then [] else path)"

definition ca_key_path :: "MDSConfig \<Rightarrow> files \<Rightarrow> string" where
  "ca_key_path cfg f =
     (let cred = credentialCAKeyPath f in
      if cred \<noteq> [] then cred else DevIDCAKey cfg)"

definition checkDevIDCAReadable :: "MDSConfig \<Rightarrow> files \<Rightarrow> 'f Server \<Rightarrow> bool" where
  "checkDevIDCAReadable cfg f s =
     (if \<not> devid_set s then False
      else let certPath = DevIDCACert cfg; keyPath = ca_key_path cfg f in
        if certPath = [] \<or> keyPath = [] then False
        else can_open f certPath \<and> can_open f keyPath)"

definition devIDCAReadableCached :: "MDSConfig \<Rightarrow> files \<Rightarrow> time \<Rightarrow> 'f Server \<Rightarrow> bool \<times> 'f Server" where
  "devIDCAReadableCached cfg f now s =
     (case caCheckedAt s of
        Some t \<Rightarrow> if now - t < caReadableCacheTTL then (caReadable s, s)
                  else (let ok = checkDevIDCAReadable cfg f s in (ok, s\<lparr>caReadable := ok, caCheckedAt := Some now\<rparr>))
      | None \<Rightarrow> (let ok = checkDevIDCAReadable cfg f s in (ok, s\<lparr>caReadable := ok, caCheckedAt := Some now\<rparr>)))"

definition readiness :: "MDSConfig \<Rightarrow> files \<Rightarrow> time \<Rightarrow> 'f Server \<Rightarrow> (string \<times> healthDetail) \<times> 'f Server" where
  "readiness cfg f now s =
     (let loaded = inventoryLoaded s; attestation = EnableTPMAttestation cfg;
          (caOK, s') = (if attestation
                        then (case devIDCAReadableCached cfg f now s of (ok, s1) \<Rightarrow> (Some ok, s1)) else (None, s));
          lastErr = (if attestation \<and> caOK = Some False \<and> lastErrorClass s = []
                     then errClassDevIDCAUnreadable else lastErrorClass s);
          state = (if \<not> loaded then ''degraded''
                    else if attestation \<and> (caOK = None \<or> caOK = Some False) then ''degraded''
                    else if lastErr \<noteq> [] then ''degraded'' else ''ok'')
      in ((state, \<lparr>hd_Status = state, hd_InventoryLoaded = loaded, hd_VMCount = vmCount s,
                    hd_DevIDCAReadable = caOK, hd_LastReload = lastReload s, hd_LastError = lastErr\<rparr>), s'))"

text \<open>The JSON of the detail: \<open>devid_ca_readable\<close> is left out when it is nil; \<open>rfc\<close> formats a time.\<close>

definition detail_json :: "(time \<Rightarrow> string) \<Rightarrow> healthDetail \<Rightarrow> json" where
  "detail_json rfc d = JObject
     ([(''status'', JString (hd_Status d)), (''inventory_loaded'', JBool (hd_InventoryLoaded d)),
       (''vm_count'', JInt (int (hd_VMCount d)))]
      @ (case hd_DevIDCAReadable d of None \<Rightarrow> [] | Some b \<Rightarrow> [(''devid_ca_readable'', JBool b)])
      @ [(''last_reload'', JString (case hd_LastReload d of None \<Rightarrow> [] | Some t \<Rightarrow> rfc t)),
         (''last_error'', JString (hd_LastError d))])"

definition handleHealth ::
  "(time \<Rightarrow> string) \<Rightarrow> MDSConfig \<Rightarrow> files \<Rightarrow> time \<Rightarrow> Request \<Rightarrow> ResponseWriter \<Rightarrow> 'f Server
    \<Rightarrow> ResponseWriter \<times> 'f Server" where
  "handleHealth rfc cfg f now r w s =
     (case readiness cfg f now s of ((state, info), s') \<Rightarrow>
        let w1 = WriteHeader 200 (header_set ''Content-Type'' ''application/json'' w) in
        if IsBound (VMConfigContext r)
        then (write_chunk (JSON (JObject [(''status'', JString state)])) w1, s')
        else (write_chunk (JSON (detail_json rfc info)) w1, s'))"

subsection \<open>A connection and its VM\<close>

text \<open>The rows of the ARP table, and the first complete one for an address.\<close>

definition arp_rows :: "string \<Rightarrow> string list list" where
  "arp_rows data = map Fields (filter (\<lambda>l. \<not> HasPrefix l ''IP address'') (split_at_char CHR 0x0A data))"

definition arp_row_for :: "string \<Rightarrow> string list \<Rightarrow> bool" where
  "arp_row_for ip row \<longleftrightarrow> 4 \<le> length row \<and> row ! 0 = ip \<and> ToLower (row ! 3) \<noteq> zeroMAC"

lemma arp_scan_find:
  "arp_scan ip lines =
     (case find (arp_row_for ip) (map Fields (filter (\<lambda>l. \<not> HasPrefix l ''IP address'') lines)) of
        None \<Rightarrow> ArpMAC []
      | Some row \<Rightarrow> if length row \<le> 5 then ArpPanic else ArpMAC (ToLower (row ! 3)))"
  by (induction lines) (auto simp: Let_def arp_row_for_def)

lemma getMACFromARP_find:
  "getMACFromARP (Some data) ip =
     (case find (arp_row_for ip) (arp_rows data) of
        None \<Rightarrow> ArpMAC []
      | Some row \<Rightarrow> if length row \<le> 5 then ArpPanic else ArpMAC (ToLower (row ! 3)))"
  by (simp add: getMACFromARP_def arp_scan_find arp_rows_def)

lemma fields_loop_ne: "w \<in> set (fields_loop p s cur) \<Longrightarrow> w \<noteq> []"
  by (induction p s cur rule: fields_loop.induct) (auto split: if_splits)

lemma arp_rows_ne: "row \<in> set (arp_rows data) \<Longrightarrow> i < length row \<Longrightarrow> row ! i \<noteq> []"
  by (auto simp: arp_rows_def Fields_def FieldsFunc_def dest!: nth_mem fields_loop_ne)

text \<open>What both backends give: one record per id, under its own id.\<close>

definition keyed :: "VMConfigMap \<Rightarrow> bool" where
  "keyed m \<longleftrightarrow> distinct (map fst m) \<and> (\<forall>(vmid, c) \<in> set m. VMID c = vmid)"

lemma keyed_update: "keyed m \<Longrightarrow> VMID c = k \<Longrightarrow> keyed (AList.update k c m)"
  using alist_set_update [of k c m] by (auto simp: keyed_def)

lemma config_line_VMID: "VMID (config_line l c) = VMID c"
  by (simp add: config_line_def Let_def split: option.splits prod.splits)

lemma parseVMConfig_VMID: "VMID (parseVMConfig vmid data) = vmid"
proof -
  have "VMID (fold config_line ls c) = VMID c" for ls c
    by (induction ls arbitrary: c) (simp_all add: config_line_VMID)
  then show ?thesis by (simp add: parseVMConfig_def Let_def split: option.split)
qed

lemma parse_confs_keyed: "keyed m \<Longrightarrow> keyed (parse_confs fs m)"
  by (induction fs m rule: parse_confs.induct) (simp_all add: keyed_update parseVMConfig_VMID)

lemma load_sources_keyed: "load_sources cfg decode src = Inr (m, t) \<Longrightarrow> keyed m"
proof -
  have yaml: "keyed m" if "load_loop [] vms = Inr m" for vms
    using load_loop_ok [OF _ that] by (auto simp: inventory_ok_def vm_ok_def keyed_def)
  show "load_sources cfg decode src = Inr (m, t) \<Longrightarrow> keyed m"
    using yaml parse_confs_keyed [of "[]"]
    by (auto simp: load_sources_def LoadYAML_def ParseVMConfigs_def keyed_def [of "[]"]
        split: if_splits sum.splits option.splits conf_listing.splits)
qed

lemma findVMConfigByMAC_find:
  assumes "keyed m" "ToLower (TrimSpace (ToLower (TrimSpace mac))) = ToLower (TrimSpace mac)"
  shows "findVMConfigByMAC m mac =
    (case find (\<lambda>(vmid, vm). has_mac mac vm) m of
       Some (vmid, vm) \<Rightarrow> if vmid \<noteq> [] then Some vm else None | None \<Rightarrow> None)"
proof -
  have same: "has_mac (ToLower (TrimSpace mac)) = has_mac mac"
    using assms(2) by (simp add: has_mac_def fun_eq_iff)
  show ?thesis
  proof (cases "find (\<lambda>(vmid, vm). has_mac mac vm) m")
    case (Some p)
    obtain v c where p: "p = (v, c)" by (cases p)
    then have "(v, c) \<in> set m" using Some by (auto simp: find_Some_iff set_conv_nth intro: sym)
    then have "map_of m v = Some c" using assms(1) by (simp add: keyed_def)
    with Some p show ?thesis by (simp add: findVMConfigByMAC_def GetVMIDByMAC_find same)
  qed (simp add: findVMConfigByMAC_def GetVMIDByMAC_find same)
qed

text \<open>What the first owner of a MAC in the map is.\<close>

lemma first_owner:
  assumes "keyed m"
  shows "find (\<lambda>(vmid, vm). has_mac mac vm) m = Some (v, c) \<Longrightarrow> (v, c) \<in> set m \<and> VMID c = v \<and> has_mac mac c"
    and "find (\<lambda>(vmid, vm). has_mac mac vm) m = None \<Longrightarrow> \<forall>(v, c) \<in> set m. \<not> has_mac mac c"
    and "(v, c) \<in> set m \<Longrightarrow> (v, c') \<in> set m \<Longrightarrow> c = c'"
proof -
  show "find (\<lambda>(vmid, vm). has_mac mac vm) m = Some (v, c) \<Longrightarrow> (v, c) \<in> set m \<and> VMID c = v \<and> has_mac mac c"
    using assms by (auto simp: find_Some_iff keyed_def set_conv_nth intro: sym)
  show "find (\<lambda>(vmid, vm). has_mac mac vm) m = None \<Longrightarrow> \<forall>(v, c) \<in> set m. \<not> has_mac mac c"
    by (auto simp: find_None_iff)
  show "(v, c) \<in> set m \<Longrightarrow> (v, c') \<in> set m \<Longrightarrow> c = c'"
    using assms by (auto simp: keyed_def dest: eq_key_imp_eq_value)
qed

lemma fields_loop_no_sep: "w \<in> set (fields_loop p acc s) \<Longrightarrow> \<forall>c \<in> set acc. \<not> p c \<Longrightarrow> \<forall>c \<in> set w. \<not> p c"
  by (induction p acc s rule: fields_loop.induct) (auto split: if_splits)

lemma TrimSpace_spaceless: "\<forall>c \<in> set s. \<not> is_space c \<Longrightarrow> TrimSpace s = s"
proof -
  assume ns: "\<forall>c \<in> set s. \<not> is_space c"
  have "dropWhile is_space xs = xs" if "\<forall>c \<in> set xs. \<not> is_space c" for xs
    using that by (cases xs) auto
  from this [of s] this [of "rev s"] ns show ?thesis by (simp add: TrimSpace_def)
qed

lemma arp_field_trim:
  assumes "row \<in> set (arp_rows data)" "i < length row"
  shows "TrimSpace (row ! i) = row ! i" "TrimSpace (ToLower (row ! i)) = ToLower (row ! i)"
proof -
  have "\<forall>c \<in> set (row ! i). \<not> is_space c"
    using assms by (auto simp: arp_rows_def Fields_def FieldsFunc_def dest!: nth_mem fields_loop_no_sep)
  moreover from this have "\<forall>c \<in> set (ToLower (row ! i)). \<not> is_space c"
    by (auto simp: ToLower_def)
  ultimately show "TrimSpace (row ! i) = row ! i" "TrimSpace (ToLower (row ! i)) = ToLower (row ! i)"
    by (simp_all add: TrimSpace_spaceless)
qed

text \<open>
  What a server goes through: the load at the start and on a signal, which is unconditional,
  and the checks of the poller.
\<close>

datatype reload = Forced moment | Poll moment

fun moment_of :: "reload \<Rightarrow> moment" where
  "moment_of (Forced e) = e"
| "moment_of (Poll e) = e"

fun reload_step ::
  "(string \<Rightarrow> 'f) \<Rightarrow> MDSConfig \<Rightarrow> (string \<Rightarrow> fileVM list option) \<Rightarrow> reload \<Rightarrow> 'f Server \<Rightarrow> 'f Server" where
  "reload_step hash cfg decode (Forced e) s = snd (reloadNow hash cfg decode e s)"
| "reload_step hash cfg decode (Poll e) s = snd (reloadIfChanged hash cfg decode e s)"

definition serving ::
  "(string \<Rightarrow> 'f) \<Rightarrow> MDSConfig \<Rightarrow> (string \<Rightarrow> fileVM list option) \<Rightarrow> reload list \<Rightarrow> 'f Server" where
  "serving hash cfg decode evs = fold (reload_step hash cfg decode) evs newServer"

lemma serving_snoc: "serving hash cfg decode (evs @ [ev]) = reload_step hash cfg decode ev (serving hash cfg decode evs)"
  by (simp add: serving_def)

lemma Refresh_keyed:
  "keyed (vmConfigCache s) \<Longrightarrow> keyed (vmConfigCache (snd (RefreshVMConfigCache cfg decode src now s)))"
  using load_sources_keyed [of cfg decode src]
  by (auto simp: RefreshVMConfigCache_def recordInventoryLoadSuccess_def recordInventoryLoadFailure_def
      split: sum.split prod.split)

lemma serving_keyed: "keyed (vmConfigCache (serving hash cfg decode evs))"
proof (induction evs rule: rev_induct)
  case Nil
  show ?case by (simp add: serving_def newServer_def keyed_def)
next
  case (snoc ev evs)
  then show ?case
    by (cases ev) (simp_all add: serving_snoc reloadNow_def reloadIfChanged_def Let_def Refresh_keyed)
qed

lemma binding_cases:
  assumes keyed: "keyed m"
  shows "(case find (arp_row_for ip) (arp_rows data) of
      None \<Rightarrow> extractVMConfig m (Some data) (Some ip) = Inr None
    | Some row \<Rightarrow>
        (length row \<le> 5 \<longleftrightarrow> extractVMConfig m (Some data) (Some ip) = Inl ()) \<and>
        (\<forall>vm. extractVMConfig m (Some data) (Some ip) = Inr (Some vm) \<longrightarrow>
           (VMID vm, vm) \<in> set m \<and> VMID vm \<noteq> [] \<and> has_mac (row ! 3) vm) \<and>
        (\<forall>vm. 5 < length row \<and> (VMID vm, vm) \<in> set m \<and> VMID vm \<noteq> [] \<and> has_mac (row ! 3) vm \<and>
           (\<forall>(v, c) \<in> set m. has_mac (row ! 3) c \<longrightarrow> v = VMID vm) \<longrightarrow>
           extractVMConfig m (Some data) (Some ip) = Inr (Some vm)))"
proof (cases "find (arp_row_for ip) (arp_rows data)")
  case None
  then show ?thesis by (simp add: extractVMConfig_def getMACFromARP_find)
next
  case (Some row)
  have row: "row \<in> set (arp_rows data)" "4 \<le> length row"
    using Some by (auto simp: find_Some_iff arp_row_for_def)
  let ?mac = "ToLower (row ! 3)"
  have ne: "?mac \<noteq> []" using arp_rows_ne [OF row(1), of 3] row(2) by simp
  have trim: "TrimSpace (row ! 3) = row ! 3" "TrimSpace ?mac = ?mac"
    using arp_field_trim [OF row(1), of 3] row(2) by simp_all
  have bound: "extractVMConfig m (Some data) (Some ip) =
      (if length row \<le> 5 then Inl () else Inr (findVMConfigByMAC m ?mac))"
    using Some ne by (simp add: extractVMConfig_def getMACFromARP_find)
  have same: "has_mac ?mac = has_mac (row ! 3)" by (simp add: has_mac_def trim fun_eq_iff)
  have found: "findVMConfigByMAC m ?mac =
      (case find (\<lambda>(vmid, vm). has_mac (row ! 3) vm) m of
         Some (vmid, vm) \<Rightarrow> if vmid \<noteq> [] then Some vm else None | None \<Rightarrow> None)"
    using findVMConfigByMAC_find [OF keyed, of ?mac] by (simp add: trim same)
  show ?thesis
  proof (cases "find (\<lambda>(vmid, vm). has_mac (row ! 3) vm) m")
    case None
    with first_owner(2) [OF keyed None] show ?thesis
      by (auto simp: Some bound found)
  next
    case own: (Some p)
    obtain v c where p: "p = (v, c)" by (cases p)
    with own first_owner(1) [OF keyed, of "row ! 3" v c]
    have vc: "(v, c) \<in> set m" "VMID c = v" "has_mac (row ! 3) c" by simp_all
    from vc(1) have uniq: "c = c'" if "(v, c') \<in> set m" for c'
      using first_owner(3) [OF keyed] that by blast
    have e: "extractVMConfig m (Some data) (Some ip) =
        (if length row \<le> 5 then Inl () else Inr (if v \<noteq> [] then Some c else None))"
      by (simp add: bound found own p)
    have sound: "(VMID vm, vm) \<in> set m \<and> VMID vm \<noteq> [] \<and> has_mac (row ! 3) vm"
      if "extractVMConfig m (Some data) (Some ip) = Inr (Some vm)" for vm
      using that vc by (simp add: e split: if_splits)
    have complete: "extractVMConfig m (Some data) (Some ip) = Inr (Some vm)"
      if "5 < length row" "(VMID vm, vm) \<in> set m" "VMID vm \<noteq> []"
        "\<forall>(v, c) \<in> set m. has_mac (row ! 3) c \<longrightarrow> v = VMID vm" for vm
    proof -
      from that(4) vc(1, 3) have "v = VMID vm" by auto
      with uniq [of vm] that e show ?thesis by simp
    qed
    have "length row \<le> 5 \<longleftrightarrow> extractVMConfig m (Some data) (Some ip) = Inl ()"
      by (simp add: e)
    with sound complete show ?thesis unfolding Some option.case by blast
  qed
qed

lemma bound_owner:
  assumes "keyed m" "extractVMConfig m (Some data) (Some ip) = Inr (Some vm)"
  shows "\<exists>row. find (arp_row_for ip) (arp_rows data) = Some row \<and> (VMID vm, vm) \<in> set m \<and> VMID vm \<noteq> [] \<and> has_mac (row ! 3) vm"
proof (cases "find (arp_row_for ip) (arp_rows data)")
  case None
  with binding_cases [OF assms(1), where ip = ip and data = data] assms(2) show ?thesis by simp
next
  case (Some row)
  from binding_cases [OF assms(1), where ip = ip and data = data, unfolded Some option.case, THEN conjunct2, THEN conjunct1, THEN spec, THEN mp, OF assms(2)]
  show ?thesis using Some by simp
qed

text \<open>
  C24: Which VM a connection is bound to. On a server after any sequence of loads and reloads, with
  an ARP table that can be read: a caller without a complete row for its address is bound to no
  VM; a VM that a caller is bound to is one of the inventory, has an id, and owns the MAC of the
  first complete row for the caller's address; and when such a VM alone has that MAC, the caller
  is bound to it. A first complete row with fewer than six fields stops the service.
\<close>

theorem caller_binding:
  assumes "s = serving hash cfg decode evs"
  shows "(case find (arp_row_for ip) (arp_rows data) of
      None \<Rightarrow> extractVMConfig (vmConfigCache s) (Some data) (Some ip) = Inr None
    | Some row \<Rightarrow>
        (length row \<le> 5 \<longleftrightarrow> extractVMConfig (vmConfigCache s) (Some data) (Some ip) = Inl ()) \<and>
        (\<forall>vm. extractVMConfig (vmConfigCache s) (Some data) (Some ip) = Inr (Some vm) \<longrightarrow>
           (VMID vm, vm) \<in> set (vmConfigCache s) \<and> VMID vm \<noteq> [] \<and> has_mac (row ! 3) vm) \<and>
        (\<forall>vm. 5 < length row \<and> (VMID vm, vm) \<in> set (vmConfigCache s) \<and> VMID vm \<noteq> [] \<and> has_mac (row ! 3) vm \<and>
           (\<forall>(v, c) \<in> set (vmConfigCache s). has_mac (row ! 3) c \<longrightarrow> v = VMID vm) \<longrightarrow>
           extractVMConfig (vmConfigCache s) (Some data) (Some ip) = Inr (Some vm)))"
  by (rule binding_cases) (simp add: assms serving_keyed)

definition sampleServerConfig :: MDSConfig where
  "sampleServerConfig = DefaultConfig\<lparr>InventoryPath := ''/etc/vtpm-mds/vms.yaml''\<rparr>"

definition sampleSources :: sources where
  "sampleSources = \<lparr>src_yaml = Content ''vms:'', src_pve = sampleFS\<rparr>"

definition sampleMoment :: moment where
  "sampleMoment = \<lparr>at_check = sampleSources, at_load = sampleSources, at_time = 0\<rparr>"

definition sampleCache :: VMConfigMap where
  "sampleCache = [(''101'', \<lparr>VMID = ''101'', Name = ''web'',
     RawConfig = [(''name'', ''web''), (''public-ipv4'', ''203.0.113.7'')],
     Tags = [(''env'', ''prod'')], MACs = [''bc:24:11:00:00:01''], EKSHA256 = ''''\<rparr>)]"

definition sampleServing :: "string Server" where
  "sampleServing = serving (\<lambda>s. s) sampleServerConfig (\<lambda>d. Some sampleFile) [Forced sampleMoment]"

lemma sampleLoad: "load_sources sampleServerConfig (\<lambda>d. Some sampleFile) sampleSources = Inr (sampleCache, DefaultTopology)"
proof -
  have "LoadYAML (\<lambda>d. Some sampleFile) (Some ''vms:'') = Inr sampleCache"
    unfolding sampleFile_def sampleCache_def by code_simp
  then show ?thesis
    by (simp add: load_sources_def sampleServerConfig_def sampleSources_def)
qed

lemma sampleServing_cache: "vmConfigCache sampleServing = sampleCache"
  by (simp add: sampleServing_def serving_def reloadNow_def RefreshVMConfigCache_def sampleMoment_def sampleLoad
      recordInventoryLoadSuccess_def)

definition sampleArp :: string where
  "sampleArp = ''IP address       HW type     Flags       HW address            Mask     Device'' @ newline
     @ ''192.0.2.7        0x1         0x2         BC:24:11:00:00:01     *        vmbr_imds'' @ newline"

theorem caller_binding_witness:
  "extractVMConfig (vmConfigCache sampleServing) (Some sampleArp) (Some ''192.0.2.7'') = Inr (Some (snd (hd sampleCache)))"
proof -
  have row: "find (arp_row_for ''192.0.2.7'') (arp_rows sampleArp) =
      Some [''192.0.2.7'', ''0x1'', ''0x2'', ''BC:24:11:00:00:01'', ''*'', ''vmbr_imds'']"
    unfolding sampleArp_def newline_def by code_simp
  have own: "has_mac ''BC:24:11:00:00:01'' (snd (hd sampleCache))"
    unfolding sampleCache_def has_mac_def by code_simp
  show ?thesis
    using caller_binding [OF sampleServing_def, where ip = "''192.0.2.7''" and data = sampleArp,
        unfolded row option.case, THEN conjunct2, THEN conjunct2, THEN spec, of "snd (hd sampleCache)"] own
    unfolding sampleServing_cache by (simp add: sampleCache_def)
qed

subsection \<open>The inventory follows its sources\<close>

text \<open>What the fingerprint digests.\<close>

definition digested :: "MDSConfig \<Rightarrow> sources \<Rightarrow> fp_input list" where
  "digested cfg src =
     (if InventoryPath cfg \<noteq> [] then [AddFile (InventoryPath cfg) (src_yaml src)] else source_inputs (src_pve src))"

lemma inventoryFingerprint_digested: "inventoryFingerprint hash cfg src = hash (fp_stream (digested cfg src))"
  by (simp add: inventoryFingerprint_def digested_def YAMLFingerprint_def SourceFingerprint_def)

lemma digested_covers:
  assumes "root (src_pve a) = root (src_pve b)" "digested cfg a = digested cfg b"
  shows "load_sources cfg decode a = load_sources cfg decode b"
proof (cases "InventoryPath cfg = []")
  case True
  then have "src_pve a = src_pve b" using assms source_inputs_inj by (simp add: digested_def)
  with True show ?thesis by (cases "ParseVMConfigs (src_pve b)") (simp_all add: load_sources_def)
next
  case False
  then have "src_yaml a = src_yaml b" using assms by (simp add: digested_def)
  with False show ?thesis by (simp add: load_sources_def)
qed

text \<open>What a load leaves, by its outcome.\<close>

definition in_step :: "load_error + VMConfigMap \<times> Topology \<Rightarrow> 'f Server \<Rightarrow> bool" where
  "in_step loaded s =
     (case loaded of
        Inl e \<Rightarrow> lastErrorClass s = errClassInventoryLoadFailed
      | Inr (m, t) \<Rightarrow> vmConfigCache s = m \<and> srvTopology s = t \<and> inventoryLoaded s \<and> vmCount s = length m
                     \<and> lastErrorClass s = [])"

lemma Refresh_in_step: "in_step (load_sources cfg decode src) (snd (RefreshVMConfigCache cfg decode src now s))"
  by (auto simp: in_step_def RefreshVMConfigCache_def recordInventoryLoadSuccess_def recordInventoryLoadFailure_def
      split: sum.split prod.split)

lemma Refresh_keeps:
  assumes "load_sources cfg decode src = Inl e"
  shows "RefreshVMConfigCache cfg decode src now s = (Some e, s\<lparr>lastErrorClass := errClassInventoryLoadFailed\<rparr>)"
  using assms by (simp add: RefreshVMConfigCache_def recordInventoryLoadFailure_def)

lemma Refresh_fp: "poll_last (snd (RefreshVMConfigCache cfg decode src now s)) = poll_last s"
  by (simp add: RefreshVMConfigCache_def recordInventoryLoadSuccess_def recordInventoryLoadFailure_def
      split: sum.split prod.split)

interpretation reload: once_per_fingerprint
  "\<lambda>e. inventoryFingerprint hash cfg (at_check e)" poll_last
  "\<lambda>e s. snd (reloadNow hash cfg decode e s)" "\<lambda>e s. snd (reloadIfChanged hash cfg decode e s)"
  for hash :: "string \<Rightarrow> 'f" and cfg decode
  by unfold_locales (simp_all add: reloadNow_def reloadIfChanged_def Let_def Refresh_fp)

text \<open>A load is attempted once per distinct fingerprint: the polls of a run are the loads of its changes.\<close>

lemma polls_load_changes:
  "fold (\<lambda>e s. snd (reloadIfChanged hash cfg decode e s)) es s
   = fold (\<lambda>e s. snd (reloadNow hash cfg decode e s))
       (changes (\<lambda>e. inventoryFingerprint hash cfg (at_check e)) (poll_last s) es) s"
  by (rule reload.loads_are_changes)

lemma serving_noted:
  assumes "evs \<noteq> []"
  shows "poll_last (serving hash cfg decode evs) = Some (inventoryFingerprint hash cfg (at_check (moment_of (last evs))))"
proof -
  from assms obtain us ev where evs: "evs = us @ [ev]" by (cases evs rule: rev_cases) auto
  show ?thesis
    using reload.noted_check [of hash cfg decode] reload.notes_fp [of hash cfg decode]
    by (cases ev) (simp_all add: evs serving_snoc)
qed

text \<open>
  The sources lie under one root and do not change between a fingerprint and the load it is
  taken for, what is digested fits its length fields, and the digests do not collide.
\<close>

definition undisturbed :: "(string \<Rightarrow> 'f) \<Rightarrow> MDSConfig \<Rightarrow> string \<Rightarrow> reload list \<Rightarrow> bool" where
  "undisturbed hash cfg r evs \<longleftrightarrow>
     (\<forall>ev \<in> set evs. root (src_pve (at_check (moment_of ev))) = r
        \<and> at_load (moment_of ev) = at_check (moment_of ev)
        \<and> list_all fp_ok (digested cfg (at_check (moment_of ev))))
     \<and> inj_on hash ((\<lambda>ev. fp_stream (digested cfg (at_check (moment_of ev)))) ` set evs)"

lemma undisturbed_prefix: "undisturbed hash cfg r (us @ vs) \<Longrightarrow> undisturbed hash cfg r us"
  by (auto simp: undisturbed_def image_Un elim: inj_on_subset)

lemma undisturbed_same_load:
  assumes "undisturbed hash cfg r evs" "a \<in> set evs" "b \<in> set evs"
    and "inventoryFingerprint hash cfg (at_check (moment_of a)) = inventoryFingerprint hash cfg (at_check (moment_of b))"
  shows "load_sources cfg decode (at_check (moment_of a)) = load_sources cfg decode (at_check (moment_of b))"
proof (rule digested_covers)
  have "fp_stream (digested cfg (at_check (moment_of a))) = fp_stream (digested cfg (at_check (moment_of b)))"
    using assms by (auto simp: undisturbed_def inventoryFingerprint_digested dest: inj_onD)
  then show "digested cfg (at_check (moment_of a)) = digested cfg (at_check (moment_of b))"
    using assms by (intro fp_stream_injective) (simp_all add: undisturbed_def)
qed (use assms in \<open>simp add: undisturbed_def\<close>)

text \<open>A step either loads the sources of its event or finds the fingerprint it has noted.\<close>

lemma reload_step_cases:
  assumes "at_load (moment_of ev) = at_check (moment_of ev)"
  obtains (load) now s1 where "reload_step hash cfg decode ev s
      = snd (RefreshVMConfigCache cfg decode (at_check (moment_of ev)) now (s\<lparr>poll_last := s1\<rparr>))"
  | (skip) "reload_step hash cfg decode ev s = s"
      "poll_last s = Some (inventoryFingerprint hash cfg (at_check (moment_of ev)))"
proof (cases ev)
  case (Forced e)
  with assms load show ?thesis by (simp add: reloadNow_def)
next
  case (Poll e)
  show ?thesis
  proof (cases "poll_last s = Some (inventoryFingerprint hash cfg (at_check e))")
    case True
    with Poll skip show ?thesis by (simp add: reloadIfChanged_def Let_def)
  next
    case False
    with Poll assms load show ?thesis by (simp add: reloadIfChanged_def Let_def)
  qed
qed

lemma serving_in_step:
  assumes "undisturbed hash cfg r evs" "evs \<noteq> []"
  shows "in_step (load_sources cfg decode (at_check (moment_of (last evs)))) (serving hash cfg decode evs)"
  using assms
proof (induction evs rule: rev_induct)
  case (snoc ev evs)
  have "at_load (moment_of ev) = at_check (moment_of ev)" using snoc.prems(1) by (simp add: undisturbed_def)
  then show ?case
  proof (cases rule: reload_step_cases [where hash = hash and cfg = cfg and decode = decode and s = "serving hash cfg decode evs"])
    case (load now s1)
    then show ?thesis by (simp add: serving_snoc Refresh_in_step)
  next
    case skip
    then have ne: "evs \<noteq> []" by (auto simp: serving_def newServer_def)
    then have "load_sources cfg decode (at_check (moment_of ev)) = load_sources cfg decode (at_check (moment_of (last evs)))"
      using skip(2) serving_noted [OF ne, of hash cfg decode]
      by (intro undisturbed_same_load [OF snoc.prems(1)]) simp_all
    with skip(1) snoc.IH [OF undisturbed_prefix [OF snoc.prems(1)] ne] show ?thesis
      by (simp add: serving_snoc)
  qed
qed simp

text \<open>
  C25: The inventory follows its sources. On a server after any sequence of loads, signals and
  checks (the sources not changing between a fingerprint and its load, no collision of the
  digest): when the sources of the last event can be loaded, what is served is exactly what they
  hold, whether or not that event loaded anything, and no error is reported; when they cannot,
  the error is reported and the inventory, the topology and the count stay as they were.
\<close>

theorem inventory_follows_sources:
  assumes "undisturbed hash cfg r (evs @ [ev])"
    and "s = serving hash cfg decode evs" "s' = serving hash cfg decode (evs @ [ev])"
  shows "case load_sources cfg decode (at_check (moment_of ev)) of
       Inr (m, t) \<Rightarrow> vmConfigCache s' = m \<and> srvTopology s' = t \<and> inventoryLoaded s' \<and> vmCount s' = length m
         \<and> lastErrorClass s' = []
     | Inl e \<Rightarrow> lastErrorClass s' = errClassInventoryLoadFailed \<and> vmConfigCache s' = vmConfigCache s
         \<and> srvTopology s' = srvTopology s \<and> inventoryLoaded s' = inventoryLoaded s \<and> vmCount s' = vmCount s"
proof (cases "load_sources cfg decode (at_check (moment_of ev))")
  case (Inl e)
  have step: "in_step (Inl e) s'"
    using serving_in_step [OF assms(1), of decode] Inl assms(3) by simp
  have "at_load (moment_of ev) = at_check (moment_of ev)" using assms(1) by (simp add: undisturbed_def)
  then have "vmConfigCache s' = vmConfigCache s \<and> srvTopology s' = srvTopology s
      \<and> inventoryLoaded s' = inventoryLoaded s \<and> vmCount s' = vmCount s"
    by (cases rule: reload_step_cases [where hash = hash and cfg = cfg and decode = decode and s = s])
       (simp_all add: assms(2, 3) serving_snoc Refresh_keeps [OF Inl])
  with step Inl show ?thesis by (simp add: in_step_def)
next
  case (Inr mt)
  then show ?thesis
    using serving_in_step [OF assms(1), of decode] assms(3) by (simp add: in_step_def)
qed

theorem inventory_follows_sources_witness:
  "vmConfigCache (serving (\<lambda>s. s) sampleServerConfig (\<lambda>d. Some sampleFile) [Forced sampleMoment, Poll sampleMoment]) = sampleCache"
proof -
  have "undisturbed (\<lambda>s. s) sampleServerConfig (root sampleFS) ([Forced sampleMoment] @ [Poll sampleMoment])"
    by (simp add: undisturbed_def sampleMoment_def sampleSources_def digested_def sampleServerConfig_def)
  from inventory_follows_sources [OF this refl refl, of "\<lambda>d. Some sampleFile"] show ?thesis
    by (simp add: sampleLoad sampleMoment_def)
qed

subsection \<open>Health\<close>

text \<open>Requests to \<open>/health\<close>, each with the files as it finds them and its time.\<close>

fun health_runs :: "MDSConfig \<Rightarrow> (files \<times> time) list \<Rightarrow> 'f Server \<Rightarrow> 'f Server" where
  "health_runs cfg [] s = s"
| "health_runs cfg ((f, now) # rs) s = health_runs cfg rs (snd (readiness cfg f now s))"

text \<open>Only the cached answer about the CA changes, and it is the answer of one of the requests.\<close>

definition same_ready :: "'f Server \<Rightarrow> 'f Server \<Rightarrow> bool" where
  "same_ready s0 s \<longleftrightarrow> (\<exists>b c. s = s0\<lparr>caReadable := b, caCheckedAt := c\<rparr>)"

definition ca_from :: "MDSConfig \<Rightarrow> (files \<times> time) list \<Rightarrow> 'f Server \<Rightarrow> bool" where
  "ca_from cfg past s \<longleftrightarrow>
     (\<forall>t. caCheckedAt s = Some t \<longrightarrow> (\<exists>f. (f, t) \<in> set past \<and> caReadable s = checkDevIDCAReadable cfg f s))"

lemma check_same: "same_ready s0 s \<Longrightarrow> checkDevIDCAReadable cfg f s = checkDevIDCAReadable cfg f s0"
  by (auto simp: same_ready_def checkDevIDCAReadable_def)

lemma same_ready_refl: "same_ready s s"
  unfolding same_ready_def by (rule exI [of _ "caReadable s"], rule exI [of _ "caCheckedAt s"]) simp

lemma same_ready_trans:
  assumes "same_ready a b" "same_ready b c"
  shows "same_ready a c"
proof -
  from assms obtain b1 c1 b2 c2 where "b = a\<lparr>caReadable := b1, caCheckedAt := c1\<rparr>"
    "c = b\<lparr>caReadable := b2, caCheckedAt := c2\<rparr>"
    unfolding same_ready_def by blast
  then have "c = a\<lparr>caReadable := b2, caCheckedAt := c2\<rparr>" by simp
  then show ?thesis unfolding same_ready_def by blast
qed

lemma cached_answer:
  assumes "ca_from cfg past s" "devIDCAReadableCached cfg f now s = (ok, s')"
  shows "(\<exists>f' t. (f', t) \<in> set (past @ [(f, now)]) \<and> now - t < caReadableCacheTTL \<and> ok = checkDevIDCAReadable cfg f' s)
    \<and> same_ready s s' \<and> ca_from cfg (past @ [(f, now)]) s'"
proof (cases "\<exists>t. caCheckedAt s = Some t \<and> now - t < caReadableCacheTTL")
  case True
  then obtain t where t: "caCheckedAt s = Some t" "now - t < caReadableCacheTTL" by auto
  with assms(2) have "ok = caReadable s" "s' = s" by (auto simp: devIDCAReadableCached_def)
  with t assms(1) show ?thesis by (auto simp: ca_from_def same_ready_refl)
next
  case False
  then have "ok = checkDevIDCAReadable cfg f s" and s': "s' = s\<lparr>caReadable := ok, caCheckedAt := Some now\<rparr>"
    using assms(2) by (auto simp: devIDCAReadableCached_def Let_def split: option.splits if_splits)
  moreover have "checkDevIDCAReadable cfg f s' = checkDevIDCAReadable cfg f s"
    by (simp add: s' checkDevIDCAReadable_def)
  moreover have "now - now < caReadableCacheTTL" by (simp add: caReadableCacheTTL_def duration_simps)
  ultimately have "\<exists>f' t. (f', t) \<in> set (past @ [(f, now)]) \<and> now - t < caReadableCacheTTL \<and> ok = checkDevIDCAReadable cfg f' s"
    by (intro exI [of _ f] exI [of _ now]) simp
  moreover have "same_ready s s'" "ca_from cfg (past @ [(f, now)]) s'"
    using \<open>checkDevIDCAReadable cfg f s' = checkDevIDCAReadable cfg f s\<close> \<open>ok = checkDevIDCAReadable cfg f s\<close>
    by (auto simp: s' ca_from_def same_ready_def)
  ultimately show ?thesis by blast
qed

lemma readiness_step:
  assumes "ca_from cfg past s"
  shows "same_ready s (snd (readiness cfg f now s)) \<and> ca_from cfg (past @ [(f, now)]) (snd (readiness cfg f now s))"
proof (cases "EnableTPMAttestation cfg")
  case True
  obtain ok s' where c: "devIDCAReadableCached cfg f now s = (ok, s')" by (cases "devIDCAReadableCached cfg f now s")
  with True have "snd (readiness cfg f now s) = s'" by (simp add: readiness_def Let_def)
  with cached_answer [OF assms c] show ?thesis by simp
next
  case False
  then have "snd (readiness cfg f now s) = s" by (simp add: readiness_def Let_def)
  moreover have "ca_from cfg (past @ [(f, now)]) s" using assms by (fastforce simp: ca_from_def)
  ultimately show ?thesis by (simp add: same_ready_refl)
qed

lemma health_runs_inv:
  "ca_from cfg past s \<Longrightarrow> same_ready s (health_runs cfg rs s) \<and> ca_from cfg (past @ rs) (health_runs cfg rs s)"
proof (induction cfg rs s arbitrary: past rule: health_runs.induct)
  case (2 cfg f now rs s)
  from readiness_step [OF "2.prems"] "2.IH" [of "past @ [(f, now)]"] show ?case
    by (auto intro: same_ready_trans)
qed (simp add: same_ready_refl)

text \<open>
  C34: \<open>/health\<close> tells the truth and tells guests nothing else. After any sequence of requests to
  it the answer is a 200 whose status is \<open>ok\<close> exactly when an inventory was loaded, the last
  load did not fail and, where enrolment is switched on, the CA files were readable when some
  request less than five seconds before looked at them; a caller bound to a VM sees that word
  alone, and nothing but the cached look at the CA files changes.
\<close>

theorem health_is_honest:
  assumes "caCheckedAt s0 = None" "s = health_runs cfg past s0"
    and "handleHealth rfc cfg f now r newResponse s = (w, s')"
  shows "\<exists>ca word. (EnableTPMAttestation cfg \<longrightarrow> (\<exists>(f', t) \<in> set (past @ [(f, now)]).
        now - t < caReadableCacheTTL \<and> ca = checkDevIDCAReadable cfg f' s0))
    \<and> (word = ''ok'' \<longleftrightarrow> inventoryLoaded s0 \<and> lastErrorClass s0 = [] \<and> (EnableTPMAttestation cfg \<longrightarrow> ca))
    \<and> (word = ''ok'' \<or> word = ''degraded'') \<and> status w = 200
    \<and> (IsBound (VMConfigContext r) \<longrightarrow> Body w = [JSON (JObject [(''status'', JString word)])])
    \<and> (\<not> IsBound (VMConfigContext r) \<longrightarrow> (\<exists>rest. Body w = [JSON (JObject ((''status'', JString word) # rest))]))
    \<and> same_ready s0 s'"
proof -
  have "ca_from cfg [] s0" using assms(1) by (simp add: ca_from_def)
  then have inv: "same_ready s0 s" "ca_from cfg past s"
    using health_runs_inv [of cfg "[]" s0 past] assms(2) by simp_all
  obtain state info where rd: "readiness cfg f now s = ((state, info), s')"
    using assms(3) by (auto simp: handleHealth_def Let_def split: prod.splits if_splits)
  have kept: "inventoryLoaded s = inventoryLoaded s0" "lastErrorClass s = lastErrorClass s0"
    using inv(1) by (auto simp: same_ready_def)
  have "same_ready s0 s'" using readiness_step [OF inv(2), of f now] rd inv(1) same_ready_trans by auto
  moreover have head: "hd_Status info = state" and "state = ''ok'' \<or> state = ''degraded''"
    using rd by (auto simp: readiness_def Let_def split: prod.splits if_splits)
  moreover have "status w = 200"
    "IsBound (VMConfigContext r) \<longrightarrow> Body w = [JSON (JObject [(''status'', JString state)])]"
    "\<not> IsBound (VMConfigContext r) \<longrightarrow> (\<exists>rest. Body w = [JSON (JObject ((''status'', JString state) # rest))])"
    using assms(3) rd head
    by (auto simp: handleHealth_def Let_def status_def http_simps detail_json_def split: if_splits)
  moreover obtain ca where "(EnableTPMAttestation cfg \<longrightarrow> (\<exists>(f', t) \<in> set (past @ [(f, now)]).
        now - t < caReadableCacheTTL \<and> ca = checkDevIDCAReadable cfg f' s0))
    \<and> (state = ''ok'' \<longleftrightarrow> inventoryLoaded s0 \<and> lastErrorClass s0 = [] \<and> (EnableTPMAttestation cfg \<longrightarrow> ca))"
  proof (cases "EnableTPMAttestation cfg")
    case True
    obtain ok s1 where c: "devIDCAReadableCached cfg f now s = (ok, s1)" by (cases "devIDCAReadableCached cfg f now s")
    then have "state = ''ok'' \<longleftrightarrow> inventoryLoaded s0 \<and> lastErrorClass s0 = [] \<and> ok"
      using rd True kept by (auto simp: readiness_def Let_def errClassDevIDCAUnreadable_def split: if_splits)
    moreover have "\<exists>(f', t) \<in> set (past @ [(f, now)]). now - t < caReadableCacheTTL \<and> ok = checkDevIDCAReadable cfg f' s0"
      using cached_answer [OF inv(2) c] check_same [OF inv(1)] by auto
    ultimately show ?thesis using True that [of ok] by simp
  next
    case False
    then have "state = ''ok'' \<longleftrightarrow> inventoryLoaded s0 \<and> lastErrorClass s0 = []"
      using rd kept by (auto simp: readiness_def Let_def split: if_splits)
    with False that show ?thesis by simp
  qed
  ultimately show ?thesis by (intro exI [of _ ca] exI [of _ state]) blast
qed

definition sampleFiles :: files where
  "sampleFiles = \<lparr>CREDENTIALS_DIRECTORY = [], STATE_DIRECTORY = [], file_size = (\<lambda>p. None), can_open = (\<lambda>p. True)\<rparr>"

definition sampleHealthRequest :: Request where
  "sampleHealthRequest = \<lparr>Method = ''GET'', Path = ''/health'', Host = [], RemoteAddr = [], Header = [], PathValues = [],
     VMConfigContext = Some (snd (hd sampleCache))\<rparr>"

theorem health_is_honest_witness:
  "Body (fst (handleHealth (\<lambda>t. []) sampleServerConfig sampleFiles 0 sampleHealthRequest newResponse sampleServing))
    = [JSON (JObject [(''status'', JString ''degraded'')])]"
proof -
  have s: "caCheckedAt sampleServing = None" "devid_set sampleServing = False"
    by (simp_all add: sampleServing_def serving_def reloadNow_def RefreshVMConfigCache_def sampleMoment_def sampleLoad
        recordInventoryLoadSuccess_def newServer_def)
  have "\<not> checkDevIDCAReadable sampleServerConfig sampleFiles sampleServing" "EnableTPMAttestation sampleServerConfig"
    by (simp_all add: checkDevIDCAReadable_def s sampleServerConfig_def DefaultConfig_def)
  moreover have "IsBound (VMConfigContext sampleHealthRequest)"
    by (simp add: IsBound_def sampleHealthRequest_def sampleCache_def)
  ultimately show ?thesis
    using health_is_honest [where rfc = "\<lambda>t. []" and cfg = sampleServerConfig and f = sampleFiles and now = 0
        and r = sampleHealthRequest, OF s(1) health_runs.simps(1) [symmetric] prod.collapse [symmetric]]
    by auto
qed

end
