(* ===== verification/Service.thy ===== *)
theory Service
  imports Server
begin

text \<open>
  The composition of the service: the CA from its PEM files (\<open>internal/devid/ca.go\<close>), the
  enroller from the configuration, the routes and the chain of handlers
  (\<open>internal/server/server.go\<close>).

  Parsing of PEM and of keys is a parameter, \<open>ca_lib\<close>. The multiplexer of \<open>net/http\<close> is written
  out for paths without percent escapes: patterns with a method, literal segments, one-segment
  wildcards, \<open>{$}\<close> and trailing slashes; the clean-up of paths and the redirect to a path with a
  trailing slash.

  The theorems: which key material makes a CA; that enrolment starts only with a usable CA and
  lifetime and reads the pins of the current inventory; and that no route answers a caller
  without a token with anything but a refusal, a redirect or \<open>/health\<close>.
\<close>

subsection \<open>The CA\<close>

text \<open>
  \<open>pem_blocks\<close> are the type and the bytes of the blocks that repeated \<open>pem.Decode\<close> finds;
  \<open>signer_public\<close> is the public half of a private key, \<open>None\<close> for a key that is no signer.
\<close>

record 'k ca_lib =
  pem_blocks :: "string \<Rightarrow> (string \<times> string) list"
  cert_IsCA :: "Certificate \<Rightarrow> bool"
  ParsePKCS8 :: "string \<Rightarrow> 'k option"
  ParsePKCS1 :: "string \<Rightarrow> 'k option"
  signer_public :: "'k \<Rightarrow> PublicKey option"

datatype ca_error =
    ReadCACert
  | ReadCAKey
  | ParseCACert
  | NoCACert
  | NotACA
  | ParseCAKey
  | NoCAKey
  | KeyMismatch

fun first_cert :: "lib \<Rightarrow> (string \<times> string) list \<Rightarrow> ca_error + Certificate option" where
  "first_cert L [] = Inr None"
| "first_cert L ((typ, bytes) # blocks) =
     (if typ \<noteq> ''CERTIFICATE'' then first_cert L blocks
      else case x509_ParseCertificate L bytes of None \<Rightarrow> Inl ParseCACert | Some c \<Rightarrow> Inr (Some c))"

fun key_loop :: "'k ca_lib \<Rightarrow> (string \<times> string) list \<Rightarrow> 'k option \<Rightarrow> ca_error + 'k option" where
  "key_loop P [] key = Inr key"
| "key_loop P ((typ, bytes) # blocks) key =
     (if typ = ''PRIVATE KEY''
      then (case ParsePKCS8 P bytes of None \<Rightarrow> Inl ParseCAKey | Some k \<Rightarrow> key_loop P blocks (Some k))
      else if typ = ''RSA PRIVATE KEY''
      then (case ParsePKCS1 P bytes of None \<Rightarrow> Inl ParseCAKey | Some k \<Rightarrow> key_loop P blocks (Some k))
      else key_loop P blocks key)"

definition publicKeysEqual :: "lib \<Rightarrow> 'k ca_lib \<Rightarrow> PublicKey option \<Rightarrow> 'k \<Rightarrow> bool" where
  "publicKeysEqual L P pub priv =
     (case signer_public P priv of
        None \<Rightarrow> False
      | Some own \<Rightarrow>
          (case (Option.bind pub (MarshalPKIXPublicKey L), MarshalPKIXPublicKey L own) of
             (Some want, Some got) \<Rightarrow> want = got
           | _ \<Rightarrow> False))"

text \<open>The key itself is the second component; \<open>CA\<close> of the signing code holds the certificate.\<close>

definition ParseCA :: "lib \<Rightarrow> 'k ca_lib \<Rightarrow> string \<Rightarrow> string \<Rightarrow> ca_error + CA \<times> 'k" where
  "ParseCA L P certPEM keyPEM =
     (case first_cert L (pem_blocks P certPEM) of
        Inl e \<Rightarrow> Inl e
      | Inr None \<Rightarrow> Inl NoCACert
      | Inr (Some cert) \<Rightarrow>
          if \<not> cert_IsCA P cert then Inl NotACA
          else (case key_loop P (pem_blocks P keyPEM) None of
                  Inl e \<Rightarrow> Inl e
                | Inr None \<Rightarrow> Inl NoCAKey
                | Inr (Some key) \<Rightarrow>
                    if \<not> publicKeysEqual L P (CertPublicKey cert) key then Inl KeyMismatch
                    else Inr (\<lparr>ca_cert = cert, Lifetime = 0\<rparr>, key)))"

text \<open>\<open>read\<close> is \<open>os.ReadFile\<close>.\<close>

definition LoadCA :: "lib \<Rightarrow> 'k ca_lib \<Rightarrow> (string \<Rightarrow> string option) \<Rightarrow> string \<Rightarrow> string \<Rightarrow> ca_error + CA \<times> 'k" where
  "LoadCA L P read certPath keyPath =
     (case read certPath of
        None \<Rightarrow> Inl ReadCACert
      | Some certPEM \<Rightarrow>
          (case read keyPath of
             None \<Rightarrow> Inl ReadCAKey
           | Some keyPEM \<Rightarrow> ParseCA L P certPEM keyPEM))"

subsection \<open>The enroller\<close>

definition inventoryPins :: "VMConfigMap \<Rightarrow> (string \<times> string) list" where
  "inventoryPins cache =
     map (\<lambda>(vmid, vm). (vmid, EKSHA256 vm)) (filter (\<lambda>(vmid, vm). EKSHA256 vm \<noteq> []) cache)"

definition ekPinDir :: "files \<Rightarrow> string" where
  "ekPinDir f =
     (if STATE_DIRECTORY f \<noteq> []
      then filepath_Join [takeWhile (\<lambda>c. c \<noteq> CHR '':'') (STATE_DIRECTORY f), ''ek-pins'']
      else filepath_Join [filepath_Dir (JWKSPath DefaultConfig), ''ek-pins''])"

text \<open>\<open>x509.CertPool\<close>: the empty pool, the pool of the certificates in a PEM file, of one certificate.\<close>

record pool_lib =
  NewCertPool :: string
  AppendCertsFromPEM :: "string \<Rightarrow> string option"
  AddCert :: "Certificate \<Rightarrow> string"

datatype enroller_error =
    StatCACert
  | StatCAKey
  | CAError ca_error
  | ParseLifetime
  | InvalidLifetime
  | ReadChain
  | NoChainCerts
  | ParseChainCert

definition load_ek_roots ::
  "lib \<Rightarrow> 'k ca_lib \<Rightarrow> pool_lib \<Rightarrow> (string \<Rightarrow> string option) \<Rightarrow> MDSConfig \<Rightarrow> enroller_error + string" where
  "load_ek_roots L P R read cfg =
     (if EKCAChain cfg = [] then Inr (NewCertPool R)
      else case read (EKCAChain cfg) of
        None \<Rightarrow> Inl ReadChain
      | Some pemBytes \<Rightarrow>
          (case AppendCertsFromPEM R pemBytes of
             Some pool \<Rightarrow> Inr pool
           | None \<Rightarrow>
               (case pem_blocks P pemBytes of
                  [] \<Rightarrow> Inl NoChainCerts
                | (typ, bytes) # _ \<Rightarrow>
                    (case x509_ParseCertificate L bytes of
                       None \<Rightarrow> Inl ParseChainCert
                     | Some cert \<Rightarrow> Inr (AddCert R cert)))))"

text \<open>
  The pins an enroller reads, for the inventory as it is at that moment: the configuration is
  fixed at the start, \<open>InventoryPins\<close> is called anew by each request.
\<close>

definition pins_of :: "MDSConfig \<Rightarrow> files \<Rightarrow> VMConfigMap \<Rightarrow> pin_config" where
  "pins_of cfg f cache =
     \<lparr>PinDir = ekPinDir f, InventoryPins = Some (inventoryPins cache),
      ClusterPinDir = (if InventoryPath cfg = [] then cfg_ClusterPinDir cfg else []),
      RequireClusterPin = cfg_RequireClusterPin cfg,
      GuestConfigRoot = (if InventoryPath cfg = [] then filepath_Join [''/etc/pve'', ''nodes''] else [])\<rparr>"

definition loadDevIDEnroller ::
  "lib \<Rightarrow> 'k ca_lib \<Rightarrow> pool_lib \<Rightarrow> (string \<Rightarrow> duration option) \<Rightarrow> (string \<Rightarrow> string option) \<Rightarrow> MDSConfig \<Rightarrow> files
    \<Rightarrow> VMConfigMap \<Rightarrow> enroller_error + Enroller option" where
  "loadDevIDEnroller L P R ParseDuration read cfg f cache =
     (let certPath = DevIDCACert cfg; keyPath = ca_key_path cfg f in
      if certPath = [] \<or> keyPath = [] then Inr None
      else if file_size f certPath = None then Inl StatCACert
      else if file_size f keyPath = None then Inl StatCAKey
      else case LoadCA L P read certPath keyPath of
        Inl e \<Rightarrow> Inl (CAError e)
      | Inr (ca, key) \<Rightarrow>
          (let lifetimeStr = (if DevIDLifetime cfg = [] then DevIDLifetime DefaultConfig else DevIDLifetime cfg) in
           case ParseDuration lifetimeStr of
             None \<Rightarrow> Inl ParseLifetime
           | Some lifetime \<Rightarrow>
               if lifetime \<le> 0 \<or> lifetime > MaxDevIDLifetime then Inl InvalidLifetime
               else (case load_ek_roots L P R read cfg of
                       Inl e \<Rightarrow> Inl e
                     | Inr pool \<Rightarrow>
                         Inr (Some \<lparr>E_CA = ca\<lparr>Lifetime := lifetime\<rparr>, E_Roots = Some pool, E_Pins = pins_of cfg f cache\<rparr>))))"

subsection \<open>The multiplexer\<close>

text \<open>
  A pattern is an optional method and segments: literals (\<open>{$}\<close> is the literal \<open>/\<close>), one-segment
  wildcards, and a last segment that matches any rest (a trailing slash). A route keeps its
  segments, because the redirect needs them.
\<close>

datatype seg = Lit string | Wild string | Multi

record 'h route =
  r_method :: string
  r_segs :: "seg list"
  r_handler :: 'h

fun pattern_segs :: "string list \<Rightarrow> seg list" where
  "pattern_segs [] = []"
| "pattern_segs [s] =
     (if s = [] then [Multi] else if s = ''{$}'' then [Lit ''/'']
      else if HasPrefix s ''{'' then [Wild (butlast (tl s))] else [Lit s])"
| "pattern_segs (s # t # ss) =
     (if HasPrefix s ''{'' then Wild (butlast (tl s)) else Lit s) # pattern_segs (t # ss)"

definition route :: "string \<Rightarrow> 'h \<Rightarrow> 'h route" where
  "route pattern h =
     (case Cut pattern CHR '' '' of
        (m, p, True) \<Rightarrow> \<lparr>r_method = m, r_segs = pattern_segs (tl (split_at_char CHR ''/'' p)), r_handler = h\<rparr>
      | (p, _, False) \<Rightarrow> \<lparr>r_method = [], r_segs = pattern_segs (tl (split_at_char CHR ''/'' p)), r_handler = h\<rparr>)"

text \<open>The segments of a path; a trailing slash is a segment of its own.\<close>

fun trailing :: "string list \<Rightarrow> string list" where
  "trailing [] = []"
| "trailing [s] = (if s = [] then [''/''] else [s])"
| "trailing (s # t # ss) = s # trailing (t # ss)"

definition path_segs :: "string \<Rightarrow> string list" where
  "path_segs path = trailing (tl (split_at_char CHR ''/'' path))"

text \<open>
  The tree of patterns, as the list of those that still fit: what is left of each, the wildcards
  it has bound, and its route. A literal is preferred to a wildcard, and both to a trailing slash.
\<close>

type_synonym 'h node = "(seg list \<times> (string \<times> string) list \<times> 'h route) list"

fun lit_child :: "string \<Rightarrow> 'h node \<Rightarrow> 'h node" where
  "lit_child s [] = []"
| "lit_child s ((p, bs, r) # n) =
     (case p of Lit l # p' \<Rightarrow> if l = s then (p', bs, r) # lit_child s n else lit_child s n | _ \<Rightarrow> lit_child s n)"

fun wild_child :: "string \<Rightarrow> 'h node \<Rightarrow> 'h node" where
  "wild_child s [] = []"
| "wild_child s ((p, bs, r) # n) =
     (case p of Wild v # p' \<Rightarrow> (p', bs @ [(v, s)], r) # wild_child s n | _ \<Rightarrow> wild_child s n)"

definition leaf :: "seg list \<Rightarrow> 'h node \<Rightarrow> ('h route \<times> (string \<times> string) list) option" where
  "leaf p n = (case find (\<lambda>(q, _). q = p) n of Some (_, bs, r) \<Rightarrow> Some (r, bs) | None \<Rightarrow> None)"

fun matchPath :: "'h node \<Rightarrow> string list \<Rightarrow> ('h route \<times> (string \<times> string) list) option" where
  "matchPath n [] = leaf [] n"
| "matchPath n (s # rest) =
     (case matchPath (lit_child s n) rest of
        Some x \<Rightarrow> Some x
      | None \<Rightarrow>
          (case (if s \<noteq> ''/'' then matchPath (wild_child s n) rest else None) of
             Some x \<Rightarrow> Some x
           | None \<Rightarrow> leaf [Multi] n))"

definition tree :: "'h route list \<Rightarrow> string \<Rightarrow> 'h node" where
  "tree rs m = map (\<lambda>r. (r_segs r, [], r)) (filter (\<lambda>r. r_method r = m) rs)"

definition mux_match :: "'h route list \<Rightarrow> string \<Rightarrow> string \<Rightarrow> ('h route \<times> (string \<times> string) list) option" where
  "mux_match rs method path =
     (let segs = path_segs path in
      case matchPath (tree rs method) segs of
        Some x \<Rightarrow> Some x
      | None \<Rightarrow>
          (case (if method = ''HEAD'' then matchPath (tree rs ''GET'') segs else None) of
             Some x \<Rightarrow> Some x
           | None \<Rightarrow> matchPath (tree rs []) segs))"

definition exactMatch :: "('h route \<times> (string \<times> string) list) option \<Rightarrow> string \<Rightarrow> bool" where
  "exactMatch n path =
     (case n of
        None \<Rightarrow> False
      | Some (r, _) \<Rightarrow>
          if last (r_segs r) \<noteq> Multi then True
          else if \<not> HasSuffix path ''/'' then False
          else length (r_segs r) = length (filter (\<lambda>c. c = CHR ''/'') path))"

definition cleanPath :: "string \<Rightarrow> string" where
  "cleanPath p =
     (if p = [] then ''/''
      else let p1 = (if hd p \<noteq> CHR ''/'' then CHR ''/'' # p else p); np = filepath_Clean p1 in
        if last p1 = CHR ''/'' \<and> np \<noteq> ''/'' then np @ ''/'' else np)"

datatype 'h found = Found "'h route" "(string \<times> string) list" | MovedTo string | NothingFound

definition findHandler :: "'h route list \<Rightarrow> string \<Rightarrow> string \<Rightarrow> 'h found" where
  "findHandler rs method path0 =
     (let path = (if method = ''CONNECT'' then path0 else cleanPath path0); n = mux_match rs method path in
      if \<not> exactMatch n path \<and> \<not> HasSuffix path ''/'' \<and> exactMatch (mux_match rs method (path @ ''/'')) (path @ ''/'')
      then MovedTo (cleanPath path0 @ ''/'')
      else if path \<noteq> path0 then MovedTo path
      else case n of None \<Rightarrow> NothingFound | Some (r, bs) \<Rightarrow> Found r bs)"

subsection \<open>The routes\<close>

type_synonym handler = "imds_env \<Rightarrow> Request \<Rightarrow> ResponseWriter \<Rightarrow> ResponseWriter"

datatype endpoint =
    CreateToken
  | Metadata handler
  | EnrollStart
  | EnrollFinish
  | Health
  | Unmatched

text \<open>
  \<open>handle\<close>: a route of the metadata service, wrapped in the refusal of unbound callers when its
  path is identity bearing. The store that the wrapper was given is the one of the environment.
\<close>

definition wrapped :: "bool \<Rightarrow> handler \<Rightarrow> handler" where
  "wrapped require h env = RequireVMIdentity require (store env) h env"

definition handle :: "MDSConfig \<Rightarrow> string \<Rightarrow> handler \<Rightarrow> endpoint route" where
  "handle cfg pattern h =
     (let path = (case Cut pattern CHR '' '' of (_, p, True) \<Rightarrow> p | _ \<Rightarrow> pattern) in
      if RequiresVMIdentity path then route pattern (Metadata (wrapped (cfg_RequireVMIdentity cfg) h))
      else route pattern (Metadata h))"

definition metadata_routes :: "MDSConfig \<Rightarrow> endpoint route list" where
  "metadata_routes cfg =
     [handle cfg ''GET /latest/meta-data/instance-id'' HandleInstanceID,
      handle cfg ''GET /latest/meta-data/local-hostname'' HandleHostname,
      handle cfg ''GET /latest/meta-data/public-ipv4'' HandlePublicIPv4,
      handle cfg ''GET /latest/meta-data/local-ipv4'' HandleLocalIPv4,
      handle cfg ''GET /latest/meta-data/placement/availability-zone'' HandleAvailabilityZone,
      handle cfg ''GET /latest/meta-data/placement/region'' HandleRegion,
      handle cfg ''GET /latest/meta-data/placement/{$}'' HandlePlacementKeys,
      route ''GET /latest/meta-data/placement'' (Metadata HandlePlacementRedirect),
      handle cfg ''GET /latest/meta-data/placement/{key}'' HandlePlacementKey,
      handle cfg ''GET /latest/meta-data/services/domain'' HandleDomain,
      handle cfg ''GET /latest/meta-data/tags/{$}'' HandleTags,
      handle cfg ''GET /latest/meta-data/tags/instance'' HandleInstanceTagKeys,
      handle cfg ''GET /latest/meta-data/tags/instance/{key}'' HandleInstanceTag,
      handle cfg ''GET /latest/meta-data/'' HandleMetaDataIndex,
      handle cfg ''GET /latest/dynamic/instance-identity/document'' HandleInstanceIdentityDocument]"

definition Register :: "endpoint route list" where
  "Register =
     [route ''POST /latest/devid/enroll/start'' EnrollStart, route ''POST /latest/devid/enroll/finish'' EnrollFinish]"

definition routes :: "MDSConfig \<Rightarrow> bool \<Rightarrow> endpoint route list" where
  "routes cfg enrolling =
     [route ''PUT /latest/api/token'' CreateToken]
     @ (if EnableEC2Compat cfg then metadata_routes cfg else [])
     @ (if EnableTPMAttestation cfg \<and> enrolling then Register else [])
     @ [route ''GET /health'' Health, route ''/'' Unmatched]"

text \<open>
  The state behind the routes and what one request brings with it: the time and the random bytes
  of a token, the decoded bodies and the inputs of enrolment, the files, and a format for times.
\<close>

record 'f service =
  sv_tokens :: TokenStore
  sv_enroll :: enroll_state
  sv_server :: "'f Server"

record inputs =
  in_now :: time
  in_token :: "string option"
  in_start :: "EnrollStartRequest option"
  in_finish :: "EnrollFinishRequest option"
  in_enroll :: enroll_inputs
  in_files :: files
  in_format :: "time \<Rightarrow> string"

definition env_of :: "inputs \<Rightarrow> 'f service \<Rightarrow> imds_env" where
  "env_of i st = \<lparr>store = Some (sv_tokens st), hostTopology = srvTopology (sv_server st), clock = in_now i\<rparr>"

text \<open>The enroller reads the pins of the inventory as it is now.\<close>

definition enroller_now :: "Enroller \<Rightarrow> 'f service \<Rightarrow> Enroller" where
  "enroller_now e st = e\<lparr>E_Pins := (E_Pins e)\<lparr>InventoryPins := Some (inventoryPins (vmConfigCache (sv_server st)))\<rparr>\<rparr>"

definition serve_endpoint ::
  "lib \<Rightarrow> MDSConfig \<Rightarrow> Enroller option \<Rightarrow> inputs \<Rightarrow> endpoint \<Rightarrow> Request \<Rightarrow> ResponseWriter \<Rightarrow> 'f service
    \<Rightarrow> ResponseWriter \<times> 'f service" where
  "serve_endpoint L cfg enr i ep r w st =
     (case ep of
        CreateToken \<Rightarrow>
          (case HandleCreateToken (in_now i) (in_token i) (sv_tokens st) r w of
             (w', ts, _) \<Rightarrow> (w', st\<lparr>sv_tokens := ts\<rparr>))
      | Metadata h \<Rightarrow> (h (env_of i st) r w, st)
      | EnrollStart \<Rightarrow>
          (case enr of
             None \<Rightarrow> (w, st)
           | Some e \<Rightarrow>
               (case HandleStart L (enroller_now e st) (in_enroll i) (in_start i) r w (sv_enroll st) of
                  (w', es) \<Rightarrow> (w', st\<lparr>sv_enroll := es\<rparr>)))
      | EnrollFinish \<Rightarrow>
          (case enr of
             None \<Rightarrow> (w, st)
           | Some e \<Rightarrow>
               (case HandleFinish L (enroller_now e st) (in_enroll i) (in_finish i) r w (sv_enroll st) of
                  (w', es) \<Rightarrow> (w', st\<lparr>sv_enroll := es\<rparr>)))
      | Health \<Rightarrow>
          (case handleHealth (in_format i) cfg (in_files i) (in_now i) r w (sv_server st) of
             (w', s') \<Rightarrow> (w', st\<lparr>sv_server := s'\<rparr>))
      | Unmatched \<Rightarrow> (NotFound w, st))"

definition serve_mux ::
  "lib \<Rightarrow> MDSConfig \<Rightarrow> Enroller option \<Rightarrow> inputs \<Rightarrow> Request \<Rightarrow> ResponseWriter \<Rightarrow> 'f service
    \<Rightarrow> ResponseWriter \<times> 'f service" where
  "serve_mux L cfg enr i r w st =
     (case findHandler (routes cfg (enr \<noteq> None)) (Method r) (Path r) of
        Found rt bs \<Rightarrow> serve_endpoint L cfg enr i (r_handler rt) (r\<lparr>PathValues := bs\<rparr>) w st
      | MovedTo url \<Rightarrow> (Redirect r url 301 w, st)
      | NothingFound \<Rightarrow> (NotFound w, st))"

text \<open>The chain of handlers: the throttle in front of the multiplexer. The access log changes nothing.\<close>

definition ServeHTTP ::
  "lib \<Rightarrow> MDSConfig \<Rightarrow> Enroller option \<Rightarrow> inputs \<Rightarrow> time \<Rightarrow> time \<Rightarrow> Request \<Rightarrow> ResponseWriter
    \<Rightarrow> guestLimiter \<times> 'f service \<Rightarrow> ResponseWriter \<times> (guestLimiter \<times> 'f service) \<times> limit_log list" where
  "ServeHTTP L cfg enr i t1 t2 r w st =
     guestLimitMiddleware (serve_mux L cfg enr i) (in_now i) t1 t2 r w st"

subsection \<open>Which route a path reaches\<close>

fun seg_fits :: "seg list \<Rightarrow> string list \<Rightarrow> bool" where
  "seg_fits [] [] \<longleftrightarrow> True"
| "seg_fits (Lit l # p) (s # rest) \<longleftrightarrow> l = s \<and> seg_fits p rest"
| "seg_fits (Wild v # p) (s # rest) \<longleftrightarrow> s \<noteq> ''/'' \<and> seg_fits p rest"
| "seg_fits [Multi] (s # rest) \<longleftrightarrow> True"
| "seg_fits _ _ \<longleftrightarrow> False"

lemma lit_child_mem: "(p, bs, r) \<in> set (lit_child s n) \<Longrightarrow> (Lit s # p, bs, r) \<in> set n"
  by (induction s n rule: lit_child.induct) (auto split: list.splits seg.splits if_splits)

lemma wild_child_mem: "(p, bs, r) \<in> set (wild_child s n) \<Longrightarrow> \<exists>v b. (Wild v # p, b, r) \<in> set n"
  by (induction s n rule: wild_child.induct) (auto split: list.splits seg.splits)

lemma leaf_mem: "leaf p n = Some (r, bs) \<Longrightarrow> (p, bs, r) \<in> set n"
  by (auto simp: leaf_def find_Some_iff in_set_conv_nth split: option.splits)

lemma matchPath_fits: "matchPath n segs = Some (r, bs) \<Longrightarrow> \<exists>p b. (p, b, r) \<in> set n \<and> seg_fits p segs"
proof (induction n segs rule: matchPath.induct)
  case (1 n)
  then show ?case by (auto dest!: leaf_mem intro!: exI)
next
  case (2 n s rest)
  consider (lit) "matchPath (lit_child s n) rest = Some (r, bs)"
    | (wild) "matchPath (lit_child s n) rest = None" "s \<noteq> ''/''" "matchPath (wild_child s n) rest = Some (r, bs)"
    | (multi) "leaf [Multi] n = Some (r, bs)"
    using "2.prems" by (auto split: option.splits if_splits)
  then show ?case
  proof cases
    case lit
    from "2.IH"(1) [OF lit] obtain p b where "(p, b, r) \<in> set (lit_child s n)" "seg_fits p rest" by blast
    then show ?thesis using lit_child_mem by (intro exI [of _ "Lit s # p"] exI [of _ b]) simp
  next
    case wild
    from "2.IH"(2) [OF wild(1) wild(2) wild(3)] obtain p b where "(p, b, r) \<in> set (wild_child s n)" "seg_fits p rest" by blast
    moreover from this obtain v b' where "(Wild v # p, b', r) \<in> set n" using wild_child_mem by blast
    ultimately show ?thesis using wild(2) by (intro exI [of _ "Wild v # p"] exI [of _ b']) simp
  next
    case multi
    then show ?thesis using leaf_mem by (intro exI [of _ "[Multi]"] exI [of _ bs]) simp
  qed
qed

definition method_fits :: "string \<Rightarrow> string \<Rightarrow> bool" where
  "method_fits m method \<longleftrightarrow> m = method \<or> m = ''GET'' \<and> method = ''HEAD'' \<or> m = []"

lemma mux_match_fits:
  assumes "mux_match rs method path = Some (r, bs)"
  shows "r \<in> set rs \<and> method_fits (r_method r) method \<and> seg_fits (r_segs r) (path_segs path)"
proof -
  from assms obtain m where m: "matchPath (tree rs m) (path_segs path) = Some (r, bs)" "method_fits m method"
    by (auto simp: mux_match_def Let_def method_fits_def split: option.splits if_splits)
  from matchPath_fits [OF m(1)] m(2) show ?thesis by (auto simp: tree_def)
qed

lemma Join_split: "Join (split_at_char c s) [c] = s"
proof (induction c s rule: split_at_char.induct)
  case (2 sep c cs)
  have "Join ((c # w) # ws) [sep] = c # Join (w # ws) [sep]" for w ws by (cases ws) simp_all
  with 2 show ?case by (cases "split_at_char sep cs"; cases "c = sep") auto
qed simp

lemma trailing_eq: "trailing xs = ys \<Longrightarrow> ''/'' \<notin> set ys \<Longrightarrow> xs = ys"
  by (induction xs arbitrary: ys rule: trailing.induct) (auto split: if_splits)

lemma path_of_segs:
  assumes "path_segs path = segs" "''/'' \<notin> set segs" "segs \<noteq> []" "hd path = CHR ''/''" "path \<noteq> []"
  shows "path = CHR ''/'' # Join segs ''/''"
proof -
  obtain rest where path: "path = CHR ''/'' # rest" using assms(4, 5) by (cases path) auto
  then have "split_at_char CHR ''/'' rest = segs"
    using trailing_eq [of "split_at_char CHR ''/'' rest" segs] assms(1, 2) by (simp add: path_segs_def)
  with path Join_split [of "CHR ''/''" rest] show ?thesis by simp
qed

lemma cleanPath_rooted: "cleanPath p \<noteq> [] \<and> hd (cleanPath p) = CHR ''/''"
proof -
  have "filepath_Clean q \<noteq> [] \<and> hd (filepath_Clean q) = CHR ''/''" if "q \<noteq> []" "hd q = CHR ''/''" for q
  proof -
    have "HasPrefix q ''/''" using that by (cases q) (simp_all add: HasPrefix_def)
    then show ?thesis by (simp add: filepath_Clean_def Let_def)
  qed
  then show ?thesis by (auto simp: cleanPath_def Let_def)
qed

text \<open>A route with literal segments is reached by its own path alone.\<close>

lemma found_route:
  assumes "findHandler rs method path = Found rt bs"
  shows "rt \<in> set rs" "method_fits (r_method rt) method" "seg_fits (r_segs rt) (path_segs path)"
    and "method \<noteq> ''CONNECT'' \<Longrightarrow> path \<noteq> [] \<and> hd path = CHR ''/''"
proof -
  let ?p = "if method = ''CONNECT'' then path else cleanPath path"
  have "mux_match rs method ?p = Some (rt, bs)" and p: "?p = path"
    using assms unfolding findHandler_def Let_def by (auto split: if_splits option.splits)
  then have m: "mux_match rs method path = Some (rt, bs)" by simp
  then show "rt \<in> set rs" "method_fits (r_method rt) method" "seg_fits (r_segs rt) (path_segs path)"
    using mux_match_fits [OF m] by simp_all
  show "method \<noteq> ''CONNECT'' \<Longrightarrow> path \<noteq> [] \<and> hd path = CHR ''/''"
    using p cleanPath_rooted [of path] by simp
qed

lemma r_handler_route [simp]: "r_handler (route p h) = h"
  by (simp add: route_def split: prod.split bool.split)

text \<open>Every metadata route but the redirect is gated by a token.\<close>

definition gated :: "handler \<Rightarrow> bool" where
  "gated h \<longleftrightarrow> (\<forall>env r w. \<not> validateToken env r \<longrightarrow> h env r w = tokenRequired w)"

lemma gated_wrapped: "gated h \<Longrightarrow> gated (wrapped b h)"
  by (simp add: gated_def wrapped_def RequireVMIdentity_def validateToken_def)

lemma gated_handlers:
  "gated HandleMetaDataIndex" "gated HandleInstanceID" "gated HandleHostname" "gated HandleLocalIPv4" "gated HandlePublicIPv4"
  "gated HandleAvailabilityZone" "gated HandleRegion" "gated HandleDomain" "gated HandleInstanceIdentityDocument"
  "gated HandlePlacementKeys" "gated HandlePlacementKey" "gated HandleTags" "gated HandleInstanceTagKeys" "gated HandleInstanceTag"
  by (simp_all add: gated_def handler_defs)

definition refusing :: "endpoint \<Rightarrow> bool" where
  "refusing ep \<longleftrightarrow> (\<exists>h. ep = Metadata h \<and> (gated h \<or> h = HandlePlacementRedirect))"

lemma refusing_handle: "gated h \<Longrightarrow> refusing (r_handler (handle cfg p h))"
  by (simp add: refusing_def handle_def Let_def gated_wrapped)

lemma refusing_redirect: "refusing (Metadata HandlePlacementRedirect)"
  by (simp add: refusing_def)

lemma metadata_routes_gated: "rt \<in> set (metadata_routes cfg) \<Longrightarrow> refusing (r_handler rt)"
proof -
  have "list_all (\<lambda>rt. refusing (r_handler rt)) (metadata_routes cfg)"
    by (simp add: metadata_routes_def gated_handlers refusing_handle refusing_redirect)
  then show "rt \<in> set (metadata_routes cfg) \<Longrightarrow> refusing (r_handler rt)" by (simp add: list_all_iff)
qed

lemma Redirect_status: "status (Redirect r url code newResponse) = code"
  by (simp add: Redirect_def Let_def http_defs http_simps)

lemma NotFound_status: "status (NotFound newResponse) = 404"
  by (simp add: http_defs http_simps)

text \<open>Without a token the gated routes, the redirect and the catch-all refuse and change nothing.\<close>

lemma refusing_answer:
  assumes "\<not> storeValidatesToken (Some (sv_tokens st)) (in_now i) r" "refusing ep \<or> ep = Unmatched"
    and "serve_endpoint L cfg enr i ep (r\<lparr>PathValues := bs\<rparr>) newResponse st = (w, st')"
  shows "status w \<noteq> 200 \<and> st' = st"
proof -
  have "\<not> validateToken (env_of i st) (r\<lparr>PathValues := bs\<rparr>)"
    using assms(1) by (simp add: validateToken_def env_of_def storeValidatesToken_def header_get_def)
  then have no_token: "status (h (env_of i st) (r\<lparr>PathValues := bs\<rparr>) newResponse) = 401" if "gated h" for h
    using that by (simp add: gated_def tokenRequired_status newResponse_sel)
  from assms(2) consider (gated) h where "ep = Metadata h" "gated h"
    | (redirect) "ep = Metadata HandlePlacementRedirect" | (unmatched) "ep = Unmatched"
    by (auto simp: refusing_def)
  then show ?thesis
  proof cases
    case gated
    with assms(3) no_token [of h] show ?thesis by (auto simp: serve_endpoint_def)
  qed (use assms(3) in \<open>auto simp: serve_endpoint_def HandlePlacementRedirect_def Redirect_status NotFound_status\<close>)
qed

lemma routes_cases:
  assumes "rt \<in> set (routes cfg b)"
  shows "refusing (r_handler rt) \<or> r_handler rt = Unmatched \<or> rt = route ''PUT /latest/api/token'' CreateToken
    \<or> rt = route ''POST /latest/devid/enroll/start'' EnrollStart \<or> rt = route ''POST /latest/devid/enroll/finish'' EnrollFinish
    \<or> rt = route ''GET /health'' Health"
  using assms metadata_routes_gated [of rt cfg] by (auto simp: routes_def Register_def split: if_splits)

lemma fixed_routes:
  "route ''PUT /latest/api/token'' CreateToken = \<lparr>r_method = ''PUT'', r_segs = [Lit ''latest'', Lit ''api'', Lit ''token''], r_handler = CreateToken\<rparr>"
  "route ''POST /latest/devid/enroll/start'' EnrollStart
     = \<lparr>r_method = ''POST'', r_segs = [Lit ''latest'', Lit ''devid'', Lit ''enroll'', Lit ''start''], r_handler = EnrollStart\<rparr>"
  "route ''POST /latest/devid/enroll/finish'' EnrollFinish
     = \<lparr>r_method = ''POST'', r_segs = [Lit ''latest'', Lit ''devid'', Lit ''enroll'', Lit ''finish''], r_handler = EnrollFinish\<rparr>"
  "route ''GET /health'' Health = \<lparr>r_method = ''GET'', r_segs = [Lit ''health''], r_handler = Health\<rparr>"
  by (simp_all add: route_def HasPrefix_def)

lemma seg_fits_Lits: "seg_fits (map Lit ls) segs \<longleftrightarrow> segs = ls"
proof (induction ls arbitrary: segs)
  case Nil
  show ?case by (cases segs) simp_all
next
  case (Cons l ls)
  then show ?case by (cases segs) auto
qed

lemma found_fixed:
  assumes "findHandler rs method path = Found rt bs" "r_segs rt = map Lit ls" "''/'' \<notin> set ls" "ls \<noteq> []" "method \<noteq> ''CONNECT''"
  shows "path = CHR ''/'' # Join ls ''/''"
  using found_route [OF assms(1)] assms(2-) path_of_segs [of path ls] by (simp add: seg_fits_Lits)

text \<open>
  C13: Nothing but refusals without a token. Whatever the method, the path and the configuration,
  a request that carries no valid token is answered with a 200 only on three routes: the minting
  of a token, the two legs of enrolment (which authenticate the caller by other means) and
  \<open>/health\<close>; and the state changes only there.
\<close>

theorem no_answer_without_token:
  assumes "\<not> storeValidatesToken (Some (sv_tokens st)) (in_now i) r"
    and "serve_mux L cfg enr i r newResponse st = (w, st')"
    and "status w = 200 \<or> st' \<noteq> st"
  shows "Method r = ''PUT'' \<and> Path r = ''/latest/api/token''
    \<or> Method r = ''POST'' \<and> (Path r = ''/latest/devid/enroll/start'' \<or> Path r = ''/latest/devid/enroll/finish'')
    \<or> (Method r = ''GET'' \<or> Method r = ''HEAD'') \<and> Path r = ''/health''"
proof (cases "findHandler (routes cfg (enr \<noteq> None)) (Method r) (Path r)")
  case (Found rt bs)
  have served: "serve_endpoint L cfg enr i (r_handler rt) (r\<lparr>PathValues := bs\<rparr>) newResponse st = (w, st')"
    using assms(2) by (simp add: serve_mux_def Found del: not_None_eq)
  then have "\<not> (refusing (r_handler rt) \<or> r_handler rt = Unmatched)"
    using refusing_answer [OF assms(1) _ served] assms(3) by blast
  moreover have fits: "method_fits (r_method rt) (Method r)" and "rt \<in> set (routes cfg (enr \<noteq> None))"
    using found_route [OF Found] by simp_all
  ultimately consider (token) "rt = route ''PUT /latest/api/token'' CreateToken"
    | (start) "rt = route ''POST /latest/devid/enroll/start'' EnrollStart"
    | (finish) "rt = route ''POST /latest/devid/enroll/finish'' EnrollFinish"
    | (health) "rt = route ''GET /health'' Health"
    using routes_cases by blast
  then show ?thesis
  proof cases
    case token
    with fits have "Method r = ''PUT''" by (simp add: fixed_routes method_fits_def)
    with found_fixed [OF Found, of "[''latest'', ''api'', ''token'']"] token show ?thesis by (simp add: fixed_routes)
  next
    case start
    with fits have "Method r = ''POST''" by (simp add: fixed_routes method_fits_def)
    with found_fixed [OF Found, of "[''latest'', ''devid'', ''enroll'', ''start'']"] start show ?thesis by (simp add: fixed_routes)
  next
    case finish
    with fits have "Method r = ''POST''" by (simp add: fixed_routes method_fits_def)
    with found_fixed [OF Found, of "[''latest'', ''devid'', ''enroll'', ''finish'']"] finish show ?thesis by (simp add: fixed_routes)
  next
    case health
    with fits have "Method r = ''GET'' \<or> Method r = ''HEAD''" by (auto simp: fixed_routes method_fits_def)
    with found_fixed [OF Found, of "[''health'']"] health show ?thesis by (auto simp: fixed_routes)
  qed
next
  case (MovedTo url)
  with assms(2, 3) show ?thesis by (auto simp: serve_mux_def Redirect_status simp del: not_None_eq)
next
  case NothingFound
  with assms(2, 3) show ?thesis
    by (auto simp: serve_mux_def NotFound_status simp del: not_None_eq)
qed

lemma metadata_routes_eq:
  "metadata_routes cfg = (let g = (\<lambda>segs h. \<lparr>r_method = ''GET'', r_segs = segs, r_handler = Metadata h\<rparr>);
       md = (\<lambda>s h. g (Lit ''latest'' # Lit ''meta-data'' # s) h); req = wrapped (cfg_RequireVMIdentity cfg) in
     [md [Lit ''instance-id''] (req HandleInstanceID),
      md [Lit ''local-hostname''] HandleHostname,
      md [Lit ''public-ipv4''] HandlePublicIPv4,
      md [Lit ''local-ipv4''] HandleLocalIPv4,
      md [Lit ''placement'', Lit ''availability-zone''] HandleAvailabilityZone,
      md [Lit ''placement'', Lit ''region''] HandleRegion,
      md [Lit ''placement'', Lit ''/''] HandlePlacementKeys,
      md [Lit ''placement''] HandlePlacementRedirect,
      md [Lit ''placement'', Wild ''key''] HandlePlacementKey,
      md [Lit ''services'', Lit ''domain''] HandleDomain,
      md [Lit ''tags'', Lit ''/''] HandleTags,
      md [Lit ''tags'', Lit ''instance''] HandleInstanceTagKeys,
      md [Lit ''tags'', Lit ''instance'', Wild ''key''] HandleInstanceTag,
      md [Multi] HandleMetaDataIndex,
      g [Lit ''latest'', Lit ''dynamic'', Lit ''instance-identity'', Lit ''document''] (req HandleInstanceIdentityDocument)])"
  by (simp add: metadata_routes_def handle_def route_def HasPrefix_def RequiresVMIdentity_def IdentityBearingPaths_def Let_def)

lemma GET_tree:
  "tree (routes cfg b) ''GET'' =
     map (\<lambda>r. (r_segs r, [], r)) ((if EnableEC2Compat cfg then metadata_routes cfg else [])
       @ [\<lparr>r_method = ''GET'', r_segs = [Lit ''health''], r_handler = Health\<rparr>])"
proof -
  have "filter (\<lambda>r. r_method r = ''GET'') (metadata_routes cfg) = metadata_routes cfg"
    by (simp add: metadata_routes_eq Let_def)
  moreover have "r_method (route ''/'' Unmatched) = []" by (simp add: route_def)
  ultimately show ?thesis
    by (simp add: tree_def routes_def Register_def fixed_routes)
qed

lemma identity_segs:
  "path_segs ''/latest/meta-data/instance-id'' = [''latest'', ''meta-data'', ''instance-id'']"
  "path_segs ''/latest/dynamic/instance-identity/document'' = [''latest'', ''dynamic'', ''instance-identity'', ''document'']"
  "cleanPath ''/latest/meta-data/instance-id'' = ''/latest/meta-data/instance-id''"
  "cleanPath ''/latest/dynamic/instance-identity/document'' = ''/latest/dynamic/instance-identity/document''"
  by code_simp+

lemma identity_found:
  assumes "EnableEC2Compat cfg"
  shows "findHandler (routes cfg b) ''GET'' ''/latest/meta-data/instance-id'' =
      Found \<lparr>r_method = ''GET'', r_segs = [Lit ''latest'', Lit ''meta-data'', Lit ''instance-id''],
        r_handler = Metadata (wrapped (cfg_RequireVMIdentity cfg) HandleInstanceID)\<rparr> []"
    and "findHandler (routes cfg b) ''GET'' ''/latest/dynamic/instance-identity/document'' =
      Found \<lparr>r_method = ''GET'', r_segs = [Lit ''latest'', Lit ''dynamic'', Lit ''instance-identity'', Lit ''document''],
        r_handler = Metadata (wrapped (cfg_RequireVMIdentity cfg) HandleInstanceIdentityDocument)\<rparr> []"
  by (simp_all add: findHandler_def mux_match_def GET_tree assms identity_segs metadata_routes_eq Let_def leaf_def exactMatch_def)

lemma wrapped_answer:
  assumes "gated h"
  shows "wrapped True h env r w =
    (if \<not> validateToken env r then tokenRequired w else if \<not> IsBound (VMConfigContext r) then NotFound w else h env r w)"
  using assms by (simp add: wrapped_def RequireVMIdentity_def validateToken_def gated_def)

lemma InstanceID_bound: "VMConfigContext r = Some vm \<Longrightarrow> VMID vm \<noteq> [] \<Longrightarrow> InstanceID r = ''i-'' @ VMID vm"
  by (simp add: InstanceID_def BoundVMFromRequest_def IsBound_def)

lemma identity_answer:
  assumes "EnableEC2Compat cfg" "cfg_RequireVMIdentity cfg"
    and "Method r = ''GET''" "Path r \<in> set IdentityBearingPaths"
    and "\<And>vm. VMConfigContext r = Some vm \<Longrightarrow> VMID vm \<noteq> []"
    and "serve_mux L cfg enr i r newResponse st = (w, st')"
  shows "st' = st \<and>
    (if \<not> storeValidatesToken (Some (sv_tokens st)) (in_now i) r then status w = 401
     else case VMConfigContext r of
       None \<Rightarrow> status w = 404
     | Some vm \<Rightarrow>
         status w = 200 \<and>
         (Path r = ''/latest/meta-data/instance-id'' \<longrightarrow> Body w = [Text (''i-'' @ VMID vm)]) \<and>
         (Path r = ''/latest/dynamic/instance-identity/document'' \<longrightarrow>
            (\<exists>fields. Body w = [JSON (JObject fields)] \<and> map_of fields ''instanceId'' = Some (JString (''i-'' @ VMID vm)))))"
proof -
  let ?env = "env_of i st" and ?r = "r\<lparr>PathValues := []\<rparr>"
  let ?h = "if Path r = ''/latest/meta-data/instance-id'' then HandleInstanceID else HandleInstanceIdentityDocument"
  have path: "Path r = ''/latest/meta-data/instance-id'' \<or> Path r = ''/latest/dynamic/instance-identity/document''"
    using assms(4) by (simp add: IdentityBearingPaths_def)
  then have "serve_mux L cfg enr i r newResponse st = (wrapped True ?h ?env ?r newResponse, st)"
    using assms(2, 3) identity_found [OF assms(1)] by (auto simp: serve_mux_def serve_endpoint_def simp del: not_None_eq)
  moreover have "gated ?h" using gated_handlers by simp
  moreover have "validateToken ?env ?r \<longleftrightarrow> storeValidatesToken (Some (sv_tokens st)) (in_now i) r"
    by (simp add: validateToken_def env_of_def storeValidatesToken_def header_get_def)
  ultimately have w: "st' = st" "w = (if \<not> storeValidatesToken (Some (sv_tokens st)) (in_now i) r then tokenRequired newResponse
      else if \<not> IsBound (VMConfigContext r) then NotFound newResponse else ?h ?env ?r newResponse)"
    using assms(6) by (simp_all add: wrapped_answer)
  show ?thesis
  proof (cases "storeValidatesToken (Some (sv_tokens st)) (in_now i) r")
    case False
    with w show ?thesis by (simp add: tokenRequired_status newResponse_sel)
  next
    case token: True
    show ?thesis
    proof (cases "VMConfigContext r")
      case None
      with w token show ?thesis by (simp add: IsBound_def NotFound_status)
    next
      case (Some vm)
      then have ne: "VMID vm \<noteq> []" by (rule assms(5))
      then have "InstanceID ?r = ''i-'' @ VMID vm" using Some by (simp add: InstanceID_bound)
      moreover have "validateToken ?env ?r"
        using token by (simp add: validateToken_def env_of_def storeValidatesToken_def header_get_def)
      moreover have "w = ?h ?env ?r newResponse" using w(2) token Some ne by (simp add: IsBound_def)
      ultimately show ?thesis
        using token Some w(1) path
        by (auto simp: HandleInstanceID_def HandleInstanceIdentityDocument_def identityDocument_def textPlain_def
            http_defs http_simps)
    qed
  qed
qed

text \<open>
  Who is told which identity, from the wire to the answer. A connection is bound by the ARP
  table and the inventory as they are after any sequence of loads; with \<open>require_vm_identity\<close> a
  GET of the instance id or of the identity document is answered 401 without a valid token, 404
  for a connection bound to no VM, and otherwise with the id of a VM of that inventory which
  owns the MAC address found for the caller. Nothing else changes.
\<close>

lemma identity_end_to_end:
  assumes "EnableEC2Compat cfg" "cfg_RequireVMIdentity cfg"
    and "Method r = ''GET''" "Path r \<in> set IdentityBearingPaths"
    and "s = serving hash cfg decode evs"
    and "extractVMConfig (vmConfigCache s) (Some arp) (Some ip) = Inr (VMConfigContext r)"
    and "serve_mux L cfg enr i r newResponse st = (w, st')"
  shows "st' = st \<and>
    (if \<not> storeValidatesToken (Some (sv_tokens st)) (in_now i) r then status w = 401
     else case VMConfigContext r of
       None \<Rightarrow> status w = 404
     | Some vm \<Rightarrow>
         (\<exists>row. find (arp_row_for ip) (arp_rows arp) = Some row \<and> (VMID vm, vm) \<in> set (vmConfigCache s)
            \<and> VMID vm \<noteq> [] \<and> has_mac (row ! 3) vm) \<and>
         status w = 200 \<and>
         (Path r = ''/latest/meta-data/instance-id'' \<longrightarrow> Body w = [Text (''i-'' @ VMID vm)]) \<and>
         (Path r = ''/latest/dynamic/instance-identity/document'' \<longrightarrow>
            (\<exists>fields. Body w = [JSON (JObject fields)] \<and> map_of fields ''instanceId'' = Some (JString (''i-'' @ VMID vm)))))"
proof -
  have owner: "\<exists>row. find (arp_row_for ip) (arp_rows arp) = Some row \<and> (VMID vm, vm) \<in> set (vmConfigCache s)
      \<and> VMID vm \<noteq> [] \<and> has_mac (row ! 3) vm" if "VMConfigContext r = Some vm" for vm
    using bound_owner [OF serving_keyed assms(6) [unfolded assms(5) that]] by (simp add: assms(5))
  then have "\<And>vm. VMConfigContext r = Some vm \<Longrightarrow> VMID vm \<noteq> []" by blast
  from identity_answer [OF assms(1-4) this assms(7)] owner show ?thesis by (auto split: option.splits if_splits)
qed

definition sampleService :: "string service" where
  "sampleService = \<lparr>sv_tokens = \<lparr>tokens = [(''t'', \<lparr>Token = ''t'', ExpiresAt = 10, CreatedAt = 0, Peer = ''192.0.2.7''\<rparr>)],
       byPeer = [(''192.0.2.7'', [\<lparr>Token = ''t'', ExpiresAt = 10, CreatedAt = 0, Peer = ''192.0.2.7''\<rparr>])],
       liveCount = 1, emergencyBrake = False, tokenTTL = 10\<rparr>,
     sv_enroll = sampleState, sv_server = sampleServing\<rparr>"

definition sampleBatch :: inputs where
  "sampleBatch = \<lparr>in_now = 1, in_token = Some ''0123456789'', in_start = None, in_finish = None, in_enroll = sampleInputs 1,
     in_files = sampleFiles, in_format = (\<lambda>t. [])\<rparr>"

definition sampleGet :: "string \<Rightarrow> string \<Rightarrow> VMConfig option \<Rightarrow> Request" where
  "sampleGet p token vm = \<lparr>Method = ''GET'', Path = p, Host = [], RemoteAddr = ''192.0.2.7:4711'',
     Header = [(''X-Aws-Ec2-Metadata-Token'', token)], PathValues = [], VMConfigContext = vm\<rparr>"

lemma sample_compat: "EnableEC2Compat sampleServerConfig" "cfg_RequireVMIdentity sampleServerConfig"
  by (simp_all add: sampleServerConfig_def DefaultConfig_def)

lemma sample_bound:
  "extractVMConfig (vmConfigCache sampleServing) (Some sampleArp) (Some ''192.0.2.7'') = Inr (Some (snd (hd sampleCache)))"
  unfolding sampleServing_cache sampleCache_def sampleArp_def newline_def by code_simp

lemma identity_end_to_end_witness:
  "Body (fst (serve_mux sampleLib sampleServerConfig None sampleBatch
     (sampleGet ''/latest/meta-data/instance-id'' ''t'' (Some (snd (hd sampleCache)))) newResponse sampleService)) = [Text ''i-101'']"
proof -
  let ?r = "sampleGet ''/latest/meta-data/instance-id'' ''t'' (Some (snd (hd sampleCache)))"
  have r: "Method ?r = ''GET''" "Path ?r \<in> set IdentityBearingPaths" "Path ?r = ''/latest/meta-data/instance-id''"
    "VMConfigContext ?r = Some (snd (hd sampleCache))"
    by (simp_all add: sampleGet_def IdentityBearingPaths_def)
  have bound: "extractVMConfig (vmConfigCache sampleServing) (Some sampleArp) (Some ''192.0.2.7'') = Inr (VMConfigContext ?r)"
    by (simp add: sample_bound r(4))
  have "storeValidatesToken (Some (sv_tokens sampleService)) (in_now sampleBatch) ?r"
    by (simp add: sampleService_def sampleBatch_def sampleGet_def storeValidatesToken_def header_get_def ValidateToken_def)
  with identity_end_to_end [OF sample_compat r(1, 2) sampleServing_def bound prod.collapse [symmetric],
      of sampleLib None sampleBatch sampleService] r(3, 4)
  show ?thesis by (simp add: sampleCache_def)
qed

lemma health_found:
  "findHandler (routes cfg b) ''GET'' ''/health'' = Found \<lparr>r_method = ''GET'', r_segs = [Lit ''health''], r_handler = Health\<rparr> []"
proof -
  have "path_segs ''/health'' = [''health'']" "cleanPath ''/health'' = ''/health''" by code_simp+
  then show ?thesis
    by (simp add: findHandler_def mux_match_def GET_tree metadata_routes_eq Let_def leaf_def exactMatch_def)
qed

lemma health_status: "status (fst (handleHealth fmt cfg f now r newResponse s)) = 200"
  by (simp add: handleHealth_def Let_def status_def http_simps split: prod.split)

theorem no_answer_without_token_witness:
  "status (fst (serve_mux sampleLib sampleServerConfig None sampleBatch (sampleGet ''/health'' [] None) newResponse sampleService)) = 200
   \<and> (let r = sampleGet ''/health'' [] None in Method r = ''PUT'' \<and> Path r = ''/latest/api/token''
    \<or> Method r = ''POST'' \<and> (Path r = ''/latest/devid/enroll/start'' \<or> Path r = ''/latest/devid/enroll/finish'')
    \<or> (Method r = ''GET'' \<or> Method r = ''HEAD'') \<and> Path r = ''/health'')"
proof -
  let ?r = "sampleGet ''/health'' [] None"
  have "status (fst (serve_mux sampleLib sampleServerConfig None sampleBatch ?r newResponse sampleService)) = 200"
    using health_status [of "in_format sampleBatch" sampleServerConfig "in_files sampleBatch" "in_now sampleBatch"
        "?r\<lparr>PathValues := []\<rparr>" "sv_server sampleService"]
    by (simp add: serve_mux_def serve_endpoint_def health_found sampleGet_def case_prod_beta)
  moreover have "\<not> storeValidatesToken (Some (sv_tokens sampleService)) (in_now sampleBatch) ?r"
    by (simp add: sampleGet_def storeValidatesToken_def header_get_def)
  ultimately show ?thesis
    using no_answer_without_token [OF _ prod.collapse [symmetric], of sampleService sampleBatch ?r sampleLib sampleServerConfig None]
    by (simp add: Let_def)
qed

subsection \<open>Which key material makes a CA\<close>

definition parse_key :: "'k ca_lib \<Rightarrow> string \<times> string \<Rightarrow> 'k option" where
  "parse_key P b = (if fst b = ''PRIVATE KEY'' then ParsePKCS8 P (snd b) else ParsePKCS1 P (snd b))"

definition key_blocks :: "'k ca_lib \<Rightarrow> string \<Rightarrow> (string \<times> string) list" where
  "key_blocks P keyPEM = filter (\<lambda>b. fst b = ''PRIVATE KEY'' \<or> fst b = ''RSA PRIVATE KEY'') (pem_blocks P keyPEM)"

lemma first_cert_find:
  "first_cert L bs = Inr (Some c) \<longleftrightarrow>
     (\<exists>b. find (\<lambda>b. fst b = ''CERTIFICATE'') bs = Some b \<and> x509_ParseCertificate L (snd b) = Some c)"
  by (induction L bs rule: first_cert.induct) (auto split: option.splits)

lemma key_loop_last:
  "key_loop P bs key = Inr (Some k) \<longleftrightarrow>
     (let ks = filter (\<lambda>b. fst b = ''PRIVATE KEY'' \<or> fst b = ''RSA PRIVATE KEY'') bs in
      (\<forall>b \<in> set ks. parse_key P b \<noteq> None) \<and> (if ks = [] then key = Some k else parse_key P (last ks) = Some k))"
proof (induction P bs key rule: key_loop.induct)
  case (2 P t bytes blocks key)
  consider (p8) "t = ''PRIVATE KEY''" | (p1) "t = ''RSA PRIVATE KEY''"
    | (other) "t \<noteq> ''PRIVATE KEY''" "t \<noteq> ''RSA PRIVATE KEY''" by blast
  then show ?case
  proof cases
    case p8
    with "2.IH"(1) show ?thesis by (cases "ParsePKCS8 P bytes") (simp_all add: parse_key_def Let_def)
  next
    case p1
    with "2.IH"(2) show ?thesis by (cases "ParsePKCS1 P bytes") (simp_all add: parse_key_def Let_def)
  qed (use "2.IH"(3) in simp)
qed simp

lemma ParseCA_exact:
  "ParseCA L P certPEM keyPEM = Inr (ca, key) \<longleftrightarrow>
     (\<exists>b. find (\<lambda>b. fst b = ''CERTIFICATE'') (pem_blocks P certPEM) = Some b \<and> x509_ParseCertificate L (snd b) = Some (ca_cert ca))
     \<and> cert_IsCA P (ca_cert ca) \<and> Lifetime ca = 0
     \<and> key_blocks P keyPEM \<noteq> [] \<and> (\<forall>b \<in> set (key_blocks P keyPEM). parse_key P b \<noteq> None)
     \<and> parse_key P (last (key_blocks P keyPEM)) = Some key
     \<and> publicKeysEqual L P (CertPublicKey (ca_cert ca)) key"
  (is "?l \<longleftrightarrow> ?r")
proof -
  have keys: "key_loop P (pem_blocks P keyPEM) None = Inr (Some k) \<longleftrightarrow>
      key_blocks P keyPEM \<noteq> [] \<and> (\<forall>b \<in> set (key_blocks P keyPEM). parse_key P b \<noteq> None)
      \<and> parse_key P (last (key_blocks P keyPEM)) = Some k" for k
    unfolding key_loop_last Let_def key_blocks_def by auto
  have "?l \<longleftrightarrow> (\<exists>c. first_cert L (pem_blocks P certPEM) = Inr (Some c) \<and> cert_IsCA P c
      \<and> key_loop P (pem_blocks P keyPEM) None = Inr (Some key) \<and> publicKeysEqual L P (CertPublicKey c) key
      \<and> ca = \<lparr>ca_cert = c, Lifetime = 0\<rparr>)"
    by (auto simp: ParseCA_def split: sum.splits option.splits if_splits)
  also have "\<dots> \<longleftrightarrow> ?r" unfolding keys first_cert_find by (cases ca) auto
  finally show ?thesis .
qed

text \<open>
  C35: Enrolment starts only with a CA that can sign and with a bounded lifetime. An enroller exists
  exactly of the first certificate of the CA file, which must be a CA, and the last private key
  of the key file (the credential before the configured path), which must belong to that
  certificate and every block of which must parse; its certificates live more than zero and at
  most 8760 hours; and it reads cluster pins and guest configurations only where the inventory
  is Proxmox.
\<close>

theorem enroller_is_sound:
  assumes "loadDevIDEnroller L P R pd read cfg f cache = Inr (Some e)"
  shows "(\<exists>certPEM keyPEM key. read (DevIDCACert cfg) = Some certPEM \<and> read (ca_key_path cfg f) = Some keyPEM
      \<and> (\<exists>b. find (\<lambda>b. fst b = ''CERTIFICATE'') (pem_blocks P certPEM) = Some b
           \<and> x509_ParseCertificate L (snd b) = Some (ca_cert (E_CA e)))
      \<and> cert_IsCA P (ca_cert (E_CA e)) \<and> parse_key P (last (key_blocks P keyPEM)) = Some key
      \<and> (\<forall>b \<in> set (key_blocks P keyPEM). parse_key P b \<noteq> None)
      \<and> publicKeysEqual L P (CertPublicKey (ca_cert (E_CA e))) key)
    \<and> 0 < Lifetime (E_CA e) \<and> Lifetime (E_CA e) \<le> 8760 * hour
    \<and> E_Roots e \<noteq> None \<and> InventoryPins (E_Pins e) = Some (inventoryPins cache)
    \<and> (InventoryPath cfg \<noteq> [] \<longrightarrow> ClusterPinDir (E_Pins e) = [] \<and> GuestConfigRoot (E_Pins e) = [])"
proof -
  from assms obtain ca key lifetime pool where
    load: "LoadCA L P read (DevIDCACert cfg) (ca_key_path cfg f) = Inr (ca, key)"
    and life: "0 < lifetime" "lifetime \<le> MaxDevIDLifetime"
    and e: "e = \<lparr>E_CA = ca\<lparr>Lifetime := lifetime\<rparr>, E_Roots = Some pool, E_Pins = pins_of cfg f cache\<rparr>"
    by (fastforce simp: loadDevIDEnroller_def Let_def not_le not_less split: if_splits sum.splits option.splits prod.splits)
  from load obtain certPEM keyPEM where "read (DevIDCACert cfg) = Some certPEM" "read (ca_key_path cfg f) = Some keyPEM"
    "ParseCA L P certPEM keyPEM = Inr (ca, key)"
    by (auto simp: LoadCA_def split: option.splits)
  with life show ?thesis by (auto simp: ParseCA_exact e pins_of_def MaxDevIDLifetime_def)
qed

definition sampleCALib :: "string ca_lib" where
  "sampleCALib = \<lparr>pem_blocks = (\<lambda>d. if d = ''cert'' then [(''CERTIFICATE'', ''ca''), (''CERTIFICATE'', ''root'')]
       else [(''EC PARAMETERS'', ''x''), (''PRIVATE KEY'', ''ca'')]),
     cert_IsCA = (\<lambda>c. True), ParsePKCS8 = Some, ParsePKCS1 = (\<lambda>b. None), signer_public = (\<lambda>k. Some (RSAKey k))\<rparr>"

definition sampleCAFiles :: files where
  "sampleCAFiles = \<lparr>CREDENTIALS_DIRECTORY = [], STATE_DIRECTORY = ''/var/lib/a:/var/lib/b'', file_size = (\<lambda>p. Some 1),
     can_open = (\<lambda>p. True)\<rparr>"

definition sampleLoaded :: "enroller_error + Enroller option" where
  "sampleLoaded = loadDevIDEnroller sampleLib sampleCALib \<lparr>NewCertPool = [], AppendCertsFromPEM = Some, AddCert = Raw\<rparr>
     (\<lambda>s. Some hour) (\<lambda>p. Some (if p = ''/etc/vtpm-mds/devid-ca.pem'' then ''cert'' else ''key''))
     DefaultConfig sampleCAFiles sampleCache"

theorem enroller_is_sound_witness:
  "\<exists>e. sampleLoaded = Inr (Some e) \<and> Lifetime (E_CA e) \<le> 8760 * hour \<and> ca_cert (E_CA e) = sampleCert ''ca''"
proof -
  obtain e where e: "sampleLoaded = Inr (Some e)" "ca_cert (E_CA e) = sampleCert ''ca''"
    by (simp add: sampleLoaded_def loadDevIDEnroller_def Let_def LoadCA_def ParseCA_def DefaultConfig_def ca_key_path_def
        credentialCAKeyPath_def sampleCAFiles_def sampleCALib_def sampleLib_def publicKeysEqual_def sampleCert_def
        load_ek_roots_def MaxDevIDLifetime_def duration_simps)
  with enroller_is_sound [OF e(1) [unfolded sampleLoaded_def]] show ?thesis by blast
qed

end
