(* ===== verification/Daemon.thy ===== *)
theory Daemon
  imports Service
begin

text \<open>
  The running service: the program \<open>main.go\<close> and the parts of \<open>internal/server/server.go\<close> that tie the
  components together, from the start to the shutdown.

  A daemon is the state behind the routes, the throttle, the enroller and the open connections. What
  happens to it is a list of events: connections are accepted, change their state and carry
  requests; tickers fire; signals arrive; the pin stores and guests change outside. Between two
  events the program is idle. This is the order in which the locks let the goroutines of the program
  run; the calls of \<open>ConnContext\<close>, \<open>ConnState\<close> and of the handler are those of \<open>net/http\<close>.

  The theorems: the state stays well formed over every run; a connection is bound to a VM once, when
  it is accepted, and every request on it is answered for that VM, whatever is reloaded meanwhile; and
  a certificate is issued only to the VM that owned the caller's address when its connection was
  accepted.
\<close>

subsection \<open>Connections\<close>

text \<open>\<open>vmid\<close> is the id of \<open>vmConfig\<close>; only log lines read it.\<close>

record vmConnection =
  TCPConn :: Conn
  vmConfigOnce :: bool
  vmConfig :: "VMConfig option"

definition Accept :: "Conn \<Rightarrow> vmConnection" where
  "Accept c = \<lparr>TCPConn = c, vmConfigOnce = False, vmConfig = None\<rparr>"

text \<open>The text of the peer's IP address, from the text of its TCP address.\<close>

definition remoteIP :: "Conn \<Rightarrow> string option" where
  "remoteIP c = map_option IP_String (PeerIP (connRemoteAddr c))"

text \<open>\<open>vmConfigOnce.Do\<close> with \<open>extractVMConfig\<close>; \<open>table\<close> is the ARP table, \<open>Inl\<close> the panic.\<close>

definition extract_once :: "VMConfigMap \<Rightarrow> string option \<Rightarrow> vmConnection \<Rightarrow> unit + vmConnection" where
  "extract_once cache table c =
     (if vmConfigOnce c then Inr c
      else case extractVMConfig cache table (remoteIP (TCPConn c)) of
        Inl u \<Rightarrow> Inl u
      | Inr vm \<Rightarrow> Inr (c\<lparr>vmConfigOnce := True, vmConfig := vm\<rparr>))"

text \<open>The connection, and the record that the context of its requests carries.\<close>

definition connContext :: "VMConfigMap \<Rightarrow> string option \<Rightarrow> vmConnection \<Rightarrow> unit + vmConnection \<times> VMConfig option" where
  "connContext cache table c =
     (case extract_once cache table c of Inl u \<Rightarrow> Inl u | Inr c' \<Rightarrow> Inr (c', vmConfig c'))"

text \<open>What \<open>Read\<close> does before it reads.\<close>

definition conn_Read :: "VMConfigMap \<Rightarrow> string option \<Rightarrow> vmConnection \<Rightarrow> unit + vmConnection" where
  "conn_Read cache table c = extract_once cache table c"

subsection \<open>The server\<close>

datatype phase = Created | Listening | Stopping | Panicked

record 'f daemon =
  d_service :: "'f service"
  d_limiter :: guestLimiter
  d_enroller :: "Enroller option"
  d_conns :: "(Conn \<times> vmConnection \<times> VMConfig option) list"
  d_polling :: bool
  d_phase :: phase

text \<open>
  \<open>time.ParseDuration\<close> gives 0 with its error, which \<open>NewTokenStore\<close> drops. The session store is that of
  \<open>NewEnroller\<close> for a missing one; \<open>w\<close> are the pin stores as the start finds them.
\<close>

definition token_ttl :: "(string \<Rightarrow> duration option) \<Rightarrow> MDSConfig \<Rightarrow> duration" where
  "token_ttl ParseDuration cfg = (case ParseDuration (TokenTTL cfg) of None \<Rightarrow> 0 | Some d \<Rightarrow> d)"

definition New ::
  "lib \<Rightarrow> 'k ca_lib \<Rightarrow> pool_lib \<Rightarrow> (string \<Rightarrow> duration option) \<Rightarrow> (string \<Rightarrow> string option) \<Rightarrow> (string \<Rightarrow> 'f)
    \<Rightarrow> (string \<Rightarrow> fileVM list option) \<Rightarrow> MDSConfig \<Rightarrow> files \<Rightarrow> moment \<Rightarrow> world \<Rightarrow> 'f daemon" where
  "New L P R ParseDuration read hash decode cfg f e w =
     (let (err, srv) = reloadNow hash cfg decode e newServer;
          enroller = (if EnableTPMAttestation cfg
            then (case loadDevIDEnroller L P R ParseDuration read cfg f (vmConfigCache srv) of
                    Inl err \<Rightarrow> None
                  | Inr enr \<Rightarrow> enr)
            else None)
      in \<lparr>d_service = \<lparr>sv_tokens = NewTokenStore (token_ttl ParseDuration cfg),
            sv_enroll = \<lparr>Sessions = NewSessionStore (5 * minute), World = w\<rparr>,
            sv_server = srv\<lparr>devid_set := enroller \<noteq> None\<rparr>\<rparr>,
          d_limiter = newGuestLimiter, d_enroller = enroller, d_conns = [], d_polling = False, d_phase = Created\<rparr>)"

text \<open>The goroutine that checks the sources at every tick runs between these two.\<close>

definition startInventoryPoller :: "'f daemon \<Rightarrow> 'f daemon" where
  "startInventoryPoller d = d\<lparr>d_polling := True\<rparr>"

definition stopInventoryPoller :: "'f daemon \<Rightarrow> 'f daemon" where
  "stopInventoryPoller d = d\<lparr>d_polling := False\<rparr>"

datatype listen_error = ResolveFailed | ListenFailed

text \<open>\<open>Start\<close> up to \<open>Serve\<close>: whether the address resolves and whether it can be listened on.\<close>

definition StartServer :: "bool \<Rightarrow> bool \<Rightarrow> 'f daemon \<Rightarrow> listen_error option \<times> 'f daemon" where
  "StartServer resolves listens d =
     (if \<not> resolves then (Some ResolveFailed, d)
      else if \<not> listens then (Some ListenFailed, d)
      else (None, (startInventoryPoller d)\<lparr>d_phase := Listening\<rparr>))"

definition Shutdown :: "'f daemon \<Rightarrow> 'f daemon" where
  "Shutdown d = (stopInventoryPoller d)\<lparr>d_phase := Stopping\<rparr>"

datatype refresh_error = NotInitialized | LoadFailed load_error

definition RefreshActiveVMConfigCache ::
  "(string \<Rightarrow> 'f) \<Rightarrow> MDSConfig \<Rightarrow> (string \<Rightarrow> fileVM list option) \<Rightarrow> moment \<Rightarrow> 'f Server option
    \<Rightarrow> refresh_error option \<times> 'f Server option" where
  "RefreshActiveVMConfigCache hash cfg decode e active =
     (case active of
        None \<Rightarrow> (Some NotInitialized, None)
      | Some s \<Rightarrow> (case reloadNow hash cfg decode e s of (err, s') \<Rightarrow> (map_option LoadFailed err, Some s')))"

text \<open>\<open>main\<close>: the configuration, without a file the default; then the server, up to its listener.\<close>

definition main_config ::
  "(string \<Rightarrow> MDSConfig \<Rightarrow> MDSConfig option) \<Rightarrow> (string \<Rightarrow> duration option) \<Rightarrow> string \<Rightarrow> string option \<Rightarrow> config_error + MDSConfig" where
  "main_config overlay ParseDuration configPath data =
     (if configPath = [] then Inr DefaultConfig else Load overlay ParseDuration data)"

definition boot ::
  "lib \<Rightarrow> 'k ca_lib \<Rightarrow> pool_lib \<Rightarrow> (string \<Rightarrow> duration option) \<Rightarrow> (string \<Rightarrow> string option) \<Rightarrow> (string \<Rightarrow> 'f)
    \<Rightarrow> (string \<Rightarrow> fileVM list option) \<Rightarrow> MDSConfig \<Rightarrow> files \<Rightarrow> moment \<Rightarrow> world \<Rightarrow> 'f daemon" where
  "boot L P R ParseDuration read hash decode cfg f e w =
     snd (StartServer True True (New L P R ParseDuration read hash decode cfg f e w))"

subsection \<open>Requests and events\<close>

text \<open>The request as the handlers see it, with the address of its connection and the connection's context.\<close>

definition request_on :: "Conn \<Rightarrow> VMConfig option \<Rightarrow> Request \<Rightarrow> Request" where
  "request_on c ctx r = r\<lparr>RemoteAddr := connRemoteAddr c, VMConfigContext := ctx\<rparr>"

definition cache_of :: "'f daemon \<Rightarrow> VMConfigMap" where
  "cache_of d = vmConfigCache (sv_server (d_service d))"

text \<open>One request on a connection; no answer on one that is not open or was refused, and so is closed.\<close>

definition serve_on ::
  "lib \<Rightarrow> MDSConfig \<Rightarrow> inputs \<Rightarrow> string option \<Rightarrow> time \<Rightarrow> time \<Rightarrow> Conn \<Rightarrow> Request \<Rightarrow> 'f daemon
    \<Rightarrow> ResponseWriter option \<times> 'f daemon" where
  "serve_on L cfg i table t1 t2 c r d =
     (case map_of (d_conns d) c of
        None \<Rightarrow> (None, d)
      | Some (vc, ctx) \<Rightarrow>
          if c \<in> set (overCap (d_limiter d)) then (None, d)
          else (case conn_Read (cache_of d) table vc of
                  Inl u \<Rightarrow> (None, d)
                | Inr vc' \<Rightarrow>
                    (case ServeHTTP L cfg (d_enroller d) i t1 t2 (request_on c ctx r) newResponse (d_limiter d, d_service d) of
                       (w, (l, st), lg) \<Rightarrow>
                         (Some w, d\<lparr>d_conns := map (\<lambda>(k, x). (k, if k = c then (vc', ctx) else x)) (d_conns d),
                            d_limiter := l, d_service := st\<rparr>))))"

text \<open>
  The accept loop of \<open>net/http\<close>: \<open>Accept\<close>, \<open>ConnContext\<close>, then the state \<open>StateNew\<close>. A panic in
  \<open>ConnContext\<close> is not recovered and ends the program. A \<open>Conn\<close> is a pointer, new for each connection.
\<close>

definition accept_conn :: "string option \<Rightarrow> time \<Rightarrow> time \<Rightarrow> Conn \<Rightarrow> 'f daemon \<Rightarrow> 'f daemon" where
  "accept_conn table t1 t2 c d =
     (if c \<in> fst ` set (d_conns d) then d
      else case connContext (cache_of d) table (Accept c) of
        Inl u \<Rightarrow> d\<lparr>d_phase := Panicked\<rparr>
      | Inr (vc, ctx) \<Rightarrow>
          (case trackConnState c StateNew t1 t2 (d_limiter d) of
             (l, lg, closed) \<Rightarrow> d\<lparr>d_conns := (c, vc, ctx) # d_conns d, d_limiter := l\<rparr>))"

fun closing :: "ConnState \<Rightarrow> bool" where
  "closing StateHijacked = True"
| "closing StateClosed = True"
| "closing _ = False"

definition conn_state :: "ConnState \<Rightarrow> time \<Rightarrow> time \<Rightarrow> Conn \<Rightarrow> 'f daemon \<Rightarrow> 'f daemon" where
  "conn_state st t1 t2 c d =
     (if c \<notin> fst ` set (d_conns d) \<or> st = StateNew then d
      else case trackConnState c st t1 t2 (d_limiter d) of
        (l, lg, closed) \<Rightarrow>
          d\<lparr>d_limiter := l, d_conns := (if closing st then filter (\<lambda>x. fst x \<noteq> c) (d_conns d) else d_conns d)\<rparr>)"

datatype signal = SIGHUP | SIGINT | SIGTERM

definition set_server :: "'f Server \<Rightarrow> 'f daemon \<Rightarrow> 'f daemon" where
  "set_server s d = d\<lparr>d_service := (d_service d)\<lparr>sv_server := s\<rparr>\<rparr>"

definition handle_signal ::
  "(string \<Rightarrow> 'f) \<Rightarrow> MDSConfig \<Rightarrow> (string \<Rightarrow> fileVM list option) \<Rightarrow> signal \<Rightarrow> moment \<Rightarrow> 'f daemon \<Rightarrow> 'f daemon" where
  "handle_signal hash cfg decode sig e d =
     (case sig of
        SIGHUP \<Rightarrow>
          (case RefreshActiveVMConfigCache hash cfg decode e (Some (sv_server (d_service d))) of
             (err, Some s) \<Rightarrow> set_server s d
           | (err, None) \<Rightarrow> d)
      | SIGINT \<Rightarrow> Shutdown d
      | SIGTERM \<Rightarrow> Shutdown d)"

datatype event =
    Connect Conn "string option" time time
  | StateOf Conn ConnState time time
  | HTTP Conn Request inputs "string option" time time
  | Signal signal moment
  | PollTick moment
  | ScrubTick time
  | CleanupTick time
  | Outside world

text \<open>The tickers of the token store and of the throttle run from the start on; signals are read until the shutdown.\<close>

fun daemon_event ::
  "lib \<Rightarrow> (string \<Rightarrow> 'f) \<Rightarrow> MDSConfig \<Rightarrow> (string \<Rightarrow> fileVM list option) \<Rightarrow> event \<Rightarrow> 'f daemon \<Rightarrow> 'f daemon" where
  "daemon_event L hash cfg decode (Connect c table t1 t2) d =
     (if d_phase d = Listening then accept_conn table t1 t2 c d else d)"
| "daemon_event L hash cfg decode (StateOf c st t1 t2) d =
     (if d_phase d \<noteq> Panicked then conn_state st t1 t2 c d else d)"
| "daemon_event L hash cfg decode (HTTP c r i table t1 t2) d =
     (if d_phase d \<noteq> Panicked then snd (serve_on L cfg i table t1 t2 c r d) else d)"
| "daemon_event L hash cfg decode (Signal sig e) d =
     (if d_phase d \<in> {Created, Listening} then handle_signal hash cfg decode sig e d else d)"
| "daemon_event L hash cfg decode (PollTick e) d =
     (if d_polling d \<and> d_phase d \<noteq> Panicked then set_server (snd (reloadIfChanged hash cfg decode e (sv_server (d_service d)))) d else d)"
| "daemon_event L hash cfg decode (ScrubTick now) d =
     (if d_phase d \<noteq> Panicked then d\<lparr>d_limiter := scrubIdlePeers now (d_limiter d)\<rparr> else d)"
| "daemon_event L hash cfg decode (CleanupTick now) d =
     (if d_phase d \<noteq> Panicked then d\<lparr>d_service := (d_service d)\<lparr>sv_tokens := cleanupExpired now (sv_tokens (d_service d))\<rparr>\<rparr> else d)"
| "daemon_event L hash cfg decode (Outside w) d =
     d\<lparr>d_service := (d_service d)\<lparr>sv_enroll := (sv_enroll (d_service d))\<lparr>World := w\<rparr>\<rparr>\<rparr>"

definition run_daemon ::
  "lib \<Rightarrow> (string \<Rightarrow> 'f) \<Rightarrow> MDSConfig \<Rightarrow> (string \<Rightarrow> fileVM list option) \<Rightarrow> event list \<Rightarrow> 'f daemon \<Rightarrow> 'f daemon" where
  "run_daemon L hash cfg decode evs d = fold (daemon_event L hash cfg decode) evs d"

subsection \<open>Well-formed states\<close>

text \<open>Sessions were checked with the roots of the enroller; the pins it reads do not matter to them.\<close>

definition service_ok :: "lib \<Rightarrow> Enroller option \<Rightarrow> 'f service \<Rightarrow> bool" where
  "service_ok L enr st \<longleftrightarrow> keyed (vmConfigCache (sv_server st)) \<and>
     (\<forall>e. enr = Some e \<longrightarrow> sessions_ok L e (Sessions (sv_enroll st)))"

lemma sessions_ok_now: "sessions_ok L (enroller_now e st) s = sessions_ok L e s"
  by (simp add: sessions_ok_def session_ok_def enroller_now_def)

lemma health_keeps_cache: "vmConfigCache (snd (handleHealth fmt cfg f now r w s)) = vmConfigCache s"
  by (auto simp: handleHealth_def readiness_def devIDCAReadableCached_def Let_def split: prod.splits option.splits if_splits)

definition token_fresh :: "inputs \<Rightarrow> 'f service \<Rightarrow> bool" where
  "token_fresh i st = (case in_token i of None \<Rightarrow> True | Some b \<Rightarrow> map_of (tokens (sv_tokens st)) (EncodeToString b) = None)"

lemma create_token_bounded:
  assumes "HandleCreateToken now rnd ts r w = (w', ts', lg)" "store_bounded ts"
    and "\<And>b. rnd = Some b \<Longrightarrow> map_of (tokens ts) (EncodeToString b) = None"
  shows "store_bounded ts'"
proof -
  obtain p res l where g: "generateTokenAt p now rnd ts = (res, ts', l)"
    using assms(1) by (auto simp: HandleCreateToken_def Let_def split: prod.splits sum.splits token_error.splits)
  then have "token_step ts ts'" using assms(3) by (cases rnd) (auto intro: token_step.mint token_step.mint_error)
  then show ?thesis by (rule token_system.inv_step [OF _ assms(2)])
qed

lemma serve_endpoint_ok:
  assumes "serve_endpoint L cfg enr i ep r newResponse st = (w, st')" "service_ok L enr st"
  shows "service_ok L enr st'" "vmConfigCache (sv_server st') = vmConfigCache (sv_server st)"
    "token_fresh i st \<Longrightarrow> store_bounded (sv_tokens st) \<Longrightarrow> store_bounded (sv_tokens st')"
proof -
  have "service_ok L enr st' \<and> vmConfigCache (sv_server st') = vmConfigCache (sv_server st) \<and>
      (token_fresh i st \<longrightarrow> store_bounded (sv_tokens st) \<longrightarrow> store_bounded (sv_tokens st'))"
  proof (cases ep)
    case CreateToken
    obtain w1 ts lg where h: "HandleCreateToken (in_now i) (in_token i) (sv_tokens st) r newResponse = (w1, ts, lg)"
      by (metis prod_cases3)
    with CreateToken assms(1) have "st' = st\<lparr>sv_tokens := ts\<rparr>" by (simp add: serve_endpoint_def)
    with assms(2) create_token_bounded [OF h] show ?thesis by (auto simp: service_ok_def token_fresh_def split: option.splits)
  next
    case Health
    with assms show ?thesis using health_keeps_cache [of "in_format i" cfg "in_files i" "in_now i" r newResponse "sv_server st"]
      by (auto simp: serve_endpoint_def service_ok_def split: prod.splits)
  next
    case EnrollStart
    show ?thesis
    proof (cases enr)
      case (Some e)
      obtain w1 es where h: "HandleStart L (enroller_now e st) (in_enroll i) (in_start i) r newResponse (sv_enroll st) = (w1, es)"
        by (metis surj_pair)
      with EnrollStart Some assms(1) have "st' = st\<lparr>sv_enroll := es\<rparr>" by (simp add: serve_endpoint_def)
      moreover have "sessions_ok L e (Sessions es)"
        using enroll_step_ok [OF enroll_step.start [OF h]] assms(2) Some by (simp add: sessions_ok_now service_ok_def)
      ultimately show ?thesis using assms(2) Some by (simp add: service_ok_def)
    qed (use EnrollStart assms in \<open>simp add: serve_endpoint_def\<close>)
  next
    case EnrollFinish
    show ?thesis
    proof (cases enr)
      case (Some e)
      obtain w1 es where h: "HandleFinish L (enroller_now e st) (in_enroll i) (in_finish i) r newResponse (sv_enroll st) = (w1, es)"
        by (metis surj_pair)
      with EnrollFinish Some assms(1) have "st' = st\<lparr>sv_enroll := es\<rparr>" by (simp add: serve_endpoint_def)
      moreover have "sessions_ok L e (Sessions es)"
        using enroll_step_ok [OF enroll_step.finish [OF h]] assms(2) Some by (simp add: sessions_ok_now service_ok_def)
      ultimately show ?thesis using assms(2) Some by (simp add: service_ok_def)
    qed (use EnrollFinish assms in \<open>simp add: serve_endpoint_def\<close>)
  qed (use assms in \<open>auto simp: serve_endpoint_def\<close>)
  then show "service_ok L enr st'" "vmConfigCache (sv_server st') = vmConfigCache (sv_server st)"
    "token_fresh i st \<Longrightarrow> store_bounded (sv_tokens st) \<Longrightarrow> store_bounded (sv_tokens st')" by blast+
qed

lemma serve_mux_ok:
  assumes "serve_mux L cfg enr i r newResponse st = (w, st')" "service_ok L enr st"
  shows "service_ok L enr st'" "vmConfigCache (sv_server st') = vmConfigCache (sv_server st)"
    "token_fresh i st \<Longrightarrow> store_bounded (sv_tokens st) \<Longrightarrow> store_bounded (sv_tokens st')"
  using assms serve_endpoint_ok [OF _ assms(2)]
  by (auto simp: serve_mux_def simp del: not_None_eq split: found.splits)

lemma middleware_outcome:
  assumes "guestLimitMiddleware next now t1 t2 r w (l, s) = (w', (l', s'), lg)"
  shows "next r w s = (w', s') \<or> w' = writeTooManyRequests w \<and> s' = s"
    "overCap l' = overCap l" "b_conns (budget q l') = b_conns (budget q l)" "limiter_ok l \<Longrightarrow> limiter_ok l'"
proof -
  let ?key = "peerKeyFromAddr (RemoteAddr r)"
  obtain ok1 l1 lg1 where a1: "allowRequest ?key now t1 t2 l = (ok1, l1, lg1)" by (metis prod_cases3)
  obtain ok2 l2 lg2 where a2: "allowToken ?key now t1 t2 l1 = (ok2, l2, lg2)" by (metis prod_cases3)
  obtain ok3 l3 lg3 where a3: "allowEnroll ?key now t1 t2 l1 = (ok3, l3, lg3)" by (metis prod_cases3)
  obtain ok4 l4 lg4 where a4: "allowEnroll ?key now t1 t2 l2 = (ok4, l4, lg4)" by (metis prod_cases3)
  note keeps = allowRequest_keeps [OF a1] allowToken_keeps [OF a2] allowEnroll_keeps [OF a3] allowEnroll_keeps [OF a4]
  have "(next r w s = (w', s') \<or> w' = writeTooManyRequests w \<and> s' = s) \<and> (l' = l \<or> l' = l1 \<or> l' = l2 \<or> l' = l3 \<or> l' = l4)"
    using assms a1 a2 a3 a4 unfolding guestLimitMiddleware_def Let_def
    by (auto split: prod.splits if_splits bool.splits)
  then show "next r w s = (w', s') \<or> w' = writeTooManyRequests w \<and> s' = s"
    "overCap l' = overCap l" "b_conns (budget q l') = b_conns (budget q l)" "limiter_ok l \<Longrightarrow> limiter_ok l'"
    using keeps by auto
qed

definition throttle_of :: "'f daemon \<Rightarrow> throttle_run" where
  "throttle_of d = \<lparr>lim = d_limiter d, hist = (\<lambda>_ _. []), at = 0, conns = map fst (d_conns d)\<rparr>"

text \<open>The connections were bound when they were accepted, and their context is what they were bound to.\<close>

definition bound_once :: "'f daemon \<Rightarrow> bool" where
  "bound_once d \<longleftrightarrow> (\<forall>(c, vc, ctx) \<in> set (d_conns d). TCPConn vc = c \<and> vmConfigOnce vc \<and> vmConfig vc = ctx)"

definition daemon_ok :: "lib \<Rightarrow> 'f daemon \<Rightarrow> bool" where
  "daemon_ok L d \<longleftrightarrow> service_ok L (d_enroller d) (d_service d) \<and> limiter_ok (d_limiter d) \<and> conns_inv (throttle_of d) \<and> bound_once d"

lemma map_update_same:
  assumes "distinct (map fst m)" "map_of m c = Some x"
  shows "map (\<lambda>(k, y). (k, if k = c then x else y)) m = m"
  using assms by (intro map_idI) (auto split: if_splits dest!: map_of_SomeD intro: eq_key_imp_eq_value)

lemma serve_on_cases:
  assumes "serve_on L cfg i table t1 t2 c r d = (a, d')" "bound_once d" "distinct (map fst (d_conns d))"
  shows "a = None \<and> d' = d \<or>
    (\<exists>vc ctx w l st lg. map_of (d_conns d) c = Some (vc, ctx) \<and> a = Some w \<and>
       ServeHTTP L cfg (d_enroller d) i t1 t2 (request_on c ctx r) newResponse (d_limiter d, d_service d) = (w, (l, st), lg) \<and>
       d' = d\<lparr>d_limiter := l, d_service := st\<rparr>)"
proof (cases "map_of (d_conns d) c")
  case None
  with assms(1) show ?thesis by (simp add: serve_on_def)
next
  case (Some x)
  obtain vc ctx where x: "x = (vc, ctx)" by (cases x)
  with Some assms(2) have "vmConfigOnce vc" unfolding bound_once_def by (blast dest: map_of_SomeD)
  then have "conn_Read (cache_of d) table vc = Inr vc" by (simp add: conn_Read_def extract_once_def)
  with assms(1) Some x map_update_same [OF assms(3) Some] show ?thesis
    by (auto simp: serve_on_def split: if_splits prod.splits)
qed

lemma serve_on_ok:
  assumes "serve_on L cfg i table t1 t2 c r d = (a, d')" "daemon_ok L d"
  shows "daemon_ok L d'" "d_conns d' = d_conns d" "d_enroller d' = d_enroller d" "d_phase d' = d_phase d" "cache_of d' = cache_of d"
    "token_fresh i (d_service d) \<Longrightarrow> store_bounded (sv_tokens (d_service d)) \<Longrightarrow> store_bounded (sv_tokens (d_service d'))"
proof -
  have dist: "distinct (map fst (d_conns d))" "bound_once d" using assms(2) by (simp_all add: daemon_ok_def conns_inv_def throttle_of_def)
  from serve_on_cases [OF assms(1) dist(2, 1)]
  have "daemon_ok L d' \<and> d_conns d' = d_conns d \<and> d_enroller d' = d_enroller d \<and> d_phase d' = d_phase d \<and> cache_of d' = cache_of d \<and>
    (token_fresh i (d_service d) \<longrightarrow> store_bounded (sv_tokens (d_service d)) \<longrightarrow> store_bounded (sv_tokens (d_service d')))"
  proof (elim disjE exE conjE)
    fix vc ctx w l st lg
    assume h: "ServeHTTP L cfg (d_enroller d) i t1 t2 (request_on c ctx r) newResponse (d_limiter d, d_service d) = (w, (l, st), lg)"
      and d': "d' = d\<lparr>d_limiter := l, d_service := st\<rparr>"
    note m = middleware_outcome [OF h [unfolded ServeHTTP_def]]
    have ok: "service_ok L (d_enroller d) (d_service d)" using assms(2) by (simp add: daemon_ok_def)
    have "service_ok L (d_enroller d) st \<and> vmConfigCache (sv_server st) = vmConfigCache (sv_server (d_service d)) \<and>
        (token_fresh i (d_service d) \<longrightarrow> store_bounded (sv_tokens (d_service d)) \<longrightarrow> store_bounded (sv_tokens st))"
      using m(1) serve_mux_ok [OF _ ok] ok by blast
    moreover have "conns_inv (throttle_of d')"
      by (rule conns_inv_same [of "throttle_of d"]) (use assms(2) m(2, 3) d' in \<open>simp_all add: daemon_ok_def throttle_of_def\<close>)
    ultimately show ?thesis using assms(2) m(4) d' by (auto simp: daemon_ok_def bound_once_def cache_of_def)
  qed (use assms(2) in simp)
  then show "daemon_ok L d'" "d_conns d' = d_conns d" "d_enroller d' = d_enroller d" "d_phase d' = d_phase d" "cache_of d' = cache_of d"
    "token_fresh i (d_service d) \<Longrightarrow> store_bounded (sv_tokens (d_service d)) \<Longrightarrow> store_bounded (sv_tokens (d_service d'))"
    by blast+
qed

lemma accept_conn_ok:
  assumes "daemon_ok L d"
  shows "daemon_ok L (accept_conn table t1 t2 c d)"
proof (cases "c \<in> fst ` set (d_conns d) \<or> (\<exists>u. connContext (cache_of d) table (Accept c) = Inl u)")
  case True
  with assms show ?thesis
    by (auto simp: accept_conn_def daemon_ok_def bound_once_def throttle_of_def)
next
  case False
  then obtain vc ctx where v: "connContext (cache_of d) table (Accept c) = Inr (vc, ctx)" "c \<notin> fst ` set (d_conns d)"
    by (metis obj_sumE surj_pair)
  obtain l lg cl where t: "trackConnState c StateNew t1 t2 (d_limiter d) = (l, lg, cl)" by (metis prod_cases3)
  have "conns_inv (throttle_of d\<lparr>lim := l, conns := c # conns (throttle_of d)\<rparr>)"
    by (rule conns_inv_opened) (use assms v(2) t in \<open>simp_all add: daemon_ok_def throttle_of_def\<close>)
  moreover have "TCPConn vc = c \<and> vmConfigOnce vc \<and> vmConfig vc = ctx"
    using v(1) by (auto simp: connContext_def extract_once_def Accept_def split: sum.splits)
  ultimately show ?thesis
    using assms v t track_keeps(4) [OF t] by (simp add: accept_conn_def daemon_ok_def bound_once_def throttle_of_def)
qed

lemma conn_state_ok:
  assumes "daemon_ok L d"
  shows "daemon_ok L (conn_state st t1 t2 c d)"
proof (cases "c \<notin> fst ` set (d_conns d) \<or> st = StateNew")
  case False
  obtain l lg cl where t: "trackConnState c st t1 t2 (d_limiter d) = (l, lg, cl)" by (metis prod_cases3)
  let ?s = "throttle_of d"
  have c: "conns_inv ?s" "c \<in> set (conns ?s)" "lim ?s = d_limiter d" using assms False by (auto simp: daemon_ok_def throttle_of_def)
  have "conns_inv (throttle_of (conn_state st t1 t2 c d))"
  proof (cases "closing st")
    case True
    then have "st \<in> {StateHijacked, StateClosed}" by (cases st) auto
    from conns_inv_closed [OF c(1, 2) this t [folded c(3)]] True False t show ?thesis
      by (simp add: conn_state_def throttle_of_def filter_map comp_def case_prod_beta)
  next
    case open': False
    with False have "st \<in> {StateActive, StateIdle}" by (cases st) auto
    from track_moved [OF t this] open' False t c(1) show ?thesis
      by (auto simp: conn_state_def throttle_of_def intro: conns_inv_same)
  qed
  then show ?thesis
    using assms False t track_keeps(4) [OF t] by (auto simp: conn_state_def daemon_ok_def bound_once_def)
qed (use assms in \<open>simp add: conn_state_def\<close>)

lemma set_server_ok:
  assumes "daemon_ok L d" "keyed (vmConfigCache s)"
  shows "daemon_ok L (set_server s d)"
  using assms by (simp add: set_server_def daemon_ok_def service_ok_def throttle_of_def bound_once_def)

lemma reload_keyed:
  assumes "keyed (vmConfigCache s)"
  shows "keyed (vmConfigCache (snd (reloadNow hash cfg decode e s)))" "keyed (vmConfigCache (snd (reloadIfChanged hash cfg decode e s)))"
  using assms by (auto simp: reloadNow_def reloadIfChanged_def Let_def intro!: Refresh_keyed)

lemma handle_signal_eq:
  "handle_signal hash cfg decode sig e d =
     (if sig = SIGHUP then set_server (snd (reloadNow hash cfg decode e (sv_server (d_service d)))) d else Shutdown d)"
  by (cases sig) (simp_all add: handle_signal_def RefreshActiveVMConfigCache_def split: prod.split)

lemma daemon_event_ok:
  assumes "daemon_ok L d"
  shows "daemon_ok L (daemon_event L hash cfg decode ev d)"
proof -
  have keyed: "keyed (vmConfigCache (sv_server (d_service d)))" using assms by (simp add: daemon_ok_def service_ok_def)
  show ?thesis
  proof (cases ev)
    case (HTTP c r i table t1 t2)
    with assms show ?thesis
      using serve_on_ok(1) [of L cfg i table t1 t2 c r d "fst (serve_on L cfg i table t1 t2 c r d)"] by simp
  next
    case (Signal sig e)
    have "daemon_ok L (Shutdown d)" using assms by (simp add: Shutdown_def stopInventoryPoller_def daemon_ok_def throttle_of_def bound_once_def)
    with Signal assms keyed show ?thesis by (simp add: handle_signal_eq set_server_ok reload_keyed)
  next
    case (ScrubTick now)
    have "0 \<le> b_conns (budget q (d_limiter d))" for q using assms by (simp add: daemon_ok_def conns_inv_def throttle_of_def)
    then have "conns_inv (throttle_of (d\<lparr>d_limiter := scrubIdlePeers now (d_limiter d)\<rparr>))"
      using assms by (auto simp: daemon_ok_def throttle_of_def scrub_budget intro: conns_inv_same)
    with ScrubTick assms show ?thesis by (simp add: daemon_ok_def bound_once_def scrub_budget)
  qed (use assms keyed in \<open>simp_all add: accept_conn_ok conn_state_ok set_server_ok reload_keyed, auto simp: daemon_ok_def service_ok_def throttle_of_def bound_once_def\<close>)
qed

lemma run_daemon_ok: "daemon_ok L d \<Longrightarrow> daemon_ok L (run_daemon L hash cfg decode evs d)"
  by (induction evs arbitrary: d) (simp_all add: run_daemon_def daemon_event_ok)

lemma boot_ok: "daemon_ok L (boot L P R ParseDuration read hash decode cfg f e w)"
proof -
  have "keyed (vmConfigCache (newServer :: 'f Server))" by (simp add: newServer_def keyed_def)
  from reload_keyed(1) [OF this, of hash cfg decode e] show ?thesis
    by (auto simp: boot_def StartServer_def startInventoryPoller_def New_def daemon_ok_def service_ok_def sessions_ok_def NewSessionStore_def bound_once_def
        throttle_of_def conns_inv_def counted_def newGuestLimiter_def budget_def newPeerBudget_def maxConnsPerPeer_def limiter_ok_def Let_def
        split: prod.splits)
qed

text \<open>
  Whatever configuration the daemon starts with is usable, also the default one of a start without
  a file, as long as the default durations parse to what they say.
\<close>

lemma main_config_ok:
  assumes "main_config overlay pd path data = Inr cfg"
    and "pd ''60s'' \<noteq> None" "pd ''2160h'' = Some d" "0 < d" "d \<le> MaxDevIDLifetime"
  shows "config_ok pd cfg"
proof (cases "path = []")
  case True
  then show ?thesis using assms by (auto simp: main_config_def config_ok_def DefaultConfig_def)
next
  case False
  then show ?thesis using assms(1) Load_exact by (auto simp: main_config_def)
qed

subsection \<open>A connection keeps its VM\<close>

fun closes :: "Conn \<Rightarrow> event \<Rightarrow> bool" where
  "closes c (StateOf k st t1 t2) \<longleftrightarrow> k = c \<and> closing st"
| "closes c _ \<longleftrightarrow> False"

lemma event_keeps_conn:
  assumes "daemon_ok L d" "map_of (d_conns d) c = Some x" "\<not> closes c ev"
  shows "map_of (d_conns (daemon_event L hash cfg decode ev d)) c = Some x"
proof (cases ev)
  case (Connect k table t1 t2)
  have "c \<in> fst ` set (d_conns d)" using assms(2) by (metis domI dom_map_of_conv_image_fst)
  with Connect assms(2) show ?thesis by (auto simp: accept_conn_def split: sum.splits prod.splits)
next
  case (StateOf k st t1 t2)
  have "map_of (filter (\<lambda>x. fst x \<noteq> k) m) c = map_of m c" if "k \<noteq> c" for m :: "(Conn \<times> vmConnection \<times> VMConfig option) list"
    using that by (induction m) auto
  with StateOf assms(2, 3) show ?thesis by (auto simp: conn_state_def split: prod.splits)
next
  case (HTTP k r i table t1 t2)
  with assms show ?thesis
    using serve_on_ok(2) [of L cfg i table t1 t2 k r d "fst (serve_on L cfg i table t1 t2 k r d)"] by simp
qed (use assms in \<open>simp_all add: handle_signal_eq set_server_def Shutdown_def stopInventoryPoller_def\<close>)

lemma run_keeps_conn:
  assumes "daemon_ok L d" "map_of (d_conns d) c = Some x" "\<forall>ev \<in> set evs. \<not> closes c ev"
  shows "map_of (d_conns (run_daemon L hash cfg decode evs d)) c = Some x"
  using assms
proof (induction evs arbitrary: d)
  case (Cons ev evs)
  have "run_daemon L hash cfg decode (ev # evs) d = run_daemon L hash cfg decode evs (daemon_event L hash cfg decode ev d)"
    by (simp add: run_daemon_def)
  with Cons.IH [OF daemon_event_ok [OF Cons.prems(1)] event_keeps_conn [OF Cons.prems(1, 2)]] Cons.prems(3) show ?case by simp
qed (simp add: run_daemon_def)

text \<open>The record a connection is bound to when it is accepted in the state \<open>d\<close>.\<close>

lemma accepted_context:
  assumes "map_of (d_conns d) c = None" "map_of (d_conns (accept_conn table t1 t2 c d)) c = Some (vc, ctx)"
  shows "extractVMConfig (cache_of d) table (remoteIP c) = Inr ctx"
  using assms
  by (auto simp: accept_conn_def connContext_def extract_once_def Accept_def map_of_eq_None_iff dest: map_of_SomeD split: sum.splits prod.splits)
     (metis image_eqI fst_conv map_of_SomeD)

lemma panicked_conns:
  assumes "d_phase d = Panicked"
  shows "d_phase (daemon_event L hash cfg decode ev d) = Panicked" "d_conns (daemon_event L hash cfg decode ev d) = d_conns d"
  using assms by (cases ev; simp)+

lemma run_panicked:
  assumes "d_phase d = Panicked"
  shows "d_conns (run_daemon L hash cfg decode evs d) = d_conns d"
  using assms
proof (induction evs arbitrary: d)
  case (Cons ev evs)
  from Cons.IH [OF panicked_conns(1) [OF Cons.prems]] panicked_conns(2) [OF Cons.prems] show ?case by (simp add: run_daemon_def)
qed (simp add: run_daemon_def)

lemma enroller_fixed: "d_enroller (run_daemon L hash cfg decode evs d) = d_enroller d"
proof (induction evs arbitrary: d)
  case (Cons ev evs)
  have "d_enroller (daemon_event L hash cfg decode ev d) = d_enroller d"
    by (cases ev) (simp_all add: accept_conn_def conn_state_def serve_on_def handle_signal_eq set_server_def Shutdown_def stopInventoryPoller_def
        split: sum.splits prod.splits option.splits)
  with Cons show ?case by (simp add: run_daemon_def)
qed (simp add: run_daemon_def)

text \<open>What a request on a connection of a running daemon is served for.\<close>

lemma served_context:
  assumes "daemon_ok L d" "d_phase d = Listening" "map_of (d_conns d) c = None"
    and "d' = run_daemon L hash cfg decode after (daemon_event L hash cfg decode (Connect c table t1 t2) d)"
    and "\<forall>ev \<in> set after. \<not> closes c ev"
    and "serve_on L cfg i table' t3 t4 c r d' = (Some w, d'')"
  obtains ctx l st lg where "extractVMConfig (cache_of d) table (remoteIP c) = Inr ctx" "daemon_ok L d'"
    "guestLimitMiddleware (serve_mux L cfg (d_enroller d') i) (in_now i) t3 t4 (request_on c ctx r) newResponse (d_limiter d', d_service d') = (w, (l, st), lg)"
    "d'' = d'\<lparr>d_limiter := l, d_service := st\<rparr>"
proof -
  let ?d1 = "daemon_event L hash cfg decode (Connect c table t1 t2) d"
  have d1: "?d1 = accept_conn table t1 t2 c d" using assms(2) by simp
  have ok1: "daemon_ok L ?d1" by (rule daemon_event_ok [OF assms(1)])
  have ok: "daemon_ok L d'" using run_daemon_ok [OF ok1] by (simp add: assms(4))
  then have "bound_once d'" "distinct (map fst (d_conns d'))" by (simp_all add: daemon_ok_def conns_inv_def throttle_of_def)
  from serve_on_cases [OF assms(6) this] obtain vc ctx l st lg where s: "map_of (d_conns d') c = Some (vc, ctx)"
    "ServeHTTP L cfg (d_enroller d') i t3 t4 (request_on c ctx r) newResponse (d_limiter d', d_service d') = (w, (l, st), lg)"
    "d'' = d'\<lparr>d_limiter := l, d_service := st\<rparr>" by auto
  have "map_of (d_conns ?d1) c = Some (vc, ctx)"
  proof (cases "map_of (d_conns ?d1) c")
    case None
    then have "d_phase ?d1 = Panicked"
      using assms(2, 3) unfolding d1 by (auto simp: accept_conn_def map_of_eq_None_iff split: sum.splits prod.splits)
    from run_panicked [OF this] None s(1) assms(4) show ?thesis by simp
  next
    case (Some x)
    from run_keeps_conn [OF ok1 Some assms(5)] s(1) Some show ?thesis by (simp add: assms(4))
  qed
  with accepted_context [OF assms(3)] have "extractVMConfig (cache_of d) table (remoteIP c) = Inr ctx" by (simp only: d1)
  from that [OF this ok s(2) [unfolded ServeHTTP_def] s(3)] show thesis .
qed

lemma too_many_status: "status (writeTooManyRequests newResponse) = 429"
  by (simp add: writeTooManyRequests_def textPlain_def retryAfterSeconds_def http_defs http_simps)

lemma bound_facts:
  assumes "daemon_ok L d" "extractVMConfig (cache_of d) (Some arp) (remoteIP c) = Inr (Some vm)"
  shows "\<exists>ip row. remoteIP c = Some ip \<and> find (arp_row_for ip) (arp_rows arp) = Some row \<and>
    (VMID vm, vm) \<in> set (cache_of d) \<and> VMID vm \<noteq> [] \<and> has_mac (row ! 3) vm"
proof -
  obtain ip where ip: "remoteIP c = Some ip" using assms(2) by (auto simp: extractVMConfig_def split: option.splits)
  from assms(1) have "keyed (cache_of d)" by (simp add: daemon_ok_def service_ok_def cache_of_def)
  from bound_owner [OF this assms(2) [unfolded ip]] ip show ?thesis by blast
qed

lemma request_on_token: "storeValidatesToken s t (request_on c ctx r) = storeValidatesToken s t r"
proof -
  have "header_get (request_on c ctx r) h = header_get r h" for h by (simp add: header_get_def request_on_def)
  then show ?thesis unfolding storeValidatesToken_def by (simp split: option.split)
qed

text \<open>
  C10: Every request is answered for the VM its connection was accepted from. A daemon runs through any
  events, accepts a connection, and runs on through any events, reloads and changed ARP tables
  included, that do not close it. With \<open>require_vm_identity\<close>, a GET of the instance id or of the
  identity document on that connection is then refused by the throttle (429), answered 401 without a
  valid token, answered 404 when the connection was bound to no VM when it was accepted, and otherwise
  answered with the id of the VM of the inventory of that moment which owned the MAC address that
  the ARP table of that moment had for the caller.
\<close>

theorem connection_identity:
  assumes "EnableEC2Compat cfg" "cfg_RequireVMIdentity cfg"
    and "d = run_daemon L hash cfg decode before (boot L P R ParseDuration read hash decode cfg f e wd)"
    and "d_phase d = Listening" "map_of (d_conns d) c = None"
    and "d' = run_daemon L hash cfg decode after (daemon_event L hash cfg decode (Connect c (Some arp) t1 t2) d)"
    and "\<forall>ev \<in> set after. \<not> closes c ev"
    and "serve_on L cfg i table t3 t4 c r d' = (Some w, d'')"
    and "Method r = ''GET''" "Path r \<in> set IdentityBearingPaths"
  shows "d_service d'' = d_service d' \<and>
    (status w = 429 \<or>
     (if \<not> storeValidatesToken (Some (sv_tokens (d_service d'))) (in_now i) r then status w = 401
      else case extractVMConfig (cache_of d) (Some arp) (remoteIP c) of
        Inr (Some vm) \<Rightarrow>
          (\<exists>ip row. remoteIP c = Some ip \<and> find (arp_row_for ip) (arp_rows arp) = Some row \<and>
             (VMID vm, vm) \<in> set (cache_of d) \<and> VMID vm \<noteq> [] \<and> has_mac (row ! 3) vm) \<and>
          status w = 200 \<and>
          (Path r = ''/latest/meta-data/instance-id'' \<longrightarrow> Body w = [Text (''i-'' @ VMID vm)]) \<and>
          (Path r = ''/latest/dynamic/instance-identity/document'' \<longrightarrow>
             (\<exists>fields. Body w = [JSON (JObject fields)] \<and> map_of fields ''instanceId'' = Some (JString (''i-'' @ VMID vm))))
      | _ \<Rightarrow> status w = 404))"
proof -
  have ok: "daemon_ok L d" by (simp add: assms(3) run_daemon_ok boot_ok)
  obtain ctx l st lg where h: "extractVMConfig (cache_of d) (Some arp) (remoteIP c) = Inr ctx"
    "guestLimitMiddleware (serve_mux L cfg (d_enroller d') i) (in_now i) t3 t4 (request_on c ctx r) newResponse (d_limiter d', d_service d') = (w, (l, st), lg)"
    "d'' = d'\<lparr>d_limiter := l, d_service := st\<rparr>"
    by (rule served_context [OF ok assms(4-8)])
  let ?r = "request_on c ctx r"
  have r: "Method ?r = ''GET''" "Path ?r \<in> set IdentityBearingPaths" "Path ?r = Path r" "VMConfigContext ?r = ctx"
    "storeValidatesToken s t ?r = storeValidatesToken s t r" for s t
    using assms(9, 10) request_on_token by (simp_all add: request_on_def)
  have owner: "\<exists>ip row. remoteIP c = Some ip \<and> find (arp_row_for ip) (arp_rows arp) = Some row \<and>
      (VMID vm, vm) \<in> set (cache_of d) \<and> VMID vm \<noteq> [] \<and> has_mac (row ! 3) vm" if "ctx = Some vm" for vm
    by (rule bound_facts [OF ok h(1) [unfolded that]])
  then have ne: "VMConfigContext ?r = Some vm \<Longrightarrow> VMID vm \<noteq> []" for vm unfolding r(4) by blast
  from middleware_outcome(1) [OF h(2)] show ?thesis
  proof
    assume "serve_mux L cfg (d_enroller d') i ?r newResponse (d_service d') = (w, st)"
    from identity_answer [OF assms(1, 2) r(1, 2) ne this] owner show ?thesis
      unfolding r(3, 4, 5) h(1, 3) by (auto split: option.splits if_splits)
  next
    assume "w = writeTooManyRequests newResponse \<and> st = d_service d'"
    then show ?thesis by (simp add: too_many_status h(3))
  qed
qed

lemma enroll_found:
  assumes "EnableTPMAttestation cfg"
  shows "findHandler (routes cfg True) ''POST'' ''/latest/devid/enroll/start'' =
      Found \<lparr>r_method = ''POST'', r_segs = [Lit ''latest'', Lit ''devid'', Lit ''enroll'', Lit ''start''], r_handler = EnrollStart\<rparr> []"
    and "findHandler (routes cfg True) ''POST'' ''/latest/devid/enroll/finish'' =
      Found \<lparr>r_method = ''POST'', r_segs = [Lit ''latest'', Lit ''devid'', Lit ''enroll'', Lit ''finish''], r_handler = EnrollFinish\<rparr> []"
proof -
  have "filter (\<lambda>r. r_method r = ''POST'') (metadata_routes cfg) = []" by (simp add: metadata_routes_eq Let_def)
  moreover have "r_method (route ''/'' Unmatched) = []" by (simp add: route_def)
  ultimately have t: "tree (routes cfg True) ''POST'' = map (\<lambda>r. (r_segs r, [], r)) Register"
    by (simp add: tree_def routes_def Register_def fixed_routes assms)
  have segs: "path_segs ''/latest/devid/enroll/finish'' = [''latest'', ''devid'', ''enroll'', ''finish'']"
    "path_segs ''/latest/devid/enroll/start'' = [''latest'', ''devid'', ''enroll'', ''start'']"
    "cleanPath ''/latest/devid/enroll/finish'' = ''/latest/devid/enroll/finish''"
    "cleanPath ''/latest/devid/enroll/start'' = ''/latest/devid/enroll/start''" by code_simp+
  show "findHandler (routes cfg True) ''POST'' ''/latest/devid/enroll/start'' =
      Found \<lparr>r_method = ''POST'', r_segs = [Lit ''latest'', Lit ''devid'', Lit ''enroll'', Lit ''start''], r_handler = EnrollStart\<rparr> []"
    "findHandler (routes cfg True) ''POST'' ''/latest/devid/enroll/finish'' =
      Found \<lparr>r_method = ''POST'', r_segs = [Lit ''latest'', Lit ''devid'', Lit ''enroll'', Lit ''finish''], r_handler = EnrollFinish\<rparr> []"
    by (simp_all add: findHandler_def mux_match_def t segs Register_def fixed_routes Let_def leaf_def exactMatch_def)
qed

lemma boot_attests: "d_enroller (boot L P R ParseDuration read hash decode cfg f e w) = Some enr \<Longrightarrow> EnableTPMAttestation cfg"
  by (auto simp: boot_def StartServer_def startInventoryPoller_def New_def Let_def split: prod.splits if_splits)

text \<open>
  C9: A certificate goes to the VM that was calling. A daemon runs through any events, enrolments of
  any guests among them, accepts a connection, and runs on without closing it. When a POST of the
  second leg on that connection is then answered 200, the connection was bound when it was accepted
  to a VM of the inventory of that moment which owned the MAC address the ARP table had for the
  caller; the session it names was opened for that very VM and with the EK certificate it presents,
  passed all checks, and was challenged with the nonce the caller returned; and the certificate has
  the id of that VM as its subject.
\<close>

theorem certificate_end_to_end:
  assumes "d = run_daemon L hash cfg decode before (boot L P R ParseDuration read hash decode cfg f e wd)"
    and "d_phase d = Listening" "map_of (d_conns d) c = None"
    and "d' = run_daemon L hash cfg decode after (daemon_event L hash cfg decode (Connect c (Some arp) t1 t2) d)"
    and "\<forall>ev \<in> set after. \<not> closes c ev"
    and "serve_on L cfg i table t3 t4 c r d' = (Some w, d'')"
    and "Method r = ''POST''" "Path r = ''/latest/devid/enroll/finish''" "status w = 200"
    and "d_enroller d' = Some enr" "\<forall>s. sha256 L s \<noteq> []"
  shows "\<exists>vm ip row req sess ek cert. extractVMConfig (cache_of d) (Some arp) (remoteIP c) = Inr (Some vm) \<and>
    remoteIP c = Some ip \<and> find (arp_row_for ip) (arp_rows arp) = Some row \<and>
    (VMID vm, vm) \<in> set (cache_of d) \<and> VMID vm \<noteq> [] \<and> has_mac (row ! 3) vm \<and>
    in_finish i = Some req \<and>
    map_of (sessions (Sessions (sv_enroll (d_service d')))) (FinishSessionID req) = Some sess \<and>
    map_of (sessions (Sessions (sv_enroll (d_service d'')))) (FinishSessionID req) = None \<and>
    SessVMID sess = VMID vm \<and> session_ok L enr sess \<and>
    ParseEKCertHeader L (header_get r HeaderEKCert) = Some ek \<and>
    EqualFold (SessEKFingerprint sess) (EKFingerprint L (Some ek)) \<and>
    DecodeString (ChallengeResponseB64 req) = Some (Nonce sess) \<and>
    IssueDevID L (E_CA enr) (SessRequest sess) (VMID vm) (time2 (in_enroll i)) (time2 (in_enroll i)) = Some cert \<and>
    Body w = [JSON (JObject [(''devid_cert_pem'', JString (Raw cert @ Raw (ca_cert (E_CA enr))))])]"
proof -
  have ok: "daemon_ok L d" by (simp add: assms(1) run_daemon_ok boot_ok)
  obtain ctx l st lg where h: "extractVMConfig (cache_of d) (Some arp) (remoteIP c) = Inr ctx" "daemon_ok L d'"
    "guestLimitMiddleware (serve_mux L cfg (d_enroller d') i) (in_now i) t3 t4 (request_on c ctx r) newResponse (d_limiter d', d_service d') = (w, (l, st), lg)"
    "d'' = d'\<lparr>d_limiter := l, d_service := st\<rparr>"
    by (rule served_context [OF ok assms(2-6)])
  let ?r = "request_on c ctx r" and ?e = "enroller_now enr (d_service d')"
  have "d_enroller d' = d_enroller (boot L P R ParseDuration read hash decode cfg f e wd)"
    unfolding assms(4) enroller_fixed using enroller_fixed [of L hash cfg decode "[Connect c (Some arp) t1 t2]" d]
    by (simp add: run_daemon_def assms(1) enroller_fixed [unfolded run_daemon_def])
  then have tpm: "EnableTPMAttestation cfg" using assms(10) boot_attests by metis
  have "serve_mux L cfg (Some enr) i ?r newResponse (d_service d') = (w, st)"
    using middleware_outcome(1) [OF h(3)] too_many_status assms(9, 10) by auto
  then have "serve_endpoint L cfg (Some enr) i EnrollFinish (?r\<lparr>PathValues := []\<rparr>) newResponse (d_service d') = (w, st)"
    using enroll_found(2) [OF tpm] assms(7, 8) by (simp add: serve_mux_def request_on_def)
  then obtain es where fin: "HandleFinish L ?e (in_enroll i) (in_finish i) (?r\<lparr>PathValues := []\<rparr>) newResponse (sv_enroll (d_service d')) = (w, es)"
    "st = (d_service d')\<lparr>sv_enroll := es\<rparr>"
    by (auto simp: serve_endpoint_def split: prod.splits)
  have "sessions_ok L ?e (Sessions (sv_enroll (d_service d')))"
    using h(2) assms(10) by (simp add: daemon_ok_def service_ok_def sessions_ok_now)
  from finish_means [OF this fin(1) assms(9, 11)] obtain req vm sess ek cert where m: "in_finish i = Some req" "ctx = Some vm"
    "map_of (sessions (Sessions (sv_enroll (d_service d')))) (FinishSessionID req) = Some sess"
    "map_of (sessions (Sessions es)) (FinishSessionID req) = None" "SessVMID sess = VMID vm" "session_ok L ?e sess"
    "ParseEKCertHeader L (header_get (?r\<lparr>PathValues := []\<rparr>) HeaderEKCert) = Some ek"
    "EqualFold (SessEKFingerprint sess) (EKFingerprint L (Some ek))" "DecodeString (ChallengeResponseB64 req) = Some (Nonce sess)"
    "IssueDevID L (E_CA ?e) (SessRequest sess) (VMID vm) (time2 (in_enroll i)) (time2 (in_enroll i)) = Some cert"
    "Body w = [JSON (JObject [(''devid_cert_pem'', JString (Raw cert @ Raw (ca_cert (E_CA ?e))))])]"
    by (auto simp: request_on_def)
  from bound_facts [OF ok h(1) [unfolded m(2)]] obtain ip row where "remoteIP c = Some ip" "find (arp_row_for ip) (arp_rows arp) = Some row"
    "(VMID vm, vm) \<in> set (cache_of d)" "VMID vm \<noteq> []" "has_mac (row ! 3) vm" by blast
  moreover have "session_ok L enr sess" "E_CA ?e = E_CA enr" "header_get (?r\<lparr>PathValues := []\<rparr>) HeaderEKCert = header_get r HeaderEKCert"
    using m(6) by (simp_all add: session_ok_def enroller_now_def header_get_def request_on_def)
  moreover have "sv_enroll (d_service d'') = es" by (simp add: h(4) fin(2))
  ultimately show ?thesis using m h(1) by metis
qed

text \<open>The clock and the random bytes of a run: every minted token is new when it is minted.\<close>

fun fresh_run :: "lib \<Rightarrow> (string \<Rightarrow> 'f) \<Rightarrow> MDSConfig \<Rightarrow> (string \<Rightarrow> fileVM list option) \<Rightarrow> event list \<Rightarrow> 'f daemon \<Rightarrow> bool" where
  "fresh_run L hash cfg decode [] d \<longleftrightarrow> True"
| "fresh_run L hash cfg decode (ev # evs) d \<longleftrightarrow>
     (case ev of HTTP c r i table t1 t2 \<Rightarrow> token_fresh i (d_service d) | _ \<Rightarrow> True) \<and>
     fresh_run L hash cfg decode evs (daemon_event L hash cfg decode ev d)"

lemma event_bounded:
  assumes "daemon_ok L d" "store_bounded (sv_tokens (d_service d))"
    and "case ev of HTTP c r i table t1 t2 \<Rightarrow> token_fresh i (d_service d) | _ \<Rightarrow> True"
  shows "store_bounded (sv_tokens (d_service (daemon_event L hash cfg decode ev d)))"
proof (cases ev)
  case (HTTP c r i table t1 t2)
  with assms show ?thesis
    using serve_on_ok(6) [of L cfg i table t1 t2 c r d "fst (serve_on L cfg i table t1 t2 c r d)"] by simp
qed (use assms in \<open>auto simp: accept_conn_def conn_state_def handle_signal_eq set_server_def Shutdown_def stopInventoryPoller_def tick_bounded
    split: sum.splits prod.splits\<close>)

lemma run_bounded:
  assumes "daemon_ok L d" "store_bounded (sv_tokens (d_service d))" "fresh_run L hash cfg decode evs d"
  shows "store_bounded (sv_tokens (d_service (run_daemon L hash cfg decode evs d)))"
  using assms
proof (induction evs arbitrary: d)
  case (Cons ev evs)
  from Cons.prems(3) have f: "case ev of HTTP c r i table t1 t2 \<Rightarrow> token_fresh i (d_service d) | _ \<Rightarrow> True"
    "fresh_run L hash cfg decode evs (daemon_event L hash cfg decode ev d)" by simp_all
  from Cons.IH [OF daemon_event_ok [OF Cons.prems(1)] event_bounded [OF Cons.prems(1, 2) f(1)] f(2)]
  show ?case by (simp add: run_daemon_def)
qed (simp add: run_daemon_def)

text \<open>The connections of a peer that are served.\<close>

definition served :: "'f daemon \<Rightarrow> string \<Rightarrow> Conn list" where
  "served d k = filter (\<lambda>c. peerKeyFromAddr (connRemoteAddr c) = k \<and> c \<notin> set (overCap (d_limiter d))) (map fst (d_conns d))"

text \<open>
  C11: The state of the daemon is well formed after every run, whatever was accepted, served, reloaded
  and changed outside, as long as no random token repeats a live one. The token store has agreeing
  indexes and holds at most 32 tokens of a peer and 65536 in all; the connection counter of each peer
  is the number of its open connections that were not refused, at most 16; every open connection was
  bound once and its requests see what it was bound to; every record of the inventory is
  filed under its own id; and every enrolment session passed the checks of the first leg.
\<close>

theorem daemon_well_formed:
  assumes "d = run_daemon L hash cfg decode evs (boot L P R ParseDuration read hash decode cfg f e wd)"
    and "fresh_run L hash cfg decode evs (boot L P R ParseDuration read hash decode cfg f e wd)"
  shows "store_ok (sv_tokens (d_service d)) \<and> int (length (tokens (sv_tokens (d_service d)))) \<le> 65536 \<and>
    (\<forall>p. length (peerList (sv_tokens (d_service d)) p) \<le> 32) \<and>
    distinct (map fst (d_conns d)) \<and>
    (\<forall>k. b_conns (budget k (d_limiter d)) = int (length (served d k)) \<and> length (served d k) \<le> 16) \<and>
    (\<forall>(c, vc, ctx) \<in> set (d_conns d). TCPConn vc = c \<and> vmConfigOnce vc \<and> vmConfig vc = ctx) \<and>
    (\<forall>(v, vm) \<in> set (cache_of d). VMID vm = v) \<and>
    (\<forall>enr. d_enroller d = Some enr \<longrightarrow> (\<forall>(i, sess) \<in> set (sessions (Sessions (sv_enroll (d_service d)))). session_ok L enr sess))"
proof -
  have "store_bounded (NewTokenStore ttl)" for ttl using token_system.inv_init by blast
  then have "store_bounded (sv_tokens (d_service (boot L P R ParseDuration read hash decode cfg f e wd)))"
    by (simp add: boot_def StartServer_def startInventoryPoller_def New_def Let_def case_prod_beta)
  from run_bounded [OF boot_ok this assms(2)] have b: "store_bounded (sv_tokens (d_service d))" by (simp add: assms(1))
  have ok: "daemon_ok L d" by (simp add: assms(1) run_daemon_ok boot_ok)
  have served: "counted (throttle_of d) k = served d k" for k by (simp add: counted_def served_def throttle_of_def)
  have sel: "lim (throttle_of d) = d_limiter d" "conns (throttle_of d) = map fst (d_conns d)" by (simp_all add: throttle_of_def)
  have "distinct (map fst (d_conns d)) \<and> (\<forall>k. b_conns (budget k (d_limiter d)) = int (length (served d k)) \<and> length (served d k) \<le> 16)"
    using ok by (simp add: daemon_ok_def conns_inv_def served sel maxConnsPerPeer_def)
  moreover have "store_ok (sv_tokens (d_service d)) \<and> int (length (tokens (sv_tokens (d_service d)))) \<le> 65536 \<and>
      (\<forall>p. length (peerList (sv_tokens (d_service d)) p) \<le> 32)"
    using b by (auto simp: store_bounded_def GlobalTokenEmergencyCap_def MaxLiveTokensPerPeer_def dest: store_okD(9))
  moreover have "\<forall>(c, vc, ctx) \<in> set (d_conns d). TCPConn vc = c \<and> vmConfigOnce vc \<and> vmConfig vc = ctx"
    "\<forall>(v, vm) \<in> set (cache_of d). VMID vm = v"
    "\<forall>enr. d_enroller d = Some enr \<longrightarrow> (\<forall>(i, sess) \<in> set (sessions (Sessions (sv_enroll (d_service d)))). session_ok L enr sess)"
    using ok by (simp_all add: daemon_ok_def bound_once_def service_ok_def keyed_def cache_of_def sessions_ok_def)
  ultimately show ?thesis by (elim conjE) (intro conjI; assumption)
qed

subsection \<open>A run of the daemon, for the witnesses\<close>

definition sampleDaemonFiles :: files where
  "sampleDaemonFiles = sampleCAFiles\<lparr>STATE_DIRECTORY := ''/var/lib/vtpm-mds''\<rparr>"

definition sampleBoot :: "string daemon" where
  "sampleBoot = boot sampleLib sampleCALib \<lparr>NewCertPool = [], AppendCertsFromPEM = (\<lambda>d. Some ''roots''), AddCert = Raw\<rparr>
     (\<lambda>s. Some hour) (\<lambda>p. Some (if p = ''/etc/vtpm-mds/devid-ca.pem'' then ''cert'' else ''key'')) (\<lambda>s. s) (\<lambda>d. Some sampleFile)
     sampleServerConfig sampleDaemonFiles sampleMoment sampleWorld"

lemma sampleBoot_eq:
  "sampleBoot = \<lparr>d_service = \<lparr>sv_tokens = NewTokenStore hour, sv_enroll = sampleState, sv_server = sampleServing\<lparr>devid_set := True\<rparr>\<rparr>,
     d_limiter = newGuestLimiter, d_enroller = Some sampleEnroller, d_conns = [], d_polling = True, d_phase = Listening\<rparr>"
proof -
  have r: "reloadNow (\<lambda>s. s) sampleServerConfig (\<lambda>d. Some sampleFile) sampleMoment newServer = (None, sampleServing)"
    by (simp add: sampleServing_def serving_def reloadNow_def RefreshVMConfigCache_def sampleMoment_def sampleLoad)
  have dir: "ekPinDir sampleDaemonFiles = ''/var/lib/vtpm-mds/ek-pins''"
    unfolding ekPinDir_def sampleDaemonFiles_def sampleCAFiles_def by code_simp
  have "pins_of sampleServerConfig sampleDaemonFiles sampleCache = samplePins"
    by (simp add: pins_of_def dir samplePins_def sampleServerConfig_def DefaultConfig_def inventoryPins_def sampleCache_def)
  then have "loadDevIDEnroller sampleLib sampleCALib \<lparr>NewCertPool = [], AppendCertsFromPEM = (\<lambda>d. Some ''roots''), AddCert = Raw\<rparr>
      (\<lambda>s. Some hour) (\<lambda>p. Some (if p = ''/etc/vtpm-mds/devid-ca.pem'' then ''cert'' else ''key'')) sampleServerConfig sampleDaemonFiles sampleCache
      = Inr (Some sampleEnroller)"
    by (simp add: loadDevIDEnroller_def Let_def LoadCA_def ParseCA_def sampleServerConfig_def DefaultConfig_def ca_key_path_def
        credentialCAKeyPath_def sampleDaemonFiles_def sampleCAFiles_def sampleCALib_def sampleLib_def publicKeysEqual_def sampleCert_def
        load_ek_roots_def MaxDevIDLifetime_def sampleEnroller_def duration_simps)
  moreover have "EnableTPMAttestation sampleServerConfig" by (simp add: sampleServerConfig_def DefaultConfig_def)
  ultimately show ?thesis
    by (simp add: sampleBoot_def boot_def StartServer_def startInventoryPoller_def New_def r sampleServing_cache token_ttl_def sampleState_def)
qed

lemma sampleBoot_runs:
  "sampleBoot = run_daemon sampleLib (\<lambda>s. s) sampleServerConfig (\<lambda>d. Some sampleFile) []
     (boot sampleLib sampleCALib \<lparr>NewCertPool = [], AppendCertsFromPEM = (\<lambda>d. Some ''roots''), AddCert = Raw\<rparr>
       (\<lambda>s. Some hour) (\<lambda>p. Some (if p = ''/etc/vtpm-mds/devid-ca.pem'' then ''cert'' else ''key'')) (\<lambda>s. s) (\<lambda>d. Some sampleFile)
       sampleServerConfig sampleDaemonFiles sampleMoment sampleWorld)"
  by (simp only: run_daemon_def sampleBoot_def fold_simps)

definition sampleConn :: Conn where
  "sampleConn = \<lparr>connId = 1, connRemoteAddr = ''192.0.2.7:4711''\<rparr>"

definition sampleLim :: "time list \<Rightarrow> time list \<Rightarrow> time list \<Rightarrow> guestLimiter" where
  "sampleLim rs ts es = \<lparr>peers = [(''192.0.2.7'', \<lparr>b_requests = rs, b_tokens = ts, b_enrolls = es, b_conns = 1, b_logged = []\<rparr>)], overCap = []\<rparr>"

definition sampleDaemon :: "guestLimiter \<Rightarrow> string service \<Rightarrow> string daemon" where
  "sampleDaemon l st = sampleBoot\<lparr>d_service := st, d_limiter := l,
     d_conns := [(sampleConn, \<lparr>TCPConn = sampleConn, vmConfigOnce = True, vmConfig = Some sampleVMRecord\<rparr>, Some sampleVMRecord)]\<rparr>"

lemma sample_accepted:
  "daemon_event sampleLib (\<lambda>s. s) sampleServerConfig (\<lambda>d. Some sampleFile) (Connect sampleConn (Some sampleArp) 0 0) sampleBoot
   = sampleDaemon (sampleLim [] [] []) (d_service sampleBoot)"
proof -
  have "remoteIP sampleConn = Some ''192.0.2.7''" unfolding sampleConn_def by code_simp
  moreover have "snd (hd sampleCache) = sampleVMRecord" by (simp add: sampleCache_def sampleVMRecord_def)
  ultimately have x: "extractVMConfig (cache_of sampleBoot) (Some sampleArp) (remoteIP sampleConn) = Inr (Some sampleVMRecord)"
    using sample_bound by (simp add: cache_of_def sampleBoot_eq)
  have t: "trackConnState sampleConn StateNew 0 0 newGuestLimiter = (sampleLim [] [] [], [], False)"
    unfolding sampleConn_def sampleLim_def by code_simp
  have b: "d_phase sampleBoot = Listening" "d_conns sampleBoot = []" "d_limiter sampleBoot = newGuestLimiter" by (simp_all add: sampleBoot_eq)
  show ?thesis
    by (simp add: b accept_conn_def connContext_def extract_once_def Accept_def x t sampleDaemon_def)
qed

lemma sample_serves:
  assumes "guestLimitMiddleware (serve_mux sampleLib sampleServerConfig (Some sampleEnroller) i) (in_now i) 0 0
      (request_on sampleConn (Some sampleVMRecord) r) newResponse (sampleLim a b c, st) = (w, (l, st'), lg)"
  shows "serve_on sampleLib sampleServerConfig i None 0 0 sampleConn r (sampleDaemon (sampleLim a b c) st) = (Some w, sampleDaemon l st')"
  using assms
  by (simp add: serve_on_def sampleDaemon_def conn_Read_def extract_once_def ServeHTTP_def sampleLim_def sampleBoot_eq)

definition samplePost :: "string \<Rightarrow> Request" where
  "samplePost p = (sampleCaller None)\<lparr>Path := p\<rparr>"

definition sampleStartInputs :: inputs where
  "sampleStartInputs = sampleBatch\<lparr>in_enroll := sampleInputs 5,
     in_start := Some \<lparr>RequestB64 = EncodeToString sampleData, SignatureB64 = EncodeToString (''d1'' @ sampleData)\<rparr>\<rparr>"

definition sampleFinishInputs :: inputs where
  "sampleFinishInputs = sampleBatch\<lparr>in_enroll := sampleInputs 6,
     in_finish := Some \<lparr>FinishSessionID = hex_encode ''session-16bytes'', ChallengeResponseB64 = EncodeToString ''nonc''\<rparr>\<rparr>"

lemma sample_posts:
  assumes "RemoteAddr r = ''192.0.2.7:4711''" "Method r = ''POST''" "isEnrollPath (Path r)" "rs = [] \<or> rs = [1]"
    and "next r w st = (w', st')"
  shows "guestLimitMiddleware next 1 0 0 r w (sampleLim rs [] rs, st) = (w', (sampleLim (rs @ [1]) [] (rs @ [1]), st'), [])"
proof -
  have "peerKeyFromAddr ''192.0.2.7:4711'' = ''192.0.2.7''" by code_simp
  moreover have "allowRequest ''192.0.2.7'' 1 0 0 (sampleLim [] [] []) = (True, sampleLim [1] [] [], [])"
    "allowEnroll ''192.0.2.7'' 1 0 0 (sampleLim [1] [] []) = (True, sampleLim [1] [] [1], [])"
    "allowRequest ''192.0.2.7'' 1 0 0 (sampleLim [1] [] [1]) = (True, sampleLim [1, 1] [] [1], [])"
    "allowEnroll ''192.0.2.7'' 1 0 0 (sampleLim [1, 1] [] [1]) = (True, sampleLim [1, 1] [] [1, 1], [])"
    unfolding sampleLim_def by code_simp+
  ultimately show ?thesis using assms by (auto simp: guestLimitMiddleware_def Let_def)
qed

lemma HandleStart_path: "HandleStart L e inp body (r\<lparr>Path := p\<rparr>) w st = HandleStart L e inp body r w st"
proof -
  have h: "header_get (r\<lparr>Path := p\<rparr>) k = header_get r k" for k by (simp add: header_get_def)
  have a: "AuthenticateEnrollCaller L e x (r\<lparr>Path := p\<rparr>) c k fp = AuthenticateEnrollCaller L e x r c k fp" for x c k fp
    unfolding AuthenticateEnrollCaller_def h by simp
  show ?thesis unfolding HandleStart_def a ..
qed

definition sampleStarted :: "string service" where
  "sampleStarted = (d_service sampleBoot)\<lparr>sv_enroll := sampleState\<lparr>Sessions := sampleSessions\<rparr>\<rparr>"

definition sampleEnded :: "string service" where
  "sampleEnded = (d_service sampleBoot)\<lparr>sv_enroll := snd sampleFinish\<rparr>"

lemma sample_now: "enroller_now sampleEnroller ((d_service sampleBoot)\<lparr>sv_enroll := x\<rparr>) = sampleEnroller"
  by (simp add: enroller_now_def sampleBoot_eq sampleServing_cache inventoryPins_def sampleCache_def sampleEnroller_def samplePins_def)

lemma sample_muxes:
  "serve_mux sampleLib sampleServerConfig (Some sampleEnroller) sampleStartInputs (request_on sampleConn (Some sampleVMRecord) (samplePost ''/latest/devid/enroll/start''))
     newResponse (d_service sampleBoot) = (fst sampleStart, sampleStarted)"
  "serve_mux sampleLib sampleServerConfig (Some sampleEnroller) sampleFinishInputs (request_on sampleConn (Some sampleVMRecord) (samplePost ''/latest/devid/enroll/finish''))
     newResponse sampleStarted = (fst sampleFinish, sampleEnded)"
proof -
  have tpm: "EnableTPMAttestation sampleServerConfig" by (simp add: sampleServerConfig_def DefaultConfig_def)
  have r: "(request_on sampleConn (Some sampleVMRecord) (samplePost p))\<lparr>PathValues := []\<rparr> = (sampleCaller (Some sampleVMRecord))\<lparr>Path := p\<rparr>" for p
    by (simp add: request_on_def samplePost_def sampleCaller_def sampleConn_def)
  have p: "Path (request_on sampleConn (Some sampleVMRecord) (samplePost p)) = p" "Method (request_on sampleConn (Some sampleVMRecord) (samplePost p)) = ''POST''" for p
    by (simp_all add: request_on_def samplePost_def sampleCaller_def)
  have st: "sv_enroll (d_service sampleBoot) = sampleState" by (simp add: sampleBoot_eq)
  have e: "enroller_now sampleEnroller (d_service sampleBoot) = sampleEnroller" using sample_now [of "sv_enroll (d_service sampleBoot)"] by simp
  have "HandleStart sampleLib sampleEnroller (sampleInputs 5) (in_start sampleStartInputs) (sampleCaller (Some sampleVMRecord)) newResponse sampleState
      = (fst sampleStart, sampleState\<lparr>Sessions := sampleSessions\<rparr>)"
    using sampleStart_run(2) by (simp add: sampleStart_def sampleStartInputs_def prod_eq_iff del: append.simps)
  then show "serve_mux sampleLib sampleServerConfig (Some sampleEnroller) sampleStartInputs (request_on sampleConn (Some sampleVMRecord) (samplePost ''/latest/devid/enroll/start''))
     newResponse (d_service sampleBoot) = (fst sampleStart, sampleStarted)"
    by (simp add: serve_mux_def p r enroll_found [OF tpm] serve_endpoint_def HandleStart_path e st sampleStarted_def)
       (simp add: sampleStartInputs_def)
  have "HandleFinish sampleLib sampleEnroller (sampleInputs 6) (in_finish sampleFinishInputs) (sampleCaller (Some sampleVMRecord)) newResponse (snd sampleStart)
      = sampleFinish"
    by (simp add: sampleFinish_def sampleFinishInputs_def)
  moreover have "(sampleCaller (Some sampleVMRecord))\<lparr>Path := ''/latest/devid/enroll/finish''\<rparr> = sampleCaller (Some sampleVMRecord)"
    by (simp add: sampleCaller_def)
  ultimately show "serve_mux sampleLib sampleServerConfig (Some sampleEnroller) sampleFinishInputs (request_on sampleConn (Some sampleVMRecord) (samplePost ''/latest/devid/enroll/finish''))
     newResponse sampleStarted = (fst sampleFinish, sampleEnded)"
    using sampleStart_run(2)
    by (simp add: serve_mux_def p r enroll_found [OF tpm] serve_endpoint_def sampleStarted_def sample_now)
       (simp add: sampleFinishInputs_def sampleEnded_def case_prod_beta)
qed

lemma sample_started:
  "run_daemon sampleLib (\<lambda>s. s) sampleServerConfig (\<lambda>d. Some sampleFile)
     [HTTP sampleConn (samplePost ''/latest/devid/enroll/start'') sampleStartInputs None 0 0] (sampleDaemon (sampleLim [] [] []) (d_service sampleBoot))
   = sampleDaemon (sampleLim [1] [] [1]) sampleStarted"
proof -
  let ?r = "request_on sampleConn (Some sampleVMRecord) (samplePost ''/latest/devid/enroll/start'')"
  have now: "in_now sampleStartInputs = 1" by (simp add: sampleStartInputs_def sampleBatch_def)
  have "isEnrollPath ''/latest/devid/enroll/start''" by code_simp
  then have "guestLimitMiddleware (serve_mux sampleLib sampleServerConfig (Some sampleEnroller) sampleStartInputs) (in_now sampleStartInputs) 0 0
      ?r newResponse (sampleLim [] [] [], d_service sampleBoot) = (fst sampleStart, (sampleLim [1] [] [1], sampleStarted), [])"
    using sample_posts [of ?r "[]" "serve_mux sampleLib sampleServerConfig (Some sampleEnroller) sampleStartInputs", OF _ _ _ _ sample_muxes(1)] unfolding now
    by (simp add: request_on_def samplePost_def sampleCaller_def sampleConn_def)
  from sample_serves [OF this] show ?thesis by (simp add: run_daemon_def) (simp add: sampleDaemon_def sampleBoot_eq)
qed

theorem certificate_end_to_end_witness:
  "\<exists>w d''. serve_on sampleLib sampleServerConfig sampleFinishInputs None 0 0 sampleConn (samplePost ''/latest/devid/enroll/finish'')
      (sampleDaemon (sampleLim [1] [] [1]) sampleStarted) = (Some w, d'') \<and> status w = 200 \<and>
     (\<exists>vm sess. extractVMConfig (cache_of sampleBoot) (Some sampleArp) (remoteIP sampleConn) = Inr (Some vm) \<and> SessVMID sess = VMID vm \<and>
        session_ok sampleLib sampleEnroller sess)"
proof -
  let ?r = "request_on sampleConn (Some sampleVMRecord) (samplePost ''/latest/devid/enroll/finish'')"
  have now: "in_now sampleFinishInputs = 1" by (simp add: sampleFinishInputs_def sampleBatch_def)
  have "isEnrollPath ''/latest/devid/enroll/finish''" by code_simp
  then have "guestLimitMiddleware (serve_mux sampleLib sampleServerConfig (Some sampleEnroller) sampleFinishInputs) (in_now sampleFinishInputs) 0 0
      ?r newResponse (sampleLim [1] [] [1], sampleStarted) = (fst sampleFinish, (sampleLim [1, 1] [] [1, 1], sampleEnded), [])"
    using sample_posts [of ?r "[1]" "serve_mux sampleLib sampleServerConfig (Some sampleEnroller) sampleFinishInputs", OF _ _ _ _ sample_muxes(2)] unfolding now
    by (simp add: request_on_def samplePost_def sampleCaller_def sampleConn_def)
  note s = sample_serves [OF this]
  have d': "sampleDaemon (sampleLim [1] [] [1]) sampleStarted = run_daemon sampleLib (\<lambda>s. s) sampleServerConfig (\<lambda>d. Some sampleFile)
      [HTTP sampleConn (samplePost ''/latest/devid/enroll/start'') sampleStartInputs None 0 0]
      (daemon_event sampleLib (\<lambda>s. s) sampleServerConfig (\<lambda>d. Some sampleFile) (Connect sampleConn (Some sampleArp) 0 0) sampleBoot)"
    and b: "d_phase sampleBoot = Listening" "map_of (d_conns sampleBoot) sampleConn = None"
      "d_enroller (sampleDaemon (sampleLim [1] [] [1]) sampleStarted) = Some sampleEnroller"
    by (simp only: sample_accepted sample_started, simp_all add: sampleBoot_eq sampleDaemon_def)
  have r: "Method (samplePost ''/latest/devid/enroll/finish'') = ''POST''" "Path (samplePost ''/latest/devid/enroll/finish'') = ''/latest/devid/enroll/finish''"
    by (simp_all add: samplePost_def sampleCaller_def)
  have "\<forall>ev \<in> set [HTTP sampleConn (samplePost ''/latest/devid/enroll/start'') sampleStartInputs None 0 0]. \<not> closes sampleConn ev" by simp
  from certificate_end_to_end [OF sampleBoot_runs b(1, 2) d' this s r sampleFinish_run b(3) sample_sha]
  show ?thesis using s sampleFinish_run by blast
qed

definition samplePut :: Request where
  "samplePut = (sampleCaller None)\<lparr>Method := ''PUT'', Path := ''/latest/api/token'', Header := []\<rparr>"

definition sampleMinted :: "string service" where
  "sampleMinted = (d_service sampleBoot)\<lparr>sv_tokens := fst (snd (HandleCreateToken 1 (Some ''0123456789'') (NewTokenStore hour)
     (request_on sampleConn (Some sampleVMRecord) samplePut) newResponse))\<rparr>"

lemma token_found:
  "findHandler (routes cfg b) ''PUT'' ''/latest/api/token'' =
     Found \<lparr>r_method = ''PUT'', r_segs = [Lit ''latest'', Lit ''api'', Lit ''token''], r_handler = CreateToken\<rparr> []"
proof -
  have "filter (\<lambda>r. r_method r = ''PUT'') (metadata_routes cfg) = []" by (simp add: metadata_routes_eq Let_def)
  moreover have "r_method (route ''/'' Unmatched) = []" by (simp add: route_def)
  ultimately have t: "tree (routes cfg b) ''PUT'' = [([Lit ''latest'', Lit ''api'', Lit ''token''], [],
      \<lparr>r_method = ''PUT'', r_segs = [Lit ''latest'', Lit ''api'', Lit ''token''], r_handler = CreateToken\<rparr>)]"
    by (simp add: tree_def routes_def Register_def fixed_routes)
  have "path_segs ''/latest/api/token'' = [''latest'', ''api'', ''token'']" "cleanPath ''/latest/api/token'' = ''/latest/api/token''" by code_simp+
  then show ?thesis by (simp add: findHandler_def mux_match_def t Let_def leaf_def exactMatch_def)
qed

lemma sample_limits:
  "allowRequest ''192.0.2.7'' 1 0 0 (sampleLim [] [] []) = (True, sampleLim [1] [] [], [])"
  "allowToken ''192.0.2.7'' 1 0 0 (sampleLim [1] [] []) = (True, sampleLim [1] [1] [], [])"
  "allowRequest ''192.0.2.7'' 1 0 0 (sampleLim [1] [1] []) = (True, sampleLim [1, 1] [1] [], [])"
  "peerKeyFromAddr ''192.0.2.7:4711'' = ''192.0.2.7''"
  unfolding sampleLim_def by code_simp+

lemma sample_minted:
  "run_daemon sampleLib (\<lambda>s. s) sampleServerConfig (\<lambda>d. Some sampleFile)
     [HTTP sampleConn samplePut sampleBatch None 0 0] (sampleDaemon (sampleLim [] [] []) (d_service sampleBoot))
   = sampleDaemon (sampleLim [1] [1] []) sampleMinted"
proof -
  let ?r = "request_on sampleConn (Some sampleVMRecord) samplePut"
  have r: "Method ?r = ''PUT''" "Path ?r = ''/latest/api/token''" "RemoteAddr ?r = ''192.0.2.7:4711''" "?r\<lparr>PathValues := []\<rparr> = ?r"
    "in_now sampleBatch = 1" "in_token sampleBatch = Some ''0123456789''" "sv_tokens (d_service sampleBoot) = NewTokenStore hour"
    by (simp_all add: request_on_def samplePut_def sampleCaller_def sampleConn_def sampleBatch_def sampleBoot_eq)
  have "snd (serve_mux sampleLib sampleServerConfig (Some sampleEnroller) sampleBatch ?r newResponse (d_service sampleBoot)) = sampleMinted"
    by (simp add: serve_mux_def r token_found serve_endpoint_def sampleMinted_def case_prod_beta)
  then obtain w where "guestLimitMiddleware (serve_mux sampleLib sampleServerConfig (Some sampleEnroller) sampleBatch) (in_now sampleBatch) 0 0
      ?r newResponse (sampleLim [] [] [], d_service sampleBoot) = (w, (sampleLim [1] [1] [], sampleMinted), [])"
    by (simp add: guestLimitMiddleware_def r sample_limits Let_def case_prod_beta)
  from sample_serves [OF this] show ?thesis by (simp add: run_daemon_def) (simp add: sampleDaemon_def sampleBoot_eq)
qed

theorem connection_identity_witness:
  "\<exists>w d''. serve_on sampleLib sampleServerConfig sampleBatch None 0 0 sampleConn
      (sampleGet ''/latest/meta-data/instance-id'' (EncodeToString ''0123456789'') None) (sampleDaemon (sampleLim [1] [1] []) sampleMinted) = (Some w, d'') \<and>
     Body w = [Text ''i-101''] \<and> d_service d'' = sampleMinted"
proof -
  let ?g = "sampleGet ''/latest/meta-data/instance-id'' (EncodeToString ''0123456789'') None"
  let ?r = "request_on sampleConn (Some sampleVMRecord) ?g"
  have r: "Method ?g = ''GET''" "Path ?g = ''/latest/meta-data/instance-id''" "Method ?r = ''GET''" "Path ?r = ''/latest/meta-data/instance-id''"
    "RemoteAddr ?r = ''192.0.2.7:4711''" "in_now sampleBatch = 1" "VMConfigContext ?r = Some sampleVMRecord" "VMID sampleVMRecord = ''101''"
    by (simp_all add: request_on_def sampleGet_def sampleConn_def sampleBatch_def sampleVMRecord_def)
  have p: "''/latest/meta-data/instance-id'' \<in> set IdentityBearingPaths" by (simp add: IdentityBearingPaths_def)
  then have pg: "Path ?g \<in> set IdentityBearingPaths" by (simp only: r(2))
  let ?p = "\<lparr>Method = ''PUT'', Path = ''/latest/api/token'', Host = [], RemoteAddr = ''192.0.2.7:4711'', Header = [], PathValues = [],
    VMConfigContext = Some sampleVMRecord\<rparr>"
  have "sv_tokens sampleMinted = fst (snd (HandleCreateToken 1 (Some ''0123456789'') (NewTokenStore hour) ?p newResponse))"
    by (simp add: sampleMinted_def samplePut_def sampleCaller_def request_on_def sampleConn_def)
  moreover have "ValidateToken (fst (snd (HandleCreateToken 1 (Some ''0123456789'') (NewTokenStore hour) ?p newResponse))) 1
      (EncodeToString ''0123456789'')" by code_simp
  moreover have "header_get ?g ''X-Aws-Ec2-Metadata-Token'' = EncodeToString ''0123456789''" by (simp add: header_get_def sampleGet_def)
  moreover have "EncodeToString ''0123456789'' \<noteq> []" by code_simp
  ultimately have tok: "storeValidatesToken (Some (sv_tokens sampleMinted)) 1 ?g" by (simp add: storeValidatesToken_def Let_def)
  obtain w st where mux: "serve_mux sampleLib sampleServerConfig (Some sampleEnroller) sampleBatch ?r newResponse sampleMinted = (w, st)" by (metis surj_pair)
  have "Path ?r \<in> set IdentityBearingPaths" "\<And>vm. VMConfigContext ?r = Some vm \<Longrightarrow> VMID vm \<noteq> []" using p by (simp_all add: r)
  from identity_answer [OF sample_compat r(3) this mux] have w: "st = sampleMinted" "status w = 200"
    using tok by (simp_all add: request_on_token r)
  then have "guestLimitMiddleware (serve_mux sampleLib sampleServerConfig (Some sampleEnroller) sampleBatch) (in_now sampleBatch) 0 0
      ?r newResponse (sampleLim [1] [1] [], sampleMinted) = (w, (sampleLim [1, 1] [1] [], sampleMinted), [])"
    using mux by (simp add: guestLimitMiddleware_def r sample_limits Let_def)
  note s = sample_serves [OF this]
  have d': "sampleDaemon (sampleLim [1] [1] []) sampleMinted = run_daemon sampleLib (\<lambda>s. s) sampleServerConfig (\<lambda>d. Some sampleFile)
      [HTTP sampleConn samplePut sampleBatch None 0 0]
      (daemon_event sampleLib (\<lambda>s. s) sampleServerConfig (\<lambda>d. Some sampleFile) (Connect sampleConn (Some sampleArp) 0 0) sampleBoot)"
    and b: "d_phase sampleBoot = Listening" "map_of (d_conns sampleBoot) sampleConn = None"
    by (simp only: sample_accepted sample_minted, simp_all add: sampleBoot_eq)
  have n: "\<forall>ev \<in> set [HTTP sampleConn samplePut sampleBatch None 0 0]. \<not> closes sampleConn ev" by simp
  have x: "extractVMConfig (cache_of sampleBoot) (Some sampleArp) (remoteIP sampleConn) = Inr (Some sampleVMRecord)"
    using accepted_context [OF b(2), of "Some sampleArp" 0 0] sample_accepted b(1) by (simp add: sampleDaemon_def)
  have sv: "d_service (sampleDaemon l st) = st" for l st by (simp add: sampleDaemon_def)
  from connection_identity [OF sample_compat sampleBoot_runs b d' n s r(1) pg]
  have "Body w = [Text ''i-101'']" using w(2) tok by (simp add: x r sv)
  with s sv show ?thesis by blast
qed

theorem daemon_well_formed_witness:
  "served (sampleDaemon (sampleLim [1] [1] []) sampleMinted) ''192.0.2.7'' = [sampleConn] \<and>
   b_conns (budget ''192.0.2.7'' (d_limiter (sampleDaemon (sampleLim [1] [1] []) sampleMinted))) = 1 \<and> store_ok (sv_tokens sampleMinted)"
proof -
  let ?evs = "[Connect sampleConn (Some sampleArp) 0 0, HTTP sampleConn samplePut sampleBatch None 0 0]"
  let ?run = "run_daemon sampleLib (\<lambda>s. s) sampleServerConfig (\<lambda>d. Some sampleFile)"
  have split: "?run ?evs d = ?run [HTTP sampleConn samplePut sampleBatch None 0 0]
      (daemon_event sampleLib (\<lambda>s. s) sampleServerConfig (\<lambda>d. Some sampleFile) (Connect sampleConn (Some sampleArp) 0 0) d)" for d
    by (simp add: run_daemon_def del: daemon_event.simps)
  have run: "sampleDaemon (sampleLim [1] [1] []) sampleMinted = ?run ?evs sampleBoot"
    unfolding split sample_accepted sample_minted ..
  have "token_fresh sampleBatch (d_service (sampleDaemon (sampleLim [] [] []) (d_service sampleBoot)))"
    by (simp add: token_fresh_def sampleBatch_def sampleDaemon_def sampleBoot_eq NewTokenStore_def)
  then have fresh: "fresh_run sampleLib (\<lambda>s. s) sampleServerConfig (\<lambda>d. Some sampleFile) ?evs sampleBoot"
    unfolding fresh_run.simps event.case sample_accepted by blast
  have s: "served (sampleDaemon (sampleLim [1] [1] []) sampleMinted) ''192.0.2.7'' = [sampleConn]"
    using sample_limits(4) by (simp add: served_def sampleDaemon_def sampleLim_def sampleConn_def)
  moreover have "d_service (sampleDaemon (sampleLim [1] [1] []) sampleMinted) = sampleMinted" by (simp add: sampleDaemon_def)
  ultimately show ?thesis
    using daemon_well_formed [OF run [unfolded sampleBoot_def] fresh [unfolded sampleBoot_def]] by simp
qed

end
