(* ===== verification/Guest_Tpm.thy ===== *)
theory Guest_Tpm
  imports Devid_Keys
begin

text \<open>
  The guest's side of enrolment, as far as it drives the TPM: the keys (\<open>internal/devid/keys.go\<close>),
  the building of a signing request (\<open>csr.go\<close>), signing (\<open>sign.go\<close>) and the answer to the
  challenge (\<open>activate.go\<close>).

  The TPM is a parameter: a record of commands on a state \<open>'t\<close>, each with an error or a result.
  What the theorems use of it is its documented behaviour with handles: a command that loads an
  object returns a fresh transient handle, \<open>FlushContext\<close> releases one or fails and leaves it, and the
  others neither load nor release anything.

  The theorems: in every outcome, errors at any command included, every object and session that the
  caller does not own has been flushed, so that only one the TPM refused to flush can stay loaded, and
  these apart never more than three objects are loaded at once, which is all a TPM must offer.
\<close>

type_synonym handle = nat

text \<open>
  The errors of the TPM library, as values or as pointers: \<open>errors.As\<close> tells them apart. The number is
  the code.
\<close>

datatype passed = ByValue | ByPointer

datatype tpm_error =
    ParameterError passed nat
  | FormatError passed nat
  | Warning passed nat
  | OtherError string

record tpm_signature =
  sig_Alg :: nat
  sig_RSA :: string
  sig_ECC :: "int \<times> int"

type_synonym ('t, 'a) cmd = "'t \<Rightarrow> (tpm_error + 'a) \<times> 't"

record 't tpm =
  RCIntegrity :: nat
  RCBinding :: nat
  RCSensitive :: nat
  RCRetry :: nat
  AlgRSAPSS :: nat
  AlgECDSA :: nat
  HandleOwner :: handle
  HandleEndorsement :: handle
  DefaultEKTemplateRSA :: Public
  SRKTemplateRSA :: Public
  CreatePrimaryEx :: "handle \<Rightarrow> Public \<Rightarrow> ('t, handle \<times> string) cmd"
  CreateKeyUsingAuth :: "handle \<Rightarrow> Public \<Rightarrow> ('t, string \<times> string) cmd"
  LoadUsingAuth :: "handle \<Rightarrow> string \<Rightarrow> string \<Rightarrow> ('t, handle) cmd"
  FlushContext :: "handle \<Rightarrow> ('t, unit) cmd"
  NVRead :: "handle \<Rightarrow> ('t, string) cmd"
  Certify :: "handle \<Rightarrow> handle \<Rightarrow> ('t, string \<times> string) cmd"
  ReadPublic :: "handle \<Rightarrow> ('t, Public) cmd"
  tpm_Hash :: "nat \<Rightarrow> string \<Rightarrow> handle \<Rightarrow> ('t, string \<times> string) cmd"
  HashSequenceStart :: "nat \<Rightarrow> ('t, handle) cmd"
  SequenceUpdate :: "handle \<Rightarrow> string \<Rightarrow> ('t, unit) cmd"
  SequenceComplete :: "handle \<Rightarrow> handle \<Rightarrow> string \<Rightarrow> ('t, string \<times> string) cmd"
  tpm_Sign :: "handle \<Rightarrow> string \<Rightarrow> string \<Rightarrow> SigScheme \<Rightarrow> ('t, tpm_signature) cmd"
  StartAuthSession :: "('t, handle) cmd"
  PolicySecret :: "handle \<Rightarrow> handle \<Rightarrow> ('t, unit) cmd"
  ActivateCredentialUsingAuth :: "handle \<Rightarrow> handle \<Rightarrow> handle \<Rightarrow> string \<Rightarrow> string \<Rightarrow> ('t, string) cmd"
  DecodeSignature :: "string \<Rightarrow> tpm_signature option"
  ecdsa_Bytes :: "int \<times> int \<Rightarrow> string option"

text \<open>\<open>ErrDevIDLoad\<close> and \<open>ErrDevIDForeign\<close> with their cause, and every other error.\<close>

datatype devid_error =
    ErrDevIDLoad "tpm_error option"
  | ErrDevIDForeign "tpm_error option"
  | Failure string "tpm_error option"

subsection \<open>Actions\<close>

text \<open>
  An action changes the TPM and returns an error or a result. \<open>act_bind\<close> is the early return on an
  error, \<open>deferred\<close> a deferred clean-up, \<open>on_error\<close> one that runs only on the error path.
\<close>

type_synonym ('t, 'a) act = "'t \<Rightarrow> (devid_error + 'a) \<times> 't"

definition act_return :: "'a \<Rightarrow> ('t, 'a) act" where
  "act_return a t = (Inr a, t)"

definition act_fail :: "devid_error \<Rightarrow> ('t, 'a) act" where
  "act_fail e t = (Inl e, t)"

definition act_bind :: "('t, 'a) act \<Rightarrow> ('a \<Rightarrow> ('t, 'b) act) \<Rightarrow> ('t, 'b) act" where
  "act_bind m k t = (case m t of (Inl e, t') \<Rightarrow> (Inl e, t') | (Inr a, t') \<Rightarrow> k a t')"

definition act_cmd :: "(tpm_error option \<Rightarrow> devid_error) \<Rightarrow> ('t, 'a) cmd \<Rightarrow> ('t, 'a) act" where
  "act_cmd wrap m t = (case m t of (Inl e, t') \<Rightarrow> (Inl (wrap (Some e)), t') | (Inr a, t') \<Rightarrow> (Inr a, t'))"

definition act_opt :: "devid_error \<Rightarrow> 'a option \<Rightarrow> ('t, 'a) act" where
  "act_opt e x = (case x of None \<Rightarrow> act_fail e | Some a \<Rightarrow> act_return a)"

definition deferred :: "('t \<Rightarrow> 't) \<Rightarrow> ('t, 'a) act \<Rightarrow> ('t, 'a) act" where
  "deferred clean m t = (case m t of (r, t') \<Rightarrow> (r, clean t'))"

definition on_error :: "('t \<Rightarrow> 't) \<Rightarrow> ('t, 'a) act \<Rightarrow> ('t, 'a) act" where
  "on_error clean m t = (case m t of (Inl e, t') \<Rightarrow> (Inl e, clean t') | (Inr a, t') \<Rightarrow> (Inr a, t'))"

text \<open>A call of \<open>FlushContext\<close>: a command like any other, whose error no caller looks at.\<close>

definition flushed :: "'t tpm \<Rightarrow> handle \<Rightarrow> 't \<Rightarrow> 't" where
  "flushed T h t = snd (FlushContext T h t)"

subsection \<open>Keys\<close>

record KeyInfo =
  k_Handle :: handle
  k_Public :: Public
  k_PublicBlob :: string
  k_PrivateBlob :: string
  k_Template :: Public

record KeyFactory =
  EKTemplate :: Public
  SRKTemplate :: Public
  AKTemplate :: Public
  DevIDTemplate :: Public

definition SRKTemplateHighRSA :: "'t tpm \<Rightarrow> Public" where
  "SRKTemplateHighRSA T = (SRKTemplateRSA T)\<lparr>PubUnique := []\<rparr>"

definition DefaultKeyFactory :: "lib \<Rightarrow> 't tpm \<Rightarrow> KeyFactory" where
  "DefaultKeyFactory L T =
     \<lparr>EKTemplate = DefaultEKTemplateRSA T, SRKTemplate = SRKTemplateHighRSA T,
      AKTemplate = DefaultAKTemplateRSA L, DevIDTemplate = DefaultDevIDTemplateRSA L\<rparr>"

definition createPrimaryKey :: "lib \<Rightarrow> 't tpm \<Rightarrow> handle \<Rightarrow> Public \<Rightarrow> ('t, KeyInfo) act" where
  "createPrimaryKey L T hierarchy template =
     act_bind (act_cmd (Failure ''CreatePrimary'') (CreatePrimaryEx T hierarchy template)) (\<lambda>(handle, pubBlob).
       on_error (flushed T handle)
         (act_bind (act_opt (Failure ''decode primary public'' None) (DecodePublic L pubBlob)) (\<lambda>pub.
            act_return \<lparr>k_Handle = handle, k_Public = pub, k_PublicBlob = pubBlob, k_PrivateBlob = [],
              k_Template = template\<rparr>)))"

definition createLoadedKey :: "lib \<Rightarrow> 't tpm \<Rightarrow> handle \<Rightarrow> Public \<Rightarrow> ('t, KeyInfo) act" where
  "createLoadedKey L T parent template =
     act_bind (act_cmd (Failure ''CreateKey'') (CreateKeyUsingAuth T parent template)) (\<lambda>(privBlob, pubBlob).
     act_bind (act_opt (Failure ''decode public'' None) (DecodePublic L pubBlob)) (\<lambda>pub.
     act_bind (act_cmd (Failure ''Load'') (LoadUsingAuth T parent pubBlob privBlob)) (\<lambda>handle.
       act_return \<lparr>k_Handle = handle, k_Public = pub, k_PublicBlob = pubBlob, k_PrivateBlob = privBlob,
         k_Template = template\<rparr>)))"

definition CreateEK :: "lib \<Rightarrow> 't tpm \<Rightarrow> KeyFactory \<Rightarrow> ('t, KeyInfo) act" where
  "CreateEK L T f = createPrimaryKey L T (HandleEndorsement T) (EKTemplate f)"

definition CreateSRK :: "lib \<Rightarrow> 't tpm \<Rightarrow> KeyFactory \<Rightarrow> ('t, KeyInfo) act" where
  "CreateSRK L T f = createPrimaryKey L T (HandleOwner T) (SRKTemplate f)"

definition createUnderSRK :: "lib \<Rightarrow> 't tpm \<Rightarrow> KeyFactory \<Rightarrow> Public \<Rightarrow> ('t, KeyInfo) act" where
  "createUnderSRK L T f template =
     act_bind (CreateSRK L T f) (\<lambda>srk.
       deferred (flushed T (k_Handle srk)) (createLoadedKey L T (k_Handle srk) template))"

definition CreateAK :: "lib \<Rightarrow> 't tpm \<Rightarrow> KeyFactory \<Rightarrow> ('t, KeyInfo) act" where
  "CreateAK L T f = createUnderSRK L T f (AKTemplate f)"

definition CreateDevID :: "lib \<Rightarrow> 't tpm \<Rightarrow> KeyFactory \<Rightarrow> ('t, KeyInfo) act" where
  "CreateDevID L T f = createUnderSRK L T f (DevIDTemplate f)"

definition FlushTransient :: "'t tpm \<Rightarrow> handle \<Rightarrow> 't \<Rightarrow> 't" where
  "FlushTransient T h t =
     (if h = 0 then t else if 0x81000000 \<le> h \<and> h \<le> 0x81FFFFFF then t else flushed T h t)"

definition isForeignLoadError :: "'t tpm \<Rightarrow> tpm_error \<Rightarrow> bool" where
  "isForeignLoadError T err =
     (case err of
        ParameterError _ code \<Rightarrow> code = RCIntegrity T \<or> code = RCBinding T
      | FormatError _ code \<Rightarrow> code = RCSensitive T
      | _ \<Rightarrow> False)"

definition devid_load_error :: "'t tpm \<Rightarrow> tpm_error option \<Rightarrow> devid_error" where
  "devid_load_error T err =
     (case err of
        Some e \<Rightarrow> if isForeignLoadError T e then ErrDevIDForeign err else ErrDevIDLoad err
      | None \<Rightarrow> ErrDevIDLoad None)"

text \<open>The cause of the parent's failure is kept below \<open>ErrDevIDLoad\<close>.\<close>

definition parent_error :: "devid_error \<Rightarrow> devid_error" where
  "parent_error e = (case e of Failure _ c \<Rightarrow> ErrDevIDLoad c | ErrDevIDLoad c \<Rightarrow> ErrDevIDLoad c | ErrDevIDForeign c \<Rightarrow> ErrDevIDForeign c)"

definition wrap_error :: "(devid_error \<Rightarrow> devid_error) \<Rightarrow> ('t, 'a) act \<Rightarrow> ('t, 'a) act" where
  "wrap_error g m t = (case m t of (Inl e, t') \<Rightarrow> (Inl (g e), t') | (Inr a, t') \<Rightarrow> (Inr a, t'))"

definition LoadDevID :: "lib \<Rightarrow> 't tpm \<Rightarrow> KeyFactory \<Rightarrow> string \<Rightarrow> string \<Rightarrow> ('t, KeyInfo) act" where
  "LoadDevID L T f pubBlob privBlob =
     (if pubBlob = [] \<or> privBlob = [] then act_fail (ErrDevIDLoad None)
      else act_bind (act_opt (ErrDevIDForeign None) (DecodePublic L pubBlob)) (\<lambda>pub.
           act_bind (wrap_error parent_error (CreateSRK L T f)) (\<lambda>srk.
           deferred (flushed T (k_Handle srk))
             (act_bind (act_cmd (devid_load_error T) (LoadUsingAuth T (k_Handle srk) pubBlob privBlob)) (\<lambda>handle.
                act_return \<lparr>k_Handle = handle, k_Public = pub, k_PublicBlob = pubBlob, k_PrivateBlob = privBlob,
                  k_Template = DevIDTemplate f\<rparr>)))))"

subsection \<open>The signing request\<close>

definition EKRSACertificateHandle :: handle where
  "EKRSACertificateHandle = 0x01c00002"

record RequestResources =
  rr_Attestation :: "KeyInfo option"
  rr_Endorsement :: "KeyInfo option"
  rr_DevID :: "KeyInfo option"

text \<open>\<open>Flush\<close> releases a key and forgets its handle.\<close>

definition flush_key :: "'t tpm \<Rightarrow> KeyInfo option \<Rightarrow> 't \<Rightarrow> 't" where
  "flush_key T k t = (case k of None \<Rightarrow> t | Some ki \<Rightarrow> FlushTransient T (k_Handle ki) t)"

definition Flush :: "'t tpm \<Rightarrow> RequestResources \<Rightarrow> 't \<Rightarrow> RequestResources \<times> 't" where
  "Flush T r t =
     (r\<lparr>rr_Attestation := map_option (\<lambda>k. k\<lparr>k_Handle := 0\<rparr>) (rr_Attestation r),
        rr_DevID := map_option (\<lambda>k. k\<lparr>k_Handle := 0\<rparr>) (rr_DevID r)\<rparr>,
      flush_key T (rr_DevID r) (flush_key T (rr_Attestation r) t))"

definition signatureBytes :: "lib \<Rightarrow> 't tpm \<Rightarrow> tpm_signature \<Rightarrow> string option" where
  "signatureBytes L T sig =
     (if sig_Alg sig = AlgRSASSA L \<or> sig_Alg sig = AlgRSAPSS T then Some (sig_RSA sig)
      else if sig_Alg sig = AlgECDSA T then ecdsa_Bytes T (sig_ECC sig)
      else None)"

definition isTPMRetry :: "'t tpm \<Rightarrow> tpm_error \<Rightarrow> bool" where
  "isTPMRetry T err = (case err of Warning ByPointer code \<Rightarrow> code = RCRetry T | _ \<Rightarrow> False)"

text \<open>\<open>certifyWithRetry\<close>: \<open>n\<close> attempts are left, \<open>prev\<close> is the last error.\<close>

fun certify_loop :: "lib \<Rightarrow> 't tpm \<Rightarrow> handle \<Rightarrow> handle \<Rightarrow> nat \<Rightarrow> tpm_error option \<Rightarrow> ('t, string \<times> string) act" where
  "certify_loop L T obj signer 0 prev t = (Inl (Failure ''Certify: max retries exceeded'' prev), t)"
| "certify_loop L T obj signer (Suc n) prev t =
     (case Certify T obj signer t of
        (Inr (data, sigBlob), t') \<Rightarrow>
          (case DecodeSignature T sigBlob of
             None \<Rightarrow> (Inl (Failure ''decode Certify signature'' None), t')
           | Some sig \<Rightarrow>
               (case signatureBytes L T sig of
                  None \<Rightarrow> (Inl (Failure ''unsupported signature algorithm'' None), t')
                | Some raw \<Rightarrow> (Inr (data, raw), t')))
      | (Inl err, t') \<Rightarrow>
          if \<not> isTPMRetry T err then (Inl (Failure ''Certify'' (Some err)), t')
          else certify_loop L T obj signer n (Some err) t')"

definition certifyWithRetry :: "lib \<Rightarrow> 't tpm \<Rightarrow> handle \<Rightarrow> handle \<Rightarrow> ('t, string \<times> string) act" where
  "certifyWithRetry L T obj signer = certify_loop L T obj signer 5 None"

text \<open>
  The keys of a request, with the resources each step leaves behind: an error releases what has
  been recorded so far, the key that was handed in included.
\<close>

definition release :: "'t tpm \<Rightarrow> RequestResources \<Rightarrow> 't \<Rightarrow> 't" where
  "release T res t = snd (Flush T res t)"

definition CreateSigningRequestWithKey ::
  "lib \<Rightarrow> 't tpm \<Rightarrow> KeyFactory \<Rightarrow> string \<Rightarrow> KeyInfo option \<Rightarrow> ('t, SigningRequest \<times> RequestResources) act" where
  "CreateSigningRequestWithKey L T f platformCN devID =
     (let res0 = \<lparr>rr_Attestation = None, rr_Endorsement = None, rr_DevID = devID\<rparr> in
      act_bind (on_error (release T res0)
        (act_bind (act_cmd (Failure ''read EK certificate NV'') (NVRead T EKRSACertificateHandle)) (\<lambda>ekCertData.
         act_bind (act_opt (Failure ''parse EK certificate'' None) (parseCertificateLoose L ekCertData)) (\<lambda>ekCert.
         act_bind (CreateEK L T f) (\<lambda>ek.
           deferred (flushed T (k_Handle ek)) (act_return (ekCert, ek\<lparr>k_Handle := 0\<rparr>))))))) (\<lambda>(ekCert, ek).
      let res1 = res0\<lparr>rr_Endorsement := Some ek\<rparr> in
      act_bind (on_error (release T res1) (CreateAK L T f)) (\<lambda>ak.
      let res2 = res1\<lparr>rr_Attestation := Some ak\<rparr> in
      act_bind (case devID of Some d \<Rightarrow> act_return d | None \<Rightarrow> on_error (release T res2) (CreateDevID L T f)) (\<lambda>d.
      let res3 = res2\<lparr>rr_DevID := Some d\<rparr> in
      act_bind (on_error (release T res3) (certifyWithRetry L T (k_Handle d) (k_Handle ak))) (\<lambda>(certifyData, certifySig).
        act_return
          (\<lparr>PlatformIdentity = (if platformCN \<noteq> [] then [platformCN] else []),
            EndorsementCertificate = Some ekCert, EndorsementKey = Some (k_Public ek), AttestationKey = Some (k_Public ak),
            DevIDKey = Some (k_Public d), CertifyData = certifyData, CertifySignature = certifySig\<rparr>, res3))))))"

definition CreateSigningRequestWithDevID ::
  "lib \<Rightarrow> 't tpm \<Rightarrow> KeyFactory \<Rightarrow> string \<Rightarrow> string \<Rightarrow> string \<Rightarrow> ('t, SigningRequest \<times> RequestResources) act" where
  "CreateSigningRequestWithDevID L T f platformCN pubBlob privBlob =
     (if pubBlob \<noteq> [] \<and> privBlob \<noteq> []
      then act_bind (LoadDevID L T f pubBlob privBlob) (\<lambda>d. CreateSigningRequestWithKey L T f platformCN (Some d))
      else CreateSigningRequestWithKey L T f platformCN None)"

definition CreateSigningRequest ::
  "lib \<Rightarrow> 't tpm \<Rightarrow> KeyFactory \<Rightarrow> string \<Rightarrow> ('t, SigningRequest \<times> RequestResources) act" where
  "CreateSigningRequest L T f platformCN = CreateSigningRequestWithDevID L T f platformCN [] []"

subsection \<open>Signing and answering the challenge\<close>

definition maxDigestBuffer :: nat where
  "maxDigestBuffer = 1024"

function seq_updates :: "'t tpm \<Rightarrow> handle \<Rightarrow> string \<Rightarrow> ('t, string) act" where
  "seq_updates T seq data =
     (if length data > maxDigestBuffer
      then act_bind (act_cmd (Failure ''SequenceUpdate'') (SequenceUpdate T seq (take maxDigestBuffer data))) (\<lambda>_.
             seq_updates T seq (drop maxDigestBuffer data))
      else act_return data)"
  by pat_completeness auto
termination
  by (relation "measure (\<lambda>(T, seq, data). length data)") (auto simp: maxDigestBuffer_def)

declare seq_updates.simps [simp del]

definition tpmHash :: "'t tpm \<Rightarrow> handle \<Rightarrow> nat \<Rightarrow> string \<Rightarrow> ('t, string \<times> string) act" where
  "tpmHash T hierarchy hashAlg data =
     (if length data \<le> maxDigestBuffer
      then act_cmd (Failure ''Hash'') (tpm_Hash T hashAlg data hierarchy)
      else act_bind (act_cmd (Failure ''HashSequenceStart'') (HashSequenceStart T hashAlg)) (\<lambda>seq.
             deferred (flushed T seq)
               (act_bind (seq_updates T seq data) (\<lambda>rest.
                  act_cmd (Failure ''SequenceComplete'') (SequenceComplete T seq hierarchy rest)))))"

text \<open>\<open>None\<close> of \<open>SignatureScheme\<close> is its error, \<open>Some None\<close> a key without a scheme.\<close>

definition HashAndSign :: "lib \<Rightarrow> 't tpm \<Rightarrow> handle \<Rightarrow> handle \<Rightarrow> string \<Rightarrow> ('t, string) act" where
  "HashAndSign L T hierarchy keyHandle data =
     act_bind (act_cmd (Failure ''ReadPublic'') (ReadPublic T keyHandle)) (\<lambda>pub.
     act_bind (act_opt (Failure ''signature scheme'' None) (SignatureScheme L pub)) (\<lambda>scheme0.
     act_bind (act_opt (Failure ''missing signature scheme'' None) scheme0) (\<lambda>scheme.
     act_bind (tpmHash T hierarchy (SchemeHash scheme) data) (\<lambda>(digest, ticket).
     act_bind (act_cmd (Failure ''Sign'') (tpm_Sign T keyHandle digest ticket scheme)) (\<lambda>sig.
       act_opt (Failure ''unsupported signature algorithm'' None) (signatureBytes L T sig))))))"

definition endorsementPolicySession :: "'t tpm \<Rightarrow> ('t, handle) act" where
  "endorsementPolicySession T =
     act_bind (act_cmd (Failure ''StartAuthSession'') (StartAuthSession T)) (\<lambda>session.
       on_error (flushed T session)
         (act_bind (act_cmd (Failure ''PolicySecret'') (PolicySecret T (HandleEndorsement T) session)) (\<lambda>_.
            act_return session)))"

definition ActivateCredential :: "'t tpm \<Rightarrow> handle \<Rightarrow> handle \<Rightarrow> string \<Rightarrow> string \<Rightarrow> ('t, string) act" where
  "ActivateCredential T akHandle ekHandle credentialBlob secret =
     act_bind (endorsementPolicySession T) (\<lambda>session.
       deferred (flushed T session)
         (act_cmd (Failure ''ActivateCredential'')
            (ActivateCredentialUsingAuth T session akHandle ekHandle credentialBlob secret)))"

definition Activate :: "lib \<Rightarrow> 't tpm \<Rightarrow> KeyFactory \<Rightarrow> RequestResources \<Rightarrow> string \<Rightarrow> string \<Rightarrow> ('t, string) act" where
  "Activate L T f r credentialBlob secret =
     (case (rr_Attestation r, rr_Endorsement r) of
        (Some ak, Some _) \<Rightarrow>
          act_bind (CreateEK L T f) (\<lambda>ek.
            deferred (flushed T (k_Handle ek))
              (ActivateCredential T (k_Handle ak) (k_Handle ek) credentialBlob secret))
      | _ \<Rightarrow> act_fail (Failure ''missing AK or EK'' None))"

subsection \<open>Handles\<close>

text \<open>
  What is watched of a TPM: the transient objects and the sessions that are loaded, which of them are
  loaded only because the TPM refused to flush them, and the largest number so far of objects that
  were loaded at once, those not counted.
\<close>

record 't watch =
  loaded :: "'t \<Rightarrow> handle set"
  open_sessions :: "'t \<Rightarrow> handle set"
  stuck :: "'t \<Rightarrow> handle set"
  peak :: "'t \<Rightarrow> nat"

definition untouched :: "'t watch \<Rightarrow> 't \<Rightarrow> 't \<Rightarrow> bool" where
  "untouched W t t' \<longleftrightarrow> loaded W t' = loaded W t \<and> open_sessions W t' = open_sessions W t \<and> stuck W t' = stuck W t
     \<and> peak W t' = peak W t"

definition still :: "'t watch \<Rightarrow> ('t, 'a) cmd \<Rightarrow> bool" where
  "still W m \<longleftrightarrow> (\<forall>t. untouched W t (snd (m t)))"

definition transient :: "handle \<Rightarrow> bool" where
  "transient h \<longleftrightarrow> 0x80000000 \<le> h \<and> h < 0x81000000"

definition loads :: "'t watch \<Rightarrow> ('t, 'a) cmd \<Rightarrow> ('a \<Rightarrow> handle) \<Rightarrow> bool" where
  "loads W m sel \<longleftrightarrow>
     (\<forall>t. case m t of
        (Inl e, t') \<Rightarrow> untouched W t t'
      | (Inr a, t') \<Rightarrow> transient (sel a) \<and> sel a \<notin> loaded W t \<union> open_sessions W t \<and> loaded W t' = insert (sel a) (loaded W t)
                      \<and> open_sessions W t' = open_sessions W t \<and> stuck W t' = stuck W t
                      \<and> peak W t' = max (peak W t) (card (loaded W t' - stuck W t')))"

definition opens :: "'t watch \<Rightarrow> ('t, handle) cmd \<Rightarrow> bool" where
  "opens W m \<longleftrightarrow>
     (\<forall>t. case m t of
        (Inl e, t') \<Rightarrow> untouched W t t'
      | (Inr s, t') \<Rightarrow> s \<notin> loaded W t \<union> open_sessions W t \<and> loaded W t' = loaded W t \<and> open_sessions W t' = insert s (open_sessions W t)
                      \<and> stuck W t' = stuck W t \<and> peak W t' = peak W t)"

definition gone :: "'t watch \<Rightarrow> handle \<Rightarrow> 't \<Rightarrow> 't \<Rightarrow> bool" where
  "gone W h t t' \<longleftrightarrow> loaded W t' = loaded W t - {h} \<and> open_sessions W t' = open_sessions W t - {h} \<and> stuck W t' = stuck W t - {h}
     \<and> peak W t' = peak W t"

text \<open>A flush that fails leaves the handle as it is, and if it is loaded, it is one that could not be flushed.\<close>

definition flushes :: "'t watch \<Rightarrow> (handle \<Rightarrow> ('t, unit) cmd) \<Rightarrow> bool" where
  "flushes W g \<longleftrightarrow>
     (\<forall>h t. case g h t of
        (Inr _, t') \<Rightarrow> gone W h t t'
      | (Inl e, t') \<Rightarrow> loaded W t' = loaded W t \<and> open_sessions W t' = open_sessions W t
                      \<and> stuck W t' = stuck W t \<union> {h} \<inter> (loaded W t \<union> open_sessions W t) \<and> peak W t' = peak W t)"

definition completes :: "'t watch \<Rightarrow> handle \<Rightarrow> ('t, 'a) cmd \<Rightarrow> bool" where
  "completes W s m \<longleftrightarrow>
     (\<forall>t. case m t of
        (Inl e, t') \<Rightarrow> untouched W t t'
      | (Inr _, t') \<Rightarrow> gone W s t t')"

text \<open>The documented behaviour of the commands; each of them may fail, the flush included.\<close>

definition tpm_ok :: "'t watch \<Rightarrow> 't tpm \<Rightarrow> bool" where
  "tpm_ok W T \<longleftrightarrow> (\<forall>t. finite (loaded W t) \<and> stuck W t \<subseteq> loaded W t \<union> open_sessions W t) \<and> flushes W (FlushContext T)
     \<and> (\<forall>h p. loads W (CreatePrimaryEx T h p) fst) \<and> (\<forall>h a b. loads W (LoadUsingAuth T h a b) id)
     \<and> (\<forall>a. loads W (HashSequenceStart T a) id) \<and> opens W (StartAuthSession T)
     \<and> (\<forall>s h d. completes W s (SequenceComplete T s h d))
     \<and> (\<forall>h p. still W (CreateKeyUsingAuth T h p)) \<and> (\<forall>h. still W (NVRead T h)) \<and> (\<forall>a b. still W (Certify T a b))
     \<and> (\<forall>h. still W (ReadPublic T h)) \<and> (\<forall>a d h. still W (tpm_Hash T a d h)) \<and> (\<forall>s d. still W (SequenceUpdate T s d))
     \<and> (\<forall>h d k s. still W (tpm_Sign T h d k s)) \<and> (\<forall>a b. still W (PolicySecret T a b))
     \<and> (\<forall>s a e c d. still W (ActivateCredentialUsingAuth T s a e c d))"

text \<open>
  What the program answers for: the objects and sessions that are loaded and that the TPM has not
  refused to flush. On these a flush, failed or not, has one effect.
\<close>

definition objs :: "'t watch \<Rightarrow> 't \<Rightarrow> handle set" where
  "objs W t = loaded W t - stuck W t"

definition sess :: "'t watch \<Rightarrow> 't \<Rightarrow> handle set" where
  "sess W t = open_sessions W t - stuck W t"

definition unmoved :: "'t watch \<Rightarrow> 't \<Rightarrow> 't \<Rightarrow> bool" where
  "unmoved W t t' \<longleftrightarrow> objs W t' = objs W t \<and> sess W t' = sess W t \<and> peak W t' = peak W t"

lemma untouched_unmoved: "untouched W t t' \<Longrightarrow> unmoved W t t'"
  by (simp add: untouched_def unmoved_def objs_def sess_def)

lemma still_unmoved: "still W m \<Longrightarrow> unmoved W t (snd (m t))"
  by (simp add: still_def untouched_unmoved)

lemma gone_objs:
  "gone W h t t' \<Longrightarrow> objs W t' = objs W t - {h} \<and> sess W t' = sess W t - {h} \<and> peak W t' = peak W t"
  by (auto simp: gone_def objs_def sess_def)

lemma loads_cases:
  assumes "tpm_ok W T" "loads W m sel"
  shows "m t = (Inl e, t') \<Longrightarrow> unmoved W t t'"
    and "m t = (Inr a, t') \<Longrightarrow> transient (sel a) \<and> sel a \<notin> objs W t \<union> sess W t \<and> objs W t' = insert (sel a) (objs W t)
      \<and> sess W t' = sess W t \<and> peak W t' = max (peak W t) (card (objs W t'))"
proof -
  show "m t = (Inl e, t') \<Longrightarrow> unmoved W t t'"
    using assms(2) [unfolded loads_def, rule_format, of t] by (simp add: untouched_unmoved)
  assume "m t = (Inr a, t')"
  then have l: "transient (sel a)" "sel a \<notin> loaded W t \<union> open_sessions W t" "loaded W t' = insert (sel a) (loaded W t)"
    "open_sessions W t' = open_sessions W t" "stuck W t' = stuck W t" "peak W t' = max (peak W t) (card (loaded W t' - stuck W t'))"
    using assms(2) [unfolded loads_def, rule_format, of t] by simp_all
  moreover have "stuck W t \<subseteq> loaded W t \<union> open_sessions W t" using assms(1) by (simp add: tpm_ok_def)
  then have "sel a \<notin> stuck W t" using l(2) by blast
  ultimately show "transient (sel a) \<and> sel a \<notin> objs W t \<union> sess W t \<and> objs W t' = insert (sel a) (objs W t)
      \<and> sess W t' = sess W t \<and> peak W t' = max (peak W t) (card (objs W t'))"
    unfolding objs_def sess_def by (simp add: insert_Diff_if)
qed

lemma opens_cases:
  assumes "tpm_ok W T" "opens W m"
  shows "case m t of (Inl e, t') \<Rightarrow> unmoved W t t'
    | (Inr s, t') \<Rightarrow> s \<notin> objs W t \<union> sess W t \<and> objs W t' = objs W t \<and> sess W t' = insert s (sess W t) \<and> peak W t' = peak W t"
proof -
  have "stuck W t \<subseteq> loaded W t \<union> open_sessions W t" using assms(1) by (simp add: tpm_ok_def)
  with assms(2) [unfolded opens_def, rule_format, of t] show ?thesis
    by (auto simp: untouched_unmoved objs_def sess_def split: prod.splits sum.splits)
qed

lemma flush_facts:
  assumes "tpm_ok W T"
  shows "objs W (flushed T h t) = objs W t - {h}" "sess W (flushed T h t) = sess W t - {h}"
    "peak W (flushed T h t) = peak W t" "finite (objs W t)"
proof -
  obtain r t' where f: "FlushContext T h t = (r, t')" by fastforce
  have "flushes W (FlushContext T)" using assms by (simp add: tpm_ok_def)
  then have law: "case FlushContext T h t of (Inr _, t') \<Rightarrow> gone W h t t'
      | (Inl e, t') \<Rightarrow> loaded W t' = loaded W t \<and> open_sessions W t' = open_sessions W t
          \<and> stuck W t' = stuck W t \<union> {h} \<inter> (loaded W t \<union> open_sessions W t) \<and> peak W t' = peak W t"
    by (auto simp only: flushes_def)
  have "objs W t' = objs W t - {h} \<and> sess W t' = sess W t - {h} \<and> peak W t' = peak W t"
  proof (cases r)
    case (Inl e)
    with law f show ?thesis by (auto simp: objs_def sess_def)
  next
    case (Inr u)
    with law f show ?thesis by (simp add: gone_objs)
  qed
  then show "objs W (flushed T h t) = objs W t - {h}" "sess W (flushed T h t) = sess W t - {h}"
    "peak W (flushed T h t) = peak W t" by (simp_all add: flushed_def f)
  show "finite (objs W t)" using assms by (simp add: tpm_ok_def objs_def)
qed

text \<open>
  An action that needs \<open>n\<close> free slots: an error leaves nothing behind, a result leaves the fresh
  handles \<open>H a\<close>, and sessions are closed again.
\<close>

definition uses :: "'t watch \<Rightarrow> nat \<Rightarrow> ('t, 'a) act \<Rightarrow> ('a \<Rightarrow> handle set) \<Rightarrow> bool" where
  "uses W n m H \<longleftrightarrow>
     (\<forall>t. case m t of (r, t') \<Rightarrow>
        sess W t' = sess W t \<and> peak W t' \<le> max (peak W t) (card (objs W t) + n) \<and>
        (case r of
           Inl e \<Rightarrow> objs W t' = objs W t
         | Inr a \<Rightarrow> H a \<inter> (objs W t \<union> sess W t) = {} \<and> objs W t' = objs W t \<union> H a \<and> Ball (H a) transient))"

lemma usesI:
  assumes "\<And>t e t'. m t = (Inl e, t') \<Longrightarrow>
      sess W t' = sess W t \<and> peak W t' \<le> max (peak W t) (card (objs W t) + n) \<and> objs W t' = objs W t"
    and "\<And>t a t'. m t = (Inr a, t') \<Longrightarrow>
      sess W t' = sess W t \<and> peak W t' \<le> max (peak W t) (card (objs W t) + n) \<and>
      H a \<inter> (objs W t \<union> sess W t) = {} \<and> objs W t' = objs W t \<union> H a \<and> Ball (H a) transient"
  shows "uses W n m H"
  unfolding uses_def
proof
  fix t
  obtain r t' where m: "m t = (r, t')" by (cases "m t")
  then show "case m t of (r, t') \<Rightarrow> sess W t' = sess W t \<and> peak W t' \<le> max (peak W t) (card (objs W t) + n) \<and>
     (case r of Inl e \<Rightarrow> objs W t' = objs W t
      | Inr a \<Rightarrow> H a \<inter> (objs W t \<union> sess W t) = {} \<and> objs W t' = objs W t \<union> H a \<and> Ball (H a) transient)"
    using assms by (cases r) auto
qed

lemma usesE:
  assumes "uses W n m H"
  shows "m t = (Inl e, t') \<Longrightarrow>
      sess W t' = sess W t \<and> peak W t' \<le> max (peak W t) (card (objs W t) + n) \<and> objs W t' = objs W t"
    and "m t = (Inr a, t') \<Longrightarrow>
      sess W t' = sess W t \<and> peak W t' \<le> max (peak W t) (card (objs W t) + n) \<and>
      H a \<inter> (objs W t \<union> sess W t) = {} \<and> objs W t' = objs W t \<union> H a \<and> Ball (H a) transient"
  using assms [unfolded uses_def, rule_format, of t] by simp_all

lemma uses_more: "uses W n m H \<Longrightarrow> n \<le> k \<Longrightarrow> uses W k m H"
  by (rule usesI) (auto dest: usesE)

lemma uses_return: "uses W n (act_return a) (\<lambda>_. {})"
  by (rule usesI) (auto simp: act_return_def)

lemma uses_fail: "uses W n (act_fail e) H"
  by (rule usesI) (auto simp: act_fail_def)

lemma uses_opt: "uses W n (act_opt e x) (\<lambda>_. {})"
  by (simp add: act_opt_def uses_fail uses_return split: option.split)

lemma uses_unmoved: "(\<And>t r t'. m t = (r, t') \<Longrightarrow> unmoved W t t') \<Longrightarrow> uses W n m (\<lambda>_. {})"
  by (rule usesI) (auto simp: unmoved_def)

lemma act_cmd_state: "snd (act_cmd wrap m t) = snd (m t)"
  by (simp add: act_cmd_def split: prod.split sum.split)

lemma uses_still: "still W m \<Longrightarrow> uses W n (act_cmd wrap m) (\<lambda>_. {})"
  by (rule uses_unmoved) (metis still_unmoved act_cmd_state snd_conv)

lemma uses_loads:
  assumes "tpm_ok W T" "loads W m sel"
  shows "uses W 1 (act_cmd wrap m) (\<lambda>a. {sel a})"
proof (rule usesI)
  fix t e t' assume "act_cmd wrap m t = (Inl e, t')"
  then obtain e' where "m t = (Inl e', t')" by (auto simp: act_cmd_def split: prod.splits sum.splits)
  then have "unmoved W t t'" by (rule loads_cases(1) [OF assms])
  then show "sess W t' = sess W t \<and> peak W t' \<le> max (peak W t) (card (objs W t) + 1) \<and> objs W t' = objs W t"
    by (simp add: unmoved_def)
next
  fix t a t' assume "act_cmd wrap m t = (Inr a, t')"
  then have "m t = (Inr a, t')" by (auto simp: act_cmd_def split: prod.splits sum.splits)
  then have l: "transient (sel a)" "sel a \<notin> objs W t \<union> sess W t" "objs W t' = insert (sel a) (objs W t)"
    "sess W t' = sess W t" "peak W t' = max (peak W t) (card (objs W t'))"
    using loads_cases(2) [OF assms, of t a t'] by simp_all
  moreover have "finite (objs W t)" using flush_facts(4) [OF assms(1)] .
  ultimately show "sess W t' = sess W t \<and> peak W t' \<le> max (peak W t) (card (objs W t) + 1) \<and>
      {sel a} \<inter> (objs W t \<union> sess W t) = {} \<and> objs W t' = objs W t \<union> {sel a} \<and> Ball {sel a} transient"
    by auto
qed

lemma uses_wrap: "uses W n m H \<Longrightarrow> uses W n (wrap_error g m) H"
  by (rule usesI) (auto simp: wrap_error_def split: prod.splits sum.splits dest: usesE)

lemma uses_bind:
  assumes m: "uses W n m (\<lambda>_. {})" and k: "\<And>a. uses W n (k a) H"
  shows "uses W n (act_bind m k) H"
proof (rule usesI)
  fix t e t' assume run: "act_bind m k t = (Inl e, t')"
  show "sess W t' = sess W t \<and> peak W t' \<le> max (peak W t) (card (objs W t) + n) \<and> objs W t' = objs W t"
  proof (cases "m t")
    case (Pair r u)
    show ?thesis
    proof (cases r)
      case (Inl e')
      with run Pair usesE(1) [OF m] show ?thesis by (simp add: act_bind_def)
    next
      case (Inr a)
      with run Pair have "k a u = (Inl e, t')" by (simp add: act_bind_def)
      from usesE(1) [OF k this] usesE(2) [OF m, of t a u] Pair Inr show ?thesis by auto
    qed
  qed
next
  fix t b t' assume run: "act_bind m k t = (Inr b, t')"
  then obtain a u where a: "m t = (Inr a, u)" "k a u = (Inr b, t')"
    by (auto simp: act_bind_def split: prod.splits sum.splits)
  from usesE(2) [OF k a(2)] usesE(2) [OF m a(1)]
  show "sess W t' = sess W t \<and> peak W t' \<le> max (peak W t) (card (objs W t) + n) \<and>
      H b \<inter> (objs W t \<union> sess W t) = {} \<and> objs W t' = objs W t \<union> H b \<and> Ball (H b) transient"
    by auto
qed

text \<open>A handle that is released again in any case.\<close>

lemma uses_bind_deferred:
  assumes T: "tpm_ok W T" and m: "uses W (Suc n) m (\<lambda>a. {g a})" and k: "\<And>a. uses W n (k a) H"
  shows "uses W (Suc n) (act_bind m (\<lambda>a. deferred (flushed T (g a)) (k a))) H"
proof -
  have flush: "objs W (flushed T h t) = objs W t - {h}" "sess W (flushed T h t) = sess W t - {h}"
    "peak W (flushed T h t) = peak W t" and fin: "finite (objs W t)" for h t
    by (simp_all add: flush_facts [OF T])
  show ?thesis
  proof (rule usesI)
    fix t e t' assume run: "act_bind m (\<lambda>a. deferred (flushed T (g a)) (k a)) t = (Inl e, t')"
    show "sess W t' = sess W t \<and> peak W t' \<le> max (peak W t) (card (objs W t) + Suc n) \<and> objs W t' = objs W t"
    proof (cases "\<exists>e' u. m t = (Inl e', u)")
      case True
      with run usesE(1) [OF m] show ?thesis by (auto simp: act_bind_def)
    next
      case False
      with run obtain a u v where a: "m t = (Inr a, u)" "k a u = (Inl e, v)" "t' = flushed T (g a) v"
        by (auto simp: act_bind_def deferred_def split: prod.splits sum.splits)
      note 1 = usesE(2) [OF m a(1)] and 2 = usesE(1) [OF k a(2)]
      from 1 have "card (objs W u) = Suc (card (objs W t))" using fin by auto
      with 1 2 a(3) show ?thesis by (auto simp: flush)
    qed
  next
    fix t b t' assume run: "act_bind m (\<lambda>a. deferred (flushed T (g a)) (k a)) t = (Inr b, t')"
    then obtain a u v where a: "m t = (Inr a, u)" "k a u = (Inr b, v)" "t' = flushed T (g a) v"
      by (auto simp: act_bind_def deferred_def split: prod.splits sum.splits)
    note 1 = usesE(2) [OF m a(1)] and 2 = usesE(2) [OF k a(2)]
    from 1 have "card (objs W u) = Suc (card (objs W t))" using fin by auto
    with 1 2 a(3) show "sess W t' = sess W t \<and> peak W t' \<le> max (peak W t) (card (objs W t) + Suc n) \<and>
        H b \<inter> (objs W t \<union> sess W t) = {} \<and> objs W t' = objs W t \<union> H b \<and> Ball (H b) transient"
      by (auto simp: flush)
  qed
qed

lemma uses_result: "uses W n m H \<Longrightarrow> (\<And>a. H a = G (f a)) \<Longrightarrow> uses W n (act_bind m (\<lambda>a. act_return (f a))) G"
proof (rule usesI)
  fix t e t' assume "uses W n m H" "act_bind m (\<lambda>a. act_return (f a)) t = (Inl e, t')"
  then show "sess W t' = sess W t \<and> peak W t' \<le> max (peak W t) (card (objs W t) + n) \<and> objs W t' = objs W t"
    by (auto simp: act_bind_def act_return_def split: prod.splits sum.splits dest: usesE)
next
  fix t b t' assume u: "uses W n m H" and eq: "\<And>a. H a = G (f a)" and run: "act_bind m (\<lambda>a. act_return (f a)) t = (Inr b, t')"
  from run obtain a where "m t = (Inr a, t')" "b = f a" by (auto simp: act_bind_def act_return_def split: prod.splits sum.splits)
  with usesE(2) [OF u, of t a t'] eq [of a] show "sess W t' = sess W t \<and> peak W t' \<le> max (peak W t) (card (objs W t) + n) \<and>
      G b \<inter> (objs W t \<union> sess W t) = {} \<and> objs W t' = objs W t \<union> G b \<and> Ball (G b) transient" by simp
qed

text \<open>A handle that is released when what follows fails, and handed on otherwise.\<close>

lemma uses_bind_kept:
  assumes T: "tpm_ok W T" and m: "uses W (Suc n) m (\<lambda>a. {g a})" and k: "\<And>a. uses W n (k a) (\<lambda>_. {})"
    and G: "\<And>a t b t'. k a t = (Inr b, t') \<Longrightarrow> G b = {g a}"
  shows "uses W (Suc n) (act_bind m (\<lambda>a. on_error (flushed T (g a)) (k a))) G"
proof (rule usesI)
  fix t e t' assume run: "act_bind m (\<lambda>a. on_error (flushed T (g a)) (k a)) t = (Inl e, t')"
  show "sess W t' = sess W t \<and> peak W t' \<le> max (peak W t) (card (objs W t) + Suc n) \<and> objs W t' = objs W t"
  proof (cases "\<exists>e' u. m t = (Inl e', u)")
    case True
    with run usesE(1) [OF m] show ?thesis by (auto simp: act_bind_def)
  next
    case False
    with run obtain a u v where a: "m t = (Inr a, u)" "k a u = (Inl e, v)" "t' = flushed T (g a) v"
      by (auto simp: act_bind_def on_error_def split: prod.splits sum.splits)
    note 1 = usesE(2) [OF m a(1)] and 2 = usesE(1) [OF k a(2)]
    from 1 have "card (objs W u) = Suc (card (objs W t))" using flush_facts(4) [OF T] by auto
    with 1 2 a(3) show ?thesis by (auto simp: flush_facts [OF T])
  qed
next
  fix t b t' assume run: "act_bind m (\<lambda>a. on_error (flushed T (g a)) (k a)) t = (Inr b, t')"
  then obtain a u where a: "m t = (Inr a, u)" "k a u = (Inr b, t')"
    by (auto simp: act_bind_def on_error_def split: prod.splits sum.splits)
  note 1 = usesE(2) [OF m a(1)] and 2 = usesE(2) [OF k a(2)]
  from 1 have "card (objs W u) = Suc (card (objs W t))" using flush_facts(4) [OF T] by auto
  with 1 2 G [OF a(2)] show "sess W t' = sess W t \<and> peak W t' \<le> max (peak W t) (card (objs W t) + Suc n) \<and>
      G b \<inter> (objs W t \<union> sess W t) = {} \<and> objs W t' = objs W t \<union> G b \<and> Ball (G b) transient"
    by auto
qed

lemma tpm_okD:
  assumes "tpm_ok W T"
  shows "loads W (CreatePrimaryEx T h p) fst" "loads W (LoadUsingAuth T h a b) id" "loads W (HashSequenceStart T alg) id"
    "opens W (StartAuthSession T)" "completes W s (SequenceComplete T s h d)" "still W (CreateKeyUsingAuth T h p)"
    "still W (NVRead T h)" "still W (Certify T h s)" "still W (ReadPublic T h)" "still W (tpm_Hash T alg d h)"
    "still W (SequenceUpdate T s d)" "still W (tpm_Sign T h d a sch)" "still W (PolicySecret T h s)"
    "still W (ActivateCredentialUsingAuth T s h p' a b)"
  using assms by (simp_all add: tpm_ok_def)

lemma uses_createPrimaryKey: "tpm_ok W T \<Longrightarrow> uses W 1 (createPrimaryKey L T hier p) (\<lambda>k. {k_Handle k})"
proof -
  assume T: "tpm_ok W T"
  have "uses W (Suc 0) (act_bind (act_cmd (Failure ''CreatePrimary'') (CreatePrimaryEx T hier p)) (\<lambda>a.
      on_error (flushed T (fst a))
        (act_bind (act_opt (Failure ''decode primary public'' None) (DecodePublic L (snd a))) (\<lambda>pub.
           act_return \<lparr>k_Handle = fst a, k_Public = pub, k_PublicBlob = snd a, k_PrivateBlob = [], k_Template = p\<rparr>))))
      (\<lambda>k. {k_Handle k})"
    using uses_loads [OF T tpm_okD(1) [OF T], of "Failure ''CreatePrimary''" hier p]
    by (intro uses_bind_kept [OF T])
       (auto intro!: uses_bind uses_opt uses_return uses_fail
         simp: act_bind_def act_opt_def act_return_def act_fail_def split: option.splits)
  then show ?thesis unfolding createPrimaryKey_def case_prod_beta by simp
qed

lemma uses_createLoadedKey: "tpm_ok W T \<Longrightarrow> uses W 1 (createLoadedKey L T par p) (\<lambda>k. {k_Handle k})"
proof -
  assume T: "tpm_ok W T"
  have "uses W 1 (act_cmd w (LoadUsingAuth T par a b)) (\<lambda>h. {h})" for w a b
    using uses_loads [OF T tpm_okD(2) [OF T]] by simp
  then show ?thesis
    unfolding createLoadedKey_def case_prod_beta
    by (intro uses_bind [OF uses_still [OF tpm_okD(6) [OF T]]] uses_bind [OF uses_opt])
       (rule uses_result [where H = "\<lambda>h. {h}"], simp_all)
qed

lemma uses_createUnderSRK: "tpm_ok W T \<Longrightarrow> uses W 2 (createUnderSRK L T f p) (\<lambda>k. {k_Handle k})"
  using uses_bind_deferred [of W T 1, OF _ uses_more [OF uses_createPrimaryKey] uses_createLoadedKey]
  by (simp add: createUnderSRK_def CreateSRK_def numeral_2_eq_2)

lemma uses_CreateEK: "tpm_ok W T \<Longrightarrow> uses W 1 (CreateEK L T f) (\<lambda>k. {k_Handle k})"
  unfolding CreateEK_def by (rule uses_createPrimaryKey)

lemma uses_LoadDevID: "tpm_ok W T \<Longrightarrow> uses W 2 (LoadDevID L T f pub priv) (\<lambda>k. {k_Handle k})"
proof -
  assume T: "tpm_ok W T"
  have l: "uses W 1 (act_cmd w (LoadUsingAuth T par a b)) (\<lambda>h. {h})" for w par a b
    using uses_loads [OF T tpm_okD(2) [OF T]] by simp
  have srk: "uses W 2 (wrap_error parent_error (CreateSRK L T f)) (\<lambda>k. {k_Handle k})"
    unfolding CreateSRK_def by (rule uses_wrap, rule uses_more [OF uses_createPrimaryKey [OF T]]) simp
  show ?thesis
    using srk unfolding LoadDevID_def numeral_2_eq_2
    by (auto intro!: uses_fail uses_bind uses_opt uses_bind_deferred [OF T] uses_result [OF l [simplified]])
qed

lemma uses_certify: "tpm_ok W T \<Longrightarrow> uses W n (certify_loop L T a b k prev) (\<lambda>_. {})"
proof -
  assume T: "tpm_ok W T"
  have c: "unmoved W t (snd (certify_loop L T a b k prev t))" for t
  proof (induction k arbitrary: t prev)
    case (Suc k)
    have "unmoved W t (snd (Certify T a b t))" by (rule still_unmoved [OF tpm_okD(8) [OF T]])
    with Suc show ?case by (auto simp: unmoved_def split: prod.splits sum.splits option.splits)
  qed (simp add: unmoved_def)
  show ?thesis by (rule uses_unmoved) (metis c snd_conv)
qed

text \<open>Work on one handle that may release it: the sequence object of a hash.\<close>

definition spends :: "'t watch \<Rightarrow> handle \<Rightarrow> ('t, 'a) act \<Rightarrow> bool" where
  "spends W h m \<longleftrightarrow> (\<forall>t. objs W (snd (m t)) - {h} = objs W t - {h} \<and> sess W (snd (m t)) - {h} = sess W t - {h}
     \<and> peak W (snd (m t)) = peak W t)"

lemma spends_still: "still W m \<Longrightarrow> spends W h (act_cmd wrap m)"
  using still_unmoved [of W m] by (simp add: spends_def act_cmd_state unmoved_def)

lemma spends_completes: "completes W h m \<Longrightarrow> spends W h (act_cmd wrap m)"
  unfolding spends_def
proof
  fix t assume "completes W h m"
  then show "objs W (snd (act_cmd wrap m t)) - {h} = objs W t - {h} \<and> sess W (snd (act_cmd wrap m t)) - {h} = sess W t - {h}
      \<and> peak W (snd (act_cmd wrap m t)) = peak W t"
    using untouched_unmoved [of W t "snd (m t)"] gone_objs [of W h t "snd (m t)"]
    by (cases "m t"; cases "fst (m t)") (auto simp: completes_def act_cmd_state unmoved_def dest!: spec [of _ t])
qed

lemma spends_bind: "spends W h m \<Longrightarrow> (\<And>a. spends W h (k a)) \<Longrightarrow> spends W h (act_bind m k)"
  unfolding spends_def
proof
  fix t assume m: "\<forall>t. objs W (snd (m t)) - {h} = objs W t - {h} \<and> sess W (snd (m t)) - {h} = sess W t - {h} \<and> peak W (snd (m t)) = peak W t"
    and k: "\<And>a. \<forall>t. objs W (snd (k a t)) - {h} = objs W t - {h} \<and> sess W (snd (k a t)) - {h} = sess W t - {h} \<and> peak W (snd (k a t)) = peak W t"
  show "objs W (snd (act_bind m k t)) - {h} = objs W t - {h} \<and> sess W (snd (act_bind m k t)) - {h} = sess W t - {h}
      \<and> peak W (snd (act_bind m k t)) = peak W t"
  proof (cases "m t")
    case (Pair r u)
    with m [rule_format, of t] show ?thesis
      using k [rule_format, where t = u] by (cases r) (simp_all add: act_bind_def)
  qed
qed

lemma spends_return: "spends W h (act_return a)"
  by (simp add: spends_def act_return_def)

lemma spends_updates: "tpm_ok W T \<Longrightarrow> spends W h (seq_updates T s d)"
proof (induction T s d rule: seq_updates.induct)
  case (1 T s d)
  then show ?case
    by (subst seq_updates.simps) (auto intro!: spends_bind spends_return spends_still tpm_okD(11))
qed

lemma uses_spends:
  assumes T: "tpm_ok W T" and m: "uses W (Suc n) m (\<lambda>a. {g a})" and k: "\<And>a. spends W (g a) (k a)"
  shows "uses W (Suc n) (act_bind m (\<lambda>a. deferred (flushed T (g a)) (k a))) (\<lambda>_. {})"
proof -
  have run: "sess W t' = sess W t \<and> peak W t' \<le> max (peak W t) (card (objs W t) + Suc n) \<and> objs W t' = objs W t"
    if "act_bind m (\<lambda>a. deferred (flushed T (g a)) (k a)) t = (r, t')" for t r t'
  proof (cases "\<exists>e' u. m t = (Inl e', u)")
    case True
    with that usesE(1) [OF m] show ?thesis by (auto simp: act_bind_def)
  next
    case False
    with that obtain a u where a: "m t = (Inr a, u)" "t' = flushed T (g a) (snd (k a u))"
      by (auto simp: act_bind_def deferred_def split: prod.splits sum.splits)
    note 1 = usesE(2) [OF m a(1)] and 2 = k [unfolded spends_def, rule_format, of a u]
    from 1 have "objs W u - {g a} = objs W t" "sess W u - {g a} = sess W t" by auto
    with 1 2 a(2) show ?thesis by (simp add: flush_facts [OF T])
  qed
  show ?thesis by (rule usesI) (auto dest: run)
qed

lemma uses_tpmHash: "tpm_ok W T \<Longrightarrow> uses W 1 (tpmHash T h a d) (\<lambda>_. {})"
proof -
  assume T: "tpm_ok W T"
  have "uses W (Suc 0) (act_cmd (Failure ''HashSequenceStart'') (HashSequenceStart T a)) (\<lambda>s. {s})"
    using uses_loads [OF T tpm_okD(3) [OF T]] by simp
  from uses_spends [OF T this spends_bind [OF spends_updates [OF T] spends_completes [OF tpm_okD(5) [OF T]]]]
  show ?thesis by (simp add: tpmHash_def uses_still [OF tpm_okD(10) [OF T]])
qed

lemma uses_HashAndSign: "tpm_ok W T \<Longrightarrow> uses W 1 (HashAndSign L T hier h d) (\<lambda>_. {})"
  unfolding HashAndSign_def case_prod_beta
  by (intro uses_bind uses_opt uses_still uses_tpmHash tpm_okD(9, 12))

lemma session_cases:
  assumes "tpm_ok W T" "endorsementPolicySession T t = (r, t')"
  shows "case r of Inl e \<Rightarrow> unmoved W t t'
    | Inr s \<Rightarrow> s \<notin> objs W t \<union> sess W t \<and> objs W t' = objs W t \<and> sess W t' = insert s (sess W t) \<and> peak W t' = peak W t"
proof (cases "StartAuthSession T t")
  case (Pair r0 u)
  have o: "case r0 of Inl e \<Rightarrow> unmoved W t u
      | Inr s \<Rightarrow> s \<notin> objs W t \<union> sess W t \<and> objs W u = objs W t \<and> sess W u = insert s (sess W t) \<and> peak W u = peak W t"
    using opens_cases [OF assms(1) tpm_okD(4) [OF assms(1)], of t] Pair by simp
  have p: "unmoved W u (snd (PolicySecret T h s u))" for h s
    by (rule still_unmoved [OF tpm_okD(13) [OF assms(1)]])
  show ?thesis
    using assms(2) Pair o p [of "HandleEndorsement T" "projr r0"]
    by (cases r0; cases "PolicySecret T (HandleEndorsement T) (projr r0) u"; cases "fst (PolicySecret T (HandleEndorsement T) (projr r0) u)")
       (auto simp: endorsementPolicySession_def act_bind_def act_cmd_def on_error_def act_return_def unmoved_def
         flush_facts [OF assms(1)] split: sum.splits)
qed

lemma uses_ActivateCredential: "tpm_ok W T \<Longrightarrow> uses W n (ActivateCredential T ak ek c s) (\<lambda>_. {})"
proof -
  assume T: "tpm_ok W T"
  have run: "unmoved W t t'" if "ActivateCredential T ak ek c s t = (r, t')" for t r t'
  proof (cases "endorsementPolicySession T t")
    case (Pair r0 u)
    have a: "unmoved W u (snd (ActivateCredentialUsingAuth T q ak ek c s u))" for q
      by (rule still_unmoved [OF tpm_okD(14) [OF T]])
    show ?thesis
    proof (cases r0)
      case (Inl e)
      with that Pair session_cases [OF T Pair] show ?thesis by (simp add: ActivateCredential_def act_bind_def)
    next
      case (Inr q)
      have "t' = flushed T q (snd (ActivateCredentialUsingAuth T q ak ek c s u))"
        using that Pair Inr by (auto simp: ActivateCredential_def act_bind_def deferred_def act_cmd_def split: prod.splits sum.splits)
      with session_cases [OF T Pair] Inr a [of q] show ?thesis by (auto simp: unmoved_def flush_facts [OF T])
    qed
  qed
  show ?thesis by (rule uses_unmoved) (rule run)
qed

lemma uses_Activate: "tpm_ok W T \<Longrightarrow> uses W 1 (Activate L T f res c s) (\<lambda>_. {})"
proof -
  assume T: "tpm_ok W T"
  have "uses W (Suc 0) (act_bind (CreateEK L T f) (\<lambda>ek. deferred (flushed T (k_Handle ek))
      (ActivateCredential T ak (k_Handle ek) c s))) (\<lambda>_. {})" for ak
    using uses_CreateEK [OF T, of L f] by (intro uses_bind_deferred [OF T] uses_ActivateCredential [OF T]) simp
  then show ?thesis by (simp add: Activate_def uses_fail split: option.split)
qed

subsection \<open>Requests own their keys\<close>

text \<open>
  An action that owns the handles \<open>own\<close>: an error releases them, a result hands \<open>H a\<close> on in their
  place. It needs \<open>n\<close> slots besides those that are taken when it starts.
\<close>

definition owns :: "'t watch \<Rightarrow> handle set \<Rightarrow> nat \<Rightarrow> ('t, 'a) act \<Rightarrow> ('a \<Rightarrow> handle set) \<Rightarrow> bool" where
  "owns W own n m H \<longleftrightarrow>
     (\<forall>t r t'. own \<subseteq> objs W t \<and> own \<inter> sess W t = {} \<and> Ball own transient \<and> m t = (r, t') \<longrightarrow>
        sess W t' = sess W t \<and> peak W t' \<le> max (peak W t) (card (objs W t) + n) \<and>
        (case r of
           Inl e \<Rightarrow> objs W t' = objs W t - own
         | Inr a \<Rightarrow> H a \<inter> (objs W t - own \<union> sess W t) = {} \<and> objs W t' = objs W t - own \<union> H a \<and> Ball (H a) transient))"

definition releases :: "'t watch \<Rightarrow> handle set \<Rightarrow> ('t \<Rightarrow> 't) \<Rightarrow> bool" where
  "releases W own clean \<longleftrightarrow>
     (\<forall>t. objs W (clean t) = objs W t - own \<and> sess W (clean t) = sess W t - own \<and> peak W (clean t) = peak W t)"

lemma ownsI:
  assumes "\<And>t r t'. own \<subseteq> objs W t \<Longrightarrow> own \<inter> sess W t = {} \<Longrightarrow> Ball own transient \<Longrightarrow> m t = (r, t') \<Longrightarrow>
      sess W t' = sess W t \<and> peak W t' \<le> max (peak W t) (card (objs W t) + n) \<and>
      (case r of Inl e \<Rightarrow> objs W t' = objs W t - own
       | Inr a \<Rightarrow> H a \<inter> (objs W t - own \<union> sess W t) = {} \<and> objs W t' = objs W t - own \<union> H a \<and> Ball (H a) transient)"
  shows "owns W own n m H"
  using assms unfolding owns_def by blast

lemma ownsD:
  assumes "owns W own n m H" "own \<subseteq> objs W t" "own \<inter> sess W t = {}" "Ball own transient" "m t = (r, t')"
  shows "sess W t' = sess W t" "peak W t' \<le> max (peak W t) (card (objs W t) + n)"
    "r = Inl e \<Longrightarrow> objs W t' = objs W t - own"
    "r = Inr a \<Longrightarrow> H a \<inter> (objs W t - own \<union> sess W t) = {} \<and> objs W t' = objs W t - own \<union> H a \<and> Ball (H a) transient"
  using assms(1) [unfolded owns_def, rule_format, of t r t'] assms(2-) by auto

lemma owns_return: "H a = own \<Longrightarrow> owns W own n (act_return a) H"
  by (rule ownsI) (auto simp: act_return_def)

lemma owns_step:
  assumes finite_objs: "\<And>t. finite (objs W t)" and m: "uses W n m K" and clean: "Ball own transient \<Longrightarrow> releases W own clean"
    and k: "\<And>a. owns W (own \<union> K a) (n' a) (k a) H" and bound: "n \<le> N" "\<And>a. card (K a) + n' a \<le> N"
  shows "owns W own N (act_bind (on_error clean m) k) H"
proof (rule ownsI)
  fix t r t'
  assume own: "own \<subseteq> objs W t" "own \<inter> sess W t = {}" "Ball own transient"
    and run: "act_bind (on_error clean m) k t = (r, t')"
  show "sess W t' = sess W t \<and> peak W t' \<le> max (peak W t) (card (objs W t) + N) \<and>
      (case r of Inl e \<Rightarrow> objs W t' = objs W t - own
       | Inr a \<Rightarrow> H a \<inter> (objs W t - own \<union> sess W t) = {} \<and> objs W t' = objs W t - own \<union> H a \<and> Ball (H a) transient)"
  proof (cases "m t")
    case (Pair q u)
    show ?thesis
    proof (cases q)
      case (Inl e)
      with run Pair have "r = Inl e" "t' = clean u" by (auto simp: act_bind_def on_error_def)
      with usesE(1) [OF m, of t e u] Pair Inl clean [OF own(3)] own(2) bound(1) show ?thesis by (auto simp: releases_def)
    next
      case (Inr a)
      with run Pair have step: "k a u = (r, t')" by (simp add: act_bind_def on_error_def)
      have u: "sess W u = sess W t" "peak W u \<le> max (peak W t) (card (objs W t) + n)" "K a \<inter> (objs W t \<union> sess W t) = {}"
        "objs W u = objs W t \<union> K a" "Ball (K a) transient"
        using usesE(2) [OF m, of t a u] Pair Inr by simp_all
      have fin: "finite (objs W t)" "finite (K a)" using finite_objs u(4) by (metis, metis finite_Un)
      have "card (objs W u) = card (objs W t) + card (K a)"
        unfolding u(4) using fin u(3) by (intro card_Un_disjoint) auto
      moreover have own': "own \<union> K a \<subseteq> objs W u" "(own \<union> K a) \<inter> sess W u = {}" "Ball (own \<union> K a) transient"
        using own u by auto
      moreover have "objs W u - (own \<union> K a) = objs W t - own" using u(3, 4) by auto
      ultimately show ?thesis
        using ownsD(1, 2) [OF k own' step] ownsD(3, 4) [OF k own' step] u(1, 2) bound(1) bound(2) [of a]
        by (cases r) auto
    qed
  qed
qed

definition own_key :: "KeyInfo option \<Rightarrow> handle set" where
  "own_key k = (case k of None \<Rightarrow> {} | Some ki \<Rightarrow> {k_Handle ki})"

lemma FlushTransient_transient: "transient h \<Longrightarrow> FlushTransient T h = flushed T h"
  by (auto simp: FlushTransient_def transient_def)

lemma releases_release:
  assumes "tpm_ok W T" "Ball (own_key (rr_Attestation res) \<union> own_key (rr_DevID res)) transient"
  shows "releases W (own_key (rr_Attestation res) \<union> own_key (rr_DevID res)) (release T res)"
  using assms(2)
  by (auto simp: releases_def release_def Flush_def flush_key_def own_key_def FlushTransient_transient flush_facts [OF assms(1)]
      split: option.splits)

lemma uses_no_handle:
  assumes "tpm_ok W T"
  shows "uses W 1 (act_bind (CreateEK L T f) (\<lambda>ek. deferred (flushed T (k_Handle ek)) (act_return (g ek)))) (\<lambda>_. {})"
  using uses_bind_deferred [OF assms _ uses_return, of 0 "CreateEK L T f" k_Handle] uses_CreateEK [OF assms, of L f] by simp

text \<open>The keys of the resources of a request.\<close>

definition res_keys :: "RequestResources \<Rightarrow> handle set" where
  "res_keys res = own_key (rr_Attestation res) \<union> own_key (rr_DevID res)"

lemma bind_return: "act_bind (act_return a) k = k a"
  by (rule ext) (simp add: act_bind_def act_return_def)

lemma owns_request:
  assumes T: "tpm_ok W T"
  shows "owns W (own_key devID) (3 - card (own_key devID)) (CreateSigningRequestWithKey L T f cn devID) (\<lambda>p. res_keys (snd p))"
proof -
  have certified: "owns W ({k_Handle ak} \<union> {k_Handle d}) 0
      (act_bind (on_error (release T \<lparr>rr_Attestation = Some ak, rr_Endorsement = Some ek, rr_DevID = Some d\<rparr>)
         (certifyWithRetry L T (k_Handle d) (k_Handle ak))) (\<lambda>p. act_return (g p, \<lparr>rr_Attestation = Some ak,
           rr_Endorsement = Some ek, rr_DevID = Some d\<rparr>))) (\<lambda>p. res_keys (snd p))" for ak ek d and g :: "_ \<Rightarrow> SigningRequest"
    unfolding certifyWithRetry_def
    by (rule owns_step [OF flush_facts(4) [OF T] uses_certify [OF T, of 0], where n' = "\<lambda>_. 0"])
       (use releases_release [OF T, of "\<lparr>rr_Attestation = Some ak, rr_Endorsement = Some ek, rr_DevID = Some d\<rparr>"]
         in \<open>auto simp: own_key_def insert_commute res_keys_def intro!: owns_return\<close>)
  have keyed: "owns W (own_key devID \<union> {k_Handle ak}) (2 - 2 * card (own_key devID))
      (act_bind (case devID of Some d \<Rightarrow> act_return d
         | None \<Rightarrow> on_error (release T \<lparr>rr_Attestation = Some ak, rr_Endorsement = Some ek, rr_DevID = devID\<rparr>) (CreateDevID L T f)) (\<lambda>d.
       act_bind (on_error (release T \<lparr>rr_Attestation = Some ak, rr_Endorsement = Some ek, rr_DevID = Some d\<rparr>)
         (certifyWithRetry L T (k_Handle d) (k_Handle ak))) (\<lambda>p. act_return (g p d, \<lparr>rr_Attestation = Some ak,
           rr_Endorsement = Some ek, rr_DevID = Some d\<rparr>)))) (\<lambda>p. res_keys (snd p))" for ak ek and g :: "_ \<Rightarrow> _ \<Rightarrow> SigningRequest"
  proof (cases devID)
    case None
    show ?thesis
      unfolding None own_key_def CreateDevID_def
      by (simp, rule owns_step [OF flush_facts(4) [OF T] uses_createUnderSRK [OF T], where n' = "\<lambda>_. 0"], rule_tac [2] certified)
         (use releases_release [OF T, of "\<lparr>rr_Attestation = Some ak, rr_Endorsement = Some ek, rr_DevID = None\<rparr>"] in
           \<open>auto simp: own_key_def\<close>)
  next
    case (Some d)
    with certified [of ak d ek "\<lambda>p. g p d"] show ?thesis
      by (simp add: own_key_def bind_return insert_commute)
  qed
  have ek: "uses W 1 (act_bind (act_cmd (Failure ''read EK certificate NV'') (NVRead T EKRSACertificateHandle)) (\<lambda>ekCertData.
         act_bind (act_opt (Failure ''parse EK certificate'' None) (parseCertificateLoose L ekCertData)) (\<lambda>ekCert.
         act_bind (CreateEK L T f) (\<lambda>ek.
           deferred (flushed T (k_Handle ek)) (act_return (ekCert, ek\<lparr>k_Handle := 0\<rparr>)))))) (\<lambda>_. {})"
    by (intro uses_bind [OF uses_still [OF tpm_okD(7) [OF T]]] uses_bind [OF uses_opt] uses_no_handle [OF T])
  have card: "card (own_key devID) \<le> 1" by (simp add: own_key_def split: option.split)
  have rel: "releases W (own_key devID) (release T \<lparr>rr_Attestation = None, rr_Endorsement = e, rr_DevID = devID\<rparr>)"
    if "Ball (own_key devID) transient" for e
    using that releases_release [OF T, of "\<lparr>rr_Attestation = None, rr_Endorsement = e, rr_DevID = devID\<rparr>"]
    by (simp add: own_key_def)
  show ?thesis
    unfolding CreateSigningRequestWithKey_def Let_def case_prod_beta CreateAK_def RequestResources.update_convs
    apply (rule owns_step [OF flush_facts(4) [OF T] ek rel, where n' = "\<lambda>_. 3 - card (own_key devID)"])
    apply assumption
    apply (simp only: Un_empty_right)
    apply (rule owns_step [OF flush_facts(4) [OF T] uses_createUnderSRK [OF T] rel, where n' = "\<lambda>_. 2 - 2 * card (own_key devID)"])
    apply assumption
    apply (rule keyed)
    using card apply auto
    done
qed

lemma owns_none: "owns W {} n m H \<Longrightarrow> uses W n m H"
proof (rule usesI)
  fix t e t' assume "owns W {} n m H" "m t = (Inl e, t')"
  note D = ownsD [OF this(1) empty_subsetI Int_empty_left _ this(2), simplified ball_empty, OF TrueI]
  from D(1, 2) D(3) [OF refl] show
    "sess W t' = sess W t \<and> peak W t' \<le> max (peak W t) (card (objs W t) + n) \<and> objs W t' = objs W t"
    unfolding Diff_empty by blast
next
  fix t a t' assume "owns W {} n m H" "m t = (Inr a, t')"
  note D = ownsD [OF this(1) empty_subsetI Int_empty_left _ this(2), simplified ball_empty, OF TrueI]
  from D(1, 2) D(4) [OF refl] show
    "sess W t' = sess W t \<and> peak W t' \<le> max (peak W t) (card (objs W t) + n) \<and>
      H a \<inter> (objs W t \<union> sess W t) = {} \<and> objs W t' = objs W t \<union> H a \<and> Ball (H a) transient"
    unfolding Diff_empty by blast
qed

lemma uses_owns:
  assumes finite_objs: "\<And>t. finite (objs W t)" and m: "uses W n m K" and k: "\<And>a. owns W (K a) (n' a) (k a) H"
    and bound: "n \<le> N" "\<And>a. card (K a) + n' a \<le> N"
  shows "uses W N (act_bind m k) H"
proof -
  have "owns W {} N (act_bind (on_error id m) k) H"
    by (rule owns_step [OF finite_objs m _ _ bound]) (simp_all add: releases_def k)
  moreover have "on_error id m = m" by (rule ext) (simp add: on_error_def split: prod.split sum.split)
  ultimately show ?thesis by (simp add: owns_none)
qed

text \<open>Work with what an action has handed on, released at the end in any case.\<close>

lemma owns_bind_deferred:
  assumes finite_objs: "\<And>t. finite (objs W t)" and m: "owns W own n m H"
    and k: "\<And>a. uses W (n' a) (k a) (\<lambda>_. {})" and clean: "\<And>a. Ball (H a) transient \<Longrightarrow> releases W (H a) (clean a)"
    and bound: "n \<le> N" "\<And>a. card (H a) + n' a \<le> N + card own"
  shows "owns W own N (act_bind m (\<lambda>a. deferred (clean a) (k a))) (\<lambda>_. {})"
proof (rule ownsI)
  fix t r t'
  assume own: "own \<subseteq> objs W t" "own \<inter> sess W t = {}" "Ball own transient"
    and run: "act_bind m (\<lambda>a. deferred (clean a) (k a)) t = (r, t')"
  have goal: "sess W t' = sess W t \<and> peak W t' \<le> max (peak W t) (card (objs W t) + N) \<and> objs W t' = objs W t - own"
  proof (cases "m t")
    case (Pair q u)
    show ?thesis
    proof (cases q)
      case (Inl e)
      with run Pair have step: "m t = (Inl e, u)" and "t' = u" by (simp_all add: act_bind_def)
      with ownsD(1, 2) [OF m own step] ownsD(3) [OF m own step refl] bound(1) show ?thesis by auto
    next
      case (Inr a)
      with Pair have step: "m t = (Inr a, u)" by simp
      have u: "H a \<inter> (objs W t - own \<union> sess W t) = {}" "objs W u = objs W t - own \<union> H a" "Ball (H a) transient"
        "sess W u = sess W t" "peak W u \<le> max (peak W t) (card (objs W t) + n)"
        using ownsD(4) [OF m own step refl] ownsD(1, 2) [OF m own step] by blast+
      from run step have t': "t' = clean a (snd (k a u))" by (simp add: act_bind_def deferred_def split: prod.splits)
      have v: "sess W (snd (k a u)) = sess W u" "peak W (snd (k a u)) \<le> max (peak W u) (card (objs W u) + n' a)"
        "objs W (snd (k a u)) = objs W u"
        using usesE(1) [OF k, of a u] usesE(2) [OF k, of a u]
        by (cases "k a u"; cases "fst (k a u)"; simp)+
      have fin: "finite own" "finite (H a)" using finite_subset [OF own(1) finite_objs] finite_objs [of u] u(2) by simp_all
      have "card (objs W u) + card own \<le> card (objs W t) + card (H a)"
        using card_Un_le [of "objs W t - own" "H a"] card_Diff_subset [OF fin(1) own(1)] card_mono [OF finite_objs own(1)] u(2) by simp
      with v u bound(1) bound(2) [of a] clean [OF u(3)] t' show ?thesis by (auto simp: releases_def)
    qed
  qed
  then show "sess W t' = sess W t \<and> peak W t' \<le> max (peak W t) (card (objs W t) + N) \<and>
      (case r of Inl e \<Rightarrow> objs W t' = objs W t - own
       | Inr a \<Rightarrow> {} \<inter> (objs W t - own \<union> sess W t) = {} \<and> objs W t' = objs W t - own \<union> {} \<and> Ball {} transient)"
    by (cases r) simp_all
qed

lemma uses_CreateSigningRequestWithDevID:
  assumes T: "tpm_ok W T"
  shows "uses W 3 (CreateSigningRequestWithDevID L T f cn pub priv) (\<lambda>p. res_keys (snd p))"
proof -
  have "uses W 3 (act_bind (LoadDevID L T f pub priv) (\<lambda>d. CreateSigningRequestWithKey L T f cn (Some d))) (\<lambda>p. res_keys (snd p))"
    by (rule uses_owns [OF flush_facts(4) [OF T] uses_LoadDevID [OF T], where n' = "\<lambda>_. 2"])
       (use owns_request [OF T, of "Some _"] in \<open>simp_all add: own_key_def\<close>)
  moreover have "uses W 3 (CreateSigningRequestWithKey L T f cn None) (\<lambda>p. res_keys (snd p))"
    using owns_request [OF T, of None] by (simp add: own_key_def owns_none)
  ultimately show ?thesis by (simp add: CreateSigningRequestWithDevID_def)
qed

subsection \<open>Errors\<close>

text \<open>
  C39: \<open>LoadDevID\<close> calls blobs foreign, which lets the client replace the key, exactly when the public
  blob does not decode or the load itself is answered with \<open>TPM_RC_INTEGRITY\<close>, \<open>TPM_RC_BINDING\<close> or
  \<open>TPM_RC_SENSITIVE\<close>; a missing blob, a parent that cannot be derived, a warning such as
  \<open>TPM_RC_RETRY\<close> and every other error of the load are not.
\<close>

theorem foreign_exactly:
  "(\<exists>c. fst (LoadDevID L T f pubBlob privBlob t) = Inl (ErrDevIDForeign c)) \<longleftrightarrow>
     pubBlob \<noteq> [] \<and> privBlob \<noteq> [] \<and>
     (case DecodePublic L pubBlob of
        None \<Rightarrow> True
      | Some _ \<Rightarrow>
          (case CreateSRK L T f t of
             (Inl _, _) \<Rightarrow> False
           | (Inr srk, t') \<Rightarrow>
               (case fst (LoadUsingAuth T (k_Handle srk) pubBlob privBlob t') of
                  Inl (ParameterError _ code) \<Rightarrow> code = RCIntegrity T \<or> code = RCBinding T
                | Inl (FormatError _ code) \<Rightarrow> code = RCSensitive T
                | _ \<Rightarrow> False)))"
proof -
  have srk: "\<nexists>c t'. CreateSRK L T f t = (Inl (ErrDevIDForeign c), t')"
    by (auto simp: CreateSRK_def createPrimaryKey_def act_bind_def act_cmd_def on_error_def act_opt_def act_fail_def act_return_def
        split: prod.splits sum.splits option.splits)
  show ?thesis
  proof (cases "CreateSRK L T f t")
    case (Pair r u)
    then show ?thesis
      using srk
      by (cases "LoadUsingAuth T (k_Handle (projr r)) pubBlob privBlob u"; cases r)
         (auto simp: LoadDevID_def act_fail_def act_bind_def act_opt_def act_return_def wrap_error_def parent_error_def
           deferred_def act_cmd_def devid_load_error_def isForeignLoadError_def
           split: option.splits sum.splits devid_error.splits tpm_error.splits)
  qed
qed

text \<open>The TPM after \<open>i\<close> certifications in a row, and how it answers the one after these.\<close>

definition after_certify :: "'t tpm \<Rightarrow> handle \<Rightarrow> handle \<Rightarrow> nat \<Rightarrow> 't \<Rightarrow> 't" where
  "after_certify T obj signer i t = ((\<lambda>t. snd (Certify T obj signer t)) ^^ i) t"

definition certify_answer :: "'t tpm \<Rightarrow> handle \<Rightarrow> handle \<Rightarrow> 't \<Rightarrow> nat \<Rightarrow> tpm_error + string \<times> string" where
  "certify_answer T obj signer t i = fst (Certify T obj signer (after_certify T obj signer i t))"

text \<open>What a final answer is turned into.\<close>

definition certify_outcome :: "lib \<Rightarrow> 't tpm \<Rightarrow> tpm_error + string \<times> string \<Rightarrow> devid_error + string \<times> string" where
  "certify_outcome L T ans =
     (case ans of
        Inl err \<Rightarrow> Inl (Failure ''Certify'' (Some err))
      | Inr (data, sigBlob) \<Rightarrow>
          (case DecodeSignature T sigBlob of
             None \<Rightarrow> Inl (Failure ''decode Certify signature'' None)
           | Some sig \<Rightarrow>
               (case signatureBytes L T sig of
                  None \<Rightarrow> Inl (Failure ''unsupported signature algorithm'' None)
                | Some raw \<Rightarrow> Inr (data, raw))))"

lemma isTPMRetry_iff: "isTPMRetry T err \<longleftrightarrow> err = Warning ByPointer (RCRetry T)"
  by (auto simp: isTPMRetry_def split: tpm_error.splits passed.splits)

lemma after_certify_Suc: "after_certify T obj signer (Suc i) t = after_certify T obj signer i (snd (Certify T obj signer t))"
  by (simp only: after_certify_def funpow_Suc_right comp_apply)

lemma certify_answer_Suc: "certify_answer T obj signer t (Suc i) = certify_answer T obj signer (snd (Certify T obj signer t)) i"
  by (simp add: certify_answer_def after_certify_Suc)

lemma certify_answer_0: "certify_answer T obj signer t 0 = fst (Certify T obj signer t)"
  by (simp add: certify_answer_def after_certify_def)

lemma certify_loop_attempts:
  assumes "0 < n" and retry_def: "retry = Warning ByPointer (RCRetry T)"
  shows "\<exists>k. 1 \<le> k \<and> k \<le> n \<and> snd (certify_loop L T obj signer n prev t) = after_certify T obj signer k t \<and>
    (\<forall>i. Suc i < k \<longrightarrow> certify_answer T obj signer t i = Inl retry) \<and>
    (if certify_answer T obj signer t (k - 1) = Inl retry
     then k = n \<and> fst (certify_loop L T obj signer n prev t) = Inl (Failure ''Certify: max retries exceeded'' (Some retry))
     else fst (certify_loop L T obj signer n prev t) = certify_outcome L T (certify_answer T obj signer t (k - 1)))"
  using assms(1)
proof (induction n arbitrary: t prev)
  case (Suc n)
  obtain ans t' where c: "Certify T obj signer t = (ans, t')" by fastforce
  show ?case
  proof (cases "ans = Inl retry")
    case False
    then have "certify_loop L T obj signer (Suc n) prev t = (certify_outcome L T ans, t')"
      by (auto simp: c certify_outcome_def isTPMRetry_iff retry_def split: sum.split option.split)
    then show ?thesis
      using False by (intro exI [of _ 1]) (simp add: after_certify_def certify_answer_0 c)
  next
    case True
    then have loop: "certify_loop L T obj signer (Suc n) prev t = certify_loop L T obj signer n (Some retry) t'"
      by (simp add: c isTPMRetry_iff retry_def)
    show ?thesis
    proof (cases n)
      case 0
      then show ?thesis
        unfolding loop using True by (intro exI [of _ 1]) (simp add: after_certify_def certify_answer_0 c)
    next
      case (Suc m)
      then obtain k where k: "1 \<le> k" "k \<le> n"
        "snd (certify_loop L T obj signer n (Some retry) t') = after_certify T obj signer k t'"
        "\<forall>i. Suc i < k \<longrightarrow> certify_answer T obj signer t' i = Inl retry"
        "if certify_answer T obj signer t' (k - 1) = Inl retry
         then k = n \<and> fst (certify_loop L T obj signer n (Some retry) t') = Inl (Failure ''Certify: max retries exceeded'' (Some retry))
         else fst (certify_loop L T obj signer n (Some retry) t') = certify_outcome L T (certify_answer T obj signer t' (k - 1))"
        using Suc.IH [of "Some retry" t'] by blast
      have prefix: "certify_answer T obj signer t i = Inl retry" if "Suc i < Suc k" for i
        using that k(4) True by (cases i) (simp_all add: certify_answer_0 certify_answer_Suc c)
      have last: "certify_answer T obj signer t (Suc k - 1) = certify_answer T obj signer t' (k - 1)"
        using k(1) by (cases k) (simp_all add: certify_answer_Suc c)
      show ?thesis
        unfolding loop using k(1-3, 5) prefix last
        by (intro exI [of _ "Suc k"]) (auto simp: after_certify_Suc c split: if_splits)
    qed
  qed
qed simp

text \<open>
  C40: A certification takes between one and five commands to the TPM. Every command but the last was
  answered with a \<open>TPM_RC_RETRY\<close> that is passed as a pointer; the last one was not, or it was the
  fifth, which ends the loop with the error for too many attempts. The answer to the last command
  otherwise is the outcome: its error, or its data and signature. In particular a warning that is
  passed as a value, the way the TPM library returns it, is final: one command is sent, and its
  error is returned.
\<close>

theorem certify_attempts:
  "\<exists>k. 1 \<le> k \<and> k \<le> 5 \<and> snd (certifyWithRetry L T obj signer t) = after_certify T obj signer k t \<and>
    (\<forall>i. Suc i < k \<longrightarrow> certify_answer T obj signer t i = Inl (Warning ByPointer (RCRetry T))) \<and>
    (if certify_answer T obj signer t (k - 1) = Inl (Warning ByPointer (RCRetry T))
     then k = 5 \<and> fst (certifyWithRetry L T obj signer t)
       = Inl (Failure ''Certify: max retries exceeded'' (Some (Warning ByPointer (RCRetry T))))
     else fst (certifyWithRetry L T obj signer t) = certify_outcome L T (certify_answer T obj signer t (k - 1))) \<and>
    (\<forall>c. certify_answer T obj signer t 0 = Inl (Warning ByValue c) \<longrightarrow>
       k = 1 \<and> fst (certifyWithRetry L T obj signer t) = Inl (Failure ''Certify'' (Some (Warning ByValue c))))"
proof -
  obtain k where k: "1 \<le> k" "k \<le> 5" "snd (certifyWithRetry L T obj signer t) = after_certify T obj signer k t"
    "\<forall>i. Suc i < k \<longrightarrow> certify_answer T obj signer t i = Inl (Warning ByPointer (RCRetry T))"
    "if certify_answer T obj signer t (k - 1) = Inl (Warning ByPointer (RCRetry T))
     then k = 5 \<and> fst (certifyWithRetry L T obj signer t)
       = Inl (Failure ''Certify: max retries exceeded'' (Some (Warning ByPointer (RCRetry T))))
     else fst (certifyWithRetry L T obj signer t) = certify_outcome L T (certify_answer T obj signer t (k - 1))"
    using certify_loop_attempts [OF _ refl, where n = 5 and L = L and T = T and obj = obj and signer = signer and prev = None and t = t] unfolding certifyWithRetry_def by auto
  have "k = 1 \<and> fst (certifyWithRetry L T obj signer t) = Inl (Failure ''Certify'' (Some (Warning ByValue c)))"
    if "certify_answer T obj signer t 0 = Inl (Warning ByValue c)" for c
  proof -
    have "k = 1" using k(1, 4) that by (cases "Suc 0 < k") auto
    then show ?thesis using k(5) that by (simp add: certify_outcome_def)
  qed
  with k show ?thesis by blast
qed

end
