(* ===== verification/Guest_Client.thy ===== *)
theory Guest_Client
  imports Guest_Tpm Enroll
begin

text \<open>
  The guest's enrolment client: when to renew (\<open>internal/devid/renew.go\<close>), which VM the guest is
  (\<open>instanceid.go\<close>), and the run that keeps the key material on disk current (\<open>client.go\<close>).

  A guest is a TPM, a network, a file system and the outcomes of its coming system calls. A file
  is named by its directory and its base name, the way \<open>filepath.Join\<close> builds the name and \<open>Dir\<close>
  and \<open>Base\<close> take it apart. Every change of a file appends the new state of the disk to
  \<open>g_past\<close>: these are the states a crash can leave behind.

  The theorems: when a run renews and when it replaces the key; that no crash and no error leaves
  a certificate without its key; that a file keeps its owner; and that a run leaves nothing in the TPM.
\<close>

subsection \<open>When to renew\<close>

text \<open>\<open>time.Time.Sub\<close> saturates at the ends of \<open>Duration\<close>, an \<open>int64\<close>.\<close>

definition maxDuration :: duration where
  "maxDuration = 2 ^ 63 - 1"

definition minDuration :: duration where
  "minDuration = - (2 ^ 63)"

definition time_Sub :: "time \<Rightarrow> time \<Rightarrow> duration" where
  "time_Sub t u = max minDuration (min maxDuration (t - u))"

definition RenewDue :: "Certificate option \<Rightarrow> time \<Rightarrow> bool" where
  "RenewDue cert now =
     (case cert of
        None \<Rightarrow> True
      | Some c \<Rightarrow>
          if \<not> NotAfter c > now then True
          else let total = time_Sub (NotAfter c) (NotBefore c) in
               if total \<le> 0 then True
               else time_Sub (NotAfter c) now < total div 3)"

subsection \<open>The guest\<close>

type_synonym path = "string \<times> string"

record gfile =
  f_Data :: string
  f_Mode :: nat
  f_Owner :: "nat \<times> nat"

text \<open>
  \<open>g_calls\<close> are the outcomes of the coming system calls: \<open>None\<close> succeeds, \<open>Some n\<close> fails, after \<open>n\<close>
  bytes where it reads or writes; when the list is used up, calls succeed.
\<close>

datatype log_detail = NoDetail | Cause devid_error | NewKey devid_error

record ('t, 'n) guest =
  g_tpm :: 't
  g_net :: 'n
  g_files :: "path \<rightharpoonup> gfile"
  g_dirs :: "string \<rightharpoonup> nat \<times> nat"
  g_calls :: "nat option list"
  g_past :: "(path \<rightharpoonup> gfile) list"
  g_log :: "(string \<times> string \<times> log_detail) list"
  g_sleeps :: nat
  g_restarts :: nat

record HttpRequest =
  h_Method :: string
  h_URL :: string
  h_Header :: "(string \<times> string) list"
  h_Body :: string

record EnrollStartResponse =
  StartSessionID :: string
  CredentialBlobB64 :: string
  SecretB64 :: string

text \<open>
  What the client finds around it: the user it runs as, the random part of a temporary name, the
  JSON codec, and \<open>http.Client.Do\<close>: \<open>None\<close> when there is no answer, otherwise its status and its
  body, \<open>None\<close> when reading it fails.
\<close>

record 'n env =
  Geteuid :: nat
  Getegid :: nat
  tempSuffix :: "path \<Rightarrow> (path \<rightharpoonup> gfile) \<Rightarrow> string"
  url_ok :: "string \<Rightarrow> bool"
  http_Do :: "HttpRequest \<Rightarrow> 'n \<Rightarrow> (nat \<times> string option) option \<times> 'n"
  MarshalStartRequest :: "EnrollStartRequest \<Rightarrow> string"
  MarshalFinishRequest :: "EnrollFinishRequest \<Rightarrow> string"
  UnmarshalStartResponse :: "string \<Rightarrow> EnrollStartResponse option"
  UnmarshalFinishResponse :: "string \<Rightarrow> string option"

type_synonym ('t, 'n, 'a) client = "(('t, 'n) guest, 'a) act"

definition fail :: "string \<Rightarrow> ('t, 'n, 'a) client" where
  "fail what = act_fail (Failure what None)"

definition on_tpm :: "('t, 'a) act \<Rightarrow> ('t, 'n, 'a) client" where
  "on_tpm m g = (case m (g_tpm g) of (r, t') \<Rightarrow> (r, g\<lparr>g_tpm := t'\<rparr>))"

definition tpm_only :: "('t \<Rightarrow> 't) \<Rightarrow> ('t, 'n) guest \<Rightarrow> ('t, 'n) guest" where
  "tpm_only c g = g\<lparr>g_tpm := c (g_tpm g)\<rparr>"

subsection \<open>System calls\<close>

definition next_call :: "('t, 'n) guest \<Rightarrow> nat option \<times> ('t, 'n) guest" where
  "next_call g = (case g_calls g of [] \<Rightarrow> (None, g) | c # cs \<Rightarrow> (c, g\<lparr>g_calls := cs\<rparr>))"

definition syscall :: "string \<Rightarrow> ('t, 'n, unit) client" where
  "syscall what g = (case next_call g of (None, g') \<Rightarrow> (Inr (), g') | (Some _, g') \<Rightarrow> (Inl (Failure what None), g'))"

definition set_file :: "path \<Rightarrow> gfile option \<Rightarrow> ('t, 'n) guest \<Rightarrow> ('t, 'n) guest" where
  "set_file p v g = (let m = (g_files g)(p := v) in g\<lparr>g_files := m, g_past := m # g_past g\<rparr>)"

text \<open>\<open>ReadFile\<close>: no file is \<open>None\<close>, every other failure an error with what has been read.\<close>

definition os_ReadFile :: "path \<Rightarrow> ('t, 'n) guest \<Rightarrow> (string + string option) \<times> ('t, 'n) guest" where
  "os_ReadFile p g =
     (case next_call g of
        (None, g') \<Rightarrow> (Inr (map_option f_Data (g_files g' p)), g')
      | (Some n, g') \<Rightarrow> (Inl (case g_files g' p of None \<Rightarrow> [] | Some f \<Rightarrow> take n (f_Data f)), g'))"

definition os_Remove :: "path \<Rightarrow> ('t, 'n) guest \<Rightarrow> bool \<times> ('t, 'n) guest" where
  "os_Remove p g =
     (case next_call g of
        (Some _, g') \<Rightarrow> (False, g')
      | (None, g') \<Rightarrow> (True, if g_files g' p = None then g' else set_file p None g'))"

definition CreateTemp :: "'n env \<Rightarrow> path \<Rightarrow> ('t, 'n, path) client" where
  "CreateTemp E p =
     act_bind (syscall ''create temp'') (\<lambda>_ g.
       let tmp = (fst p, ''.'' @ snd p @ ''.tmp-'' @ tempSuffix E p (g_files g)) in
       if g_dirs g (fst p) = None \<or> g_files g tmp \<noteq> None then fail ''create temp'' g
       else (Inr tmp, set_file tmp (Some \<lparr>f_Data = [], f_Mode = 0x180, f_Owner = (Geteuid E, Getegid E)\<rparr>) g))"

definition change_file :: "path \<Rightarrow> (gfile \<Rightarrow> gfile) \<Rightarrow> ('t, 'n) guest \<Rightarrow> ('t, 'n) guest" where
  "change_file p c g = set_file p (map_option c (g_files g p)) g"

definition f_Write :: "path \<Rightarrow> string \<Rightarrow> ('t, 'n, unit) client" where
  "f_Write p data g =
     (case next_call g of
        (None, g') \<Rightarrow> (Inr (), change_file p (\<lambda>f. f\<lparr>f_Data := f_Data f @ data\<rparr>) g')
      | (Some n, g') \<Rightarrow> (Inl (Failure ''write'' None), change_file p (\<lambda>f. f\<lparr>f_Data := f_Data f @ take n data\<rparr>) g'))"

definition os_Rename :: "path \<Rightarrow> path \<Rightarrow> ('t, 'n, unit) client" where
  "os_Rename p q =
     act_bind (syscall ''rename'') (\<lambda>_ g.
       let m = (g_files g)(p := None, q := g_files g p) in (Inr (), g\<lparr>g_files := m, g_past := m # g_past g\<rparr>))"

definition MkdirAll :: "'n env \<Rightarrow> string \<Rightarrow> ('t, 'n, unit) client" where
  "MkdirAll E dir =
     act_bind (syscall ''mkdir'') (\<lambda>_ g.
       (Inr (), if g_dirs g dir = None then g\<lparr>g_dirs := (g_dirs g)(dir \<mapsto> (Geteuid E, Getegid E))\<rparr> else g))"

subsection \<open>Files\<close>

definition readBlob :: "path \<Rightarrow> ('t, 'n, string) client" where
  "readBlob p g =
     (case os_ReadFile p g of
        (Inl _, g') \<Rightarrow> (Inl (Failure ''read blob'' None), g')
      | (Inr d, g') \<Rightarrow> (Inr (case d of None \<Rightarrow> [] | Some x \<Rightarrow> x), g'))"

definition certHoldsKey :: "lib \<Rightarrow> Certificate \<Rightarrow> Public \<Rightarrow> bool" where
  "certHoldsKey L cert pub =
     (case pub_Key L pub of
        None \<Rightarrow> False
      | Some key \<Rightarrow> (case CertPublicKey cert of None \<Rightarrow> False | Some certKey \<Rightarrow> certKey = key))"

text \<open>The stat calls, the check of what they return and the chown are calls that may fail.\<close>

definition owner_of :: "path \<Rightarrow> ('t, 'n, nat \<times> nat) client" where
  "owner_of p =
     act_bind (syscall ''lstat'') (\<lambda>_ g.
       case g_files g p of
         Some fi \<Rightarrow> (Inr (f_Owner fi), g)
       | None \<Rightarrow>
           act_bind (syscall ''stat'') (\<lambda>_ g'.
             case g_dirs g' (fst p) of None \<Rightarrow> fail ''stat'' g' | Some ug \<Rightarrow> (Inr ug, g')) g)"

definition keepOwner :: "'n env \<Rightarrow> path \<Rightarrow> path \<Rightarrow> ('t, 'n, unit) client" where
  "keepOwner E f p =
     (if Geteuid E \<noteq> 0 then act_return ()
      else act_bind (owner_of p) (\<lambda>ug.
           act_bind (syscall ''no stat_t'') (\<lambda>_.
           act_bind (syscall ''keep owner'') (\<lambda>_ g. (Inr (), change_file f (\<lambda>x. x\<lparr>f_Owner := ug\<rparr>) g)))))"

definition writeFileAtomic :: "'n env \<Rightarrow> path \<Rightarrow> string \<Rightarrow> nat \<Rightarrow> ('t, 'n, unit) client" where
  "writeFileAtomic E p data mode =
     act_bind (CreateTemp E p) (\<lambda>tmp.
       on_error (\<lambda>g. snd (os_Remove tmp g))
         (act_bind (f_Write tmp data) (\<lambda>_.
          act_bind (act_bind (syscall ''chmod'') (\<lambda>_ g. (Inr (), change_file tmp (\<lambda>f. f\<lparr>f_Mode := mode\<rparr>) g))) (\<lambda>_.
          act_bind (keepOwner E tmp p) (\<lambda>_.
          act_bind (syscall ''sync'') (\<lambda>_.
          act_bind (syscall ''close'') (\<lambda>_.
            os_Rename tmp p)))))))"

definition LoadCertPEMFile :: "lib \<Rightarrow> path \<Rightarrow> ('t, 'n, Certificate option) client" where
  "LoadCertPEMFile L p g =
     (case os_ReadFile p g of
        (Inl _, g') \<Rightarrow> fail ''read certificate'' g'
      | (Inr None, g') \<Rightarrow> (Inr None, g')
      | (Inr (Some data), g') \<Rightarrow>
          if data = [] then fail ''empty certificate file'' g'
          else (case pem_Decode L data of
                  None \<Rightarrow> fail ''no certificate PEM'' g'
                | Some (type, block) \<Rightarrow>
                    if type \<noteq> ''CERTIFICATE'' then fail ''no certificate PEM'' g'
                    else (case x509_ParseCertificate L block of
                            None \<Rightarrow> fail ''parse certificate'' g'
                          | Some cert \<Rightarrow> (Inr (Some cert), g'))))"

fun remove_all :: "path list \<Rightarrow> ('t, 'n, unit) client" where
  "remove_all [] g = (Inr (), g)"
| "remove_all (p # ps) g =
     (case os_Remove p g of
        (False, g') \<Rightarrow> fail ''clear SPIRE SVID cache'' g'
      | (True, g') \<Rightarrow> remove_all ps g')"

definition svid_cache :: "string \<Rightarrow> path list" where
  "svid_cache dataDir = [(dataDir, ''agent-data.json''), (dataDir, ''agent_svid.der'')]"

definition ClearSPIREAgentSVIDCache :: "string \<Rightarrow> ('t, 'n, unit) client" where
  "ClearSPIREAgentSVIDCache dataDir = (if dataDir = [] then act_return () else remove_all (svid_cache dataDir))"

definition TryRestartSPIREAgent :: "('t, 'n) guest \<Rightarrow> ('t, 'n) guest" where
  "TryRestartSPIREAgent g = g\<lparr>g_restarts := Suc (g_restarts g)\<rparr>"

definition LogRenewReason :: "string \<Rightarrow> string \<Rightarrow> log_detail \<Rightarrow> ('t, 'n) guest \<Rightarrow> ('t, 'n) guest" where
  "LogRenewReason dir reason info g = g\<lparr>g_log := g_log g @ [(dir, reason, info)]\<rparr>"

subsection \<open>Requests\<close>

definition do_request :: "'n env \<Rightarrow> nat \<Rightarrow> HttpRequest \<Rightarrow> ('t, 'n, nat \<times> string) client" where
  "do_request E limit req g =
     (if \<not> url_ok E (h_URL req) then fail ''new request'' g
      else case http_Do E req (g_net g) of
        (None, n') \<Rightarrow> fail ''request'' (g\<lparr>g_net := n'\<rparr>)
      | (Some (st, None), n') \<Rightarrow> fail ''read answer'' (g\<lparr>g_net := n'\<rparr>)
      | (Some (st, Some data), n') \<Rightarrow> (Inr (st, take limit data), g\<lparr>g_net := n'\<rparr>))"

definition httpPostJSON :: "'n env \<Rightarrow> string \<Rightarrow> string \<Rightarrow> string \<Rightarrow> ('t, 'n, string) client" where
  "httpPostJSON E url body ekCertHeader =
     act_bind (do_request E (2 ^ 20)
       \<lparr>h_Method = ''POST'', h_URL = url,
        h_Header = (''Content-Type'', ''application/json'') # (if ekCertHeader \<noteq> [] then [(HeaderEKCert, ekCertHeader)] else []),
        h_Body = body\<rparr>) (\<lambda>(st, data).
       if st \<ge> 300 then fail ''HTTP status'' else act_return data)"

definition doMetadataRequest :: "'n env \<Rightarrow> HttpRequest \<Rightarrow> ('t, 'n, string) client" where
  "doMetadataRequest E req =
     act_bind (do_request E 4096 req) (\<lambda>(st, data).
       if st \<noteq> 200 then fail ''HTTP status'' else act_return (TrimSpace data))"

definition fetchInstanceID :: "'n env \<Rightarrow> string \<Rightarrow> ('t, 'n, string) client" where
  "fetchInstanceID E mdsBaseURL =
     act_bind (doMetadataRequest E
       \<lparr>h_Method = ''PUT'', h_URL = mdsBaseURL @ ''/latest/api/token'',
        h_Header = [(''X-Aws-Ec2-Metadata-Token-Ttl-Seconds'', ''60'')], h_Body = []\<rparr>) (\<lambda>token.
       if token = [] then fail ''session token: empty answer''
       else doMetadataRequest E
         \<lparr>h_Method = ''GET'', h_URL = mdsBaseURL @ ''/latest/meta-data/instance-id'',
          h_Header = [(''X-Aws-Ec2-Metadata-Token'', token)], h_Body = []\<rparr>)"

definition instanceIDAttempts :: nat where
  "instanceIDAttempts = 3"

definition vmid_of :: "string \<Rightarrow> ('t, 'n, string) client" where
  "vmid_of iid =
     (if HasPrefix iid ''i-'' \<and> drop 2 iid \<noteq> [] then act_return (drop 2 iid) else fail ''instance-id does not name a VM'')"

text \<open>\<open>n\<close> tries are left; all but the first are preceded by a pause.\<close>

fun read_loop :: "'n env \<Rightarrow> string \<Rightarrow> nat \<Rightarrow> ('t, 'n, string) client" where
  "read_loop E base 0 g = fail ''read instance-id'' g"
| "read_loop E base (Suc n) g =
     (let g0 = (if Suc n < instanceIDAttempts then g\<lparr>g_sleeps := Suc (g_sleeps g)\<rparr> else g) in
      case fetchInstanceID E base g0 of
        (Inl _, g') \<Rightarrow> read_loop E base n g'
      | (Inr iid, g') \<Rightarrow> vmid_of iid g')"

definition ReadVMID :: "'n env \<Rightarrow> string \<Rightarrow> ('t, 'n, string) client" where
  "ReadVMID E mdsBaseURL = read_loop E mdsBaseURL instanceIDAttempts"

subsection \<open>Enrolling or renewing\<close>

record ClientOptions =
  MDSBaseURL :: string
  PlatformCN :: string
  OutDir :: string
  SpireDataDir :: string
  opt_Factory :: "KeyFactory option"

definition certPath :: "ClientOptions \<Rightarrow> path" where
  "certPath opts = (OutDir opts, ''devid.crt.pem'')"

definition privPath :: "ClientOptions \<Rightarrow> path" where
  "privPath opts = (OutDir opts, ''devid.priv.blob'')"

definition pubPath :: "ClientOptions \<Rightarrow> path" where
  "pubPath opts = (OutDir opts, ''devid.pub.blob'')"

definition factory_of :: "lib \<Rightarrow> 't tpm \<Rightarrow> ClientOptions \<Rightarrow> KeyFactory" where
  "factory_of L T opts = (case opt_Factory opts of None \<Rightarrow> DefaultKeyFactory L T | Some f \<Rightarrow> f)"

record verdict =
  v_existing :: "Certificate option"
  v_reason :: string
  v_detail :: log_detail
  v_devID :: "KeyInfo option"

text \<open>The first part of a run, up to the decision: the reason is empty when nothing is to be done.\<close>

definition judge_certificate :: "lib \<Rightarrow> ClientOptions \<Rightarrow> time \<Rightarrow> ('t, 'n) guest \<Rightarrow> verdict \<times> ('t, 'n) guest" where
  "judge_certificate L opts now g =
     (case LoadCertPEMFile L (certPath opts) g of
        (Inl err, g') \<Rightarrow> (\<lparr>v_existing = None, v_reason = ''unreadable certificate'', v_detail = Cause err, v_devID = None\<rparr>, g')
      | (Inr None, g') \<Rightarrow> (\<lparr>v_existing = None, v_reason = ''no certificate'', v_detail = NoDetail, v_devID = None\<rparr>, g')
      | (Inr (Some c), g') \<Rightarrow>
          (\<lparr>v_existing = Some c, v_reason = (if RenewDue (Some c) now then ''due'' else []), v_detail = NoDetail, v_devID = None\<rparr>, g'))"

definition judge_name :: "'n env \<Rightarrow> ClientOptions \<Rightarrow> verdict \<Rightarrow> ('t, 'n, verdict) client" where
  "judge_name E opts v =
     (case v_existing v of
        None \<Rightarrow> act_return v
      | Some c \<Rightarrow>
          act_bind (ReadVMID E (MDSBaseURL opts)) (\<lambda>vmid.
            act_return (if v_reason v = [] \<and> SubjectCN c \<noteq> vmid then v\<lparr>v_reason := ''certificate is for another VM''\<rparr> else v)))"

definition other_key :: "lib \<Rightarrow> verdict \<Rightarrow> string \<Rightarrow> bool" where
  "other_key L v pubBlob =
     (case (DecodePublic L pubBlob, v_existing v) of (Some pub, Some c) \<Rightarrow> \<not> certHoldsKey L c pub | _ \<Rightarrow> False)"

definition judge_key :: "lib \<Rightarrow> 't tpm \<Rightarrow> KeyFactory \<Rightarrow> verdict \<Rightarrow> string \<Rightarrow> string \<Rightarrow> ('t, 'n, verdict) client" where
  "judge_key L T f v0 pubBlob privBlob g =
     (if pubBlob = [] \<or> privBlob = []
      then (Inr (if v_reason v0 = [] then v0\<lparr>v_reason := ''missing blob''\<rparr> else v0), g)
      else let v = (if v_reason v0 = [] \<and> other_key L v0 pubBlob then v0\<lparr>v_reason := ''certificate does not match key''\<rparr> else v0) in
        case on_tpm (LoadDevID L T f pubBlob privBlob) g of
          (Inr d, g') \<Rightarrow> (Inr (v\<lparr>v_devID := Some d\<rparr>), g')
        | (Inl err, g') \<Rightarrow>
            (case err of
               ErrDevIDForeign _ \<Rightarrow>
                 (Inr (v\<lparr>v_devID := None, v_reason := (if v_reason v = [] then ''key does not load in this TPM'' else v_reason v),
                    v_detail := NewKey err\<rparr>), g')
             | _ \<Rightarrow> (Inl err, g')))"

definition ClientDecide :: "lib \<Rightarrow> 't tpm \<Rightarrow> 'n env \<Rightarrow> ClientOptions \<Rightarrow> time \<Rightarrow> ('t, 'n, verdict) client" where
  "ClientDecide L T E opts now g =
     (case judge_certificate L opts now g of (v, g') \<Rightarrow>
        act_bind (judge_name E opts v) (\<lambda>v.
        act_bind (readBlob (pubPath opts)) (\<lambda>pubBlob.
        act_bind (readBlob (privPath opts)) (\<lambda>privBlob.
          judge_key L T (factory_of L T opts) v pubBlob privBlob))) g')"

text \<open>The last part of a run: the new material replaces the old.\<close>

definition ClientStore ::
  "'n env \<Rightarrow> ClientOptions \<Rightarrow> string \<Rightarrow> string \<Rightarrow> string \<Rightarrow> string \<Rightarrow> ('t, 'n, unit) client" where
  "ClientStore E opts oldPEM newPEM priv pub =
     (let spire = (oldPEM \<noteq> newPEM \<and> SpireDataDir opts \<noteq> []) in
      act_bind (if spire then ClearSPIREAgentSVIDCache (SpireDataDir opts) else act_return ()) (\<lambda>_.
      act_bind (writeFileAtomic E (privPath opts) priv 0x180) (\<lambda>_.
      act_bind (writeFileAtomic E (pubPath opts) pub 0x180) (\<lambda>_.
      act_bind (writeFileAtomic E (certPath opts) newPEM 0x180) (\<lambda>_ g.
        (Inr (), if spire then TryRestartSPIREAgent g else g))))))"

text \<open>The two legs of the enrolment, for a request that has been built.\<close>

definition ClientExchange ::
  "lib \<Rightarrow> 't tpm \<Rightarrow> 'n env \<Rightarrow> KeyFactory \<Rightarrow> ClientOptions \<Rightarrow> SigningRequest \<Rightarrow> RequestResources \<Rightarrow> handle \<Rightarrow> ('t, 'n, string) client" where
  "ClientExchange L T E f opts sr res devIDHandle =
     (if EndorsementCertificate sr = None then fail ''TPM EK certificate required''
      else
        let ekAuth = EncodeEKCertHeader (EndorsementCertificate sr) in
        act_bind (act_opt (Failure ''marshal request'' None) (MarshalBinary L sr)) (\<lambda>requestData.
        act_bind (on_tpm (HashAndSign L T (HandleOwner T) devIDHandle requestData)) (\<lambda>sig.
        act_bind (httpPostJSON E (MDSBaseURL opts @ ''/latest/devid/enroll/start'')
          (MarshalStartRequest E \<lparr>RequestB64 = EncodeToString requestData, SignatureB64 = EncodeToString sig\<rparr>) ekAuth) (\<lambda>startResp.
        act_bind (act_opt (Failure ''decode start response'' None) (UnmarshalStartResponse E startResp)) (\<lambda>start.
        act_bind (act_opt (Failure ''decode credential'' None) (DecodeString (CredentialBlobB64 start))) (\<lambda>cred.
        act_bind (act_opt (Failure ''decode secret'' None) (DecodeString (SecretB64 start))) (\<lambda>secret.
        act_bind (on_tpm (Activate L T f res cred secret)) (\<lambda>challengeResp.
        act_bind (httpPostJSON E (MDSBaseURL opts @ ''/latest/devid/enroll/finish'')
          (MarshalFinishRequest E \<lparr>FinishSessionID = StartSessionID start, ChallengeResponseB64 = EncodeToString challengeResp\<rparr>)
          ekAuth) (\<lambda>finishResp.
        act_bind (act_opt (Failure ''decode finish response'' None) (UnmarshalFinishResponse E finishResp)) (\<lambda>pem.
          if pem = [] then fail ''empty DevID certificate in response'' else act_return pem))))))))))"

text \<open>\<open>oldPEM\<close> is what can be read of the certificate file, if there was a certificate.\<close>

definition read_old :: "ClientOptions \<Rightarrow> Certificate option \<Rightarrow> ('t, 'n) guest \<Rightarrow> string \<times> ('t, 'n) guest" where
  "read_old opts existing g =
     (if existing = None then ([], g)
      else case os_ReadFile (certPath opts) g of
        (Inl part, g') \<Rightarrow> (part, g')
      | (Inr None, g') \<Rightarrow> ([], g')
      | (Inr (Some d), g') \<Rightarrow> (d, g'))"

text \<open>A request that was built has a DevID key; \<open>the\<close> reads it.\<close>

definition ClientRenew ::
  "lib \<Rightarrow> 't tpm \<Rightarrow> 'n env \<Rightarrow> ClientOptions \<Rightarrow> verdict \<Rightarrow> ('t, 'n, unit) client" where
  "ClientRenew L T E opts v g =
     (let f = factory_of L T opts in
      case read_old opts (v_existing v) g of (oldPEM, g1) \<Rightarrow>
        act_bind (on_tpm (CreateSigningRequestWithKey L T f (PlatformCN opts) (v_devID v))) (\<lambda>(sr, res).
          let dev = the (rr_DevID res) in
          deferred (tpm_only (release T res))
            (act_bind (MkdirAll E (OutDir opts)) (\<lambda>_.
             act_bind (ClientExchange L T E f opts sr res (k_Handle dev)) (\<lambda>newPEM.
               ClientStore E opts oldPEM newPEM (k_PrivateBlob dev) (k_PublicBlob dev))))) g1)"

definition ClientEnrollOrRenew :: "lib \<Rightarrow> 't tpm \<Rightarrow> 'n env \<Rightarrow> ClientOptions \<Rightarrow> time \<Rightarrow> ('t, 'n, unit) client" where
  "ClientEnrollOrRenew L T E opts now =
     (if MDSBaseURL opts = [] then fail ''mds base URL required''
      else if OutDir opts = [] then fail ''output directory required''
      else act_bind (ClientDecide L T E opts now) (\<lambda>v g.
        if v_reason v = []
        then (Inr (), case v_devID v of None \<Rightarrow> g | Some d \<Rightarrow> tpm_only (FlushTransient T (k_Handle d)) g)
        else ClientRenew L T E opts v (LogRenewReason (OutDir opts) (v_reason v) (v_detail v) g)))"

definition ClientEnroll :: "lib \<Rightarrow> 't tpm \<Rightarrow> 'n env \<Rightarrow> string \<Rightarrow> string \<Rightarrow> string \<Rightarrow> time \<Rightarrow> ('t, 'n, unit) client" where
  "ClientEnroll L T E mdsBaseURL platformCN outDir now =
     ClientEnrollOrRenew L T E
       \<lparr>MDSBaseURL = mdsBaseURL, PlatformCN = platformCN, OutDir = outDir, SpireDataDir = [], opt_Factory = None\<rparr> now"

subsection \<open>The renewal window\<close>

lemma time_Sub_le: "t \<le> t' \<Longrightarrow> time_Sub t u \<le> time_Sub t' u" "u \<le> u' \<Longrightarrow> time_Sub t u' \<le> time_Sub t u"
  by (auto simp: time_Sub_def)

lemma time_Sub_exact: "0 \<le> t - u \<Longrightarrow> t - u \<le> maxDuration \<Longrightarrow> time_Sub t u = t - u"
  by (simp add: time_Sub_def minDuration_def)

lemma due_monotone: "now \<le> later \<Longrightarrow> RenewDue cert now \<Longrightarrow> RenewDue cert later"
proof (cases cert)
  case (Some c)
  assume "now \<le> later" "RenewDue cert now"
  with time_Sub_le(2) [of now later "NotAfter c"] show ?thesis
    by (auto simp: RenewDue_def Some Let_def split: if_splits)
qed (simp add: RenewDue_def)

lemma div3: "(r :: int) < len div 3 \<longleftrightarrow> 3 * r + 3 \<le> len"
  by presburger

text \<open>
  C37: the renewal window. For a certificate with a lifetime that a \<open>Duration\<close> can hold, a renewal is due from
  the moment less than a third of the lifetime is left, and not before; a certificate is never due when it
  is issued, always due once it has expired, and what is due stays due.
\<close>

theorem renewal_window:
  assumes "0 < NotAfter c - NotBefore c" "NotAfter c - NotBefore c \<le> maxDuration" "NotBefore c \<le> now"
  shows "(RenewDue (Some c) now \<longleftrightarrow>
      NotAfter c \<le> now \<or> 3 * (NotAfter c - now) + 3 \<le> NotAfter c - NotBefore c) \<and>
    \<not> RenewDue (Some c) (NotBefore c) \<and>
    (\<forall>later. now \<le> later \<and> RenewDue (Some c) now \<longrightarrow> RenewDue (Some c) later)"
proof -
  have total: "time_Sub (NotAfter c) (NotBefore c) = NotAfter c - NotBefore c"
    using assms by (intro time_Sub_exact) auto
  have "RenewDue (Some c) t \<longleftrightarrow> NotAfter c \<le> t \<or> 3 * (NotAfter c - t) + 3 \<le> NotAfter c - NotBefore c" if "NotBefore c \<le> t" for t
  proof (cases "NotAfter c \<le> t")
    case False
    with that assms(2) have "time_Sub (NotAfter c) t = NotAfter c - t" by (intro time_Sub_exact) auto
    with False assms(1) total show ?thesis by (auto simp: RenewDue_def Let_def div3)
  qed (simp add: RenewDue_def)
  from this [OF assms(3)] this [of "NotBefore c"] assms(1) show ?thesis
    using due_monotone by auto
qed

definition sampleDevID :: Certificate where
  "sampleDevID = (sampleCert ''d'')\<lparr>NotBefore := 10 * hour, NotAfter := 100 * hour, SubjectCN := ''101''\<rparr>"

theorem renewal_window_witness:
  "RenewDue (Some sampleDevID) (71 * hour) \<and> \<not> RenewDue (Some sampleDevID) (70 * hour)"
  using renewal_window [of sampleDevID "71 * hour"] renewal_window [of sampleDevID "70 * hour"]
  by (simp add: sampleDevID_def duration_simps maxDuration_def)

subsection \<open>What an action leaves alone\<close>

definition keeps :: "('s \<Rightarrow> 'v) \<Rightarrow> ('s, 'a) act \<Rightarrow> bool" where
  "keeps sel m \<longleftrightarrow> (\<forall>g. sel (snd (m g)) = sel g)"

lemma keepsD: "keeps sel m \<Longrightarrow> m g = (r, g') \<Longrightarrow> sel g' = sel g"
  by (metis keeps_def snd_conv)

lemma keeps_basic [simp]: "keeps sel (act_return a)" "keeps sel (act_fail e)" "keeps sel (act_opt e x)" "keeps sel (fail w)"
  by (auto simp: keeps_def act_return_def act_fail_def act_opt_def fail_def split: option.split)

lemma keeps_bind: "keeps sel m \<Longrightarrow> (\<And>a. keeps sel (k a)) \<Longrightarrow> keeps sel (act_bind m k)"
  by (simp add: keeps_def act_bind_def split: prod.split sum.split) (metis snd_conv)

lemma keeps_if: "(b \<Longrightarrow> keeps sel m) \<Longrightarrow> (\<not> b \<Longrightarrow> keeps sel n) \<Longrightarrow> keeps sel (if b then m else n)"
  by simp

lemma keeps_case_prod: "(\<And>a b. keeps sel (k a b)) \<Longrightarrow> keeps sel (case p of (a, b) \<Rightarrow> k a b)"
  by (simp split: prod.split)

lemma keeps_syscall: "(\<And>g cs. sel (g\<lparr>g_calls := cs\<rparr>) = sel g) \<Longrightarrow> keeps sel (syscall w)"
  by (auto simp: keeps_def syscall_def next_call_def split: list.split option.split)

lemma keeps_request: "(\<And>g n. sel (g\<lparr>g_net := n\<rparr>) = sel g) \<Longrightarrow> keeps sel (do_request E lim req)"
  by (auto simp: keeps_def do_request_def fail_def act_fail_def split: prod.split option.split)

lemma keeps_on_tpm: "(\<And>g t. sel (g\<lparr>g_tpm := t\<rparr>) = sel g) \<Longrightarrow> keeps sel (on_tpm m)"
  by (auto simp: keeps_def on_tpm_def split: prod.split)

lemma keeps_metadata: "(\<And>g n. sel (g\<lparr>g_net := n\<rparr>) = sel g) \<Longrightarrow> keeps sel (fetchInstanceID E base)"
  "(\<And>g n. sel (g\<lparr>g_net := n\<rparr>) = sel g) \<Longrightarrow> keeps sel (httpPostJSON E url body ek)"
  unfolding fetchInstanceID_def doMetadataRequest_def httpPostJSON_def
  by (intro keeps_bind keeps_request keeps_if keeps_basic keeps_case_prod; simp)+

lemma keeps_ReadVMID:
  assumes "\<And>g n. sel (g\<lparr>g_net := n\<rparr>) = sel g" "\<And>g n. sel (g\<lparr>g_sleeps := n\<rparr>) = sel g"
  shows "keeps sel (ReadVMID E base)"
proof -
  have "sel (snd (read_loop E base n g)) = sel g" for n and g :: "('a, 'b) guest"
  proof (induction n arbitrary: g)
    case (Suc n)
    have v: "sel (snd (vmid_of iid g)) = sel g" for iid and g :: "('a, 'b) guest"
      by (simp add: vmid_of_def act_return_def fail_def act_fail_def)
    have f: "fetchInstanceID E base g0 = (r, g') \<Longrightarrow> sel g' = sel g0" for r g' g0
      by (rule keepsD [OF keeps_metadata(1) [OF assms(1)]])
    show ?case by (auto simp: Let_def Suc v assms(2) dest!: f split: prod.split sum.split)
  qed (simp add: fail_def act_fail_def)
  then show ?thesis by (simp add: keeps_def ReadVMID_def)
qed

lemma read_frame:
  assumes "os_ReadFile p g = (r, g')" "\<And>g cs. sel (g\<lparr>g_calls := cs\<rparr>) = sel g"
  shows "sel g' = sel g"
  using assms by (auto simp: os_ReadFile_def next_call_def split: list.splits option.splits)

lemma keeps_read:
  assumes "\<And>g cs. sel (g\<lparr>g_calls := cs\<rparr>) = sel g"
  shows "keeps sel (readBlob p)" "keeps sel (LoadCertPEMFile L p)"
proof -
  note frame = read_frame [where sel = sel, OF _ assms]
  show "keeps sel (readBlob p)"
    unfolding keeps_def readBlob_def by (simp add: frame split: prod.split sum.split)
  show "keeps sel (LoadCertPEMFile L p)"
    unfolding keeps_def LoadCertPEMFile_def fail_def act_fail_def by (simp add: frame split: prod.split sum.split option.split)
qed

subsection \<open>Replacing a file\<close>

text \<open>
  Temporary files have names with a leading dot. \<open>vis\<close> is what a state of the disk shows besides them,
  and \<open>unseen\<close> relates two guests when nothing else has been touched in between.
\<close>

definition hidden :: "path \<Rightarrow> bool" where
  "hidden p \<longleftrightarrow> take 1 (snd p) = ''.''"

definition vis :: "(path \<rightharpoonup> gfile) \<Rightarrow> path \<rightharpoonup> gfile" where
  "vis m p = (if hidden p then None else m p)"

definition visits :: "((path \<rightharpoonup> gfile) \<Rightarrow> bool) \<Rightarrow> ('t, 'n) guest \<Rightarrow> ('t, 'n) guest \<Rightarrow> bool" where
  "visits P g g' \<longleftrightarrow> (\<forall>s \<in> set (g_past g'). s \<in> set (g_past g) \<or> P s)"

definition unseen :: "('t, 'n) guest \<Rightarrow> ('t, 'n) guest \<Rightarrow> bool" where
  "unseen g g' \<longleftrightarrow> vis (g_files g') = vis (g_files g) \<and> visits (\<lambda>s. vis s = vis (g_files g)) g g'"

definition disk :: "('t, 'n) guest \<Rightarrow> (path \<rightharpoonup> gfile) \<times> (path \<rightharpoonup> gfile) list" where
  "disk g = (g_files g, g_past g)"

lemma vis_update: "vis (m(p := v)) = (if hidden p then vis m else (vis m)(p := v))"
  by (auto simp: vis_def fun_eq_iff)

lemma visits_trans: "visits P g g' \<Longrightarrow> visits P g' g'' \<Longrightarrow> visits P g g''"
  by (auto simp: visits_def)

lemma visits_mono: "visits P g g' \<Longrightarrow> (\<And>s. P s \<Longrightarrow> Q s) \<Longrightarrow> visits Q g g'"
  by (auto simp: visits_def)

lemma unseen_trans: "unseen g g' \<Longrightarrow> unseen g' g'' \<Longrightarrow> unseen g g''"
  by (auto simp: unseen_def visits_def)

lemma unseen_refl [simp]: "unseen g g"
  by (simp add: unseen_def visits_def)

lemma unseen_disk: "disk g' = disk g \<Longrightarrow> unseen g g'"
  by (simp add: unseen_def visits_def disk_def)

lemma unseen_set_file: "hidden p \<Longrightarrow> unseen g (set_file p v g)"
  by (simp add: unseen_def visits_def set_file_def Let_def vis_update)

lemma unseen_change_file: "hidden p \<Longrightarrow> unseen g (change_file p c g)"
  by (simp add: change_file_def unseen_set_file)

text \<open>Actions that touch nothing visible, and such that do so only when they succeed.\<close>

definition covert :: "('t, 'n, 'a) client \<Rightarrow> bool" where
  "covert m \<longleftrightarrow> (\<forall>g r g'. m g = (r, g') \<longrightarrow> unseen g g')"

definition safe :: "('t, 'n, 'a) client \<Rightarrow> bool" where
  "safe m \<longleftrightarrow> (\<forall>g e g'. m g = (Inl e, g') \<longrightarrow> unseen g g')"

lemma covertD: "covert m \<Longrightarrow> m g = (r, g') \<Longrightarrow> unseen g g'"
  by (simp add: covert_def)

lemma safeD: "safe m \<Longrightarrow> m g = (Inl e, g') \<Longrightarrow> unseen g g'"
  by (simp add: safe_def)

lemma covert_keeps: "keeps disk m \<Longrightarrow> covert m"
  using keepsD [of disk m] by (auto simp: covert_def intro: unseen_disk)

lemma bind_Inr: "act_bind m k g = (Inr b, g') \<longleftrightarrow> (\<exists>a u. m g = (Inr a, u) \<and> k a u = (Inr b, g'))"
  by (auto simp: act_bind_def split: prod.splits sum.splits)

lemma bind_cases:
  assumes "act_bind m k g = (r, g')"
  obtains e where "r = Inl e" "m g = (Inl e, g')" | a u where "m g = (Inr a, u)" "k a u = (r, g')"
  using assms by (auto simp: act_bind_def split: prod.splits sum.splits)

lemma covert_bind: "covert m \<Longrightarrow> (\<And>a. covert (k a)) \<Longrightarrow> covert (act_bind m k)"
  unfolding covert_def by (blast elim: bind_cases intro: unseen_trans)

lemma safe_covert: "covert m \<Longrightarrow> safe m"
  by (auto simp: covert_def safe_def)

lemma safe_bind: "covert m \<Longrightarrow> (\<And>a. safe (k a)) \<Longrightarrow> safe (act_bind m k)"
  unfolding covert_def safe_def by (blast elim: bind_cases intro: unseen_trans)

lemma safe_on_error:
  assumes "\<And>g. unseen g (clean g)" "safe m"
  shows "safe (on_error clean m)"
proof -
  have "unseen g (clean u)" if "m g = (Inl e, u)" for g e u
    using assms that unfolding safe_def by (blast intro: unseen_trans)
  then show ?thesis by (auto simp: safe_def on_error_def split: prod.splits sum.splits)
qed

lemma next_call_eq: "next_call g = (case g_calls g of [] \<Rightarrow> None | c # _ \<Rightarrow> c, g\<lparr>g_calls := tl (g_calls g)\<rparr>)"
  by (simp add: next_call_def split: list.split)

lemma syscall_Inr: "syscall w g = (Inr u, g') \<Longrightarrow> g' = g\<lparr>g_calls := tl (g_calls g)\<rparr>"
  by (auto simp: syscall_def next_call_eq split: prod.splits option.splits list.splits)

lemma keeps_disk_simps [simp]: "disk (g\<lparr>g_calls := cs\<rparr>) = disk g" "disk (g\<lparr>g_net := n\<rparr>) = disk g" "disk (g\<lparr>g_tpm := t\<rparr>) = disk g"
  "disk (g\<lparr>g_sleeps := k\<rparr>) = disk g" "disk (g\<lparr>g_dirs := d\<rparr>) = disk g" "disk (g\<lparr>g_log := l\<rparr>) = disk g" "disk (g\<lparr>g_restarts := k\<rparr>) = disk g"
  by (simp_all add: disk_def)

lemma covert_syscall: "covert (syscall w)"
  by (rule covert_keeps, rule keeps_syscall) simp

lemma covert_return: "covert (act_return a)" "covert (fail w)"
  by (rule covert_keeps, simp)+

lemma covert_change: "hidden p \<Longrightarrow> covert (\<lambda>g. (Inr u, change_file p c g))"
  by (auto simp: covert_def unseen_change_file)

lemma covert_owner: "covert (owner_of p)"
proof -
  have stat: "unseen g u" if "syscall w g = (q, u)" for w q and g u :: "('a, 'b) guest"
    using covertD [OF covert_syscall that] .
  show ?thesis
    unfolding owner_of_def
    by (intro covert_bind covert_syscall)
       (auto simp: covert_def fail_def act_fail_def elim!: bind_cases dest: stat split: option.splits)
qed

lemma covert_keepOwner: "hidden f \<Longrightarrow> covert (keepOwner E f p)"
  by (auto simp: keepOwner_def intro!: covert_bind covert_owner covert_syscall covert_return covert_change)

lemma unseen_calls: "unseen g u \<Longrightarrow> unseen g (u\<lparr>g_calls := cs\<rparr>)"
  by (rule unseen_trans [OF _ unseen_disk]) simp_all

lemma unseen_call_set: "hidden p \<Longrightarrow> unseen g (set_file p v (g\<lparr>g_calls := cs\<rparr>))"
  by (rule unseen_trans [OF unseen_disk unseen_set_file]) simp

lemma on_error_Inr: "on_error c m g = (Inr x, g') \<longleftrightarrow> m g = (Inr x, g')"
  by (auto simp: on_error_def split: prod.splits sum.splits)

lemma unseen_call_change: "hidden p \<Longrightarrow> unseen g (change_file p c (g\<lparr>g_calls := cs\<rparr>))"
  by (rule unseen_trans [OF unseen_disk unseen_change_file]) simp

lemma covert_Write: "hidden p \<Longrightarrow> covert (f_Write p data)"
  by (auto simp: covert_def f_Write_def next_call_eq unseen_call_change split: prod.splits option.splits list.splits)

lemma hidden_temp: "hidden (d, CHR ''.'' # b)"
  by (simp add: hidden_def)

lemma CreateTemp_temp:
  assumes "CreateTemp E p g = (r, g')"
  shows "unseen g g'" "r = Inr tmp \<Longrightarrow> hidden tmp"
proof -
  have u: "unseen g u" if "syscall ''create temp'' g = (q, u)" for q u
    using covertD [OF covert_syscall that] .
  show "unseen g g'"
    using assms
    by (auto simp: CreateTemp_def Let_def fail_def act_fail_def elim!: bind_cases split: if_splits dest!: u
        intro: unseen_trans [OF _ unseen_set_file [OF hidden_temp]])
  show "hidden tmp" if "r = Inr tmp"
    using assms that by (auto simp: CreateTemp_def Let_def fail_def act_fail_def bind_Inr hidden_def split: if_splits)
qed

lemma safe_writeFileAtomic: "safe (writeFileAtomic E p data mode)"
  unfolding safe_def
proof safe
  fix g g' :: "('a, 'b) guest" and e assume run: "writeFileAtomic E p data mode g = (Inl e, g')"
  have "safe (on_error (\<lambda>g. snd (os_Remove tmp g))
         (act_bind (f_Write tmp data) (\<lambda>_.
          act_bind (act_bind (syscall ''chmod'') (\<lambda>_ g. (Inr (), change_file tmp (\<lambda>f. f\<lparr>f_Mode := mode\<rparr>) g))) (\<lambda>_.
          act_bind (keepOwner E tmp p) (\<lambda>_. act_bind (syscall ''sync'') (\<lambda>_. act_bind (syscall ''close'') (\<lambda>_.
            os_Rename tmp p :: ('a, 'b, unit) client)))))))" if "hidden tmp" for tmp
  proof (intro safe_on_error safe_bind covert_bind covert_syscall covert_change covert_keepOwner covert_Write that)
    show "unseen g (snd (os_Remove tmp g))" for g :: "('a, 'b) guest"
      by (auto simp: os_Remove_def next_call_eq unseen_disk unseen_call_set that split: option.split list.split)
    show "safe (os_Rename tmp p)" for u
      unfolding os_Rename_def Let_def by (rule safe_bind [OF covert_syscall]) (simp add: safe_def)
  qed
  note replace = this
  show "unseen g g'"
  proof (cases rule: bind_cases [OF run [unfolded writeFileAtomic_def]])
    case (1 e')
    then show ?thesis using CreateTemp_temp(1) by blast
  next
    case (2 tmp u)
    from replace [OF CreateTemp_temp(2) [OF 2(1) refl], unfolded safe_def] 2(2) have "unseen u g'" by blast
    then show ?thesis by (rule unseen_trans [OF CreateTemp_temp(1) [OF 2(1)]])
  qed
qed

text \<open>The new file is being prepared: it is \<open>f\<close> so far, and hidden.\<close>

definition staged :: "path \<Rightarrow> gfile \<Rightarrow> ('t, 'n) guest \<Rightarrow> ('t, 'n) guest \<Rightarrow> bool" where
  "staged tmp f g u \<longleftrightarrow> hidden tmp \<and> g_files u = (g_files g)(tmp \<mapsto> f) \<and> g_dirs u = g_dirs g \<and> unseen g u"

lemma staged_calls: "staged tmp f g u \<Longrightarrow> staged tmp f g (u\<lparr>g_calls := cs\<rparr>)"
  by (auto simp: staged_def intro: unseen_calls)

lemma staged_change: "staged tmp f g u \<Longrightarrow> staged tmp (c f) g (change_file tmp c u)"
  unfolding staged_def
  by (auto intro: unseen_trans unseen_change_file) (simp_all add: change_file_def set_file_def Let_def)

lemma staged_create:
  assumes "CreateTemp E p g = (Inr tmp, u)"
  shows "staged tmp \<lparr>f_Data = [], f_Mode = 0x180, f_Owner = (Geteuid E, Getegid E)\<rparr> g u"
  using assms CreateTemp_temp(1) [OF assms] CreateTemp_temp(2) [OF assms refl]
  by (auto simp: staged_def CreateTemp_def Let_def bind_Inr fail_def act_fail_def set_file_def dest!: syscall_Inr split: if_splits)

definition kept_owner :: "'n env \<Rightarrow> ('t, 'n) guest \<Rightarrow> path \<Rightarrow> nat \<times> nat" where
  "kept_owner E g p =
     (if Geteuid E \<noteq> 0 then (Geteuid E, Getegid E)
      else case g_files g p of Some f \<Rightarrow> f_Owner f | None \<Rightarrow> the (g_dirs g (fst p)))"

lemma owner_of_Inr:
  assumes "owner_of p u = (Inr ug, v)"
  shows "(\<exists>cs. v = u\<lparr>g_calls := cs\<rparr>) \<and> ug = (case g_files u p of Some f \<Rightarrow> f_Owner f | None \<Rightarrow> the (g_dirs u (fst p)))"
  using assms by (auto simp: owner_of_def bind_Inr fail_def act_fail_def dest!: syscall_Inr split: option.splits) blast

lemma staged_owner:
  assumes "keepOwner E tmp p u = (Inr x, v)" "staged tmp f g u" "\<not> hidden p" "f_Owner f = (Geteuid E, Getegid E)"
  shows "staged tmp (f\<lparr>f_Owner := kept_owner E g p\<rparr>) g v"
proof (cases "Geteuid E = 0")
  case True
  with assms(1) obtain ug a b c where o: "owner_of p u = (Inr ug, a)" "b = a\<lparr>g_calls := tl (g_calls a)\<rparr>"
    "c = b\<lparr>g_calls := tl (g_calls b)\<rparr>" "v = change_file tmp (\<lambda>x. x\<lparr>f_Owner := ug\<rparr>) c"
    by (auto simp: keepOwner_def bind_Inr dest!: syscall_Inr)
  from owner_of_Inr [OF o(1)] obtain cs where a: "a = u\<lparr>g_calls := cs\<rparr>"
    and ug: "ug = (case g_files u p of Some f \<Rightarrow> f_Owner f | None \<Rightarrow> the (g_dirs u (fst p)))" by blast
  from ug True assms(2, 3) have "ug = kept_owner E g p" by (auto simp: kept_owner_def staged_def split: option.split)
  with o a assms(2) show ?thesis by (auto intro!: staged_change staged_calls)
next
  case False
  with assms show ?thesis by (cases f) (auto simp: keepOwner_def act_return_def kept_owner_def)
qed

lemma write_Inr:
  assumes run: "writeFileAtomic E p data mode g = (Inr x, g')" and p: "\<not> hidden p"
  shows "vis (g_files g') = (vis (g_files g))(p \<mapsto> \<lparr>f_Data = data, f_Mode = mode, f_Owner = kept_owner E g p\<rparr>)"
    and "visits (\<lambda>s. vis s = vis (g_files g) \<or> vis s = vis (g_files g')) g g'" and "g_dirs g' = g_dirs g"
proof -
  let ?f = "\<lparr>f_Data = data, f_Mode = mode, f_Owner = kept_owner E g p\<rparr>"
  obtain tmp u where u: "CreateTemp E p g = (Inr tmp, u)"
    and run': "act_bind (f_Write tmp data) (\<lambda>_.
          act_bind (act_bind (syscall ''chmod'') (\<lambda>_ g. (Inr (), change_file tmp (\<lambda>f. f\<lparr>f_Mode := mode\<rparr>) g))) (\<lambda>_.
          act_bind (keepOwner E tmp p) (\<lambda>_. act_bind (syscall ''sync'') (\<lambda>_. act_bind (syscall ''close'') (\<lambda>_.
            os_Rename tmp p))))) u = (Inr x, g')"
    using run unfolding writeFileAtomic_def bind_Inr [of "CreateTemp E p"] on_error_Inr by blast
  from run' obtain y z where w: "f_Write tmp data u = (Inr (), y)"
    and k: "keepOwner E tmp p (change_file tmp (\<lambda>f. f\<lparr>f_Mode := mode\<rparr>) (y\<lparr>g_calls := tl (g_calls y)\<rparr>)) = (Inr (), z)"
    and r': "act_bind (syscall ''sync'') (\<lambda>_. act_bind (syscall ''close'') (\<lambda>_. os_Rename tmp p)) z = (Inr x, g')"
    by (auto simp: bind_Inr [of "f_Write tmp data"] bind_Inr [of "act_bind (syscall ''chmod'') k" for k]
        bind_Inr [of "syscall ''chmod''"] bind_Inr [of "keepOwner E tmp p"] dest!: syscall_Inr [of "''chmod''"])
  from r' obtain a where a: "\<exists>cs. a = z\<lparr>g_calls := cs\<rparr>"
    and g': "g' = a\<lparr>g_files := (g_files a)(tmp := None, p := g_files a tmp), g_past := (g_files a)(tmp := None, p := g_files a tmp) # g_past a\<rparr>"
  proof -
    from r' obtain b c d where s: "syscall ''sync'' z = (Inr (), b)" "syscall ''close'' b = (Inr (), c)" "syscall ''rename'' c = (Inr (), d)"
      and d: "(Inr (), d\<lparr>g_files := (g_files d)(tmp := None, p := g_files d tmp),
          g_past := (g_files d)(tmp := None, p := g_files d tmp) # g_past d\<rparr>) = (Inr x :: devid_error + unit, g')"
      unfolding bind_Inr os_Rename_def Let_def by auto
    have "d = z\<lparr>g_calls := tl (g_calls c)\<rparr>"
      using syscall_Inr [OF s(1)] syscall_Inr [OF s(2)] syscall_Inr [OF s(3)] by simp
    with d that [of d] show thesis by blast
  qed
  have "staged tmp \<lparr>f_Data = data, f_Mode = 0x180, f_Owner = (Geteuid E, Getegid E)\<rparr> g y"
    using staged_change [OF staged_calls [OF staged_create [OF u]], of "\<lambda>f. f\<lparr>f_Data := f_Data f @ data\<rparr>"] w
    by (auto simp: f_Write_def next_call_eq split: list.splits option.splits)
  then have "staged tmp \<lparr>f_Data = data, f_Mode = mode, f_Owner = (Geteuid E, Getegid E)\<rparr> g
      (change_file tmp (\<lambda>f. f\<lparr>f_Mode := mode\<rparr>) (y\<lparr>g_calls := tl (g_calls y)\<rparr>))"
    using staged_change [OF staged_calls, where c = "\<lambda>f. f\<lparr>f_Mode := mode\<rparr>"] by fastforce
  from staged_owner [OF k this p] have "staged tmp ?f g z" by simp
  with a have s: "staged tmp ?f g a" by (auto intro: staged_calls)
  then have files: "g_files g' = (g_files g)(tmp := None, p \<mapsto> ?f)" and past: "g_past g' = g_files g' # g_past a"
    and hid: "hidden tmp" "tmp \<noteq> p"
    using g' p by (auto simp: staged_def)
  show vis: "vis (g_files g') = (vis (g_files g))(p \<mapsto> ?f)" using hid p by (simp add: files vis_update)
  show "visits (\<lambda>s. vis s = vis (g_files g) \<or> vis s = vis (g_files g')) g g'"
    using s past by (auto simp: staged_def unseen_def visits_def)
  show "g_dirs g' = g_dirs g" using s g' by (simp add: staged_def)
qed

subsection \<open>Replacing the key material\<close>

lemma remove_effect:
  assumes "os_Remove p g = (b, g')" "\<not> hidden p"
  shows "vis (g_files g') = (if b then (vis (g_files g))(p := None) else vis (g_files g))"
    and "visits (\<lambda>s. vis s = (vis (g_files g))(p := None)) g g'" and "g_dirs g' = g_dirs g"
proof -
  have "(vis m)(p := None) = vis m" if "m p = None" for m using that by (auto simp: vis_def fun_eq_iff)
  with assms show "vis (g_files g') = (if b then (vis (g_files g))(p := None) else vis (g_files g))"
    "visits (\<lambda>s. vis s = (vis (g_files g))(p := None)) g g'" "g_dirs g' = g_dirs g"
    by (auto simp: os_Remove_def next_call_eq visits_def set_file_def Let_def vis_update split: option.splits list.splits if_splits)
qed

text \<open>\<open>lacks ps V\<close>: what \<open>V\<close> shows, less some of the files \<open>ps\<close>.\<close>

definition lacks :: "path list \<Rightarrow> (path \<rightharpoonup> gfile) \<Rightarrow> (path \<rightharpoonup> gfile) \<Rightarrow> bool" where
  "lacks ps V V' \<longleftrightarrow> (\<forall>q. V' q = V q \<or> q \<in> set ps \<and> V' q = None)"

lemma lacks_refl [simp]: "lacks ps V V"
  by (simp add: lacks_def)

lemma remove_all_effect:
  assumes "remove_all ps g = (r, g')" "\<And>p. p \<in> set ps \<Longrightarrow> \<not> hidden p"
  shows "lacks ps (vis (g_files g)) (vis (g_files g')) \<and> visits (\<lambda>s. lacks ps (vis (g_files g)) (vis s)) g g' \<and> g_dirs g' = g_dirs g
    \<and> (r = Inr () \<longrightarrow> vis (g_files g') = vis (g_files g) |` (- set ps))"
  using assms
proof (induction ps arbitrary: g)
  case Nil
  then show ?case by (simp add: visits_def)
next
  case (Cons p ps)
  obtain b u where u: "os_Remove p g = (b, u)" by (cases "os_Remove p g")
  note e = remove_effect [OF u Cons.prems(2) [OF list.set_intros(1)]]
  show ?case
  proof (cases b)
    case False
    with u Cons.prems(1) have "r \<noteq> Inr ()" "g' = u" by (auto simp: fail_def act_fail_def)
    moreover have "visits (\<lambda>s. lacks (p # ps) (vis (g_files g)) (vis s)) g u"
      using e(2) by (rule visits_mono) (simp add: lacks_def)
    ultimately show ?thesis using e False by simp
  next
    case True
    with u Cons.prems(1) have "remove_all ps u = (r, g')" by simp
    note i = Cons.IH [OF this Cons.prems(2)]
    have V: "vis (g_files u) = (vis (g_files g))(p := None)" using e(1) True by simp
    have l: "lacks ps (vis (g_files u)) W \<Longrightarrow> lacks (p # ps) (vis (g_files g)) W" for W by (auto simp: lacks_def V split: if_splits)
    have "visits (\<lambda>s. lacks (p # ps) (vis (g_files g)) (vis s)) g u"
      using e(2) by (rule visits_mono) (simp add: lacks_def)
    moreover have "visits (\<lambda>s. lacks (p # ps) (vis (g_files g)) (vis s)) u g'"
      by (rule visits_mono [of "\<lambda>s. lacks ps (vis (g_files u)) (vis s)"]) (use i l in auto)
    ultimately have "visits (\<lambda>s. lacks (p # ps) (vis (g_files g)) (vis s)) g g'" by (rule visits_trans)
    moreover have "vis (g_files u) |` (- set ps) = vis (g_files g) |` (- set (p # ps))"
      by (auto simp: restrict_map_def fun_eq_iff V)
    moreover have "lacks (p # ps) (vis (g_files g)) (vis (g_files g'))" "g_dirs g' = g_dirs g"
      "r = Inr () \<longrightarrow> vis (g_files g') = vis (g_files u) |` (- set ps)"
      using i l e(3) by auto
    ultimately show ?thesis by metis
  qed
qed

lemma visible_paths [simp]: "\<not> hidden (certPath opts)" "\<not> hidden (privPath opts)" "\<not> hidden (pubPath opts)"
  "p \<in> set (svid_cache d) \<Longrightarrow> \<not> hidden p"
  by (auto simp: certPath_def privPath_def pubPath_def svid_cache_def hidden_def)

lemma distinct_paths [simp]: "certPath opts \<noteq> privPath opts" "certPath opts \<noteq> pubPath opts" "privPath opts \<noteq> pubPath opts"
  "certPath opts \<notin> set (svid_cache d)" "privPath opts \<notin> set (svid_cache d)" "pubPath opts \<notin> set (svid_cache d)"
  "privPath opts \<noteq> certPath opts" "pubPath opts \<noteq> certPath opts" "pubPath opts \<noteq> privPath opts"
  by (auto simp: certPath_def privPath_def pubPath_def svid_cache_def)

lemma kept_owner_vis:
  assumes "vis (g_files u) p = vis (g_files g) p" "\<not> hidden p" "g_dirs u = g_dirs g"
  shows "kept_owner E u p = kept_owner E g p"
  using assms by (auto simp: kept_owner_def vis_def split: option.split)

text \<open>What is shown after each of the three writes.\<close>

definition new_file :: "'n env \<Rightarrow> ('t, 'n) guest \<Rightarrow> path \<Rightarrow> string \<Rightarrow> gfile" where
  "new_file E g p data = \<lparr>f_Data = data, f_Mode = 0x180, f_Owner = kept_owner E g p\<rparr>"

definition store_base :: "ClientOptions \<Rightarrow> bool \<Rightarrow> (path \<rightharpoonup> gfile) \<Rightarrow> (path \<rightharpoonup> gfile)" where
  "store_base opts spire V = (if spire then V |` (- set (svid_cache (SpireDataDir opts))) else V)"

definition store_states :: "'n env \<Rightarrow> ClientOptions \<Rightarrow> ('t, 'n) guest \<Rightarrow> bool \<Rightarrow> string \<Rightarrow> string \<Rightarrow> string \<Rightarrow> (path \<rightharpoonup> gfile) list" where
  "store_states E opts g spire pem priv pub =
     (let V = store_base opts spire (vis (g_files g));
          W = V(privPath opts \<mapsto> new_file E g (privPath opts) priv);
          X = W(pubPath opts \<mapsto> new_file E g (pubPath opts) pub) in
      [W, X, X(certPath opts \<mapsto> new_file E g (certPath opts) pem)])"

lemma write_effect:
  assumes "writeFileAtomic E p data 0x180 u = (r, u')" "\<not> hidden p" "g_dirs u = g_dirs g"
    "vis (g_files u) p = vis (g_files g) p"
  shows "r = Inl e \<Longrightarrow> vis (g_files u') = vis (g_files u) \<and> visits (\<lambda>s. vis s = vis (g_files u)) u u'"
    and "r = Inr () \<Longrightarrow> vis (g_files u') = (vis (g_files u))(p \<mapsto> new_file E g p data) \<and> g_dirs u' = g_dirs g
      \<and> visits (\<lambda>s. vis s = vis (g_files u) \<or> vis s = vis (g_files u')) u u'"
proof -
  show "vis (g_files u') = vis (g_files u) \<and> visits (\<lambda>s. vis s = vis (g_files u)) u u'" if "r = Inl e"
    using safeD [OF safe_writeFileAtomic assms(1) [unfolded that]] by (simp add: unseen_def)
  have "kept_owner E u p = kept_owner E g p" by (rule kept_owner_vis [OF assms(4, 2, 3)])
  then show "vis (g_files u') = (vis (g_files u))(p \<mapsto> new_file E g p data) \<and> g_dirs u' = g_dirs g
      \<and> visits (\<lambda>s. vis s = vis (g_files u) \<or> vis s = vis (g_files u')) u u'" if "r = Inr ()"
    using write_Inr [OF assms(1) [unfolded that] assms(2)] assms(3) by (simp add: new_file_def)
qed

lemma write_step:
  assumes "writeFileAtomic E p data 0x180 u = (q, u')" "\<not> hidden p" "g_dirs u = g_dirs g" "vis (g_files u) p = vis (g_files g) p"
    and "visits P g u" "\<And>s. vis s = vis (g_files u) \<Longrightarrow> P s" "\<And>s. vis s = (vis (g_files u))(p \<mapsto> new_file E g p data) \<Longrightarrow> P s"
  shows "visits P g u'" and "q = Inl e \<Longrightarrow> vis (g_files u') = vis (g_files u)"
    and "q = Inr () \<Longrightarrow> vis (g_files u') = (vis (g_files u))(p \<mapsto> new_file E g p data) \<and> g_dirs u' = g_dirs g"
proof -
  note w = write_effect [OF assms(1-4)]
  have "visits P u u'"
    using w assms(6, 7) by (cases q) (auto simp: visits_def)
  with assms(5) show "visits P g u'" by (rule visits_trans)
qed (use write_effect [OF assms(1-4)] in auto)

lemma clear_effect:
  assumes "(if spire then ClearSPIREAgentSVIDCache (SpireDataDir opts) else act_return ()) g = (r, u)"
    and "spire \<longrightarrow> SpireDataDir opts \<noteq> []"
  shows "lacks (svid_cache (SpireDataDir opts)) (vis (g_files g)) (vis (g_files u)) \<and>
      visits (\<lambda>s. lacks (svid_cache (SpireDataDir opts)) (vis (g_files g)) (vis s)) g u \<and> g_dirs u = g_dirs g \<and>
      (r = Inr () \<longrightarrow> vis (g_files u) = store_base opts spire (vis (g_files g)))"
proof (cases spire)
  case True
  with assms have "remove_all (svid_cache (SpireDataDir opts)) g = (r, u)" by (simp add: ClearSPIREAgentSVIDCache_def)
  from remove_all_effect [OF this visible_paths(4)] True show ?thesis by (simp add: store_base_def)
next
  case False
  with assms(1) show ?thesis by (simp add: store_base_def act_return_def visits_def)
qed

lemma store_base_paths [simp]:
  "store_base opts spire V (certPath opts) = V (certPath opts)" "store_base opts spire V (privPath opts) = V (privPath opts)"
  "store_base opts spire V (pubPath opts) = V (pubPath opts)"
  by (simp_all add: store_base_def)

text \<open>
  Storing: the cache goes first, then the two blobs come, then the certificate. \<open>W\<close>, \<open>X\<close> and \<open>Y\<close> are what
  the disk shows after each write.
\<close>

lemma store_effect:
  assumes run: "ClientStore E opts oldPEM pem priv pub g = (r, g')"
    and spire: "spire \<longleftrightarrow> oldPEM \<noteq> pem \<and> SpireDataDir opts \<noteq> []" and S: "store_states E opts g spire pem priv pub = [W, X, Y]"
  shows "visits (\<lambda>s. lacks (svid_cache (SpireDataDir opts)) (vis (g_files g)) (vis s) \<or> vis s \<in> {W, X, Y}) g g' \<and>
    (if r = Inr () then vis (g_files g') = Y
     else lacks (svid_cache (SpireDataDir opts)) (vis (g_files g)) (vis (g_files g')) \<or> vis (g_files g') \<in> {W, X})"
    (is "visits ?P g g' \<and> ?fin r g'")
proof -
  let ?V = "store_base opts spire (vis (g_files g))"
  have W: "W = ?V(privPath opts \<mapsto> new_file E g (privPath opts) priv)" and X: "X = W(pubPath opts \<mapsto> new_file E g (pubPath opts) pub)"
    and Y: "Y = X(certPath opts \<mapsto> new_file E g (certPath opts) pem)"
    using S by (auto simp: store_states_def Let_def)
  from run [unfolded ClientStore_def Let_def, folded spire] show ?thesis
  proof (cases rule: bind_cases)
    case (1 e)
    with clear_effect [OF 1(2)] spire show ?thesis by (auto elim!: visits_mono)
  next
    case cleared: (2 x u)
    have V: "vis (g_files u) = ?V" and dirs: "g_dirs u = g_dirs g" and gu: "visits ?P g u"
      and lack: "lacks (svid_cache (SpireDataDir opts)) (vis (g_files g)) (vis (g_files u))"
      using clear_effect [OF cleared(1)] spire by (auto elim!: visits_mono)
    have P: "vis s = vis (g_files u) \<or> vis s \<in> {W, X, Y} \<Longrightarrow> ?P s" for s using lack by auto
    obtain q v where q: "writeFileAtomic E (privPath opts) priv 0x180 u = (q, v)" by fastforce
    note w = write_step [OF q _ dirs _ gu P P]
    show ?thesis
    proof (cases q)
      case (Inl e)
      with cleared(2) q have "r = Inl e" "g' = v" by (auto simp: act_bind_def)
      with w Inl lack V show ?thesis by (simp add: W)
    next
      case (Inr y)
      then have V1: "vis (g_files v) = W" and dirs1: "g_dirs v = g_dirs g" and gv: "visits ?P g v" using w V by (simp_all add: W)
      obtain q' v' where q': "writeFileAtomic E (pubPath opts) pub 0x180 v = (q', v')" by fastforce
      note w' = write_step [OF q' _ dirs1 _ gv P P]
      show ?thesis
      proof (cases q')
        case (Inl e)
        with Inr cleared(2) q q' have "r = Inl e" "g' = v'" by (auto simp: act_bind_def)
        with w' Inl V1 show ?thesis by (simp add: W X)
      next
        case (Inr y')
        then have V2: "vis (g_files v') = X" and dirs2: "g_dirs v' = g_dirs g" and gv': "visits ?P g v'" using w' V1 by (simp_all add: W X)
        obtain p z where p: "writeFileAtomic E (certPath opts) pem 0x180 v' = (p, z)" by fastforce
        note w2 = write_step [OF p _ dirs2 _ gv' P P]
        have z: "disk g' = disk z" "r = p"
          using cleared(2) q \<open>q = Inr y\<close> q' Inr p by (auto simp: act_bind_def TryRestartSPIREAgent_def split: sum.splits)
        with w2 V2 show ?thesis by (cases p) (auto simp: W X Y disk_def visits_def)
      qed
    qed
  qed
qed

subsection \<open>A run and the disk\<close>

lemma request_key:
  assumes "CreateSigningRequestWithKey L T f cn devID t = (Inr (sr, res), t')"
  shows "\<exists>dev. rr_DevID res = Some dev \<and> DevIDKey sr = Some (k_Public dev) \<and> (devID = None \<or> devID = Some dev)"
  using assms
  by (cases devID) (auto simp: CreateSigningRequestWithKey_def Let_def bind_Inr act_return_def)

text \<open>The certificate \<open>pem\<close> was issued for a request that was built and signed with the key \<open>dev\<close>.\<close>

definition issued_for :: "lib \<Rightarrow> 't tpm \<Rightarrow> 'n env \<Rightarrow> ClientOptions \<Rightarrow> KeyInfo \<Rightarrow> string \<Rightarrow> bool" where
  "issued_for L T E opts dev pem \<longleftrightarrow>
     (\<exists>devID t t' sr res (u :: ('t, 'n) guest) u'.
        CreateSigningRequestWithKey L T (factory_of L T opts) (PlatformCN opts) devID t = (Inr (sr, res), t') \<and>
        rr_DevID res = Some dev \<and> DevIDKey sr = Some (k_Public dev) \<and>
        ClientExchange L T E (factory_of L T opts) opts sr res (k_Handle dev) u = (Inr pem, u'))"

lemma quiet_exchange: "keeps disk (ClientExchange L T E f opts sr res h)"
  unfolding ClientExchange_def Let_def
  by (intro keeps_if keeps_bind keeps_basic keeps_metadata(2) keeps_on_tpm) simp_all

lemma quiet_mkdir: "keeps disk (MkdirAll E d)"
  unfolding MkdirAll_def by (intro keeps_bind keeps_syscall) (simp_all add: keeps_def)

lemma quiet_judge: "judge_certificate L opts now g = (v, g') \<Longrightarrow> disk g' = disk g"
  "keeps disk (judge_name E opts w)" "keeps disk (judge_key L T f w a b)"
proof -
  have "LoadCertPEMFile L p g = (r, g') \<Longrightarrow> disk g' = disk g" for p r g'
    by (rule keepsD [OF keeps_read(2)]) simp
  then show "judge_certificate L opts now g = (v, g') \<Longrightarrow> disk g' = disk g"
    by (auto simp: judge_certificate_def split: prod.splits sum.splits option.splits)
  show "keeps disk (judge_name E opts w)"
    unfolding judge_name_def by (auto split: option.split intro!: keeps_bind keeps_ReadVMID)
  show "keeps disk (judge_key L T f w a b)"
    by (simp add: keeps_def judge_key_def Let_def on_tpm_def split: prod.split sum.split devid_error.split)
qed

lemma quiet_decide: "keeps disk (ClientDecide L T E opts now)"
  unfolding keeps_def
proof
  fix g :: "('a, 'b) guest"
  obtain v u where j: "judge_certificate L opts now g = (v, u)" by fastforce
  have "keeps disk (act_bind (judge_name E opts v) (\<lambda>v.
        act_bind (readBlob (pubPath opts)) (\<lambda>pubBlob.
        act_bind (readBlob (privPath opts)) (\<lambda>privBlob.
          judge_key L T (factory_of L T opts) v pubBlob privBlob))))"
    by (intro keeps_bind quiet_judge(2, 3) keeps_read) simp_all
  then show "disk (snd (ClientDecide L T E opts now g)) = disk g"
    using quiet_judge(1) [OF j] by (simp add: ClientDecide_def j keeps_def)
qed

text \<open>What a file holds.\<close>

definition contents :: "('t, 'n) guest \<Rightarrow> path \<Rightarrow> string option" where
  "contents g p = map_option f_Data (g_files g p)"

lemma contents_disk: "disk u = disk g \<Longrightarrow> contents u p = contents g p"
  by (simp add: disk_def contents_def)

lemma read_contents: "os_ReadFile p g = (Inr d, g') \<Longrightarrow> contents g p = d"
  "os_ReadFile p g = (Inl part, g') \<Longrightarrow> prefix part (case contents g p of None \<Rightarrow> [] | Some d \<Rightarrow> d)"
  by (auto simp: os_ReadFile_def next_call_eq contents_def take_is_prefix split: list.splits option.splits)

lemma old_prefix: "read_old opts c g = (d, g') \<Longrightarrow> prefix d (case contents g (certPath opts) of None \<Rightarrow> [] | Some d \<Rightarrow> d)"
  by (auto simp: read_old_def dest: read_contents split: if_splits prod.splits sum.splits option.splits)

lemma exchange_answer: "ClientExchange L T E f opts sr res h u = (Inr pem, u') \<Longrightarrow> pem \<noteq> []"
  by (auto simp: ClientExchange_def Let_def bind_Inr fail_def act_fail_def act_return_def split: if_splits)

lemma quiet_old: "read_old opts c g = (d, g') \<Longrightarrow> disk g' = disk g"
  by (auto simp: read_old_def dest: read_frame [where sel = disk] split: if_splits prod.splits sum.splits option.splits)

lemma renew_disk:
  fixes g :: "('t, 'n) guest"
  assumes "ClientRenew L T E opts v g = (r, g')"
  shows "(\<exists>e. r = Inl e) \<and> disk g' = disk g \<or>
    (\<exists>oldPEM pem dev (u :: ('t, 'n) guest) u'. ClientStore E opts oldPEM pem (k_PrivateBlob dev) (k_PublicBlob dev) u = (r, u') \<and>
       disk u = disk g \<and> disk g' = disk u' \<and> issued_for L T E opts dev pem \<and> pem \<noteq> [] \<and> (v_devID v = None \<or> v_devID v = Some dev) \<and>
       prefix oldPEM (case contents g (certPath opts) of None \<Rightarrow> [] | Some d \<Rightarrow> d))"
proof -
  let ?f = "factory_of L T opts"
  obtain oldPEM g1 where o: "read_old opts (v_existing v) g = (oldPEM, g1)" by fastforce
  note d1 = quiet_old [OF o]
  let ?sign = "on_tpm (CreateSigningRequestWithKey L T ?f (PlatformCN opts) (v_devID v))"
  have quiet: "keeps disk ?sign" by (rule keeps_on_tpm) simp
  from assms have "act_bind ?sign (\<lambda>(sr, res).
          deferred (tpm_only (release T res))
            (act_bind (MkdirAll E (OutDir opts)) (\<lambda>_.
             act_bind (ClientExchange L T E ?f opts sr res (k_Handle (the (rr_DevID res)))) (\<lambda>newPEM.
               ClientStore E opts oldPEM newPEM (k_PrivateBlob (the (rr_DevID res))) (k_PublicBlob (the (rr_DevID res))))))) g1 = (r, g')"
    by (simp add: ClientRenew_def o Let_def)
  then show ?thesis
  proof (cases rule: bind_cases)
    case (1 e)
    with keepsD [OF quiet 1(2)] d1 show ?thesis by simp
  next
    case (2 a g2)
    obtain sr res where a: "a = (sr, res)" by (cases a)
    from 2(1) obtain t' where req: "CreateSigningRequestWithKey L T ?f (PlatformCN opts) (v_devID v) (g_tpm g1) = (Inr (sr, res), t')"
      by (auto simp: on_tpm_def a split: prod.splits)
    from request_key [OF req] obtain dev where dev: "rr_DevID res = Some dev" "DevIDKey sr = Some (k_Public dev)"
      "v_devID v = None \<or> v_devID v = Some dev" by blast
    obtain z where z: "act_bind (MkdirAll E (OutDir opts)) (\<lambda>_.
             act_bind (ClientExchange L T E ?f opts sr res (k_Handle dev)) (\<lambda>newPEM.
               ClientStore E opts oldPEM newPEM (k_PrivateBlob dev) (k_PublicBlob dev))) g2 = (r, z)" "disk g' = disk z"
      using 2(2) by (auto simp: a dev deferred_def tpm_only_def split: prod.splits)
    have d2: "disk g2 = disk g" using keepsD [OF quiet 2(1)] d1 by simp
    from z(1) show ?thesis
    proof (cases rule: bind_cases)
      case (1 e)
      with keepsD [OF quiet_mkdir 1(2)] d2 z(2) show ?thesis by simp
    next
      case mk: (2 x g3)
      then have d3: "disk g3 = disk g" using keepsD [OF quiet_mkdir mk(1)] d2 by simp
      from mk(2) show ?thesis
      proof (cases rule: bind_cases)
        case (1 e)
        with keepsD [OF quiet_exchange 1(2)] d3 z(2) show ?thesis by simp
      next
        case (2 pem g4)
        moreover have "disk g4 = disk g" using keepsD [OF quiet_exchange 2(1)] d3 by simp
        moreover have "issued_for L T E opts dev pem"
          unfolding issued_for_def using req dev 2(1) by blast
        ultimately show ?thesis using z(2) dev(3) exchange_answer [OF 2(1)] old_prefix [OF o] by blast
      qed
    qed
  qed
qed

text \<open>Nothing is to be done: the material on disk is current, this VM's and loaded by this TPM.\<close>

definition fits :: "lib \<Rightarrow> 't tpm \<Rightarrow> 'n env \<Rightarrow> ClientOptions \<Rightarrow> time \<Rightarrow> ('t, 'n) guest \<Rightarrow> bool" where
  "fits L T E opts now g \<longleftrightarrow>
     (\<exists>data block c d (u :: ('t, 'n) guest) t t'.
        contents g (certPath opts) = Some data \<and> pem_Decode L data = Some (''CERTIFICATE'', block) \<and>
        x509_ParseCertificate L block = Some c \<and> \<not> RenewDue (Some c) now \<and>
        fst (ReadVMID E (MDSBaseURL opts) u) = Inr (SubjectCN c) \<and>
        contents g (pubPath opts) = Some (k_PublicBlob d) \<and> contents g (privPath opts) = Some (k_PrivateBlob d) \<and>
        LoadDevID L T (factory_of L T opts) (k_PublicBlob d) (k_PrivateBlob d) t = (Inr d, t') \<and>
        certHoldsKey L c (k_Public d))"

text \<open>The key cannot be used again: a blob is missing or empty, or the TPM calls the blobs foreign.\<close>

definition key_lost :: "lib \<Rightarrow> 't tpm \<Rightarrow> ClientOptions \<Rightarrow> ('t, 'n) guest \<Rightarrow> bool" where
  "key_lost L T opts g \<longleftrightarrow>
     (\<exists>p \<in> {pubPath opts, privPath opts}. contents g p = None \<or> contents g p = Some []) \<or>
     (\<exists>pub priv t c. contents g (pubPath opts) = Some pub \<and> contents g (privPath opts) = Some priv \<and>
        fst (LoadDevID L T (factory_of L T opts) pub priv t) = Inl (ErrDevIDForeign c))"

definition key_kept :: "ClientOptions \<Rightarrow> ('t, 'n) guest \<Rightarrow> KeyInfo \<Rightarrow> bool" where
  "key_kept opts g d \<longleftrightarrow> contents g (pubPath opts) = Some (k_PublicBlob d) \<and> contents g (privPath opts) = Some (k_PrivateBlob d)"

lemma deferred_Inr: "deferred c m g = (Inr x, g') \<longleftrightarrow> (\<exists>u. m g = (Inr x, u) \<and> g' = c u)"
  by (auto simp: deferred_def split: prod.splits)

lemma LoadDevID_Inr:
  assumes "LoadDevID L T f pub priv t = (Inr d, t')"
  shows "k_PublicBlob d = pub \<and> k_PrivateBlob d = priv \<and> DecodePublic L pub = Some (k_Public d)"
  using assms
  by (auto simp: LoadDevID_def bind_Inr act_fail_def act_opt_def act_return_def deferred_Inr split: if_splits option.splits)

lemma LoadCert_Inr:
  assumes "LoadCertPEMFile L p g = (Inr (Some c), g')"
  shows "\<exists>data block. contents g p = Some data \<and> pem_Decode L data = Some (''CERTIFICATE'', block) \<and> x509_ParseCertificate L block = Some c"
  using assms by (auto simp: LoadCertPEMFile_def fail_def act_fail_def split: prod.splits sum.splits option.splits if_splits dest!: read_contents)

lemma readBlob_Inr: "readBlob p g = (Inr b, g') \<Longrightarrow> contents g p = Some b \<or> contents g p = None \<and> b = []"
  by (auto simp: readBlob_def split: prod.splits sum.splits option.splits dest!: read_contents)

text \<open>The decision: what each answer says about the files, the service and the TPM.\<close>

lemma decided:
  fixes g :: "('t, 'n) guest"
  assumes "ClientDecide L T E opts now g = (Inr v, g')"
  shows "v_reason v = [] \<Longrightarrow> fits L T E opts now g \<and> v_devID v \<noteq> None"
    and "v_devID v = None \<Longrightarrow> key_lost L T opts g"
    and "v_devID v = Some d \<Longrightarrow> key_kept opts g d"
proof -
  let ?f = "factory_of L T opts"
  obtain v0 g0 where j: "judge_certificate L opts now g = (v0, g0)" by fastforce
  from assms [unfolded ClientDecide_def j prod.case bind_Inr] obtain v1 g1 pub g2 priv g3 where
    n: "judge_name E opts v0 g0 = (Inr v1, g1)" and b: "readBlob (pubPath opts) g1 = (Inr pub, g2)"
    "readBlob (privPath opts) g2 = (Inr priv, g3)" and k: "judge_key L T ?f v1 pub priv g3 = (Inr v, g')" by blast
  have quiet: "disk g1 = disk g" "disk g2 = disk g"
    using quiet_judge(1) [OF j] keepsD [OF quiet_judge(2) n] keepsD [OF keeps_read(1) b(1), of disk] by simp_all
  have c: "contents g (pubPath opts) = Some pub \<or> contents g (pubPath opts) = None \<and> pub = []"
    "contents g (privPath opts) = Some priv \<or> contents g (privPath opts) = None \<and> priv = []"
    using readBlob_Inr [OF b(1)] readBlob_Inr [OF b(2)] unfolding contents_disk [OF quiet(1)] contents_disk [OF quiet(2)] by blast+
  have "v_devID v0 = None" using j by (auto simp: judge_certificate_def split: prod.splits sum.splits option.splits)
  with n have first: "v_devID v1 = None" by (cases "v_existing v0") (auto simp: judge_name_def act_return_def bind_Inr)
  show "key_lost L T opts g" if "v_devID v = None"
  proof (cases "pub = [] \<or> priv = []")
    case True
    with c show ?thesis by (auto simp: key_lost_def)
  next
    case False
    with k that obtain e where "fst (LoadDevID L T ?f pub priv (g_tpm g3)) = Inl (ErrDevIDForeign e)"
      by (auto simp: judge_key_def Let_def on_tpm_def split: prod.splits sum.splits devid_error.splits if_splits)
    with c False show ?thesis unfolding key_lost_def by blast
  qed
  have load: "LoadDevID L T ?f pub priv (g_tpm g3) = (Inr d, g_tpm g') \<and> pub \<noteq> [] \<and> priv \<noteq> [] \<and>
      v = (if v_reason v1 = [] \<and> other_key L v1 pub then v1\<lparr>v_reason := ''certificate does not match key''\<rparr> else v1)\<lparr>v_devID := Some d\<rparr>"
    if "v_devID v = Some d" for d
    using k that first by (auto simp: judge_key_def Let_def on_tpm_def split: prod.splits sum.splits devid_error.splits if_splits)
  show "key_kept opts g d" if "v_devID v = Some d"
    using load [OF that] LoadDevID_Inr [of L T ?f pub priv "g_tpm g3" d "g_tpm g'"] c by (auto simp: key_kept_def)
  show "fits L T E opts now g \<and> v_devID v \<noteq> None" if r: "v_reason v = []"
  proof -
    from k r obtain d where d: "v_devID v = Some d"
      by (auto simp: judge_key_def Let_def on_tpm_def split: prod.splits sum.splits devid_error.splits if_splits)
    from load [OF d] r have v1: "v_reason v1 = []" "\<not> other_key L v1 pub" by (auto split: if_splits)
    from n v1(1) j obtain c where name: "v_existing v0 = Some c" "v1 = v0" "fst (ReadVMID E (MDSBaseURL opts) g0) = Inr (SubjectCN c)"
      by (auto simp: judge_name_def judge_certificate_def act_return_def bind_Inr split: option.splits if_splits prod.splits sum.splits)
    from j name(1, 2) v1(1) obtain h where cert: "LoadCertPEMFile L (certPath opts) g = (Inr (Some c), h)" "\<not> RenewDue (Some c) now"
      by (auto simp: judge_certificate_def split: option.splits if_splits prod.splits sum.splits)
    note D = LoadDevID_Inr [of L T ?f pub priv "g_tpm g3" d "g_tpm g'"]
    have "certHoldsKey L c (k_Public d)" using v1(2) name D load [OF d] by (auto simp: other_key_def)
    moreover have "contents g (pubPath opts) = Some (k_PublicBlob d)" "contents g (privPath opts) = Some (k_PrivateBlob d)"
      "LoadDevID L T ?f (k_PublicBlob d) (k_PrivateBlob d) (g_tpm g3) = (Inr d, g_tpm g')"
      using D load [OF d] c by auto
    ultimately have "fits L T E opts now g"
      unfolding fits_def using LoadCert_Inr [OF cert(1)] cert(2) name(3) by blast
    with d show ?thesis by simp
  qed
qed

lemma run_disk:
  fixes g :: "('t, 'n) guest"
  assumes run: "ClientEnrollOrRenew L T E opts now g = (r, g')"
  shows "disk g' = disk g \<and> (r = Inr () \<longrightarrow> fits L T E opts now g) \<or>
    (\<exists>oldPEM pem dev (u :: ('t, 'n) guest) u'. ClientStore E opts oldPEM pem (k_PrivateBlob dev) (k_PublicBlob dev) u = (r, u') \<and>
       disk u = disk g \<and> disk g' = disk u' \<and> issued_for L T E opts dev pem \<and> pem \<noteq> [] \<and>
       (key_kept opts g dev \<or> key_lost L T opts g) \<and>
       prefix oldPEM (case contents g (certPath opts) of None \<Rightarrow> [] | Some d \<Rightarrow> d))"
proof (cases "MDSBaseURL opts = [] \<or> OutDir opts = []")
  case True
  with run have "g' = g" "\<exists>e. r = Inl e" by (auto simp: ClientEnrollOrRenew_def fail_def act_fail_def split: if_splits)
  then show ?thesis by auto
next
  case False
  let ?k = "\<lambda>v g. if v_reason v = []
        then (Inr (), case v_devID v of None \<Rightarrow> g | Some d \<Rightarrow> tpm_only (FlushTransient T (k_Handle d)) g)
        else ClientRenew L T E opts v (LogRenewReason (OutDir opts) (v_reason v) (v_detail v) g)"
  from run False have "act_bind (ClientDecide L T E opts now) ?k g = (r, g')" by (simp add: ClientEnrollOrRenew_def)
  then show ?thesis
  proof (cases rule: bind_cases)
    case (1 e)
    with keepsD [OF quiet_decide 1(2)] show ?thesis by simp
  next
    case (2 v u)
    note D = decided [OF 2(1)]
    have u: "disk u = disk g" by (rule keepsD [OF quiet_decide 2(1)])
    show ?thesis
    proof (cases "v_reason v = []")
      case True
      with 2(2) u D(1) show ?thesis by (auto simp: tpm_only_def split: option.splits)
    next
      case False
      let ?u = "LogRenewReason (OutDir opts) (v_reason v) (v_detail v) u"
      have q: "disk ?u = disk g" using u by (simp add: LogRenewReason_def)
      from False 2(2) have "ClientRenew L T E opts v ?u = (r, g')" by simp
      from renew_disk [OF this, unfolded q contents_disk [OF q]] D(2, 3) show ?thesis by blast
    qed
  qed
qed

lemma visible_eq: "vis m = vis m' \<Longrightarrow> \<not> hidden q \<Longrightarrow> m q = m' q"
  by (metis vis_def)

text \<open>The four things a finished run can have shown, spelled out for the three files.\<close>

lemma store_maps:
  assumes "store_states E opts u spire pem priv pub = [W, X, Y]" "g_files u = g_files g"
  shows "W = (store_base opts spire (vis (g_files g)))(privPath opts \<mapsto> new_file E u (privPath opts) priv)"
    and "X = W(pubPath opts \<mapsto> new_file E u (pubPath opts) pub)" and "Y = X(certPath opts \<mapsto> new_file E u (certPath opts) pem)"
  using assms by (auto simp: store_states_def Let_def)

text \<open>
  C6: crashes are survived. Every state the disk goes through in a run is one of these: nothing but the SVID cache
  differs from the state before; or there is a key whose private blob is stored while public blob and certificate
  are the old ones, or whose both blobs are stored and the certificate is the old one or the new one, which was issued
  for this key. A new certificate is never without its key, and the SVID cache is gone by then, unless the
  answer starts the old certificate's file.
\<close>

theorem crash_safe:
  fixes g :: "('t, 'n) guest"
  assumes "ClientEnrollOrRenew L T E opts now g = (r, g')" "s \<in> set (g_past g')" "s \<notin> set (g_past g)"
  shows "(\<forall>q. \<not> hidden q \<and> q \<notin> set (svid_cache (SpireDataDir opts)) \<longrightarrow> s q = g_files g q) \<or>
    (\<exists>dev pem. issued_for L T E opts dev pem \<and>
       map_option f_Data (s (privPath opts)) = Some (k_PrivateBlob dev) \<and>
       (SpireDataDir opts = [] \<or> (\<forall>q \<in> set (svid_cache (SpireDataDir opts)). s q = None) \<or>
          prefix pem (case contents g (certPath opts) of None \<Rightarrow> [] | Some d \<Rightarrow> d)) \<and>
       (s (pubPath opts) = g_files g (pubPath opts) \<and> s (certPath opts) = g_files g (certPath opts) \<or>
        map_option f_Data (s (pubPath opts)) = Some (k_PublicBlob dev) \<and>
          (s (certPath opts) = g_files g (certPath opts) \<or> map_option f_Data (s (certPath opts)) = Some pem)))"
proof -
  have "disk g' \<noteq> disk g" using assms(2, 3) by (auto simp: disk_def)
  with run_disk [OF assms(1)] obtain oldPEM pem dev and u u' :: "('t, 'n) guest" where
    store: "ClientStore E opts oldPEM pem (k_PrivateBlob dev) (k_PublicBlob dev) u = (r, u')"
    and d: "disk u = disk g" "disk g' = disk u'" and i: "issued_for L T E opts dev pem"
    and pre: "prefix oldPEM (case contents g (certPath opts) of None \<Rightarrow> [] | Some d \<Rightarrow> d)"
    by blast
  define spire where "spire \<longleftrightarrow> oldPEM \<noteq> pem \<and> SpireDataDir opts \<noteq> []"
  obtain W X Y where S: "store_states E opts u spire pem (k_PrivateBlob dev) (k_PublicBlob dev) = [W, X, Y]"
    by (simp add: store_states_def Let_def)
  have F: "g_files u = g_files g" "g_past u = g_past g" "g_past g' = g_past u'" using d by (simp_all add: disk_def)
  let ?V = "store_base opts spire (vis (g_files g))"
  have vis: "vis s p = (if hidden p then None else s p)" for p by (simp add: vis_def)
  have cache: "SpireDataDir opts = [] \<or> (\<forall>q \<in> set (svid_cache (SpireDataDir opts)). s q = None) \<or>
      prefix pem (case contents g (certPath opts) of None \<Rightarrow> [] | Some d \<Rightarrow> d)"
    if "\<And>q. q \<in> set (svid_cache (SpireDataDir opts)) \<Longrightarrow> vis s q = ?V q"
  proof (cases spire)
    case True
    then have "s q = None" if "q \<in> set (svid_cache (SpireDataDir opts))" for q
      using \<open>\<And>q. _ \<Longrightarrow> vis s q = _\<close> [OF that] that by (simp add: vis store_base_def)
    then show ?thesis by blast
  next
    case False
    with pre show ?thesis unfolding spire_def by blast
  qed
  from store_effect [OF store spire_def S] assms(2, 3) F
  consider "lacks (svid_cache (SpireDataDir opts)) (vis (g_files g)) (vis s)" | "vis s \<in> {W, X, Y}"
    by (auto simp: visits_def)
  then show ?thesis
  proof cases
    case 1
    then have "\<not> hidden q \<and> q \<notin> set (svid_cache (SpireDataDir opts)) \<longrightarrow> s q = g_files g q" for q
      unfolding lacks_def vis_def by metis
    then show ?thesis by blast
  next
    case 2
    have p: "s p = vis s p" if "\<not> hidden p" for p using that by (simp add: vis)
    note S' = store_maps [OF S F(1)]
    have "vis s q = ?V q" if "q \<in> set (svid_cache (SpireDataDir opts))" for q
      using 2 that distinct_paths(4-6) [of opts "SpireDataDir opts"] by (auto simp: S')
    note c = cache [OF this]
    have "vis (g_files g) (pubPath opts) = g_files g (pubPath opts)" "vis (g_files g) (certPath opts) = g_files g (certPath opts)"
      by (simp_all add: vis_def)
    with 2 have "map_option f_Data (s (privPath opts)) = Some (k_PrivateBlob dev)"
      "s (pubPath opts) = g_files g (pubPath opts) \<and> s (certPath opts) = g_files g (certPath opts) \<or>
        map_option f_Data (s (pubPath opts)) = Some (k_PublicBlob dev) \<and>
          (s (certPath opts) = g_files g (certPath opts) \<or> map_option f_Data (s (certPath opts)) = Some pem)"
      by (auto simp: S' p new_file_def)
    with c i show ?thesis by blast
  qed
qed

text \<open>
  C8: the outcome of a run. An error leaves the certificate file as it was. A run without an error either changes no
  file, and then the certificate on disk is current, carries this VM's id and certifies the key of the blobs, which
  this TPM loads; or it has stored a certificate with the blobs of the key it was issued for, readable by their
  owner only, which is the old key unless a blob was missing or the TPM called the blobs foreign.
\<close>

theorem run_outcome:
  fixes g :: "('t, 'n) guest"
  assumes "ClientEnrollOrRenew L T E opts now g = (r, g')"
  shows "case r of
      Inl e \<Rightarrow> g_files g' (certPath opts) = g_files g (certPath opts)
    | Inr _ \<Rightarrow>
        g_files g' = g_files g \<and> g_past g' = g_past g \<and> fits L T E opts now g \<or>
        (\<exists>dev pem. issued_for L T E opts dev pem \<and> pem \<noteq> [] \<and> (key_kept opts g dev \<or> key_lost L T opts g) \<and>
           contents g' (certPath opts) = Some pem \<and> key_kept opts g' dev \<and>
           (\<forall>p \<in> {certPath opts, privPath opts, pubPath opts}. map_option f_Mode (g_files g' p) = Some 0x180))"
proof (cases "disk g' = disk g \<and> (r = Inr () \<longrightarrow> fits L T E opts now g)")
  case True
  then show ?thesis by (auto simp: disk_def split: sum.split)
next
  case False
  with run_disk [OF assms] obtain oldPEM pem dev and u u' :: "('t, 'n) guest" where
    store: "ClientStore E opts oldPEM pem (k_PrivateBlob dev) (k_PublicBlob dev) u = (r, u')"
    and d: "disk u = disk g" "disk g' = disk u'" and i: "issued_for L T E opts dev pem" "pem \<noteq> []" "key_kept opts g dev \<or> key_lost L T opts g"
    by blast
  have F: "g_files u = g_files g" "g_files g' = g_files u'" using d by (simp_all add: disk_def)
  obtain W X Y where S: "store_states E opts u (oldPEM \<noteq> pem \<and> SpireDataDir opts \<noteq> []) pem (k_PrivateBlob dev) (k_PublicBlob dev) = [W, X, Y]"
    by (simp add: store_states_def Let_def)
  note S' = store_maps [OF S F(1)]
  note e = conjunct2 [OF store_effect [OF store refl S]]
  have p: "g_files g' p = vis (g_files u') p" "g_files g p = vis (g_files g) p" if "\<not> hidden p" for p using that F(2) by (simp_all add: vis_def)
  show ?thesis
  proof (cases r)
    case (Inl err)
    with e F(1) have "lacks (svid_cache (SpireDataDir opts)) (vis (g_files g)) (vis (g_files u')) \<or> vis (g_files u') \<in> {W, X}" by simp
    then have "vis (g_files u') (certPath opts) = vis (g_files g) (certPath opts)"
      using distinct_paths(4) [of opts "SpireDataDir opts"] unfolding lacks_def by (auto simp only: S' fun_upd_apply distinct_paths store_base_paths
          insert_iff empty_iff if_False)
    with Inl show ?thesis by (simp add: p)
  next
    case (Inr x)
    with e have "vis (g_files u') = Y" by simp
    then have "g_files g' (certPath opts) = Some (new_file E u (certPath opts) pem)"
      "g_files g' (privPath opts) = Some (new_file E u (privPath opts) (k_PrivateBlob dev))"
      "g_files g' (pubPath opts) = Some (new_file E u (pubPath opts) (k_PublicBlob dev))"
      by (simp_all add: p S')
    with i Inr show ?thesis by (auto simp: key_kept_def contents_def new_file_def)
  qed
qed

text \<open>
  C38: a file is replaced whole, once, and keeps its owner. The states the disk shows while it is written are the old
  and the new one; an error leaves the old one; otherwise the file has exactly the given contents and mode
  and, when root writes it, the owner of the file it replaces or else of the directory. No other visible file changes.
\<close>

theorem replaced_atomically:
  assumes "writeFileAtomic E p data mode g = (r, g')" "\<not> hidden p"
  shows "(\<forall>q. \<not> hidden q \<and> q \<noteq> p \<longrightarrow> g_files g' q = g_files g q) \<and>
    g_files g' p = (case r of Inl _ \<Rightarrow> g_files g p
      | Inr _ \<Rightarrow> Some \<lparr>f_Data = data, f_Mode = mode,
          f_Owner = (if Geteuid E \<noteq> 0 then (Geteuid E, Getegid E)
             else case g_files g p of Some f \<Rightarrow> f_Owner f | None \<Rightarrow> the (g_dirs g (fst p)))\<rparr>) \<and>
    (\<forall>s \<in> set (g_past g') - set (g_past g). vis s = vis (g_files g) \<or> vis s = vis (g_files g'))"
proof (cases r)
  case (Inl e)
  with safeD [OF safe_writeFileAtomic assms(1) [unfolded Inl]] assms(2) show ?thesis
    by (auto simp: unseen_def visits_def intro: visible_eq)
next
  case (Inr x)
  note w = write_Inr [OF assms(1) [unfolded Inr] assms(2)]
  have "g_files g' q = g_files g q" if "\<not> hidden q" "q \<noteq> p" for q using fun_cong [OF w(1), of q] that by (simp add: vis_def)
  moreover have "g_files g' p = vis (g_files g') p" using assms(2) by (simp add: vis_def)
  ultimately show ?thesis
    using w Inr by (auto simp: visits_def kept_owner_def)
qed

subsection \<open>A run and the TPM\<close>

definition guest_watch :: "'t watch \<Rightarrow> ('t, 'n) guest watch" where
  "guest_watch W = \<lparr>loaded = (\<lambda>g. loaded W (g_tpm g)), open_sessions = (\<lambda>g. open_sessions W (g_tpm g)),
     stuck = (\<lambda>g. stuck W (g_tpm g)), peak = (\<lambda>g. peak W (g_tpm g))\<rparr>"

lemma guest_watch_sel [simp]: "objs (guest_watch W) g = objs W (g_tpm g)" "sess (guest_watch W) g = sess W (g_tpm g)"
  "peak (guest_watch W) g = peak W (g_tpm g)"
  by (simp_all add: guest_watch_def objs_def sess_def)

lemma uses_on_tpm: "uses W n m H \<Longrightarrow> uses (guest_watch W) n (on_tpm m) H"
  by (rule usesI) (auto simp: on_tpm_def split: prod.splits dest: usesE)

lemma owns_on_tpm:
  assumes "owns W own n m H"
  shows "owns (guest_watch W) own n (on_tpm m) H"
proof (rule ownsI, unfold guest_watch_sel)
  fix g r g'
  assume own: "own \<subseteq> objs W (g_tpm g)" "own \<inter> sess W (g_tpm g) = {}" "Ball own transient" and "on_tpm m g = (r, g')"
  then have "m (g_tpm g) = (r, g_tpm g')" by (auto simp: on_tpm_def split: prod.splits)
  with assms [unfolded owns_def] own show "sess W (g_tpm g') = sess W (g_tpm g) \<and>
    peak W (g_tpm g') \<le> max (peak W (g_tpm g)) (card (objs W (g_tpm g)) + n) \<and>
    (case r of Inl e \<Rightarrow> objs W (g_tpm g') = objs W (g_tpm g) - own
     | Inr a \<Rightarrow> H a \<inter> (objs W (g_tpm g) - own \<union> sess W (g_tpm g)) = {} \<and> objs W (g_tpm g') = objs W (g_tpm g) - own \<union> H a \<and> Ball (H a) transient)"
    by blast
qed

lemma uses_offline: "keeps g_tpm m \<Longrightarrow> uses (guest_watch W) n m (\<lambda>_. {})"
  by (rule uses_unmoved) (auto simp: unmoved_def dest: keepsD)

lemma keeps_on_error: "keeps sel m \<Longrightarrow> (\<And>g. sel (clean g) = sel g) \<Longrightarrow> keeps sel (on_error clean m)"
  unfolding keeps_def on_error_def by (auto split: prod.split sum.split) (metis snd_conv)+

lemma offline_file [simp]: "g_tpm (set_file p v g) = g_tpm g" "g_tpm (change_file p c g) = g_tpm g"
  by (simp_all add: set_file_def change_file_def Let_def)

lemma offline_Remove: "os_Remove p g = (b, g') \<Longrightarrow> g_tpm g' = g_tpm g" "g_tpm (snd (os_Remove p g)) = g_tpm g"
  by (auto simp: os_Remove_def next_call_eq split: option.splits list.splits)

lemma offline_update: "keeps g_tpm (\<lambda>g. (Inr u, change_file p c g))"
  by (simp add: keeps_def)

lemma offline_owner: "keeps g_tpm (keepOwner E f p)"
proof -
  have s: "syscall w g = (q, u) \<Longrightarrow> g_tpm u = g_tpm g" for w q and g u :: "('a, 'b) guest"
    by (rule keepsD [OF keeps_syscall]) simp_all
  have "keeps g_tpm (owner_of p :: ('a, 'b, _) client)"
    unfolding owner_of_def keeps_def
    by (auto simp: act_bind_def fail_def act_fail_def split: prod.split sum.split option.split dest!: s)
  then show ?thesis
    unfolding keepOwner_def by (intro keeps_if keeps_basic keeps_bind keeps_syscall offline_update) simp_all
qed

lemma offline_write: "keeps g_tpm (writeFileAtomic E p data mode)"
proof -
  have "keeps g_tpm (CreateTemp E p :: ('a, 'b, _) client)" "keeps g_tpm (os_Rename q p :: ('a, 'b, _) client)" for q
    unfolding CreateTemp_def os_Rename_def
    by (intro keeps_bind keeps_syscall; simp add: keeps_def Let_def fail_def act_fail_def)+
  moreover have "keeps g_tpm (f_Write q data)" for q
    by (simp add: keeps_def f_Write_def next_call_eq split: option.split)
  ultimately show ?thesis
    unfolding writeFileAtomic_def
    by (intro keeps_bind keeps_on_error keeps_syscall offline_update offline_owner offline_Remove(2)) simp_all
qed

lemma offline_remove_all: "keeps g_tpm (remove_all ps)"
  unfolding keeps_def
proof
  show "g_tpm (snd (remove_all ps g)) = g_tpm g" for g :: "('a, 'b) guest"
    by (induction ps arbitrary: g) (auto simp: fail_def act_fail_def split: prod.split bool.split dest: offline_Remove(1))
qed

lemma offline_store: "keeps g_tpm (ClientStore E opts a b c d)"
  unfolding ClientStore_def Let_def ClearSPIREAgentSVIDCache_def
  by (intro keeps_bind keeps_if keeps_basic offline_remove_all offline_write) (simp add: keeps_def TryRestartSPIREAgent_def)

lemma offline_mkdir: "keeps g_tpm (MkdirAll E d)"
  unfolding MkdirAll_def by (intro keeps_bind keeps_syscall) (simp_all add: keeps_def)

lemma uses_exchange:
  assumes T: "tpm_ok W T"
  shows "uses (guest_watch W) 1 (ClientExchange L T E f opts sr res h) (\<lambda>_. {})"
proof -
  have http: "uses (guest_watch W) 1 (httpPostJSON E url body ek) (\<lambda>_. {})" for url body ek
    by (rule uses_offline, rule keeps_metadata(2)) simp
  have fin: "uses (guest_watch W) 1 (if pem = [] then fail w else act_return pem) (\<lambda>_. {})" for pem w
    by (rule uses_offline) simp
  show ?thesis
    unfolding ClientExchange_def Let_def
    by (auto intro!: uses_bind uses_opt http fin uses_on_tpm uses_HashAndSign [OF T] uses_Activate [OF T]
        simp del: One_nat_def) (simp add: fail_def uses_fail)
qed

lemma offline_judge: "judge_certificate L opts now g = (v, g') \<Longrightarrow> g_tpm g' = g_tpm g \<and> v_devID v = None"
  "judge_name E opts w g = (r, g') \<Longrightarrow> g_tpm g' = g_tpm g" "judge_name E opts w g = (Inr v, g') \<Longrightarrow> v_devID v = v_devID w"
proof -
  have "LoadCertPEMFile L p g = (r, g') \<Longrightarrow> g_tpm g' = g_tpm g" for p r g'
    by (rule keepsD [OF keeps_read(2)]) simp_all
  then show "judge_certificate L opts now g = (v, g') \<Longrightarrow> g_tpm g' = g_tpm g \<and> v_devID v = None"
    by (auto simp: judge_certificate_def split: prod.splits sum.splits option.splits)
  have "keeps g_tpm (judge_name E opts w)"
    unfolding judge_name_def by (auto split: option.split intro!: keeps_bind keeps_ReadVMID)
  then show "judge_name E opts w g = (r, g') \<Longrightarrow> g_tpm g' = g_tpm g" by (rule keepsD)
  show "judge_name E opts w g = (Inr v, g') \<Longrightarrow> v_devID v = v_devID w"
    by (cases "v_existing w") (auto simp: judge_name_def act_return_def bind_Inr)
qed

lemma uses_judge_key:
  assumes T: "tpm_ok W T" and v: "v_devID v0 = None"
  shows "uses (guest_watch W) 2 (judge_key L T f v0 pub priv) (\<lambda>v. own_key (v_devID v))"
proof -
  note u = uses_on_tpm [OF uses_LoadDevID [OF T, of L f pub priv]]
  show ?thesis
  proof (rule usesI)
    fix g e g' assume "judge_key L T f v0 pub priv g = (Inl e, g')"
    then have "on_tpm (LoadDevID L T f pub priv) g = (Inl e, g')"
      by (auto simp: judge_key_def Let_def split: if_splits prod.splits sum.splits devid_error.splits)
    from usesE(1) [OF u this] show "sess (guest_watch W) g' = sess (guest_watch W) g \<and>
      peak (guest_watch W) g' \<le> max (peak (guest_watch W) g) (card (objs (guest_watch W) g) + 2) \<and> objs (guest_watch W) g' = objs (guest_watch W) g" .
  next
    fix g v g' assume run: "judge_key L T f v0 pub priv g = (Inr v, g')"
    then consider "g' = g" "v_devID v = None" | e where "on_tpm (LoadDevID L T f pub priv) g = (Inl e, g')" "v_devID v = None"
      | d where "on_tpm (LoadDevID L T f pub priv) g = (Inr d, g')" "v_devID v = Some d"
      using v by (auto simp: judge_key_def Let_def split: if_splits prod.splits sum.splits devid_error.splits)
    then show "sess (guest_watch W) g' = sess (guest_watch W) g \<and>
      peak (guest_watch W) g' \<le> max (peak (guest_watch W) g) (card (objs (guest_watch W) g) + 2) \<and>
      own_key (v_devID v) \<inter> (objs (guest_watch W) g \<union> sess (guest_watch W) g) = {} \<and>
      objs (guest_watch W) g' = objs (guest_watch W) g \<union> own_key (v_devID v) \<and> Ball (own_key (v_devID v)) transient"
    proof cases
      case 1
      then show ?thesis by (simp add: own_key_def)
    next
      case (2 e)
      with usesE(1) [OF u 2(1)] show ?thesis by (simp add: own_key_def)
    next
      case (3 d)
      with usesE(2) [OF u 3(1)] show ?thesis by (simp add: own_key_def)
    qed
  qed
qed

lemma uses_prepared:
  assumes "\<And>g. g_tpm (h g) = g_tpm g" and "\<And>g. uses (guest_watch W) n (m (f g)) H"
  shows "uses (guest_watch W) n (\<lambda>g. m (f g) (h g)) H"
proof (rule usesI, unfold guest_watch_sel)
  fix g e g' assume "m (f g) (h g) = (Inl e, g')"
  from usesE(1) [OF assms(2) this] show "sess W (g_tpm g') = sess W (g_tpm g) \<and>
    peak W (g_tpm g') \<le> max (peak W (g_tpm g)) (card (objs W (g_tpm g)) + n) \<and> objs W (g_tpm g') = objs W (g_tpm g)"
    by (simp add: assms(1))
next
  fix g a g' assume "m (f g) (h g) = (Inr a, g')"
  from usesE(2) [OF assms(2) this] show "sess W (g_tpm g') = sess W (g_tpm g) \<and>
    peak W (g_tpm g') \<le> max (peak W (g_tpm g)) (card (objs W (g_tpm g)) + n) \<and>
    H a \<inter> (objs W (g_tpm g) \<union> sess W (g_tpm g)) = {} \<and> objs W (g_tpm g') = objs W (g_tpm g) \<union> H a \<and> Ball (H a) transient"
    by (simp add: assms(1))
qed

lemma owns_prepared:
  assumes "\<And>g. g_tpm (h g) = g_tpm g" and "\<And>g. owns (guest_watch W) own n (m (f g)) H"
  shows "owns (guest_watch W) own n (\<lambda>g. m (f g) (h g)) H"
proof (rule ownsI, unfold guest_watch_sel)
  fix g r g' assume "own \<subseteq> objs W (g_tpm g)" "own \<inter> sess W (g_tpm g) = {}" "Ball own transient" "m (f g) (h g) = (r, g')"
  with assms(2) [of g, unfolded owns_def guest_watch_sel, rule_format, of "h g" r g', unfolded assms(1)]
  show "sess W (g_tpm g') = sess W (g_tpm g) \<and> peak W (g_tpm g') \<le> max (peak W (g_tpm g)) (card (objs W (g_tpm g)) + n) \<and>
    (case r of Inl e \<Rightarrow> objs W (g_tpm g') = objs W (g_tpm g) - own
     | Inr a \<Rightarrow> H a \<inter> (objs W (g_tpm g) - own \<union> sess W (g_tpm g)) = {} \<and> objs W (g_tpm g') = objs W (g_tpm g) - own \<union> H a \<and> Ball (H a) transient)"
    by blast
qed

lemma offline_name: "keeps g_tpm (judge_name E opts w)"
  by (simp add: keeps_def offline_judge(2) [OF prod.collapse [symmetric]])

lemma uses_decide:
  assumes T: "tpm_ok W T"
  shows "uses (guest_watch W) 2 (ClientDecide L T E opts now) (\<lambda>v. own_key (v_devID v))"
proof -
  let ?f = "factory_of L T opts"
  let ?k = "\<lambda>v. act_bind (readBlob (pubPath opts)) (\<lambda>pubBlob. act_bind (readBlob (privPath opts)) (\<lambda>privBlob. judge_key L T ?f v pubBlob privBlob))"
  have k: "uses (guest_watch W) 2 (?k v) (\<lambda>v. own_key (v_devID v))" if "v_devID v = None" for v
    by (intro uses_bind [OF uses_offline [OF keeps_read(1)]] uses_judge_key [OF T that]) simp_all
  have guarded: "uses (guest_watch W) 2 (act_bind (judge_name E opts v) (\<lambda>w. if v_devID w = None then ?k w else act_fail (Failure [] None)))
      (\<lambda>v. own_key (v_devID v))" for v
    by (rule uses_bind [OF uses_offline [OF offline_name]]) (simp add: k uses_fail)
  have same: "act_bind (judge_name E opts v) (\<lambda>w. if v_devID w = None then ?k w else act_fail (Failure [] None)) = act_bind (judge_name E opts v) ?k"
    if "v_devID v = None" for v
    using that by (auto simp: act_bind_def fun_eq_iff split: prod.split sum.split dest: offline_judge(3))
  have named: "uses (guest_watch W) 2 (act_bind (judge_name E opts v) ?k) (\<lambda>v. own_key (v_devID v))" if "v_devID v = None" for v
    using guarded [of v] unfolding same [OF that] .
  have cert: "g_tpm (snd (judge_certificate L opts now g)) = g_tpm g" "v_devID (fst (judge_certificate L opts now g)) = None" for g :: "('a, 'b) guest"
    using offline_judge(1) [OF prod.collapse [symmetric], of L opts now g] by simp_all
  have "uses (guest_watch W) 2 (\<lambda>g. act_bind (judge_name E opts (fst (judge_certificate L opts now g))) ?k (snd (judge_certificate L opts now g)))
      (\<lambda>v. own_key (v_devID v))"
    by (rule uses_prepared [where m = "\<lambda>v. act_bind (judge_name E opts v) ?k", OF cert(1) named [OF cert(2)]])
  moreover have "ClientDecide L T E opts now = (\<lambda>g. act_bind (judge_name E opts (fst (judge_certificate L opts now g))) ?k (snd (judge_certificate L opts now g)))"
    by (simp add: fun_eq_iff ClientDecide_def case_prod_beta)
  ultimately show ?thesis by simp
qed

lemma card_keys: "card (res_keys res) \<le> 2" "card (own_key k) \<le> 1"
proof -
  have one: "card (own_key k) \<le> 1" for k by (simp add: own_key_def split: option.split)
  from card_Un_le [of "own_key (rr_Attestation res)" "own_key (rr_DevID res)"] one [of "rr_Attestation res"] one [of "rr_DevID res"]
  show "card (res_keys res) \<le> 2" by (simp add: res_keys_def)
  show "card (own_key k) \<le> 1" by (rule one)
qed

lemma releases_tpm_only: "releases W H c \<Longrightarrow> releases (guest_watch W) H (tpm_only c)"
  by (simp add: releases_def tpm_only_def)

lemma offline_old: "g_tpm (snd (read_old opts c g)) = g_tpm g"
proof -
  have "os_ReadFile p g = (r, g') \<Longrightarrow> g_tpm g' = g_tpm g" for p r g' by (rule read_frame) simp_all
  then show ?thesis by (auto simp: read_old_def split: prod.split sum.split option.split)
qed

lemma owns_renew:
  assumes T: "tpm_ok W T"
  shows "owns (guest_watch W) (own_key (v_devID v)) (3 - card (own_key (v_devID v))) (ClientRenew L T E opts v) (\<lambda>_. {})"
proof -
  let ?f = "factory_of L T opts" and ?G = "guest_watch W :: ('a, 'b) guest watch"
  let ?work = "\<lambda>old p. act_bind (MkdirAll E (OutDir opts)) (\<lambda>_.
             act_bind (ClientExchange L T E ?f opts (fst p) (snd p) (k_Handle (the (rr_DevID (snd p))))) (\<lambda>newPEM.
               ClientStore E opts old newPEM (k_PrivateBlob (the (rr_DevID (snd p)))) (k_PublicBlob (the (rr_DevID (snd p))))))"
  let ?m = "\<lambda>old. act_bind (on_tpm (CreateSigningRequestWithKey L T ?f (PlatformCN opts) (v_devID v))) (\<lambda>p.
          deferred (tpm_only (release T (snd p))) (?work old p))"
  have fin: "finite (objs ?G g)" for g using flush_facts(4) [OF T] by simp
  have work: "uses ?G 1 (?work old p) (\<lambda>_. {})" for old p
    by (intro uses_bind uses_exchange [OF T] uses_offline offline_mkdir offline_store)
  have rel: "releases ?G (res_keys (snd p)) (tpm_only (release T (snd p)))" if "Ball (res_keys (snd p)) transient" for p :: "SigningRequest \<times> RequestResources"
    using releases_tpm_only [OF releases_release [OF T]] that by (simp add: res_keys_def)
  have "owns ?G (own_key (v_devID v)) (3 - card (own_key (v_devID v))) (?m old) (\<lambda>_. {})" for old
  proof (rule owns_bind_deferred [OF fin owns_on_tpm [OF owns_request [OF T]] work rel])
    show "card (res_keys (snd p)) + 1 \<le> 3 - card (own_key (v_devID v)) + card (own_key (v_devID v))" for p :: "SigningRequest \<times> RequestResources"
      using card_keys(1) [of "snd p"] card_keys(2) [of "v_devID v"] by simp
  qed simp_all
  then have "owns ?G (own_key (v_devID v)) (3 - card (own_key (v_devID v)))
      (\<lambda>g. ?m (fst (read_old opts (v_existing v) g)) (snd (read_old opts (v_existing v) g))) (\<lambda>_. {})"
    by (rule owns_prepared [where m = ?m, OF offline_old])
  moreover have "ClientRenew L T E opts v g = (?m (fst (read_old opts (v_existing v) g)) (snd (read_old opts (v_existing v) g)))" for g
    unfolding ClientRenew_def Let_def case_prod_beta by (rule refl)
  then have "ClientRenew L T E opts v = (\<lambda>g. ?m (fst (read_old opts (v_existing v) g)) (snd (read_old opts (v_existing v) g)))" by (rule ext)
  ultimately show ?thesis by simp
qed

text \<open>
  C7: a run leaves nothing of its own in the TPM that the TPM lets go. The TPM may fail any command at any time, a
  flush included, whose error the program ignores. Whatever the run does and wherever it fails, the objects and the
  sessions that are loaded afterwards are those that were loaded before and those of its own that it did flush, but that
  the TPM refused to release; none of the former is flushed. On the way never more than three more objects are loaded,
  again but for those that the TPM refused to release: a TPM need not hold more.
\<close>

theorem tpm_left_clean:
  fixes g :: "('t, 'n) guest"
  assumes T: "tpm_ok W T" and run: "ClientEnrollOrRenew L T E opts now g = (r, g')"
  shows "loaded W (g_tpm g') - stuck W (g_tpm g') = loaded W (g_tpm g) - stuck W (g_tpm g) \<and>
    open_sessions W (g_tpm g') - stuck W (g_tpm g') = open_sessions W (g_tpm g) - stuck W (g_tpm g) \<and>
    peak W (g_tpm g') \<le> max (peak W (g_tpm g)) (card (loaded W (g_tpm g) - stuck W (g_tpm g)) + 3)"
proof -
  let ?G = "guest_watch W :: ('t, 'n) guest watch"
  let ?k = "\<lambda>v g. if v_reason v = []
        then (Inr (), case v_devID v of None \<Rightarrow> g | Some d \<Rightarrow> tpm_only (FlushTransient T (k_Handle d)) g)
        else ClientRenew L T E opts v (LogRenewReason (OutDir opts) (v_reason v) (v_detail v) g)"
  have fin: "finite (objs ?G g)" for g using flush_facts(4) [OF T] by simp
  have k: "owns ?G (own_key (v_devID v)) (3 - card (own_key (v_devID v))) (?k v) (\<lambda>_. {})" for v
  proof (cases "v_reason v = []")
    case True
    then show ?thesis
      by (auto simp: owns_def own_key_def tpm_only_def FlushTransient_transient flush_facts [OF T] split: option.splits)
  next
    case False
    have "owns ?G (own_key (v_devID v)) (3 - card (own_key (v_devID v)))
        (\<lambda>g. ClientRenew L T E opts v (LogRenewReason (OutDir opts) (v_reason v) (v_detail v) g)) (\<lambda>_. {})"
      by (rule owns_prepared [where m = "\<lambda>_. ClientRenew L T E opts v", OF _ owns_renew [OF T]]) (simp add: LogRenewReason_def)
    with False show ?thesis by simp
  qed
  have "uses ?G 3 (act_bind (ClientDecide L T E opts now) ?k) (\<lambda>_. {})"
  proof (rule uses_owns [OF fin uses_decide [OF T] k])
    show "card (own_key (v_devID v)) + (3 - card (own_key (v_devID v))) \<le> 3" for v
      using card_keys(2) [of "v_devID v"] by simp
  qed simp
  then have "uses ?G 3 (ClientEnrollOrRenew L T E opts now) (\<lambda>_. {})"
    by (simp add: ClientEnrollOrRenew_def uses_fail fail_def)
  from usesE [OF this, of g] run show ?thesis
    unfolding objs_def [symmetric] sess_def [symmetric] by (cases r) auto
qed

subsection \<open>A guest to compute with\<close>

text \<open>
  A TPM with three slots and one session, whose keys are their names; and a service that answers
  every request alike.
\<close>

record sampleT =
  st_objs :: "handle list"
  st_sess :: "handle list"
  st_peak :: nat

definition sample_load :: "'a \<Rightarrow> sampleT \<Rightarrow> (tpm_error + handle \<times> 'a) \<times> sampleT" where
  "sample_load a t =
     (case find (\<lambda>h. h \<notin> set (st_objs t) \<union> set (st_sess t)) [0x80000000, 0x80000001, 0x80000002] of
        None \<Rightarrow> (Inl (Warning ByValue 0x902), t)
      | Some h \<Rightarrow>
          (Inr (h, a), t\<lparr>st_objs := h # st_objs t, st_peak := max (st_peak t) (card (set (h # st_objs t)))\<rparr>))"

definition sample_handle :: "sampleT \<Rightarrow> (tpm_error + handle) \<times> sampleT" where
  "sample_handle t = (case sample_load () t of (Inl e, t') \<Rightarrow> (Inl e, t') | (Inr (h, _), t') \<Rightarrow> (Inr h, t'))"

definition sample_flush :: "handle \<Rightarrow> sampleT \<Rightarrow> sampleT" where
  "sample_flush h t = t\<lparr>st_objs := filter (\<lambda>x. x \<noteq> h) (st_objs t), st_sess := filter (\<lambda>x. x \<noteq> h) (st_sess t)\<rparr>"

definition sample_session :: "sampleT \<Rightarrow> (tpm_error + handle) \<times> sampleT" where
  "sample_session t =
     (if 0x03000000 \<in> set (st_objs t) \<union> set (st_sess t) then (Inl (Warning ByValue 0x903), t)
      else (Inr 0x03000000, t\<lparr>st_sess := 0x03000000 # st_sess t\<rparr>))"

definition sampleTpm :: "sampleT tpm" where
  "sampleTpm =
     \<lparr>RCIntegrity = 0x1f, RCBinding = 0x25, RCSensitive = 0x55, RCRetry = 0x22, AlgRSAPSS = 22, AlgECDSA = 24,
      HandleOwner = 0x40000001, HandleEndorsement = 0x4000000b, DefaultEKTemplateRSA = samplePub ''e'', SRKTemplateRSA = samplePub ''s'',
      CreatePrimaryEx = (\<lambda>h p. sample_load (PubUnique p)),
      CreateKeyUsingAuth = (\<lambda>h p t. (Inr (''private'', PubUnique p), t)),
      LoadUsingAuth = (\<lambda>h pub priv. sample_handle), FlushContext = (\<lambda>h t. (Inr (), sample_flush h t)),
      NVRead = (\<lambda>h t. (Inr ''e'', t)), Certify = (\<lambda>a b t. (Inr (''data'', ''sig''), t)), ReadPublic = (\<lambda>h t. (Inr (samplePub ''d''), t)),
      tpm_Hash = (\<lambda>a d h t. (Inr (d, []), t)), HashSequenceStart = (\<lambda>a. sample_handle), SequenceUpdate = (\<lambda>s d t. (Inr (), t)),
      SequenceComplete = (\<lambda>s h d t. (Inr (d, []), sample_flush s t)),
      tpm_Sign = (\<lambda>h d k s t. (Inr \<lparr>sig_Alg = 20, sig_RSA = ''sig'', sig_ECC = (0, 0)\<rparr>, t)),
      StartAuthSession = sample_session, PolicySecret = (\<lambda>a b t. (Inr (), t)),
      ActivateCredentialUsingAuth = (\<lambda>s a e c d t. (Inr ''secret'', t)),
      DecodeSignature = (\<lambda>b. Some \<lparr>sig_Alg = 20, sig_RSA = b, sig_ECC = (0, 0)\<rparr>), ecdsa_Bytes = (\<lambda>p. None)\<rparr>"

definition sampleWatch :: "sampleT watch" where
  "sampleWatch = \<lparr>loaded = set \<circ> st_objs, open_sessions = set \<circ> st_sess, stuck = (\<lambda>t. {}), peak = st_peak\<rparr>"

lemma sample_find:
  assumes "find (\<lambda>h. h \<notin> set (xs :: handle list) \<and> h \<notin> set ys) [0x80000000, 0x80000001, 0x80000002] = Some h"
  shows "transient h" "h \<notin> set xs" "h \<notin> set ys"
  using assms by (auto simp: transient_def split: if_splits)

lemma sample_loads: "loads sampleWatch (sample_load a) fst" "loads sampleWatch sample_handle id"
  by (auto simp: loads_def sample_load_def sample_handle_def untouched_def sampleWatch_def simp del: find.simps split: option.split
      dest: sample_find)

lemma sample_ok: "tpm_ok sampleWatch sampleTpm"
proof -
  have still: "still sampleWatch (\<lambda>t. (r, t))" for r :: "tpm_error + 'x" by (simp add: still_def untouched_def)
  have gone: "gone sampleWatch h t (sample_flush h t)" for h t
    by (auto simp: gone_def sample_flush_def sampleWatch_def)
  then have "flushes sampleWatch (\<lambda>h t. (Inr (), sample_flush h t))" by (simp add: flushes_def)
  moreover have "opens sampleWatch sample_session"
    by (auto simp: opens_def sample_session_def sampleWatch_def untouched_def)
  moreover have "completes sampleWatch s (\<lambda>t. (Inr d, sample_flush s t))" for s and d :: "string \<times> string"
    using gone by (simp add: completes_def)
  ultimately show ?thesis
    by (simp add: tpm_ok_def sampleTpm_def still sample_loads) (simp add: sampleWatch_def)
qed

definition sampleEnv :: "unit env" where
  "sampleEnv = \<lparr>Geteuid = 0, Getegid = 0, tempSuffix = (\<lambda>p m. ''1''), url_ok = (\<lambda>u. True),
     http_Do = (\<lambda>req n. (Some (200, Some ''answer''), n)), MarshalStartRequest = (\<lambda>r. []), MarshalFinishRequest = (\<lambda>r. []),
     UnmarshalStartResponse = (\<lambda>b. Some \<lparr>StartSessionID = ''1'', CredentialBlobB64 = [], SecretB64 = []\<rparr>),
     UnmarshalFinishResponse = (\<lambda>b. Some ''PEM'')\<rparr>"

definition sampleFactory :: KeyFactory where
  "sampleFactory = \<lparr>EKTemplate = samplePub ''e'', SRKTemplate = samplePub ''s'', AKTemplate = samplePub ''a'', DevIDTemplate = samplePub ''d''\<rparr>"

definition sampleOpts :: ClientOptions where
  "sampleOpts = \<lparr>MDSBaseURL = ''http://mds'', PlatformCN = [], OutDir = ''/devid'', SpireDataDir = [], opt_Factory = Some sampleFactory\<rparr>"

definition sampleGuest :: "(sampleT, unit) guest" where
  "sampleGuest = \<lparr>g_tpm = \<lparr>st_objs = [], st_sess = [], st_peak = 0\<rparr>, g_net = (), g_files = Map.empty, g_dirs = [''/devid'' \<mapsto> (5, 5)],
     g_calls = [], g_past = [], g_log = [], g_sleeps = 0, g_restarts = 0\<rparr>"

definition guestLib :: lib where
  "guestLib = sampleLib\<lparr>json_MarshalWire := (\<lambda>w. ''wire''), pub_Encode := (\<lambda>p. Some (PubUnique p))\<rparr>"

definition sampleRun :: "(devid_error + unit) \<times> (sampleT, unit) guest" where
  "sampleRun = ClientEnrollOrRenew guestLib sampleTpm sampleEnv sampleOpts 0 sampleGuest"

lemmas act_simps = act_bind_def act_return_def act_fail_def act_cmd_def act_opt_def deferred_def on_error_def wrap_error_def fail_def

definition sampleVerdict :: verdict where
  "sampleVerdict = \<lparr>v_existing = None, v_reason = ''no certificate'', v_detail = NoDetail, v_devID = None\<rparr>"

lemma sample_decide: "ClientDecide guestLib sampleTpm sampleEnv sampleOpts 0 sampleGuest = (Inr sampleVerdict, sampleGuest)"
  by (simp add: ClientDecide_def judge_certificate_def LoadCertPEMFile_def os_ReadFile_def next_call_def sampleGuest_def
      sampleVerdict_def judge_name_def act_simps readBlob_def judge_key_def)

definition sampleKey :: "handle \<Rightarrow> string \<Rightarrow> string \<Rightarrow> KeyInfo" where
  "sampleKey h n priv = \<lparr>k_Handle = h, k_Public = samplePub n, k_PublicBlob = n, k_PrivateBlob = priv, k_Template = samplePub n\<rparr>"

lemma sample_primary: "createPrimaryKey guestLib sampleTpm hier p t =
    (case sample_load (PubUnique p) t of (Inl e, t') \<Rightarrow> (Inl (Failure ''CreatePrimary'' (Some e)), t')
     | (Inr (h, b), t') \<Rightarrow> (Inr \<lparr>k_Handle = h, k_Public = samplePub b, k_PublicBlob = b, k_PrivateBlob = [], k_Template = p\<rparr>, t'))"
  by (simp add: createPrimaryKey_def act_simps sampleTpm_def guestLib_def sampleLib_def split: prod.split sum.split)

lemma sample_certify: "certifyWithRetry guestLib sampleTpm a b t = (Inr (''data'', ''sig''), t)"
proof -
  have "(5::nat) = Suc 4" by simp
  then show ?thesis
    unfolding certifyWithRetry_def by (simp only: certify_loop.simps) (simp add: sampleTpm_def guestLib_def sampleLib_def signatureBytes_def)
qed

lemma sample_commands:
  "flushed sampleTpm = sample_flush" "LoadUsingAuth sampleTpm h a b = sample_handle" "NVRead sampleTpm h t = (Inr ''e'', t)"
  "CreateKeyUsingAuth sampleTpm h p t = (Inr (''private'', PubUnique p), t)" "DecodePublic guestLib b = Some (samplePub b)"
  "parseCertificateLoose guestLib d = Some (sampleCert d)" "StartAuthSession sampleTpm = sample_session" "PolicySecret sampleTpm h k t = (Inr (), t)"
  "ActivateCredentialUsingAuth sampleTpm q h k a b t = (Inr ''secret'', t)"
  by (simp_all add: fun_eq_iff flushed_def sampleTpm_def guestLib_def sampleLib_def parseCertificateLoose_def)

definition sampleReq :: SigningRequest where
  "sampleReq = \<lparr>PlatformIdentity = [], EndorsementCertificate = Some (sampleCert ''e''), EndorsementKey = Some (samplePub ''e''),
     AttestationKey = Some (samplePub ''a''), DevIDKey = Some (samplePub ''d''), CertifyData = ''data'', CertifySignature = ''sig''\<rparr>"

definition sampleRes :: RequestResources where
  "sampleRes = \<lparr>rr_Attestation = Some (sampleKey 0x80000001 ''a'' ''private''), rr_Endorsement = Some (sampleKey 0 ''e'' []),
     rr_DevID = Some (sampleKey 0x80000002 ''d'' ''private'')\<rparr>"

definition sampleBusy :: sampleT where
  "sampleBusy = \<lparr>st_objs = [0x80000002, 0x80000001], st_sess = [], st_peak = 3\<rparr>"

lemma sample_request:
  "CreateSigningRequestWithKey guestLib sampleTpm sampleFactory [] None \<lparr>st_objs = [], st_sess = [], st_peak = 0\<rparr>
    = (Inr (sampleReq, sampleRes), sampleBusy)"
  by (simp add: CreateSigningRequestWithKey_def Let_def act_simps CreateEK_def CreateAK_def CreateDevID_def createUnderSRK_def CreateSRK_def sample_primary
     createLoadedKey_def sample_load_def sample_commands sample_certify sample_flush_def sample_handle_def sampleFactory_def
     sampleReq_def sampleRes_def sampleBusy_def sampleKey_def) (simp add: samplePub_def)

lemma sample_sign: "HashAndSign guestLib sampleTpm h h' ''wire'' t = (Inr ''sig'', t)"
  by (simp add: HashAndSign_def act_simps tpmHash_def maxDigestBuffer_def sampleTpm_def SignatureScheme_def samplePub_def sampleAttributes_def
      guestLib_def sampleLib_def signatureBytes_def)

lemma sample_activate: "Activate guestLib sampleTpm sampleFactory sampleRes c s sampleBusy = (Inr ''secret'', sampleBusy)"
  by (simp add: Activate_def sampleRes_def act_simps CreateEK_def sample_primary sample_load_def sampleBusy_def ActivateCredential_def
      endorsementPolicySession_def sample_commands sample_flush_def sampleFactory_def sample_session_def)

lemma sample_post: "httpPostJSON sampleEnv url body ek g = (Inr ''answer'', g)"
  by (simp add: httpPostJSON_def act_simps do_request_def sampleEnv_def)

lemma sample_exchange:
  assumes "g_tpm g = sampleBusy"
  shows "ClientExchange guestLib sampleTpm sampleEnv sampleFactory sampleOpts sampleReq sampleRes h g = (Inr ''PEM'', g)"
proof -
  have "MarshalBinary guestLib sampleReq = Some ''wire''"
    by (simp add: MarshalBinary_def sampleReq_def encode_pub_def guestLib_def)
  moreover have "DecodeString [] = Some []" by code_simp
  moreover have "on_tpm (HashAndSign guestLib sampleTpm a b ''wire'') g = (Inr ''sig'', g)" for a b
    by (simp add: on_tpm_def sample_sign)
  moreover have "on_tpm (Activate guestLib sampleTpm sampleFactory sampleRes c d) g = (Inr ''secret'', g)" for c d
    using assms by (simp add: on_tpm_def sample_activate)
  moreover have "EndorsementCertificate sampleReq = Some (sampleCert ''e'')" by (simp add: sampleReq_def)
  moreover have "UnmarshalStartResponse sampleEnv b = Some \<lparr>StartSessionID = ''1'', CredentialBlobB64 = [], SecretB64 = []\<rparr>"
    "UnmarshalFinishResponse sampleEnv b = Some ''PEM''" for b by (simp_all add: sampleEnv_def)
  ultimately show ?thesis
    by (simp add: ClientExchange_def act_simps sample_post Let_def)
qed

definition sampleFile :: "string \<Rightarrow> gfile" where
  "sampleFile d = \<lparr>f_Data = d, f_Mode = 0x180, f_Owner = (5, 5)\<rparr>"

lemma sample_write:
  assumes "g_calls g = []" "g_dirs g = [''/devid'' \<mapsto> (5, 5)]" "g_files g (''/devid'', n) = None" "g_files g (''/devid'', ''.'' @ n @ ''.tmp-1'') = None"
  shows "\<exists>g'. writeFileAtomic sampleEnv (''/devid'', n) d 0x180 g = (Inr (), g') \<and> g_calls g' = [] \<and> g_dirs g' = g_dirs g \<and>
    g_files g' = (g_files g)((''/devid'', n) \<mapsto> sampleFile d) \<and> (\<exists>l. g_past g' = g_files g' # l)"
  using assms
  by (simp add: writeFileAtomic_def act_simps CreateTemp_def syscall_def next_call_def Let_def set_file_def sampleEnv_def f_Write_def
      change_file_def keepOwner_def owner_of_def os_Rename_def sampleFile_def fun_eq_iff)

lemma sample_store:
  assumes "g_calls g = []" "g_dirs g = [''/devid'' \<mapsto> (5, 5)]" "g_files g = Map.empty"
  shows "\<exists>g'. ClientStore sampleEnv sampleOpts [] ''PEM'' ''private'' ''d'' g = (Inr (), g') \<and>
    g_files g' = [privPath sampleOpts \<mapsto> sampleFile ''private'', pubPath sampleOpts \<mapsto> sampleFile ''d'',
      certPath sampleOpts \<mapsto> sampleFile ''PEM''] \<and> (\<exists>l. g_past g' = g_files g' # l)"
proof -
  obtain u where u: "writeFileAtomic sampleEnv (''/devid'', ''devid.priv.blob'') ''private'' 0x180 g = (Inr (), u)" "g_calls u = []"
    "g_dirs u = g_dirs g" "g_files u = (g_files g)((''/devid'', ''devid.priv.blob'') \<mapsto> sampleFile ''private'')"
    using sample_write [OF assms(1, 2), of "''devid.priv.blob''" "''private''"] assms(3) by auto
  obtain v where v: "writeFileAtomic sampleEnv (''/devid'', ''devid.pub.blob'') ''d'' 0x180 u = (Inr (), v)" "g_calls v = []"
    "g_dirs v = g_dirs u" "g_files v = (g_files u)((''/devid'', ''devid.pub.blob'') \<mapsto> sampleFile ''d'')"
    using sample_write [of u "''devid.pub.blob''" "''d''"] u assms by auto
  obtain w l where w: "writeFileAtomic sampleEnv (''/devid'', ''devid.crt.pem'') ''PEM'' 0x180 v = (Inr (), w)"
    "g_files w = (g_files v)((''/devid'', ''devid.crt.pem'') \<mapsto> sampleFile ''PEM'')" "g_past w = g_files w # l"
    using sample_write [of v "''devid.crt.pem''" "''PEM''"] u v assms by auto
  show ?thesis
    using u v w assms(3) by (simp add: ClientStore_def act_simps Let_def sampleOpts_def privPath_def pubPath_def certPath_def)
qed

lemma sample_run:
  "\<exists>g'. sampleRun = (Inr (), g') \<and> g_files g' \<in> set (g_past g') \<and>
    g_files g' = [privPath sampleOpts \<mapsto> sampleFile ''private'', pubPath sampleOpts \<mapsto> sampleFile ''d'',
      certPath sampleOpts \<mapsto> sampleFile ''PEM'']"
proof -
  let ?log = "LogRenewReason ''/devid'' ''no certificate'' NoDetail sampleGuest"
  let ?g = "?log\<lparr>g_tpm := sampleBusy\<rparr>"
  have g: "g_calls ?g = []" "g_dirs ?g = [''/devid'' \<mapsto> (5, 5)]" "g_files ?g = Map.empty" "g_tpm ?g = sampleBusy"
    by (simp_all add: LogRenewReason_def sampleGuest_def)
  obtain g' l where s: "ClientStore sampleEnv sampleOpts [] ''PEM'' ''private'' ''d'' ?g = (Inr (), g')"
    "g_files g' = [privPath sampleOpts \<mapsto> sampleFile ''private'', pubPath sampleOpts \<mapsto> sampleFile ''d'', certPath sampleOpts \<mapsto> sampleFile ''PEM'']"
    "g_past g' = g_files g' # l"
    using sample_store [OF g(1-3)] by blast
  have mk: "MkdirAll sampleEnv ''/devid'' ?g = (Inr (), ?g)"
    using g by (simp add: MkdirAll_def act_simps syscall_def next_call_def)
  have tpm: "on_tpm (CreateSigningRequestWithKey guestLib sampleTpm sampleFactory [] None) ?log = (Inr (sampleReq, sampleRes), ?g)"
    using sample_request by (simp add: on_tpm_def LogRenewReason_def sampleGuest_def)
  have "ClientRenew guestLib sampleTpm sampleEnv sampleOpts sampleVerdict ?log = (Inr (), tpm_only (release sampleTpm sampleRes) g')"
    using mk tpm sample_exchange [OF g(4)] s(1)
    by (simp add: ClientRenew_def Let_def read_old_def sampleVerdict_def factory_of_def act_bind_def deferred_def sampleOpts_def)
       (simp add: sampleRes_def sampleKey_def)
  then have "sampleRun = (Inr (), tpm_only (release sampleTpm sampleRes) g')"
    using sample_decide by (simp add: sampleRun_def ClientEnrollOrRenew_def act_bind_def sampleVerdict_def) (simp add: sampleOpts_def)
  then show ?thesis
    using s(2, 3) by (intro exI [of _ "tpm_only (release sampleTpm sampleRes) g'"]) (simp add: tpm_only_def)
qed

theorem crash_safe_witness:
  "\<exists>s \<in> set (g_past (snd sampleRun)).
     \<exists>dev pem. issued_for guestLib sampleTpm sampleEnv sampleOpts dev pem \<and>
       map_option f_Data (s (privPath sampleOpts)) = Some (k_PrivateBlob dev) \<and>
       map_option f_Data (s (pubPath sampleOpts)) = Some (k_PublicBlob dev) \<and> map_option f_Data (s (certPath sampleOpts)) = Some pem"
proof -
  obtain g' where g': "ClientEnrollOrRenew guestLib sampleTpm sampleEnv sampleOpts 0 sampleGuest = (Inr (), g')" "g_files g' \<in> set (g_past g')"
    "g_files g' = [privPath sampleOpts \<mapsto> sampleFile ''private'', pubPath sampleOpts \<mapsto> sampleFile ''d'', certPath sampleOpts \<mapsto> sampleFile ''PEM'']"
    using sample_run unfolding sampleRun_def by blast
  have start: "g_past sampleGuest = []" "g_files sampleGuest = Map.empty" by (simp_all add: sampleGuest_def)
  have ne: "\<not> hidden (certPath sampleOpts)" "certPath sampleOpts \<notin> set (svid_cache (SpireDataDir sampleOpts))"
    "g_files g' (certPath sampleOpts) \<noteq> g_files sampleGuest (certPath sampleOpts)"
    "g_files g' (pubPath sampleOpts) \<noteq> g_files sampleGuest (pubPath sampleOpts)" "g_files g' \<notin> set (g_past sampleGuest)"
    by (simp_all add: g'(3) start)
  from crash_safe [OF g'(1, 2) ne(5)] ne(1-4) g'(2) show ?thesis
    unfolding sampleRun_def g'(1) snd_conv by blast
qed

theorem run_outcome_witness:
  "contents (snd sampleRun) (certPath sampleOpts) = Some ''PEM'' \<and>
   (\<exists>dev. issued_for guestLib sampleTpm sampleEnv sampleOpts dev ''PEM'' \<and> key_kept sampleOpts (snd sampleRun) dev)"
proof -
  obtain g' where g': "ClientEnrollOrRenew guestLib sampleTpm sampleEnv sampleOpts 0 sampleGuest = (Inr (), g')"
    "g_files g' = [privPath sampleOpts \<mapsto> sampleFile ''private'', pubPath sampleOpts \<mapsto> sampleFile ''d'', certPath sampleOpts \<mapsto> sampleFile ''PEM'']"
    using sample_run unfolding sampleRun_def by blast
  have "g_files g' (certPath sampleOpts) \<noteq> g_files sampleGuest (certPath sampleOpts)" by (simp add: g'(2)) (simp add: sampleGuest_def)
  moreover have "contents g' (certPath sampleOpts) = Some ''PEM''" by (simp add: contents_def g'(2) sampleFile_def)
  ultimately show ?thesis using run_outcome [OF g'(1)] g'(1) unfolding sampleRun_def by auto
qed

theorem tpm_left_clean_witness:
  "set (st_objs (g_tpm (snd sampleRun))) = {} \<and> st_peak (g_tpm (snd sampleRun)) \<le> 3"
  using tpm_left_clean [OF sample_ok prod.collapse [symmetric], of guestLib sampleEnv sampleOpts 0 sampleGuest] unfolding sampleRun_def
  by (simp add: sampleWatch_def sampleGuest_def)

text \<open>A TPM that answers every certification with \<open>TPM_RC_RETRY\<close>, as a pointer, and counts them.\<close>

theorem certify_attempts_witness:
  "let T = sampleTpm\<lparr>Certify := (\<lambda>a b t. (Inl (Warning ByPointer 0x22), t\<lparr>st_peak := Suc (st_peak t)\<rparr>))\<rparr> in
    st_peak (snd (certifyWithRetry guestLib T 1 2 sampleBusy)) = st_peak sampleBusy + 5"
proof -
  let ?T = "sampleTpm\<lparr>Certify := (\<lambda>a b t. (Inl (Warning ByPointer 0x22), t\<lparr>st_peak := Suc (st_peak t)\<rparr>))\<rparr>"
  have "st_peak (after_certify ?T 1 2 i t) = st_peak t + i" for i t
    by (induction i) (simp_all add: after_certify_def)
  moreover have "certify_answer ?T 1 2 t i = Inl (Warning ByPointer (RCRetry ?T))" for i t
    by (simp add: certify_answer_def sampleTpm_def)
  ultimately show ?thesis
    using certify_attempts [of guestLib ?T 1 2 sampleBusy] by auto
qed

theorem replaced_atomically_witness:
  "g_files (snd (writeFileAtomic sampleEnv (''/devid'', ''x'') ''new'' 0x180
      (sampleGuest\<lparr>g_files := [(''/devid'', ''x'') \<mapsto> \<lparr>f_Data = ''old'', f_Mode = 0, f_Owner = (7, 7)\<rparr>]\<rparr>))) (''/devid'', ''x'')
     = Some \<lparr>f_Data = ''new'', f_Mode = 0x180, f_Owner = (7, 7)\<rparr>"
proof -
  let ?g = "sampleGuest\<lparr>g_files := [(''/devid'', ''x'') \<mapsto> \<lparr>f_Data = ''old'', f_Mode = 0, f_Owner = (7, 7)\<rparr>]\<rparr>"
  have "fst (writeFileAtomic sampleEnv (''/devid'', ''x'') ''new'' 0x180 ?g) = Inr ()"
    by (simp add: writeFileAtomic_def act_simps CreateTemp_def syscall_def next_call_def Let_def set_file_def sampleEnv_def f_Write_def
      change_file_def keepOwner_def owner_of_def os_Rename_def sampleGuest_def)
  moreover have "\<not> hidden (''/devid'', ''x'')" "Geteuid sampleEnv = 0" by (simp_all add: hidden_def sampleEnv_def)
  ultimately show ?thesis
    using replaced_atomically [OF prod.collapse [symmetric], of "(''/devid'', ''x'')" sampleEnv "''new''" "0x180" ?g] by simp
qed

end
