(* ===== verification/Guest_Service.thy ===== *)
theory Guest_Service
  imports Daemon Guest_Client
begin

text \<open>
  The guest's client and the service put together: the requests of \<open>ReadVMID\<close>
  (\<open>internal/devid/instanceid.go\<close>) are answered by a running daemon, over a connection of the guest. The
  network between them delivers requests and answers unchanged.

  The theorem: a guest that is in the inventory and within its budgets reads its own VM id.
\<close>

subsection \<open>The wire\<close>

text \<open>The daemon at the other end, and the clock and random bytes it meets in the coming requests.\<close>

record 'f wire =
  w_daemon :: "'f daemon"
  w_inputs :: "inputs list"

definition wire_request :: "string \<Rightarrow> HttpRequest \<Rightarrow> Request" where
  "wire_request base req = \<lparr>Method = h_Method req, Path = drop (length base) (h_URL req), Host = [], RemoteAddr = [],
     Header = h_Header req, PathValues = [], VMConfigContext = None\<rparr>"

definition over_wire ::
  "lib \<Rightarrow> MDSConfig \<Rightarrow> Conn \<Rightarrow> string \<Rightarrow> HttpRequest \<Rightarrow> 'f wire \<Rightarrow> (nat \<times> string option) option \<times> 'f wire" where
  "over_wire L cfg c base req n =
     (case w_inputs n of
        [] \<Rightarrow> (None, n)
      | i # is \<Rightarrow>
          (case serve_on L cfg i None (in_now i) (in_now i) c (wire_request base req) (w_daemon n) of
             (None, d) \<Rightarrow> (None, n\<lparr>w_daemon := d, w_inputs := is\<rparr>)
           | (Some w, d) \<Rightarrow> (Some (status w, Some (body_text w)), n\<lparr>w_daemon := d, w_inputs := is\<rparr>)))"

subsection \<open>One request\<close>

lemma requests_after:
  assumes "guestLimitMiddleware next now t1 t2 r w (l, s) = (w', (l', s'), lg)" "Method r \<noteq> ''GET''"
  shows "length (b_requests (budget (peerKeyFromAddr (RemoteAddr r)) l'))
    \<le> Suc (length (prune (b_requests (budget (peerKeyFromAddr (RemoteAddr r)) l)) now))"
proof -
  let ?key = "peerKeyFromAddr (RemoteAddr r)"
  obtain ok1 l1 lg1 where a1: "allowRequest ?key now t1 t2 l = (ok1, l1, lg1)" by (metis prod_cases3)
  obtain ok2 l2 lg2 where a2: "allowToken ?key now t1 t2 l1 = (ok2, l2, lg2)" by (metis prod_cases3)
  obtain ok3 l3 lg3 where a3: "allowEnroll ?key now t1 t2 l1 = (ok3, l3, lg3)" by (metis prod_cases3)
  obtain ok4 l4 lg4 where a4: "allowEnroll ?key now t1 t2 l2 = (ok4, l4, lg4)" by (metis prod_cases3)
  have "l' = l1 \<or> l' = l2 \<or> l' = l3 \<or> l' = l4"
    using assms a1 a2 a3 a4 unfolding guestLimitMiddleware_def Let_def
    by (auto split: prod.splits if_splits bool.splits)
  then have "b_requests (budget ?key l') = b_requests (budget ?key l1)"
    using allowToken_keeps(1) [OF a2] allowEnroll_keeps(1) [OF a3] allowEnroll_keeps(1) [OF a4] by auto
  then show ?thesis using requests.allow_stamps [OF a1, of ?key] by simp
qed

lemma prune_length: "length (prune xs now) \<le> length xs"
  by (simp add: prune_def)

text \<open>A request that is within the budgets reaches its handler.\<close>

lemma served_on:
  assumes "daemon_ok L d" "map_of (d_conns d) c = Some (vc, ctx)" "c \<notin> set (overCap (d_limiter d))"
    and "serve_mux L cfg (d_enroller d) i (request_on c ctx r) newResponse (d_service d) = (w, st)"
    and "length (prune (b_requests (budget (peerKeyFromAddr (connRemoteAddr c)) (d_limiter d))) (in_now i)) < 120"
    and "Method r = ''PUT'' \<Longrightarrow> length (prune (b_tokens (budget (peerKeyFromAddr (connRemoteAddr c)) (d_limiter d))) (in_now i)) < 30"
    and "Method r \<noteq> ''POST''"
  obtains l where "serve_on L cfg i table u v c r d = (Some w, d\<lparr>d_limiter := l, d_service := st\<rparr>)"
    "overCap l = overCap (d_limiter d)"
    "Method r \<noteq> ''GET'' \<Longrightarrow> length (b_requests (budget (peerKeyFromAddr (connRemoteAddr c)) l))
       \<le> Suc (length (prune (b_requests (budget (peerKeyFromAddr (connRemoteAddr c)) (d_limiter d))) (in_now i)))"
proof -
  let ?r = "request_on c ctx r"
  have r: "RemoteAddr ?r = connRemoteAddr c" "Method ?r = Method r" by (simp_all add: request_on_def)
  have ok: "bound_once d" "distinct (map fst (d_conns d))" using assms(1) by (simp_all add: daemon_ok_def conns_inv_def throttle_of_def)
  obtain w' l st' lg where m: "guestLimitMiddleware (serve_mux L cfg (d_enroller d) i) (in_now i) u v ?r newResponse (d_limiter d, d_service d) = (w', (l, st'), lg)"
    by (metis surj_pair)
  then have "serve_mux L cfg (d_enroller d) i ?r newResponse (d_service d) = (w', st')"
    using middleware_admission [OF m] assms(5-7) by (auto simp: r Let_def)
  with assms(4) have eq: "w' = w" "st' = st" by simp_all
  have vc: "vmConfigOnce vc" using ok(1) assms(2) unfolding bound_once_def by (blast dest: map_of_SomeD)
  then have "serve_on L cfg i table u v c r d = (Some w, d\<lparr>d_limiter := l, d_service := st\<rparr>)"
    using assms(2, 3) m map_update_same [OF ok(2) assms(2)]
    by (simp add: serve_on_def conn_Read_def extract_once_def ServeHTTP_def eq)
  moreover note middleware_outcome(2) [OF m]
  moreover have "Method r \<noteq> ''GET'' \<Longrightarrow> length (b_requests (budget (peerKeyFromAddr (connRemoteAddr c)) l))
       \<le> Suc (length (prune (b_requests (budget (peerKeyFromAddr (connRemoteAddr c)) (d_limiter d))) (in_now i)))"
    using requests_after [OF m] by (simp add: r)
  ultimately show thesis by (rule that)
qed

lemma minted_answer:
  assumes "HandleCreateToken now (Some b) ts r newResponse = (w, ts', lg)" "liveCount ts < GlobalTokenEmergencyCap"
  shows "status w = 200" "body_text w = EncodeToString b" "ValidateToken ts' later (EncodeToString b) \<longleftrightarrow> later \<le> now + tokenTTL ts"
proof -
  let ?peer = "case PeerIP (RemoteAddr r) of None \<Rightarrow> ''unknown'' | Some ip \<Rightarrow> IP_String ip"
  have "\<not> GlobalTokenEmergencyCap \<le> liveCount (mintRoom (mintPeer ?peer) now ts)"
    using mintRoom_count [of "mintPeer ?peer" now ts] assms(2) by linarith
  then obtain token ts2 l where g: "generateTokenAt ?peer now (Some b) ts = (Inr token, ts2, l)"
    by (auto simp: generateTokenAt_cases Let_def)
  then have h: "ts' = ts2" "w = Fprint (Token token) (WriteHeader 200 (textPlain newResponse))"
    using assms(1) by (auto simp: HandleCreateToken_def Let_def)
  from generateTokenAt_success [OF g, of later] have s: "Token token = EncodeToString b"
    "ValidateToken ts2 later (Token token) \<longleftrightarrow> later \<le> now + tokenTTL ts" by blast+
  show "ValidateToken ts' later (EncodeToString b) \<longleftrightarrow> later \<le> now + tokenTTL ts" using s h(1) by simp
  show "status w = 200" "body_text w = EncodeToString b"
    using s by (simp_all add: h(2) http_defs http_simps textPlain_def body_text_def)
qed

text \<open>The guest has a connection that is served, bound to a VM, and room in its budgets.\<close>

definition ready :: "lib \<Rightarrow> 'f daemon \<Rightarrow> Conn \<Rightarrow> VMConfig \<Rightarrow> time \<Rightarrow> bool" where
  "ready L d c vm now \<longleftrightarrow> daemon_ok L d \<and> (\<exists>vc. map_of (d_conns d) c = Some (vc, Some vm)) \<and> c \<notin> set (overCap (d_limiter d)) \<and>
     VMID vm \<noteq> [] \<and>
     length (prune (b_requests (budget (peerKeyFromAddr (connRemoteAddr c)) (d_limiter d))) now) < 119 \<and>
     length (prune (b_tokens (budget (peerKeyFromAddr (connRemoteAddr c)) (d_limiter d))) now) < 30 \<and>
     liveCount (sv_tokens (d_service d)) < GlobalTokenEmergencyCap"

lemma token_served:
  assumes "ready L d c vm (in_now i)" "in_token i = Some b" "Method r = ''PUT''" "Path r = ''/latest/api/token''"
  obtains w d' where "serve_on L cfg i table t1 t2 c r d = (Some w, d')" "status w = 200" "body_text w = EncodeToString b"
    "daemon_ok L d'" "d_conns d' = d_conns d" "overCap (d_limiter d') = overCap (d_limiter d)"
    "length (b_requests (budget (peerKeyFromAddr (connRemoteAddr c)) (d_limiter d'))) < 120"
    "\<And>later. ValidateToken (sv_tokens (d_service d')) later (EncodeToString b) \<longleftrightarrow> later \<le> in_now i + tokenTTL (sv_tokens (d_service d))"
proof -
  from assms(1) obtain vc where R: "daemon_ok L d" "map_of (d_conns d) c = Some (vc, Some vm)" "c \<notin> set (overCap (d_limiter d))"
    "length (prune (b_requests (budget (peerKeyFromAddr (connRemoteAddr c)) (d_limiter d))) (in_now i)) < 119"
    "length (prune (b_tokens (budget (peerKeyFromAddr (connRemoteAddr c)) (d_limiter d))) (in_now i)) < 30"
    "liveCount (sv_tokens (d_service d)) < GlobalTokenEmergencyCap" by (auto simp: ready_def)
  let ?r = "request_on c (Some vm) r"
  obtain w ts lg where h: "HandleCreateToken (in_now i) (Some b) (sv_tokens (d_service d)) (?r\<lparr>PathValues := []\<rparr>) newResponse = (w, ts, lg)"
    by (metis prod_cases3)
  have mux: "serve_mux L cfg (d_enroller d) i ?r newResponse (d_service d) = (w, (d_service d)\<lparr>sv_tokens := ts\<rparr>)"
    using assms(2-4) h by (simp add: serve_mux_def request_on_def token_found serve_endpoint_def)
  have b: "length (prune (b_requests (budget (peerKeyFromAddr (connRemoteAddr c)) (d_limiter d))) (in_now i)) < 120" "Method r \<noteq> ''POST''"
    using R(4) assms(3) by simp_all
  obtain l where s: "serve_on L cfg i table t1 t2 c r d = (Some w, d\<lparr>d_limiter := l, d_service := (d_service d)\<lparr>sv_tokens := ts\<rparr>\<rparr>)"
    "overCap l = overCap (d_limiter d)"
    "Method r \<noteq> ''GET'' \<Longrightarrow> length (b_requests (budget (peerKeyFromAddr (connRemoteAddr c)) l))
       \<le> Suc (length (prune (b_requests (budget (peerKeyFromAddr (connRemoteAddr c)) (d_limiter d))) (in_now i)))"
    by (rule served_on [OF R(1-3) mux b(1) R(5) b(2), where table = table and u = t1 and v = t2]) blast
  note m = minted_answer [OF h R(6)]
  show thesis
    by (rule that [OF s(1) m(1, 2) serve_on_ok(1) [OF s(1) R(1)]]) (use s(2, 3) R(4) assms(3) m(3) in auto)
qed

lemma id_served:
  assumes "EnableEC2Compat cfg" "cfg_RequireVMIdentity cfg"
    and "daemon_ok L d" "map_of (d_conns d) c = Some (vc, Some vm)" "c \<notin> set (overCap (d_limiter d))" "VMID vm \<noteq> []"
    and "length (b_requests (budget (peerKeyFromAddr (connRemoteAddr c)) (d_limiter d))) < 120"
    and "Method r = ''GET''" "Path r = ''/latest/meta-data/instance-id''" "storeValidatesToken (Some (sv_tokens (d_service d))) (in_now i) r"
  obtains w d' where "serve_on L cfg i table t1 t2 c r d = (Some w, d')" "status w = 200" "body_text w = ''i-'' @ VMID vm"
proof -
  let ?r = "request_on c (Some vm) r"
  have r: "Method ?r = ''GET''" "Path ?r = ''/latest/meta-data/instance-id''" "VMConfigContext ?r = Some vm" "Path ?r \<in> set IdentityBearingPaths"
    using assms(8, 9) by (simp_all add: request_on_def IdentityBearingPaths_def)
  have ne: "\<And>v. VMConfigContext ?r = Some v \<Longrightarrow> VMID v \<noteq> []" using assms(6) by (simp add: r(3))
  obtain w st where mux: "serve_mux L cfg (d_enroller d) i ?r newResponse (d_service d) = (w, st)" by (metis surj_pair)
  from identity_answer [OF assms(1, 2) r(1, 4) ne this] assms(10)
  have w: "status w = 200" "body_text w = ''i-'' @ VMID vm" by (simp_all add: r request_on_token body_text_def)
  have b: "length (prune (b_requests (budget (peerKeyFromAddr (connRemoteAddr c)) (d_limiter d))) (in_now i)) < 120" "Method r \<noteq> ''POST''" "Method r \<noteq> ''PUT''"
    using le_less_trans [OF prune_length assms(7)] assms(8) by simp_all
  obtain l where "serve_on L cfg i table t1 t2 c r d = (Some w, d\<lparr>d_limiter := l, d_service := st\<rparr>)"
    by (rule served_on [OF assms(3-5) mux b(1) _ b(2), where table = table and u = t1 and v = t2]) (use b(3) in auto)
  from that [OF this w] show thesis .
qed

subsection \<open>The guest reads its id\<close>

lemma accepted_conn:
  assumes "map_of (d_conns d) c = None" "extractVMConfig (cache_of d) table (remoteIP c) = Inr ctx"
  shows "\<exists>vc. map_of (d_conns (accept_conn table t1 t2 c d)) c = Some (vc, ctx)"
  using assms by (auto simp: accept_conn_def connContext_def extract_once_def Accept_def map_of_eq_None_iff split: prod.split)

lemma request_answered:
  assumes "http_Do E = over_wire L cfg c base" "url_ok E (base @ p)" "g_net g = \<lparr>w_daemon = d, w_inputs = i # is\<rparr>"
    and "serve_on L cfg i None (in_now i) (in_now i) c
      \<lparr>Method = m, Path = p, Host = [], RemoteAddr = [], Header = hs, PathValues = [], VMConfigContext = None\<rparr> d = (Some w, d')"
    and "status w = 200" "body_text w = s" "TrimSpace s = s" "length s \<le> 4096"
  shows "doMetadataRequest E \<lparr>h_Method = m, h_URL = base @ p, h_Header = hs, h_Body = []\<rparr> g = (Inr s, g\<lparr>g_net := \<lparr>w_daemon = d', w_inputs = is\<rparr>\<rparr>)"
  using assms by (simp add: doMetadataRequest_def act_bind_def do_request_def over_wire_def wire_request_def act_return_def)

lemma token_length: "length (EncodeToString b) \<le> 4 * length b"
proof -
  have "length (b64_quanta xs) \<le> 4 * length xs" for xs by (induction xs rule: b64_quanta.induct) simp_all
  then show ?thesis by (metis EncodeToString_def length_map)
qed

lemma fetched_id:
  assumes "EnableEC2Compat cfg" "cfg_RequireVMIdentity cfg" "ready L d c vm (in_now i1)"
    and "http_Do E = over_wire L cfg c base" "\<And>u. url_ok E u" "g_net g = \<lparr>w_daemon = d, w_inputs = i1 # i2 # is\<rparr>"
    and "in_token i1 = Some b" "b \<noteq> []" "length (EncodeToString b) \<le> 4096" "in_now i2 \<le> in_now i1 + tokenTTL (sv_tokens (d_service d))"
    and "\<And>x. x \<in> set (VMID vm) \<Longrightarrow> \<not> is_space x" "length (VMID vm) \<le> 4094"
  shows "\<exists>n. fetchInstanceID E base g = (Inr (''i-'' @ VMID vm), g\<lparr>g_net := n\<rparr>)"
proof -
  let ?put = "\<lparr>Method = ''PUT'', Path = ''/latest/api/token'', Host = [], RemoteAddr = [],
    Header = [(''X-Aws-Ec2-Metadata-Token-Ttl-Seconds'', ''60'')], PathValues = [], VMConfigContext = None\<rparr>"
  let ?get = "\<lparr>Method = ''GET'', Path = ''/latest/meta-data/instance-id'', Host = [], RemoteAddr = [],
    Header = [(''X-Aws-Ec2-Metadata-Token'', EncodeToString b)], PathValues = [], VMConfigContext = None\<rparr>"
  obtain w1 d1 where put: "serve_on L cfg i1 None (in_now i1) (in_now i1) c ?put d = (Some w1, d1)" "status w1 = 200" "body_text w1 = EncodeToString b"
    "daemon_ok L d1" "d_conns d1 = d_conns d" "overCap (d_limiter d1) = overCap (d_limiter d)"
    "length (b_requests (budget (peerKeyFromAddr (connRemoteAddr c)) (d_limiter d1))) < 120"
    "\<And>later. ValidateToken (sv_tokens (d_service d1)) later (EncodeToString b) \<longleftrightarrow> later \<le> in_now i1 + tokenTTL (sv_tokens (d_service d))"
    by (rule token_served [OF assms(3, 7), of ?put cfg None "in_now i1" "in_now i1"]) (simp, simp, blast)
  obtain vc where conn: "map_of (d_conns d1) c = Some (vc, Some vm)" "c \<notin> set (overCap (d_limiter d1))" "VMID vm \<noteq> []"
    using assms(3) put(5, 6) by (auto simp: ready_def)
  have tok: "storeValidatesToken (Some (sv_tokens (d_service d1))) (in_now i2) ?get"
    using put(8) assms(8, 10) by (simp add: storeValidatesToken_def header_get_def Let_def)
  obtain w2 d2 where get: "serve_on L cfg i2 None (in_now i2) (in_now i2) c ?get d1 = (Some w2, d2)" "status w2 = 200" "body_text w2 = ''i-'' @ VMID vm"
    by (rule id_served [OF assms(1, 2) put(4) conn put(7) _ _ tok, of None "in_now i2" "in_now i2"]) (simp, simp, blast)
  have trim: "TrimSpace (''i-'' @ VMID vm) = ''i-'' @ VMID vm" by (rule TrimSpace_id) (use assms(11) in \<open>auto simp: is_space_def\<close>)
  have len: "length (''i-'' @ VMID vm) \<le> 4096" using assms(12) by simp
  note t = request_answered [OF assms(4) assms(5) assms(6) put(1-3) TrimSpace_EncodeToString assms(9)]
  let ?g1 = "g\<lparr>g_net := \<lparr>w_daemon = d1, w_inputs = i2 # is\<rparr>\<rparr>"
  have "g_net ?g1 = \<lparr>w_daemon = d1, w_inputs = i2 # is\<rparr>" by simp
  note u = request_answered [OF assms(4) assms(5) this get trim len]
  show ?thesis using assms(8) by (intro exI [of _ "\<lparr>w_daemon = d2, w_inputs = is\<rparr>"]) (simp add: fetchInstanceID_def act_bind_def t u)
qed

text \<open>
  C12: A guest reads its own id. A daemon with \<open>require_vm_identity\<close> has run through any events, has
  accepted the guest's connection, bound it to a VM by the ARP table and the inventory, and has run on
  without closing it. When the connection was not refused, the peer has room in its budgets and the
  token store is below its emergency cap, then a client whose requests reach the daemon on that
  connection, the second within the lifetime of the token, reads exactly the id of that VM at its
  first attempt, without a pause, and changes nothing on its machine.
\<close>

theorem guest_reads_its_id:
  assumes "EnableEC2Compat cfg" "cfg_RequireVMIdentity cfg"
    and "d = run_daemon L hash cfg decode before (boot L P R ParseDuration read hash decode cfg f e wd)"
    and "d_phase d = Listening" "map_of (d_conns d) c = None"
    and "d' = run_daemon L hash cfg decode after (daemon_event L hash cfg decode (Connect c (Some arp) t1 t2) d)"
    and "\<forall>ev \<in> set after. \<not> closes c ev"
    and "extractVMConfig (cache_of d) (Some arp) (remoteIP c) = Inr (Some vm)"
    and "c \<notin> set (overCap (d_limiter d'))"
    and "length (prune (b_requests (budget (peerKeyFromAddr (connRemoteAddr c)) (d_limiter d'))) (in_now i1)) < 119"
    and "length (prune (b_tokens (budget (peerKeyFromAddr (connRemoteAddr c)) (d_limiter d'))) (in_now i1)) < 30"
    and "liveCount (sv_tokens (d_service d')) < GlobalTokenEmergencyCap"
    and "http_Do E = over_wire L cfg c base" "\<forall>u. url_ok E u" "g_net g = \<lparr>w_daemon = d', w_inputs = i1 # i2 # is\<rparr>"
    and "in_token i1 = Some b" "length b = 32"
    and "in_now i2 \<le> in_now i1 + tokenTTL (sv_tokens (d_service d'))"
    and "\<forall>x \<in> set (VMID vm). \<not> is_space x" "length (VMID vm) \<le> 4094"
  shows "\<exists>n. ReadVMID E base g = (Inr (VMID vm), g\<lparr>g_net := n\<rparr>)"
proof -
  have ok: "daemon_ok L d" by (simp add: assms(3) run_daemon_ok boot_ok)
  let ?d1 = "daemon_event L hash cfg decode (Connect c (Some arp) t1 t2) d"
  have ok1: "daemon_ok L ?d1" by (rule daemon_event_ok [OF ok])
  obtain vc where "map_of (d_conns ?d1) c = Some (vc, Some vm)"
    using accepted_conn [OF assms(5, 8), of t1 t2] assms(4) by auto
  from run_keeps_conn [OF ok1 this assms(7)] have "map_of (d_conns d') c = Some (vc, Some vm)" by (simp add: assms(6))
  moreover have "daemon_ok L d'" by (simp add: assms(6) run_daemon_ok ok1 del: daemon_event.simps)
  moreover have ne: "VMID vm \<noteq> []" using bound_facts [OF ok assms(8)] by blast
  ultimately have r: "ready L d' c vm (in_now i1)" using assms(9-12) by (auto simp: ready_def)
  have b: "b \<noteq> []" "length (EncodeToString b) \<le> 4096" using assms(17) token_length [of b] by auto
  from fetched_id [OF assms(1, 2) r assms(13) _ assms(15, 16) b assms(18) _ assms(20)] assms(14, 19)
  obtain n where "fetchInstanceID E base g = (Inr (''i-'' @ VMID vm), g\<lparr>g_net := n\<rparr>)" by blast
  moreover have "ReadVMID E base g = (case fetchInstanceID E base g of (Inl _, g') \<Rightarrow> read_loop E base (Suc (Suc 0)) g' | (Inr iid, g') \<Rightarrow> vmid_of iid g')"
    by (simp add: ReadVMID_def instanceIDAttempts_def numeral_3_eq_3)
  ultimately show ?thesis using ne by (intro exI [of _ n]) (simp add: vmid_of_def act_return_def HasPrefix_def)
qed

text \<open>The daemon of the witnesses of \<open>Daemon\<close>, with a token of 32 bytes.\<close>

definition sampleWire :: "string wire" where
  "sampleWire = \<lparr>w_daemon = sampleDaemon (sampleLim [] [] []) (d_service sampleBoot),
     w_inputs = [sampleBatch\<lparr>in_token := Some (replicate 32 CHR ''x'')\<rparr>, sampleBatch]\<rparr>"

definition sampleWireEnv :: "string wire env" where
  "sampleWireEnv = \<lparr>Geteuid = 0, Getegid = 0, tempSuffix = (\<lambda>p fs. []), url_ok = (\<lambda>u. True),
     http_Do = over_wire sampleLib sampleServerConfig sampleConn ''http://169.254.169.254'',
     MarshalStartRequest = (\<lambda>r. []), MarshalFinishRequest = (\<lambda>r. []), UnmarshalStartResponse = (\<lambda>s. None), UnmarshalFinishResponse = (\<lambda>s. None)\<rparr>"

definition sampleWireGuest :: "(unit, string wire) guest" where
  "sampleWireGuest = \<lparr>g_tpm = (), g_net = sampleWire, g_files = Map.empty, g_dirs = Map.empty, g_calls = [], g_past = [], g_log = [],
     g_sleeps = 0, g_restarts = 0\<rparr>"

theorem guest_reads_its_id_witness:
  "\<exists>n. ReadVMID sampleWireEnv ''http://169.254.169.254'' sampleWireGuest = (Inr ''101'', sampleWireGuest\<lparr>g_net := n\<rparr>)"
proof -
  let ?i = "sampleBatch\<lparr>in_token := Some (replicate 32 CHR ''x'')\<rparr>" and ?d = "sampleDaemon (sampleLim [] [] []) (d_service sampleBoot)"
  have d': "?d = run_daemon sampleLib (\<lambda>s. s) sampleServerConfig (\<lambda>d. Some Inventory.sampleFile) []
      (daemon_event sampleLib (\<lambda>s. s) sampleServerConfig (\<lambda>d. Some Inventory.sampleFile) (Connect sampleConn (Some sampleArp) 0 0) sampleBoot)"
    unfolding sample_accepted by (simp add: run_daemon_def)
  have b: "d_phase sampleBoot = Listening" "map_of (d_conns sampleBoot) sampleConn = None" by (simp_all add: sampleBoot_eq)
  have x: "extractVMConfig (cache_of sampleBoot) (Some sampleArp) (remoteIP sampleConn) = Inr (Some sampleVMRecord)"
    using accepted_context [OF b(2), of "Some sampleArp" 0 0] sample_accepted b(1) by (simp add: sampleDaemon_def)
  have l: "sampleConn \<notin> set (overCap (d_limiter ?d))"
    "length (prune (b_requests (budget (peerKeyFromAddr (connRemoteAddr sampleConn)) (d_limiter ?d))) (in_now ?i)) < 119"
    "length (prune (b_tokens (budget (peerKeyFromAddr (connRemoteAddr sampleConn)) (d_limiter ?d))) (in_now ?i)) < 30"
    "liveCount (sv_tokens (d_service ?d)) < GlobalTokenEmergencyCap"
    using sample_limits(4) by (simp_all add: sampleDaemon_def sampleLim_def sampleConn_def budget_def sampleBoot_eq NewTokenStore_def GlobalTokenEmergencyCap_def)
  have e: "http_Do sampleWireEnv = over_wire sampleLib sampleServerConfig sampleConn ''http://169.254.169.254''" "\<forall>u. url_ok sampleWireEnv u"
    by (simp_all add: sampleWireEnv_def)
  have n: "g_net sampleWireGuest = \<lparr>w_daemon = ?d, w_inputs = ?i # sampleBatch # []\<rparr>" "in_token ?i = Some (replicate 32 CHR ''x'')" "length (replicate 32 CHR ''x'') = 32"
    "in_now sampleBatch \<le> in_now ?i + tokenTTL (sv_tokens (d_service ?d))"
    by (simp_all add: sampleWireGuest_def sampleWire_def sampleDaemon_def sampleBoot_eq NewTokenStore_def duration_simps)
  have v: "\<forall>x \<in> set (VMID sampleVMRecord). \<not> is_space x" "length (VMID sampleVMRecord) \<le> 4094" "VMID sampleVMRecord = ''101''"
    by (simp_all add: sampleVMRecord_def is_space_def)
  have "\<forall>ev \<in> set []. \<not> closes sampleConn ev" by simp
  from guest_reads_its_id [OF sample_compat sampleBoot_runs b d' this x l e n v(1, 2)] show ?thesis by (simp only: v(3))
qed

end
