(* ===== verification/Bridgebind.thy ===== *)
theory Bridgebind
  imports Proxmox
begin

text \<open>
  The Binder of guest ports, \<open>internal/bridgebind\<close>: the nftables script that admits on each guest
  port of the IMDS bridge only the MAC of that guest (\<open>render.go\<close>), and the check that keeps the
  table in step with the guest configurations (\<open>binder.go\<close>).

  The program \<open>nft\<close> is a parameter with its documented behaviour as the predicate \<open>nft_ok\<close>: a
  script that was loaded is what the table holds, and equal listings list equal rules; any call may
  fail for any reason. A check takes the fingerprint from one snapshot of the files and reads the
  configurations from a later one. What the rules of the script do to a frame is read by
  \<open>rule_verdict\<close>, \<open>load_lines\<close> and \<open>admits\<close>, which follow nft(8) on the statements that \<open>Render\<close>
  writes: they are the specification of the script and no code of this repository.

  The theorems: the script admits on every port of the bridge exactly the frames of its MAC, and
  nothing on a port without one; no two different lists of ports have the same script; after every
  check the table is the wanted one, or the failure is on record to be retried, or the table could
  not be listed, whatever others did to the table in between; and the configurations are read
  exactly once per change of the fingerprint.
\<close>

subsection \<open>The script\<close>

definition Table :: string where
  "Table = ''vtpm_mds_bind''"

abbreviation tab :: char where "tab \<equiv> CHR 0x09"
abbreviation newline :: char where "newline \<equiv> CHR 0x0A"

text \<open>\<open>%q\<close> of a port name, which has only letters and digits.\<close>

definition quoted :: "string \<Rightarrow> string" where
  "quoted s = CHR 0x22 # s @ [CHR 0x22]"

definition nic_rules :: "string \<Rightarrow> NIC \<Rightarrow> string" where
  "nic_rules bridge n =
     (if n_Bridge n \<noteq> bridge then []
      else let t = quoted (Tap n) in
        if n_MAC n = [] then [tab, tab] @ ''iifname '' @ t @ '' counter drop'' @ [newline]
        else [tab, tab] @ ''iifname '' @ t @ '' ether type { 8021q, 8021ad } counter drop'' @ [newline]
          @ [tab, tab] @ ''iifname '' @ t @ '' ether saddr != '' @ n_MAC n @ '' counter drop'' @ [newline]
          @ [tab, tab] @ ''iifname '' @ t @ '' ether type arp arp saddr ether != '' @ n_MAC n @ '' counter drop'' @ [newline])"

definition Render :: "string \<Rightarrow> NIC list \<Rightarrow> string" where
  "Render bridge nics =
     ''table bridge '' @ Table @ [newline]
     @ ''delete table bridge '' @ Table @ [newline]
     @ ''table bridge '' @ Table @ '' {'' @ [newline]
     @ [tab] @ ''chain from_guests {'' @ [newline]
     @ [tab, tab] @ ''type filter hook prerouting priority -200; policy accept;'' @ [newline]
     @ concat (map (nic_rules bridge) nics)
     @ [tab] @ ''}'' @ [newline] @ ''}'' @ [newline]"

definition Bound :: "string \<Rightarrow> NIC list \<Rightarrow> nat" where
  "Bound bridge nics = length (filter (\<lambda>n. n_Bridge n = bridge) nics)"

subsection \<open>The Binder\<close>

datatype tableState = Missing | Listing string

definition stateOf :: "string + string \<Rightarrow> tableState" where
  "stateOf r = (case r of Inl err \<Rightarrow> Missing | Inr listing \<Rightarrow> Listing listing)"

record ('f) Binder =
  b_Bridge :: string
  b_RunDir :: string
  b_fp :: "'f option"
  b_want :: string
  b_ports :: nat
  b_seen :: tableState
  b_failing :: bool
  b_failMsg :: string
  b_readMsg :: string

text \<open>The interface \<open>NFT\<close>: operations on the state of the packet filter.\<close>

record 'n NFT =
  nft_Apply :: "'n \<Rightarrow> string \<Rightarrow> string option \<times> 'n"
  nft_List :: "'n \<Rightarrow> string + string"

datatype binder_log =
    ReadFailed proxmox_error
  | TableMissing
  | TableChanged
  | ApplyFailed string
  | AppliedUnlisted string
  | WriteFailed string
  | Applied nat

definition errText :: "proxmox_error \<Rightarrow> string" where
  "errText e = (case e of ReadDirFailed m \<Rightarrow> ''failed to read: '' @ m
     | GlobFailed m \<Rightarrow> ''failed to list VM config files: '' @ m
     | ReadFileFailed f \<Rightarrow> ''failed to read '' @ f)"

text \<open>
  The first half of \<open>Tick\<close>: \<open>fs1\<close> is what the fingerprint sees, \<open>fs2\<close> what \<open>GuestNICs\<close> reads.
  The result is the Binder, \<open>changed\<close> and the log.
\<close>

definition refresh_load ::
  "(pve_fs \<Rightarrow> 'f) \<Rightarrow> pve_fs \<times> pve_fs \<Rightarrow> 'f Binder \<Rightarrow> 'f Binder \<times> bool \<times> binder_log list" where
  "refresh_load fp e b0 =
     (let b = b0\<lparr>b_fp := Some (fp (fst e)), b_readMsg := []\<rparr> in
      case GuestNICs (snd e) of
        Inl err \<Rightarrow> (b\<lparr>b_readMsg := errText err\<rparr>, False, [ReadFailed err])
      | Inr nics \<Rightarrow>
          (let script = Render (b_Bridge b) nics in
           if script \<noteq> b_want b
           then (b\<lparr>b_want := script, b_ports := Bound (b_Bridge b) nics\<rparr>, True, [])
           else (b, False, [])))"

definition refresh ::
  "(pve_fs \<Rightarrow> 'f) \<Rightarrow> pve_fs \<times> pve_fs \<Rightarrow> 'f Binder \<Rightarrow> 'f Binder \<times> bool \<times> binder_log list" where
  "refresh fp e b =
     (if b_fp b = None \<or> b_fp b \<noteq> Some (fp (fst e)) then refresh_load fp e b else (b, False, []))"

text \<open>
  \<open>Tick\<close>: whether it applied the table, the Binder, the packet filter, the log and the script
  written to \<open>RunDir\<close>; \<open>wr\<close> is the error of that write, if any.
\<close>

definition writeScript :: "string option \<Rightarrow> 'f Binder \<Rightarrow> string option \<times> binder_log list" where
  "writeScript wr b =
     (if b_RunDir b = [] then (None, [])
      else case wr of Some err \<Rightarrow> (None, [WriteFailed err]) | None \<Rightarrow> (Some (b_want b), []))"

definition Tick ::
  "(pve_fs \<Rightarrow> 'f) \<Rightarrow> 'n NFT \<Rightarrow> pve_fs \<times> pve_fs \<Rightarrow> string option \<Rightarrow> 'f Binder \<Rightarrow> 'n
    \<Rightarrow> bool \<times> 'f Binder \<times> 'n \<times> binder_log list \<times> string option" where
  "Tick fp nft e wr b0 n =
     (case refresh fp e b0 of (b, changed, lg) \<Rightarrow>
        if b_want b = [] then (False, b, n, lg, None)
        else let now = stateOf (nft_List nft n) in
          if \<not> changed \<and> \<not> b_failing b \<and> now = b_seen b then (False, b, n, lg, None)
          else let lg2 = lg @ (if \<not> changed \<and> \<not> b_failing b
                               then (if now = Missing then [TableMissing] else [TableChanged]) else [])
            in (case nft_Apply nft n (b_want b) of
                  (Some err, n') \<Rightarrow>
                    (False, b\<lparr>b_failing := True, b_failMsg := err\<rparr>, n',
                     lg2 @ (if \<not> b_failing b \<or> err \<noteq> b_failMsg b then [ApplyFailed err] else []), None)
                | (None, n') \<Rightarrow>
                    (let listing = nft_List nft n';
                         b' = b\<lparr>b_failing := False, b_failMsg := [], b_seen := stateOf listing\<rparr>;
                         (file, lg3) = writeScript wr b'
                     in (True, b', n',
                         lg2 @ (case listing of Inl err \<Rightarrow> [AppliedUnlisted err] | Inr _ \<Rightarrow> [])
                           @ lg3 @ [Applied (b_ports b')], file))))"

definition new_binder :: "string \<Rightarrow> string \<Rightarrow> 'f Binder" where
  "new_binder bridge runDir =
     \<lparr>b_Bridge = bridge, b_RunDir = runDir, b_fp = None, b_want = [], b_ports = 0, b_seen = Listing [],
      b_failing = False, b_failMsg = [], b_readMsg = []\<rparr>"

text \<open>
  \<open>Run\<close>: the first check decides whether the Binder starts; then one check per tick of the
  clock until it is cancelled. \<open>env\<close> lists, per check, the snapshots and what else happens to
  the packet filter before it.
\<close>

datatype run_error = NoTable string | FirstApplyFailed string

fun run_ticks ::
  "(pve_fs \<Rightarrow> 'f) \<Rightarrow> 'n NFT \<Rightarrow> ((pve_fs \<times> pve_fs) \<times> string option \<times> ('n \<Rightarrow> 'n)) list \<Rightarrow> 'f Binder \<Rightarrow> 'n
    \<Rightarrow> 'f Binder \<times> 'n" where
  "run_ticks fp nft [] b n = (b, n)"
| "run_ticks fp nft ((e, wr, outside) # env) b n =
     (case Tick fp nft e wr b (outside n) of (_, b', n', _) \<Rightarrow> run_ticks fp nft env b' n')"

definition Run ::
  "(pve_fs \<Rightarrow> 'f) \<Rightarrow> 'n NFT \<Rightarrow> (pve_fs \<times> pve_fs) \<times> string option
    \<Rightarrow> ((pve_fs \<times> pve_fs) \<times> string option \<times> ('n \<Rightarrow> 'n)) list \<Rightarrow> 'f Binder \<Rightarrow> 'n
    \<Rightarrow> run_error option \<times> 'f Binder \<times> 'n" where
  "Run fp nft first env b0 n0 =
     (case Tick fp nft (fst first) (snd first) b0 n0 of (_, b, n, _) \<Rightarrow>
        if b_want b = [] then (Some (NoTable (b_readMsg b)), b, n)
        else if b_failing b then (Some (FirstApplyFailed (b_failMsg b)), b, n)
        else (case run_ticks fp nft env b n of (b', n') \<Rightarrow> (None, b', n')))"

subsection \<open>Reading once per change\<close>

lemma refresh_load_fp: "b_fp (fst (refresh_load fp e b)) = Some (fp (fst e))"
  by (simp add: refresh_load_def Let_def split: sum.split)

interpretation rebind: once_per_fingerprint "\<lambda>e. fp (fst e)" b_fp
  "\<lambda>e b. fst (refresh_load fp e b)" "\<lambda>e b. fst (refresh fp e b)" for fp :: "pve_fs \<Rightarrow> 'f"
  by unfold_locales (simp_all add: refresh_def refresh_load_fp)

subsection \<open>Keeping the table\<close>

text \<open>
  The documented behaviour of \<open>nft\<close>: \<open>rules n\<close> is what the table holds, \<open>None\<close> when there is none,
  and \<open>meaning\<close> what a script makes it hold. When a script was loaded the table holds what the
  script says, and two equal listings are listings of the same rules. Nothing is assumed of a call
  that fails: \<open>Exec.run\<close> returns an error for any failure of \<open>nft\<close> and for a call that took too
  long, so a failed load may have changed the table or not, and a failed listing says nothing of it.
\<close>

definition nft_ok :: "'n NFT \<Rightarrow> ('n \<Rightarrow> 'r option) \<Rightarrow> (string \<Rightarrow> 'r) \<Rightarrow> bool" where
  "nft_ok nft rules meaning \<longleftrightarrow>
     (\<forall>n s n'. nft_Apply nft n s = (None, n') \<longrightarrow> rules n' = Some (meaning s)) \<and>
     (\<forall>n n' l. nft_List nft n = Inr l \<and> nft_List nft n' = Inr l \<longrightarrow> rules n = rules n')"

text \<open>
  The one state in which a check looks at a table it cannot see and leaves it: the table could not
  be listed after the last successful load, and it cannot be listed now.
\<close>

definition table_unseen :: "'n NFT \<Rightarrow> 'f Binder \<Rightarrow> 'n \<Rightarrow> bool" where
  "table_unseen nft b n \<longleftrightarrow> b_seen b = Missing \<and> stateOf (nft_List nft n) = Missing"

lemma same_state_same_rules:
  assumes "nft_ok nft rules meaning" "stateOf (nft_List nft n) = stateOf (nft_List nft m)"
    and "stateOf (nft_List nft m) \<noteq> Missing"
  shows "rules n = rules m"
proof -
  obtain l where "nft_List nft m = Inr l"
    using assms(3) by (cases "nft_List nft m") (simp_all add: stateOf_def)
  moreover from this have "nft_List nft n = Inr l"
    using assms(2) by (cases "nft_List nft n") (simp_all add: stateOf_def)
  ultimately show ?thesis using assms(1) unfolding nft_ok_def by metis
qed

definition binder_ok :: "'n NFT \<Rightarrow> ('n \<Rightarrow> 'r option) \<Rightarrow> (string \<Rightarrow> 'r) \<Rightarrow> 'f Binder \<Rightarrow> bool" where
  "binder_ok nft rules meaning b \<longleftrightarrow> (\<not> b_failing b \<and> b_want b \<noteq> [] \<longrightarrow>
     (\<exists>n0. b_seen b = stateOf (nft_List nft n0) \<and> rules n0 = Some (meaning (b_want b))))"

lemma refresh_unchanged:
  assumes "refresh fp e b = (b', changed, lg)"
  shows "b_failing b' = b_failing b" "b_seen b' = b_seen b" "b_Bridge b' = b_Bridge b"
    "\<not> changed \<Longrightarrow> b_want b' = b_want b"
  using assms by (auto simp: refresh_def refresh_load_def Let_def split: if_splits sum.splits)

lemma Tick_keeps:
  assumes "nft_ok nft rules meaning" "binder_ok nft rules meaning b"
    and "Tick fp nft e wr b n = (r, b', n', lg, file)"
  shows "binder_ok nft rules meaning b'"
    "b_want b' = [] \<or> b_failing b' \<or> rules n' = Some (meaning (b_want b')) \<or> table_unseen nft b' n'"
    "fst (refresh fp e b) = b'\<lparr>b_failing := b_failing b, b_failMsg := b_failMsg (fst (refresh fp e b)), b_seen := b_seen b\<rparr>"
proof -
  obtain b1 changed lg1 where R: "refresh fp e b = (b1, changed, lg1)" by (metis prod_cases3)
  note U = refresh_unchanged [OF R]
  have "binder_ok nft rules meaning b' \<and> (b_want b' = [] \<or> b_failing b' \<or> rules n' = Some (meaning (b_want b')) \<or> table_unseen nft b' n')
    \<and> b1 = b'\<lparr>b_failing := b_failing b, b_failMsg := b_failMsg b1, b_seen := b_seen b\<rparr>"
  proof (cases "b_want b1 = []")
    case True
    then have "b' = b1" using assms(3) by (simp add: Tick_def R)
    then show ?thesis using True U(1, 2) by (simp add: binder_ok_def)
  next
    case want: False
    show ?thesis
    proof (cases "\<not> changed \<and> \<not> b_failing b1 \<and> stateOf (nft_List nft n) = b_seen b1")
      case True
      then have b': "b' = b1" "n' = n" using assms(3) want by (simp_all add: Tick_def R Let_def)
      have ok1: "binder_ok nft rules meaning b1"
        using assms(2) U True by (simp add: binder_ok_def)
      then obtain n0 where "b_seen b1 = stateOf (nft_List nft n0)" "rules n0 = Some (meaning (b_want b1))"
        using True want by (auto simp: binder_ok_def)
      with True same_state_same_rules [OF assms(1), of n n0] ok1 b' U show ?thesis
        by (auto simp: table_unseen_def)
    next
      case False
      obtain err n1 where A: "nft_Apply nft n (b_want b1) = (err, n1)" by fastforce
      show ?thesis
      proof (cases err)
        case (Some x)
        then have "b' = b1\<lparr>b_failing := True, b_failMsg := x\<rparr>"
          using assms(3) want False A by (auto simp: Tick_def R Let_def)
        then show ?thesis using U by (simp add: binder_ok_def)
      next
        case None
        then have b': "b' = b1\<lparr>b_failing := False, b_failMsg := [], b_seen := stateOf (nft_List nft n1)\<rparr>" "n' = n1"
          using assms(3) want False A by (auto simp: Tick_def R Let_def split: prod.splits)
        have "rules n1 = Some (meaning (b_want b1))"
          using assms(1) A None by (auto simp: nft_ok_def)
        then show ?thesis using b' U by (auto simp: binder_ok_def)
      qed
    qed
  qed
  then show "binder_ok nft rules meaning b'"
    "b_want b' = [] \<or> b_failing b' \<or> rules n' = Some (meaning (b_want b')) \<or> table_unseen nft b' n'"
    "fst (refresh fp e b) = b'\<lparr>b_failing := b_failing b, b_failMsg := b_failMsg (fst (refresh fp e b)), b_seen := b_seen b\<rparr>"
    using R by simp_all
qed

text \<open>
  The files a Binder meets during one run are told apart by their fingerprint: they are under one
  root, every record of the fingerprint fits its length fields, and no two of these streams are a
  collision of SHA-256.
\<close>

definition fingerprinted :: "(string \<Rightarrow> 'd) \<Rightarrow> pve_fs set \<Rightarrow> bool" where
  "fingerprinted sha256 S \<longleftrightarrow>
     (\<forall>fs\<in>S. \<forall>gs\<in>S. root fs = root gs) \<and> (\<forall>fs\<in>S. list_all fp_ok (source_inputs fs)) \<and>
     inj_on sha256 ((\<lambda>fs. fp_stream (source_inputs fs)) ` S)"

definition told_apart :: "(pve_fs \<Rightarrow> 'f) \<Rightarrow> pve_fs set \<Rightarrow> bool" where
  "told_apart fp S \<longleftrightarrow> (\<forall>fs\<in>S. \<forall>gs\<in>S. fp fs = fp gs \<longrightarrow> GuestNICs fs = GuestNICs gs)"

lemma fingerprinted_told_apart:
  assumes "fingerprinted sha256 S"
  shows "told_apart (SourceFingerprint sha256) S"
  unfolding told_apart_def
proof (intro ballI impI)
  fix fs gs assume S: "fs \<in> S" "gs \<in> S" and eq: "SourceFingerprint sha256 fs = SourceFingerprint sha256 gs"
  have ok: "root fs = root gs" "list_all fp_ok (source_inputs fs)" "list_all fp_ok (source_inputs gs)"
    using assms S unfolding fingerprinted_def by blast+
  have "fp_stream (source_inputs fs) = fp_stream (source_inputs gs)"
    using assms S eq unfolding fingerprinted_def SourceFingerprint_def by (metis (no_types, lifting) imageI inj_onD)
  then have "source_inputs fs = source_inputs gs" by (rule fp_stream_injective [OF ok(2, 3)])
  then have "fs = gs" by (rule source_inputs_inj [OF ok(1)])
  then show "GuestNICs fs = GuestNICs gs" by simp
qed

text \<open>The script wanted is that of the files last fingerprinted, when they can be read.\<close>

definition want_ok :: "(pve_fs \<Rightarrow> 'f) \<Rightarrow> pve_fs set \<Rightarrow> 'f Binder \<Rightarrow> bool" where
  "want_ok fp S b \<longleftrightarrow> (\<forall>fs nics. fs \<in> S \<and> b_fp b = Some (fp fs) \<and> GuestNICs fs = Inr nics
     \<longrightarrow> b_want b = Render (b_Bridge b) nics)"

lemma Render_ne: "Render bridge nics \<noteq> []"
  by (simp add: Render_def)

lemma refresh_want:
  assumes "told_apart fp S" "want_ok fp S b" "fs \<in> S"
  shows "want_ok fp S (fst (refresh fp (fs, fs) b))"
proof (cases "b_fp b = Some (fp fs)")
  case True
  then show ?thesis using assms(2) by (simp add: refresh_def)
next
  case False
  then have load: "refresh fp (fs, fs) b = refresh_load fp (fs, fs) b" by (simp add: refresh_def)
  show ?thesis
    unfolding want_ok_def load
  proof (intro allI impI)
    fix gs nics assume h: "gs \<in> S \<and> b_fp (fst (refresh_load fp (fs, fs) b)) = Some (fp gs) \<and> GuestNICs gs = Inr nics"
    then have "fp fs = fp gs" using refresh_load_fp [of fp "(fs, fs)" b] by simp
    then have "GuestNICs fs = Inr nics" using h assms(1, 3) unfolding told_apart_def by metis
    then show "b_want (fst (refresh_load fp (fs, fs) b)) = Render (b_Bridge (fst (refresh_load fp (fs, fs) b))) nics"
      by (simp add: refresh_load_def Let_def)
  qed
qed

definition keeper_ok :: "(pve_fs \<Rightarrow> 'f) \<Rightarrow> pve_fs set \<Rightarrow> 'n NFT \<Rightarrow> ('n \<Rightarrow> 'r option) \<Rightarrow> (string \<Rightarrow> 'r) \<Rightarrow> string \<Rightarrow> 'f Binder \<Rightarrow> bool" where
  "keeper_ok fp S nft rules meaning bridge b \<longleftrightarrow>
     binder_ok nft rules meaning b \<and> want_ok fp S b \<and> b_Bridge b = bridge"

lemma keeper_ok_Tick:
  assumes "nft_ok nft rules meaning" "told_apart fp S" "keeper_ok fp S nft rules meaning bridge b"
    and "Tick fp nft (fs, fs) wr b n = (r, b', n', lg, file)" and "fs \<in> S"
  shows "keeper_ok fp S nft rules meaning bridge b'"
    "GuestNICs fs = Inr nics \<Longrightarrow> b_want b' = Render bridge nics"
    "b_want b' = [] \<or> b_failing b' \<or> rules n' = Some (meaning (b_want b')) \<or> table_unseen nft b' n'"
proof -
  have b: "binder_ok nft rules meaning b" "want_ok fp S b" "b_Bridge b = bridge"
    using assms(3) by (simp_all add: keeper_ok_def)
  note T = Tick_keeps [OF assms(1) b(1) assms(4)]
  let ?b1 = "fst (refresh fp (fs, fs) b)"
  have same: "b_want b' = b_want ?b1" "b_fp b' = b_fp ?b1" "b_Bridge b' = b_Bridge ?b1"
    using arg_cong [OF T(3), of b_want] arg_cong [OF T(3), of b_fp] arg_cong [OF T(3), of b_Bridge] by simp_all
  have bridge: "b_Bridge ?b1 = bridge"
    using refresh_unchanged(3) b(3) by (metis prod.collapse)
  have w: "want_ok fp S ?b1" using refresh_want [OF assms(2) b(2) assms(5)] .
  show "keeper_ok fp S nft rules meaning bridge b'"
    using T(1) w same bridge by (simp add: keeper_ok_def want_ok_def)
  show "b_want b' = Render bridge nics" if "GuestNICs fs = Inr nics"
    using that w same bridge assms(5) rebind.noted_check [of fp "(fs, fs)" b] by (simp add: want_ok_def)
  show "b_want b' = [] \<or> b_failing b' \<or> rules n' = Some (meaning (b_want b')) \<or> table_unseen nft b' n'" by (rule T(2))
qed

definition steady :: "((pve_fs \<times> pve_fs) \<times> string option \<times> ('n \<Rightarrow> 'n)) list \<Rightarrow> bool" where
  "steady env \<longleftrightarrow> list_all (\<lambda>(e, _). fst e = snd e) env"

lemma keeper_ok_run:
  assumes "nft_ok nft rules meaning" "told_apart fp S" "keeper_ok fp S nft rules meaning bridge b" "steady env"
    and "(\<lambda>x. fst (fst x)) ` set env \<subseteq> S" and "run_ticks fp nft env b n = (b', n')"
  shows "keeper_ok fp S nft rules meaning bridge b'"
  using assms(3-6)
proof (induction env arbitrary: b n)
  case (Cons x env)
  obtain fs wr out where x: "x = ((fs, fs), wr, out)" using Cons.prems(2) by (cases x) (auto simp: steady_def)
  obtain r b1 n1 lg fl where T: "Tick fp nft (fs, fs) wr b (out n) = (r, b1, n1, lg, fl)" by (metis prod_cases5)
  have "keeper_ok fp S nft rules meaning bridge b1"
    using keeper_ok_Tick(1) [OF assms(1, 2) Cons.prems(1) T] Cons.prems(3) by (simp add: x)
  then show ?case using Cons.IH Cons.prems by (simp add: x T steady_def)
qed simp

lemma run_ticks_append:
  "run_ticks fp nft (env @ env') b n = (case run_ticks fp nft env b n of (b', n') \<Rightarrow> run_ticks fp nft env' b' n')"
proof (induction env arbitrary: b n)
  case (Cons x env)
  then show ?case by (cases x) (simp split: prod.split)
qed simp

lemma keeper_ok_new: "keeper_ok fp S nft rules meaning bridge (new_binder bridge runDir)"
  by (simp add: keeper_ok_def binder_ok_def want_ok_def new_binder_def)

subsection \<open>What the script says\<close>

definition nic_lines :: "NIC \<Rightarrow> string list" where
  "nic_lines n =
     (let t = [tab, tab] @ ''iifname '' @ quoted (Tap n) in
      if n_MAC n = [] then [t @ '' counter drop'']
      else [t @ '' ether type { 8021q, 8021ad } counter drop'',
            t @ '' ether saddr != '' @ n_MAC n @ '' counter drop'',
            t @ '' ether type arp arp saddr ether != '' @ n_MAC n @ '' counter drop''])"

definition on_bridge :: "string \<Rightarrow> NIC list \<Rightarrow> NIC list" where
  "on_bridge bridge nics = filter (\<lambda>n. n_Bridge n = bridge) nics"

definition script_lines :: "string \<Rightarrow> NIC list \<Rightarrow> string list" where
  "script_lines bridge nics =
     [''table bridge '' @ Table, ''delete table bridge '' @ Table, ''table bridge '' @ Table @ '' {'',
      [tab] @ ''chain from_guests {'', [tab, tab] @ ''type filter hook prerouting priority -200; policy accept;'']
     @ concat (map nic_lines (on_bridge bridge nics)) @ [[tab] @ ''}'', ''}'']"

lemma nic_rules_lines:
  "nic_rules bridge n = (if n_Bridge n = bridge then concat (map (\<lambda>l. l @ [newline]) (nic_lines n)) else [])"
  by (simp add: nic_rules_def nic_lines_def Let_def)

lemma rules_lines:
  "concat (map (nic_rules bridge) nics) = concat (map (\<lambda>l. l @ [newline]) (concat (map nic_lines (on_bridge bridge nics))))"
  by (induction nics) (simp_all add: nic_rules_lines on_bridge_def)

lemma Render_lines: "Render bridge nics = concat (map (\<lambda>l. l @ [newline]) (script_lines bridge nics))"
  by (simp add: Render_def script_lines_def rules_lines)

text \<open>Ports as \<open>GuestNICs\<close> returns them: a numeric VM id, and a MAC of hexadecimal digits or none.\<close>

definition nic_ok :: "NIC \<Rightarrow> bool" where
  "nic_ok n \<longleftrightarrow> list_all is_digit (n_VMID n) \<and> (n_MAC n = [] \<or> valid_mac (n_MAC n))"

lemma mac_pairs_chars: "mac_pairs k s \<Longrightarrow> c \<in> set s \<Longrightarrow> is_hex_digit c \<or> c = CHR '':''"
  by (induction k s rule: mac_pairs.induct) auto

lemma mac_pairs_lower: "mac_pairs k s \<Longrightarrow> mac_pairs k (ToLower s)"
proof -
  have hex: "is_hex_digit c \<Longrightarrow> is_hex_digit (lower_char c)" for c
    by (auto simp: is_hex_digit_def is_digit_def is_upper_def of_char_lower_char)
  have "lower_char CHR '':'' = CHR '':''" by (simp add: lower_char_def is_upper_def)
  then show "mac_pairs k s \<Longrightarrow> mac_pairs k (ToLower s)"
    by (induction k s rule: mac_pairs.induct) (auto simp: ToLower_def hex)
qed

lemma nic_field_vmid: "n_VMID (fst (nic_field f st)) = n_VMID (fst st)" "n_MAC (fst (nic_field f st)) = n_MAC (fst st)"
  by (simp_all add: nic_field_def split: prod.split)

lemma nic_fields_vmid:
  "n_VMID (fst (fold nic_field fs st)) = n_VMID (fst st)" "n_MAC (fst (fold nic_field fs st)) = n_MAC (fst st)"
  by (induction fs arbitrary: st) (simp_all add: nic_field_vmid)

lemma parseNIC_ok: "list_all is_digit vmid \<Longrightarrow> nic_ok (parseNIC vmid i v)"
proof -
  assume d: "list_all is_digit vmid"
  obtain nic mac where f: "fold nic_field (split_at_char CHR '','' v)
      (\<lparr>n_VMID = vmid, n_Index = i, n_Model = [], n_MAC = [], n_Bridge = []\<rparr>, []) = (nic, mac)" by fastforce
  have "n_VMID nic = vmid" "n_MAC nic = []"
    using nic_fields_vmid [of "split_at_char CHR '','' v"
        "(\<lparr>n_VMID = vmid, n_Index = i, n_Model = [], n_MAC = [], n_Bridge = []\<rparr>, [])"] f by simp_all
  then show ?thesis using d f by (auto simp: parseNIC_def nic_ok_def valid_mac_def mac_pairs_lower)
qed

lemma valid_vmid_digits: "valid_vmid s \<Longrightarrow> list_all is_digit s"
  by (cases s) (auto simp: valid_vmid_def)

lemma nics_of_ok:
  "nics_of fs ns = Inr nics \<Longrightarrow> list_all nic_ok ns \<Longrightarrow> list_all nic_ok nics"
proof (induction fs ns rule: nics_of.induct)
  case (2 name r fs ns)
  have "list_all nic_ok (parseNICs (conf_vmid name) data)" if "valid_vmid (conf_vmid name)" for data
    using valid_vmid_digits [OF that] parseNIC_ok
    by (auto simp: parseNICs_def list_all_iff nic_line_def split: prod.splits if_splits option.splits)
  with 2 show ?case by (auto split: if_splits file_read.splits)
qed simp

lemma GuestNICs_ok: "GuestNICs fs = Inr nics \<Longrightarrow> n \<in> set nics \<Longrightarrow> nic_ok n"
  using nics_of_ok [of _ "[]"]
  by (auto simp: GuestNICs_def list_all_iff split: conf_listing.splits sum.splits)

subsection \<open>Claims\<close>

text \<open>After a failed load the next check loads, whatever it finds.\<close>

lemma failed_is_retried:
  assumes "b_failing b" "Tick fp nft e wr b n = (r, b', n', lg, file)" "b_want b' \<noteq> []"
  shows "n' = snd (nft_Apply nft n (b_want b'))"
proof -
  obtain b1 changed lg1 where R: "refresh fp e b = (b1, changed, lg1)" by (metis prod_cases3)
  have "b_failing b1" using refresh_unchanged(1) [OF R] assms(1) by simp
  then show ?thesis
    using assms(2, 3) by (auto simp: Tick_def R Let_def split: if_splits prod.splits option.splits)
qed

text \<open>The files as the checks of a run meet them.\<close>

definition files_of :: "((pve_fs \<times> pve_fs) \<times> string option \<times> ('n \<Rightarrow> 'n)) list \<Rightarrow> pve_fs set" where
  "files_of env = (\<lambda>x. fst (fst x)) ` set env"

text \<open>
  C26: Every check leaves each guest port bound, or is on record as failed. Start a new Binder and
  let it run for any number of checks, while the guest configurations change between checks (not
  between the fingerprint and the reading of one check), anything at all happens to the table in
  between, and \<open>nft\<close> may fail at any call. When the files of the last check can be read, then after
  it the table holds exactly the rules rendered from those files, unless that check failed to apply
  them, in which case the next check on these files loads them again whatever it finds, or the table could be listed neither after the last
  successful load nor at this check: what cannot be seen then looks unchanged and is left alone. Of
  SHA-256 only this is assumed, that the files of this run are no collision.
\<close>

theorem ports_stay_bound:
  assumes "nft_ok nft rules meaning" "steady ((first, wr0, id) # env)"
    and "fingerprinted sha256 (files_of ((first, wr0, id) # env @ [((fs, fs), wr, outside)]))"
    and "Run (SourceFingerprint sha256) nft (first, wr0) (env @ [((fs, fs), wr, outside)]) (new_binder bridge runDir) n0
      = (None, b, n)"
    and "GuestNICs fs = Inr nics"
  shows "(b_failing b \<or> rules n = Some (meaning (Render bridge nics))
      \<or> (b_seen b = Missing \<and> (\<exists>err. nft_List nft n = Inl err)))
    \<and> (b_failing b \<longrightarrow> (\<forall>wr' m. fst (snd (snd (Tick (SourceFingerprint sha256) nft (fs, fs) wr' b m)))
      = snd (nft_Apply nft m (Render bridge nics))))"
proof -
  let ?fp = "SourceFingerprint sha256"
  let ?S = "files_of ((first, wr0, id) # env @ [((fs, fs), wr, outside)])"
  note apart = fingerprinted_told_apart [OF assms(3)]
  obtain fs0 where first: "first = (fs0, fs0)" using assms(2) by (cases first) (simp add: steady_def)
  have steady: "steady env" using assms(2) by (simp add: steady_def)
  have S: "fs0 \<in> ?S" "(\<lambda>x. fst (fst x)) ` set env \<subseteq> ?S" "fs \<in> ?S" by (auto simp: files_of_def first)
  obtain r1 b1 n1 lg1 file1 where T1: "Tick ?fp nft (fs0, fs0) wr0 (new_binder bridge runDir) n0 = (r1, b1, n1, lg1, file1)"
    by (metis prod_cases5)
  have k1: "keeper_ok ?fp ?S nft rules meaning bridge b1"
    using keeper_ok_Tick(1) [OF assms(1) apart keeper_ok_new T1 S(1)] .
  obtain b2 n2 where R: "run_ticks ?fp nft env b1 n1 = (b2, n2)" by fastforce
  have k2: "keeper_ok ?fp ?S nft rules meaning bridge b2"
    using keeper_ok_run [OF assms(1) apart k1 steady S(2) R] .
  obtain r3 b3 n3 lg3 file3 where T3: "Tick ?fp nft (fs, fs) wr b2 (outside n2) = (r3, b3, n3, lg3, file3)"
    by (metis prod_cases5)
  have b: "b = b3" "n = n3"
    using assms(4) T1 R T3 by (auto simp: Run_def first run_ticks_append split: if_splits)
  have un: "table_unseen nft b n \<Longrightarrow> b_seen b = Missing \<and> (\<exists>err. nft_List nft n = Inl err)"
    by (auto simp: table_unseen_def stateOf_def split: sum.splits)
  have now: "b_failing b \<or> rules n = Some (meaning (Render bridge nics))
      \<or> (b_seen b = Missing \<and> (\<exists>err. nft_List nft n = Inl err))"
    using keeper_ok_Tick(2, 3) [OF assms(1) apart k2 T3 S(3)] assms(5) b un Render_ne by metis
  have k3: "keeper_ok ?fp ?S nft rules meaning bridge b"
    using keeper_ok_Tick(1) [OF assms(1) apart k2 T3 S(3)] b by simp
  have "fst (snd (snd (Tick ?fp nft (fs, fs) wr' b m))) = snd (nft_Apply nft m (Render bridge nics))"
    if fails: "b_failing b" for wr' m
  proof -
    obtain r' b' n' lg' file' where T: "Tick ?fp nft (fs, fs) wr' b m = (r', b', n', lg', file')"
      by (metis prod_cases5)
    then show ?thesis
      using failed_is_retried [OF fails T] keeper_ok_Tick(2) [OF assms(1) apart k3 T S(3) assms(5)] Render_ne by simp
  qed
  then show ?thesis using now by blast
qed

definition memNFT :: "string option NFT" where
  "memNFT = \<lparr>nft_Apply = (\<lambda>n s. (None, Some s)),
             nft_List = (\<lambda>n. case n of None \<Rightarrow> Inl ''No such file or directory'' | Some l \<Rightarrow> Inr l)\<rparr>"

lemma memNFT_ok: "nft_ok memNFT (\<lambda>n. n) (\<lambda>s. s)"
  by (auto simp: nft_ok_def memNFT_def split: option.splits)

definition sampleNIC :: NIC where
  "sampleNIC = \<lparr>n_VMID = ''350'', n_Index = 1, n_Model = ''virtio'', n_MAC = ''bc:24:11:00:02:99'', n_Bridge = ''vmbr_imds''\<rparr>"

lemma sample_nics: "GuestNICs sampleFS = Inr [sampleNIC]"
  by code_simp

text \<open>The table is removed from outside before the second check.\<close>

lemma sample_fingerprinted: "fingerprinted (\<lambda>s. s) {sampleFS}"
  by (simp add: fingerprinted_def source_inputs_def sampleFS_def sampleConf_def conf_path_def configDir_def)

theorem ports_stay_bound_witness:
  "\<exists>b. Run (SourceFingerprint (\<lambda>s. s)) memNFT ((sampleFS, sampleFS), None)
      ([] @ [((sampleFS, sampleFS), None, \<lambda>_. None)]) (new_binder ''vmbr_imds'' []) None
    = (None, b, Some (Render ''vmbr_imds'' [sampleNIC]))"
proof -
  let ?run = "Run (SourceFingerprint (\<lambda>s. s)) memNFT ((sampleFS, sampleFS), None)
      ([] @ [((sampleFS, sampleFS), None, \<lambda>_. None)]) (new_binder ''vmbr_imds'' []) None"
  obtain r b n where run: "?run = (r, b, n)" by (metis prod_cases3)
  have r: "r = None" "\<not> b_failing b" "b_seen b \<noteq> Missing"
    using run sample_nics
    by (auto simp: Run_def Tick_def refresh_def refresh_load_def new_binder_def memNFT_def stateOf_def
        writeScript_def Let_def Render_ne split: if_splits)
  have "steady [((sampleFS, sampleFS), None, id)]" by (simp add: steady_def)
  moreover have "fingerprinted (\<lambda>s. s) (files_of (((sampleFS, sampleFS), None, id) # [] @ [((sampleFS, sampleFS), None, \<lambda>_. None)]))"
    using sample_fingerprinted by (simp add: files_of_def)
  ultimately have "b_failing b \<or> n = Some (Render ''vmbr_imds'' [sampleNIC])
      \<or> b_seen b = Missing \<and> (\<exists>err. nft_List memNFT n = Inl err)"
    using ports_stay_bound [OF memNFT_ok _ _ run [unfolded r(1)] sample_nics] by blast
  then show ?thesis using r run by simp
qed

lemma quoted_cancel:
  "CHR 0x22 \<notin> set a \<Longrightarrow> CHR 0x22 \<notin> set b \<Longrightarrow> quoted a @ r = quoted b @ s \<longleftrightarrow> a = b \<and> r = s"
  by (simp add: quoted_def append_sep_cancel)

lemma tap_chars: "nic_ok n \<Longrightarrow> c \<in> set (Tap n) \<Longrightarrow> is_digit c \<or> c \<in> {CHR ''t'', CHR ''a'', CHR ''p'', CHR ''i''}"
  by (auto simp: Tap_def nic_ok_def list_all_iff dest: itoa_digits)

lemma tap_no_quote: "nic_ok n \<Longrightarrow> CHR 0x22 \<notin> set (Tap n)" "nic_ok n \<Longrightarrow> newline \<notin> set (Tap n)"
  using tap_chars [of n "CHR 0x22"] tap_chars [of n newline] by (auto simp: is_digit_def)

lemma tap_inj:
  assumes "nic_ok n" "nic_ok m" "Tap n = Tap m"
  shows "n_VMID n = n_VMID m \<and> n_Index n = n_Index m"
proof -
  have "CHR ''i'' \<notin> set (n_VMID n)" "CHR ''i'' \<notin> set (n_VMID m)"
    using assms(1, 2) by (auto simp: nic_ok_def list_all_iff is_digit_def)
  moreover have "n_VMID n @ CHR ''i'' # itoa (n_Index n) = n_VMID m @ CHR ''i'' # itoa (n_Index m)"
    using assms(3) by (simp add: Tap_def)
  ultimately show ?thesis by (simp add: append_sep_cancel itoa_inj)
qed

lemma mac_no_newline: "nic_ok n \<Longrightarrow> newline \<notin> set (n_MAC n)"
  using mac_pairs_chars [of 6 "n_MAC n" newline]
  by (auto simp: nic_ok_def valid_mac_def is_hex_digit_def is_digit_def)

definition port_key :: "NIC \<Rightarrow> string \<times> nat \<times> string" where
  "port_key n = (n_VMID n, n_Index n, n_MAC n)"

lemma nic_lines_cancel:
  assumes "nic_ok n" "nic_ok m" "nic_lines n @ r = nic_lines m @ s"
  shows "port_key n = port_key m \<and> r = s"
proof -
  note q = quoted_cancel [OF tap_no_quote(1) [OF assms(1)] tap_no_quote(1) [OF assms(2)]]
  have "Tap n = Tap m \<and> n_MAC n = n_MAC m \<and> r = s"
    using assms(3) q by (auto simp: nic_lines_def Let_def split: if_splits)
  then show ?thesis using tap_inj [OF assms(1, 2)] by (simp add: port_key_def)
qed

lemma nic_lines_ne: "nic_lines n \<noteq> []"
  by (simp add: nic_lines_def Let_def)

lemma all_lines_inj:
  "list_all nic_ok ns \<Longrightarrow> list_all nic_ok ms \<Longrightarrow> concat (map nic_lines ns) = concat (map nic_lines ms)
    \<Longrightarrow> map port_key ns = map port_key ms"
proof (induction ns arbitrary: ms)
  case Nil
  then show ?case by (cases ms) (simp_all add: nic_lines_ne)
next
  case (Cons n ns)
  then obtain m ms' where ms: "ms = m # ms'" by (cases ms) (simp_all add: nic_lines_ne)
  then show ?case
    using Cons nic_lines_cancel [of n m "concat (map nic_lines ns)" "concat (map nic_lines ms')"] by simp
qed

lemma script_line_clean:
  assumes "list_all nic_ok nics"
  shows "list_all (\<lambda>l. newline \<notin> set l) (script_lines bridge nics)"
proof -
  have "newline \<notin> set l" if "n \<in> set (on_bridge bridge nics)" "l \<in> set (nic_lines n)" for n l
  proof -
    have "nic_ok n" using that(1) assms by (auto simp: on_bridge_def list_all_iff)
    then show ?thesis
      using that(2) tap_no_quote(2) mac_no_newline by (auto simp: nic_lines_def quoted_def Let_def split: if_splits)
  qed
  then show ?thesis by (auto simp: script_lines_def list_all_iff Table_def)
qed

text \<open>
  Comparing scripts is comparing bindings: the scripts for a bridge are equal exactly when the same
  ports of that bridge, in the same order, have the same MACs, and nothing in a guest configuration
  can write a line of its own into the script.
\<close>

lemma same_script_same_ports:
  assumes "GuestNICs fs = Inr nics" "GuestNICs fs' = Inr nics'"
  shows "Render bridge nics = Render bridge nics' \<longleftrightarrow>
    map port_key (on_bridge bridge nics) = map port_key (on_bridge bridge nics')"
proof
  have ok: "list_all nic_ok nics" "list_all nic_ok nics'"
    using GuestNICs_ok assms by (auto simp: list_all_iff)
  then have ok': "list_all nic_ok (on_bridge bridge nics)" "list_all nic_ok (on_bridge bridge nics')"
    by (auto simp: on_bridge_def list_all_iff)
  assume "Render bridge nics = Render bridge nics'"
  then have "script_lines bridge nics @ [[]] = script_lines bridge nics' @ [[]]"
    using split_lines [OF script_line_clean [OF ok(1)], of bridge "[]"]
      split_lines [OF script_line_clean [OF ok(2)], of bridge "[]"] by (simp add: Render_lines)
  then have "concat (map nic_lines (on_bridge bridge nics)) = concat (map nic_lines (on_bridge bridge nics'))"
    by (simp add: script_lines_def)
  then show "map port_key (on_bridge bridge nics) = map port_key (on_bridge bridge nics')"
    by (rule all_lines_inj [OF ok'])
next
  assume eq: "map port_key (on_bridge bridge nics) = map port_key (on_bridge bridge nics')"
  have "nic_lines n = nic_lines m" if "port_key n = port_key m" for n m
    using that by (simp add: nic_lines_def port_key_def Tap_def Let_def)
  with eq have "map nic_lines (on_bridge bridge nics) = map nic_lines (on_bridge bridge nics')"
    by (rule map_factor)
  then show "Render bridge nics = Render bridge nics'" by (simp add: Render_lines script_lines_def)
qed

subsection \<open>What the script admits\<close>

text \<open>
  The reading of the statements the script uses, after nft(8). A frame comes in on a port with an
  outermost ether type, a source address and, when it is ARP, a sender address. A rule is a line of
  matches and statements, done from left to right: a match that fails ends the rule, \<open>counter\<close>
  only counts, \<open>drop\<close> and \<open>accept\<close> decide. The rules of a chain are done in order, and a frame that
  no rule decides gets the policy of the chain. A line that is none of these is no result.
\<close>

record frame =
  f_iif :: string
  f_type :: string
  f_src :: string
  f_arp :: string

datatype rule_result = Admit | DropFrame | Continue

definition unquote :: "string \<Rightarrow> string" where
  "unquote s = (if s \<noteq> [] \<and> hd s = CHR 0x22 then butlast (tl s) else s)"

definition field_of :: "frame \<Rightarrow> string list \<Rightarrow> (string \<times> string list) option" where
  "field_of fr ts =
     (if take 1 ts = [''iifname''] then Some (f_iif fr, drop 1 ts)
      else if take 2 ts = [''ether'', ''type''] then Some (f_type fr, drop 2 ts)
      else if take 2 ts = [''ether'', ''saddr''] then Some (f_src fr, drop 2 ts)
      else if take 3 ts = [''arp'', ''saddr'', ''ether''] then Some (f_arp fr, drop 3 ts)
      else None)"

text \<open>The values a field is compared with: one, or a set in braces with commas between.\<close>

definition values_of :: "string list \<Rightarrow> (string list \<times> string list) option" where
  "values_of ts =
     (case ts of [] \<Rightarrow> None
      | v # rest \<Rightarrow>
          if v = ''{''
          then Some (map (filter (\<lambda>c. c \<noteq> CHR '','')) (takeWhile (\<lambda>t. t \<noteq> ''}'') rest),
                     drop 1 (dropWhile (\<lambda>t. t \<noteq> ''}'') rest))
          else Some ([unquote v], rest))"

definition match_of :: "frame \<Rightarrow> string list \<Rightarrow> (bool \<times> string list) option" where
  "match_of fr ts =
     (case field_of fr ts of None \<Rightarrow> None
      | Some (v, rest) \<Rightarrow>
          let differs = (take 1 rest = [''!='']) in
          (case values_of (if differs then drop 1 rest else rest) of None \<Rightarrow> None
           | Some (vs, rest') \<Rightarrow> Some ((v \<in> set vs) \<noteq> differs, rest')))"

function rule_verdict :: "frame \<Rightarrow> string list \<Rightarrow> rule_result option" where
  "rule_verdict fr ts =
     (if ts = [] then Some Continue
      else if hd ts = ''counter'' then rule_verdict fr (tl ts)
      else if hd ts = ''drop'' then Some DropFrame
      else if hd ts = ''accept'' then Some Admit
      else (case match_of fr ts of None \<Rightarrow> None
            | Some (holds, rest) \<Rightarrow>
                if \<not> holds then Some Continue
                else if length rest < length ts then rule_verdict fr rest else None))"
  by pat_completeness auto
termination by (relation "measure (\<lambda>(_, ts). length ts)") auto

declare rule_verdict.simps [simp del]

fun chain_verdict :: "frame \<Rightarrow> bool \<Rightarrow> string list list \<Rightarrow> bool option" where
  "chain_verdict fr policy [] = Some policy"
| "chain_verdict fr policy (r # rs) =
     (case rule_verdict fr r of None \<Rightarrow> None
      | Some Admit \<Rightarrow> Some True
      | Some DropFrame \<Rightarrow> Some False
      | Some Continue \<Rightarrow> chain_verdict fr policy rs)"

text \<open>
  The table of this program: the line that hooks its chain, and the rules. A script is done line by
  line and refused as a whole when one line is: declaring a table that exists changes nothing,
  deleting one that does not exist is an error, and a block adds its rules behind those that are
  there.
\<close>

type_synonym nft_table = "(string list \<times> string list list) option"

definition words_of :: "string \<Rightarrow> string list" where
  "words_of l = split_at_char CHR '' '' (dropWhile (\<lambda>c. c = tab) l)"

fun load_lines :: "string list list \<Rightarrow> nft_table \<Rightarrow> nft_table option" where
  "load_lines [] t = Some t"
| "load_lines (l # ls) t =
     (if l = [[]] then load_lines ls t
      else if l = [''table'', ''bridge'', Table]
      then load_lines ls (if t = None then Some ([], []) else t)
      else if l = [''delete'', ''table'', ''bridge'', Table]
      then (if t = None then None else load_lines ls None)
      else if l = [''table'', ''bridge'', Table, ''{'']
      then (case ls of
              chain # hook # body \<Rightarrow>
                if chain = [''chain'', ''from_guests'', ''{'']
                   \<and> dropWhile (\<lambda>r. r \<noteq> [''}'']) body = [[''}''], [''}''], [[]]]
                then Some (Some (hook, (case t of None \<Rightarrow> [] | Some (_, old) \<Rightarrow> old)
                       @ takeWhile (\<lambda>r. r \<noteq> [''}'']) body))
                else None
            | _ \<Rightarrow> None)
      else None)"

definition nft_load :: "string \<Rightarrow> nft_table \<Rightarrow> nft_table option" where
  "nft_load script = load_lines (map words_of (split_at_char newline script))"

definition hook_line :: "string \<Rightarrow> string list" where
  "hook_line policy = [''type'', ''filter'', ''hook'', ''prerouting'', ''priority'', ''-200;'', ''policy'', policy]"

definition admits :: "nft_table \<Rightarrow> frame \<Rightarrow> bool option" where
  "admits t fr =
     (case t of None \<Rightarrow> Some True
      | Some (hook, rules) \<Rightarrow>
          if hook = hook_line ''accept;'' then chain_verdict fr True rules
          else if hook = hook_line ''drop;'' then chain_verdict fr False rules
          else None)"

text \<open>The rendered lines, in words.\<close>

definition nic_words :: "NIC \<Rightarrow> string list list" where
  "nic_words n =
     (let t = [''iifname'', quoted (Tap n)] in
      if n_MAC n = [] then [t @ [''counter'', ''drop'']]
      else [t @ [''ether'', ''type'', ''{'', ''8021q,'', ''8021ad'', ''}'', ''counter'', ''drop''],
            t @ [''ether'', ''saddr'', ''!='', n_MAC n, ''counter'', ''drop''],
            t @ [''ether'', ''type'', ''arp'', ''arp'', ''saddr'', ''ether'', ''!='', n_MAC n, ''counter'', ''drop'']])"

lemma words_of_Join:
  assumes "ws \<noteq> []" "\<forall>w \<in> set ws. CHR '' '' \<notin> set w" "hd ws \<noteq> []" "hd (hd ws) \<noteq> tab"
  shows "words_of ([tab, tab] @ Join ws '' '') = ws"
proof -
  obtain c cs rest where "ws = (c # cs) # rest" using assms(1, 3) by (metis hd_Cons_tl)
  then obtain r where "Join ws '' '' = c # r" "c \<noteq> tab" using assms(4) by (cases rest) auto
  then show ?thesis using split_Join [OF assms(1, 2)] by (simp add: words_of_def)
qed

lemma mac_chars: "nic_ok n \<Longrightarrow> c \<in> set (n_MAC n) \<Longrightarrow> is_hex_digit c \<or> c = CHR '':''"
  by (auto simp: nic_ok_def valid_mac_def dest: mac_pairs_chars)

lemma nic_no_space:
  assumes "nic_ok n"
  shows "CHR '' '' \<notin> set (quoted (Tap n))" "CHR '' '' \<notin> set (n_MAC n)"
  using tap_chars [OF assms, of "CHR '' ''"] mac_chars [OF assms, of "CHR '' ''"]
  by (auto simp: quoted_def is_digit_def is_hex_digit_def)

lemma nic_lines_words:
  assumes "nic_ok n"
  shows "map words_of (nic_lines n) = nic_words n"
proof -
  have "nic_lines n = map (\<lambda>ws. [tab, tab] @ Join ws '' '') (nic_words n)"
    by (simp add: nic_lines_def nic_words_def Let_def)
  moreover have "words_of ([tab, tab] @ Join ws '' '') = ws" if "ws \<in> set (nic_words n)" for ws
  proof (rule words_of_Join)
    show "ws \<noteq> []" "hd ws \<noteq> []" "hd (hd ws) \<noteq> tab"
      using that by (auto simp: nic_words_def Let_def split: if_splits)
    show "\<forall>w \<in> set ws. CHR '' '' \<notin> set w"
      using that nic_no_space [OF assms] by (auto simp: nic_words_def Let_def split: if_splits)
  qed
  ultimately show ?thesis by (simp add: map_idI)
qed

text \<open>What the rules of one port let pass.\<close>

definition port_admits :: "NIC \<Rightarrow> frame \<Rightarrow> bool" where
  "port_admits n fr \<longleftrightarrow>
     n_MAC n \<noteq> [] \<and> f_type fr \<noteq> ''8021q'' \<and> f_type fr \<noteq> ''8021ad'' \<and> f_src fr = n_MAC n
     \<and> (f_type fr = ''arp'' \<longrightarrow> f_arp fr = n_MAC n)"

lemma mac_word:
  assumes "nic_ok n" "n_MAC n \<noteq> []"
  shows "n_MAC n \<noteq> ''{''" "n_MAC n \<noteq> ''!=''" "unquote (n_MAC n) = n_MAC n"
proof -
  have c: "is_hex_digit (hd (n_MAC n)) \<or> hd (n_MAC n) = CHR '':''"
    using mac_chars [OF assms(1)] assms(2) by (simp add: hd_in_set)
  then show "n_MAC n \<noteq> ''{''" "n_MAC n \<noteq> ''!=''" by (auto simp: is_hex_digit_def is_digit_def)
  show "unquote (n_MAC n) = n_MAC n" using c by (auto simp: unquote_def is_hex_digit_def is_digit_def)
qed

lemma unquote_quoted [simp]: "unquote (quoted s) = s" "quoted s \<noteq> ''{''" "quoted s \<noteq> ''!=''"
  by (simp_all add: unquote_def quoted_def)

lemma rule_nil: "rule_verdict fr [] = Some Continue"
  by (simp add: rule_verdict.simps)

lemma rule_counter_drop: "rule_verdict fr [''counter'', ''drop''] = Some DropFrame"
  by (simp add: rule_verdict.simps)

lemma rule_iifname:
  "rule_verdict fr (''iifname'' # quoted t # ts) = (if f_iif fr = t then rule_verdict fr ts else Some Continue)"
  by (subst rule_verdict.simps) (simp add: match_of_def field_of_def values_of_def)

lemma rule_tagged:
  "rule_verdict fr [''ether'', ''type'', ''{'', ''8021q,'', ''8021ad'', ''}'', ''counter'', ''drop'']
   = Some (if f_type fr = ''8021q'' \<or> f_type fr = ''8021ad'' then DropFrame else Continue)"
  by (subst rule_verdict.simps) (simp add: match_of_def field_of_def values_of_def rule_counter_drop)

lemma rule_source:
  assumes "m \<noteq> ''{''" "unquote m = m"
  shows "rule_verdict fr [''ether'', ''saddr'', ''!='', m, ''counter'', ''drop'']
   = Some (if f_src fr \<noteq> m then DropFrame else Continue)"
  using assms by (subst rule_verdict.simps) (simp add: match_of_def field_of_def values_of_def rule_counter_drop)

lemma rule_sender:
  assumes "m \<noteq> ''{''" "unquote m = m"
  shows "rule_verdict fr [''ether'', ''type'', ''arp'', ''arp'', ''saddr'', ''ether'', ''!='', m, ''counter'', ''drop'']
   = Some (if f_type fr = ''arp'' \<and> f_arp fr \<noteq> m then DropFrame else Continue)"
proof -
  have "rule_verdict fr [''arp'', ''saddr'', ''ether'', ''!='', m, ''counter'', ''drop'']
      = Some (if f_arp fr \<noteq> m then DropFrame else Continue)"
    using assms by (subst rule_verdict.simps) (simp add: match_of_def field_of_def values_of_def rule_counter_drop)
  then show ?thesis
    by (subst rule_verdict.simps) (simp add: match_of_def field_of_def values_of_def unquote_def)
qed

lemma chain_nic:
  assumes "nic_ok n"
  shows "chain_verdict fr policy (nic_words n @ rs) =
    (if f_iif fr = Tap n \<and> \<not> port_admits n fr then Some False else chain_verdict fr policy rs)"
proof (cases "n_MAC n = []")
  case True
  then show ?thesis by (simp add: nic_words_def rule_iifname rule_counter_drop port_admits_def)
next
  case False
  note m = mac_word [OF assms False]
  show ?thesis
    using False by (auto simp: nic_words_def Let_def rule_iifname rule_tagged rule_source [OF m(1, 3)]
        rule_sender [OF m(1, 3)] port_admits_def)
qed

lemma chain_nics:
  "list_all nic_ok ns \<Longrightarrow> chain_verdict fr True (concat (map nic_words ns)) =
     Some (\<forall>n \<in> set ns. f_iif fr = Tap n \<longrightarrow> port_admits n fr)"
  by (induction ns) (auto simp: chain_nic)

lemma nic_words_end:
  "takeWhile (\<lambda>r. r \<noteq> [''}'']) (concat (map nic_words ns) @ [''}''] # rs) = concat (map nic_words ns)"
  "dropWhile (\<lambda>r. r \<noteq> [''}'']) (concat (map nic_words ns) @ [''}''] # rs) = [''}''] # rs"
  by (induction ns) (simp_all add: nic_words_def Let_def)

text \<open>Whatever the table held before, after the script it holds the rules of the ports and nothing else.\<close>

lemma nft_load_Render:
  assumes "list_all nic_ok nics"
  shows "nft_load (Render bridge nics) old
    = Some (Some (hook_line ''accept;'', concat (map nic_words (on_bridge bridge nics))))"
proof -
  let ?rules = "concat (map nic_words (on_bridge bridge nics))"
  have "map words_of (concat (map nic_lines (on_bridge bridge nics))) = ?rules"
    using assms by (induction nics) (simp_all add: on_bridge_def nic_lines_words)
  moreover have "split_at_char newline (Render bridge nics) = script_lines bridge nics @ [[]]"
    using split_lines [OF script_line_clean [OF assms], of bridge "[]"] by (simp add: Render_lines)
  ultimately have "map words_of (split_at_char newline (Render bridge nics)) =
      [[''table'', ''bridge'', Table], [''delete'', ''table'', ''bridge'', Table], [''table'', ''bridge'', Table, ''{''],
       [''chain'', ''from_guests'', ''{''], hook_line ''accept;''] @ ?rules @ [[''}''], [''}''], [[]]]"
    by (simp add: script_lines_def words_of_def Table_def hook_line_def)
  then show ?thesis by (simp add: nft_load_def Table_def nic_words_end)
qed

text \<open>
  C27: The script binds every guest port of the bridge to its MAC, and closes those without one. For
  the ports read from any guest configurations the script loads, whatever the table held before,
  and the table it leaves admits a frame exactly when, for every port of the bridge that the frame
  came in on, the port has a MAC, the frame is not tagged, its source is that MAC, and so is the
  sender of an ARP packet. Frames from other ports pass.
\<close>

theorem script_binds_ports:
  assumes "GuestNICs fs = Inr nics"
  shows "\<exists>t. nft_load (Render bridge nics) old = Some t \<and>
    (\<forall>fr. admits t fr = Some (\<forall>n \<in> set nics. n_Bridge n = bridge \<and> Tap n = f_iif fr \<longrightarrow>
       n_MAC n \<noteq> [] \<and> f_type fr \<noteq> ''8021q'' \<and> f_type fr \<noteq> ''8021ad'' \<and> f_src fr = n_MAC n
       \<and> (f_type fr = ''arp'' \<longrightarrow> f_arp fr = n_MAC n)))"
proof -
  have ok: "list_all nic_ok nics" "list_all nic_ok (on_bridge bridge nics)"
    using GuestNICs_ok assms by (auto simp: list_all_iff on_bridge_def)
  have "admits (Some (hook_line ''accept;'', concat (map nic_words (on_bridge bridge nics)))) fr
      = Some (\<forall>n \<in> set (on_bridge bridge nics). f_iif fr = Tap n \<longrightarrow> port_admits n fr)" for fr
    using chain_nics [OF ok(2)] by (simp add: admits_def)
  then show ?thesis
    using nft_load_Render [OF ok(1)] by (auto simp: on_bridge_def port_admits_def)
qed

text \<open>The guest's own frame passes, and the same frame with another source does not.\<close>

theorem script_binds_ports_witness:
  "\<exists>t. nft_load (Render ''vmbr_imds'' [sampleNIC]) None = Some t
    \<and> admits t \<lparr>f_iif = ''tap350i1'', f_type = ''ip'', f_src = ''bc:24:11:00:02:99'', f_arp = []\<rparr> = Some True
    \<and> admits t \<lparr>f_iif = ''tap350i1'', f_type = ''ip'', f_src = ''bc:24:11:00:02:9a'', f_arp = []\<rparr> = Some False"
proof -
  have "Tap sampleNIC = ''tap350i1''" by code_simp
  then show ?thesis
    using script_binds_ports [OF sample_nics, of "''vmbr_imds''" None] by (auto simp: sampleNIC_def)
qed

subsection \<open>Limits of the check\<close>

text \<open>
  The configurations are read once per fingerprint: over any sequence of checks they are read
  exactly at those checks whose fingerprint differs from the one before.
\<close>

lemma reads_are_changes:
  "fold (\<lambda>e b. fst (refresh fp e b)) es b
   = fold (\<lambda>e b. fst (refresh_load fp e b)) (changes (\<lambda>e. fp (fst e)) (b_fp b) es) b"
  by (rule rebind.loads_are_changes)

text \<open>
  A read that fails after its fingerprint was taken is therefore not tried again while the files
  stay as they are: the Binder keeps wanting the old script although the files can be read.
\<close>

lemma failed_read_is_kept:
  assumes "b_fp b \<noteq> Some (fp fs)" "GuestNICs bad = Inl err" "GuestNICs fs = Inr nics"
    and "refresh fp (fs, bad) b = (b1, changed, lg)"
  shows "refresh fp (fs, fs) b1 = (b1, False, []) \<and> b_want b1 = b_want b"
  using assms by (auto simp: refresh_def refresh_load_def Let_def)

text \<open>
  A table that could not be listed right after it was applied is remembered as missing, and a
  table that later is missing then looks as expected and is not restored.
\<close>

lemma unlisted_table_is_not_restored:
  assumes "b_fp b = Some (fp (fst e))" "b_want b \<noteq> []" "\<not> b_failing b" "b_seen b = Missing"
    and "nft_List nft n = Inl err"
  shows "Tick fp nft e wr b n = (False, b, n, [], None)"
  using assms by (simp add: Tick_def refresh_def stateOf_def Let_def)

end
