(* ===== verification/Programs.thy ===== *)
theory Programs
  imports Bridgebind Guest_Client
begin

text \<open>
  The two small programs: the port keeper (\<open>cmd/vtpm-mds-bind/main.go\<close>) and the guest's client
  (\<open>cmd/devid-enroll/main.go\<close>), from their flags to their end. The flags are arguments; the exit status
  of a fatal error is 1. With \<open>-print\<close> the port keeper shows exactly the script that it would apply.
\<close>

subsection \<open>The port keeper\<close>

datatype bind_error =
    EmptyBridge
  | PrintFailed proxmox_error
  | RunFailed run_error

text \<open>
  \<open>fs\<close> are the guest configurations as \<open>-print\<close> reads them, \<open>first\<close> and \<open>env\<close> what the checks of \<open>Run\<close>
  meet. The result is the printed table, or nothing when the program was stopped.
\<close>

definition bind_main ::
  "string \<Rightarrow> bool \<Rightarrow> string \<Rightarrow> (pve_fs \<Rightarrow> 'f) \<Rightarrow> 'n NFT \<Rightarrow> pve_fs \<Rightarrow> (pve_fs \<times> pve_fs) \<times> string option
    \<Rightarrow> ((pve_fs \<times> pve_fs) \<times> string option \<times> ('n \<Rightarrow> 'n)) list \<Rightarrow> 'n \<Rightarrow> (bind_error + string option) \<times> 'n" where
  "bind_main bridge printOnly runDir fp nft fs first env n =
     (if bridge = [] then (Inl EmptyBridge, n)
      else if printOnly
      then (case GuestNICs fs of
              Inl err \<Rightarrow> (Inl (PrintFailed err), n)
            | Inr nics \<Rightarrow> (Inr (Some (Render bridge nics)), n))
      else (case Run fp nft first env (new_binder bridge runDir) n of
              (Some err, b, n') \<Rightarrow> (Inl (RunFailed err), n')
            | (None, b, n') \<Rightarrow> (Inr None, n')))"

text \<open>
  \<open>-print\<close> touches nothing and prints what a keeper started on the same configurations applies first.
\<close>

lemma printed_is_applied:
  assumes "bind_main bridge True runDir fp nft fs first env n = (Inr (Some script), n')"
  shows "n' = n" "fst (snd (snd (Tick fp nft (fs, fs) wr (new_binder bridge runDir) n))) = snd (nft_Apply nft n script)"
    "b_want (fst (snd (Tick fp nft (fs, fs) wr (new_binder bridge runDir) n))) = script"
proof -
  obtain nics where n: "GuestNICs fs = Inr nics" "script = Render bridge nics" "n' = n"
    using assms by (auto simp: bind_main_def split: if_splits sum.splits)
  have ne: "Render bridge nics \<noteq> []" by (simp add: Render_def)
  show "n' = n" by (rule n(3))
  show "fst (snd (snd (Tick fp nft (fs, fs) wr (new_binder bridge runDir) n))) = snd (nft_Apply nft n script)"
    "b_want (fst (snd (Tick fp nft (fs, fs) wr (new_binder bridge runDir) n))) = script"
    using n ne by (auto simp: Tick_def refresh_def refresh_load_def new_binder_def Let_def split: prod.splits option.splits)
qed

subsection \<open>The guest's client\<close>

text \<open>\<open>opened\<close>: whether the TPM device opened. The exit status and the machine afterwards.\<close>

definition enroll_main ::
  "lib \<Rightarrow> 't tpm \<Rightarrow> 'n env \<Rightarrow> bool \<Rightarrow> string \<Rightarrow> string \<Rightarrow> string \<Rightarrow> string \<Rightarrow> time \<Rightarrow> ('t, 'n) guest \<Rightarrow> nat \<times> ('t, 'n) guest" where
  "enroll_main L T E opened mdsURL cn outDir spireData now g =
     (if \<not> opened then (1, g)
      else case ClientEnrollOrRenew L T E
          \<lparr>MDSBaseURL = mdsURL, PlatformCN = cn, OutDir = outDir, SpireDataDir = spireData, opt_Factory = None\<rparr> now g of
        (Inl err, g') \<Rightarrow> (1, g')
      | (Inr u, g') \<Rightarrow> (0, g'))"

text \<open>An empty URL or directory on the command line fails before anything is touched.\<close>

lemma enroll_main_flags:
  assumes "mdsURL = [] \<or> outDir = []"
  shows "enroll_main L T E opened mdsURL cn outDir spireData now g = (1, g)"
  using assms by (auto simp: enroll_main_def ClientEnrollOrRenew_def fail_def act_fail_def)

end
